(* ===== verification/Prelude.thy ===== *)
theory Prelude
  imports Main "HOL-Library.Word" "HOL-Library.Monad_Syntax"
begin

text \<open>
  What every component of the development shares: names for the machine integers and byte
  strings of the C++ code, the collections of facts the proofs draw on, and lemmas about
  words, lists and \<open>Option.bind\<close> that are about no component in particular.

  \<^item> \<open>u8\<close>, \<open>u16\<close>, \<open>u32\<close>, \<open>u64\<close> are \<open>uint8_t\<close> to \<open>uint64_t\<close>; arithmetic on them wraps, as in C++.
  \<^item> \<open>bytes\<close> is \<open>data_chunk\<close> (and the fixed size arrays \<open>hash_digest\<close>, \<open>short_hash\<close>).
  \<^item> A \<open>size_t\<close> is a \<open>nat\<close> below \<open>size_t_range\<close>; where its wrap-around matters the modulus is
    written out.
  \<^item> A signed \<open>int64_t\<close> is an \<open>int\<close> between \<open>min_int64\<close> and \<open>max_int64\<close>; where the C++ result
    would leave that range the model has an explicit outcome for it.
\<close>

unbundle bit_operations_syntax

section \<open>Names for machine types\<close>

type_synonym u8 = "8 word"
type_synonym u16 = "16 word"
type_synonym u32 = "32 word"
type_synonym u64 = "64 word"
type_synonym u256 = "256 word"
type_synonym bytes = "u8 list"

abbreviation size_t_range :: nat where
  "size_t_range \<equiv> 18446744073709551616"

abbreviation max_uint8 :: nat where "max_uint8 \<equiv> 255"
abbreviation max_uint16 :: nat where "max_uint16 \<equiv> 65535"
abbreviation max_uint32 :: nat where "max_uint32 \<equiv> 4294967295"
abbreviation max_uint64 :: nat where "max_uint64 \<equiv> 18446744073709551615"

abbreviation min_int64 :: int where "min_int64 \<equiv> - 9223372036854775808"
abbreviation max_int64 :: int where "max_int64 \<equiv> 9223372036854775807"
abbreviation min_int32 :: int where "min_int32 \<equiv> - 2147483648"
abbreviation max_int32 :: int where "max_int32 \<equiv> 2147483647"

section \<open>Signed arithmetic\<close>

definition int64_range :: "int \<Rightarrow> bool" where
  "int64_range v \<longleftrightarrow> min_int64 \<le> v \<and> v \<le> max_int64"

text \<open>What an unchecked operator returns; \<open>None\<close> is a signed overflow.\<close>

definition checked_int64 :: "int \<Rightarrow> int option" where
  "checked_int64 v = (if int64_range v then Some v else None)"

section \<open>Collections\<close>

named_theorems codec_simps "how the writers' bytes are read back by the readers"
named_theorems prog_simps "the program's registers and stacks after an instruction"
named_theorems op_defs "the definitions of the script operations"

section \<open>Lists\<close>

lemma nth_append_here [simp]: "(pre @ x # post) ! length pre = x"
  by (simp add: nth_append)

lemma take_drop_here [simp]: "take (length mid) (drop (length pre) (pre @ mid @ post)) = mid"
  by simp

lemma length_ge_2E:
  assumes "2 \<le> length xs" obtains a b ys where "xs = a # b # ys"
  using assms by (metis Suc_le_length_iff numeral_2_eq_2)

lemma length_ge_1E:
  assumes "1 \<le> length xs" obtains a ys where "xs = a # ys"
  using assms by (metis One_nat_def Suc_le_length_iff)

section \<open>Words\<close>

lemma unat_u8_less [simp]: "unat (b :: u8) < 256"
  using unsigned_less [of b] by simp

lemma unat_u16_less [simp]: "unat (b :: u16) < 65536"
  using unsigned_less [of b] by simp

lemma unat_u32_less [simp]: "unat (b :: u32) < 4294967296"
  using unsigned_less [of b] by simp

lemma unat_u64_less [simp]: "unat (b :: u64) < 18446744073709551616"
  using unsigned_less [of b] by simp

lemma bit_u8_8 [simp]: "8 \<le> n \<Longrightarrow> \<not> bit (b :: u8) n"
  using bit_imp_le_length [of b n] by auto

lemma u8_eq_iff_unat: "(a :: u8) = b \<longleftrightarrow> unat a = unat b"
  by (simp add: word_eq_iff_unsigned)

lemma u8_of_nat_eq: "n < 256 \<Longrightarrow> unat (of_nat n :: u8) = n"
  by (simp add: unat_of_nat)

lemma unat_ucast_mod: "unat (ucast (x :: 'a::len word) :: 'b::len word) = unat x mod 2 ^ LENGTH('b)"
  by (simp add: unsigned_ucast_eq take_bit_eq_mod)

lemma unat_and_mask: "unat (x AND mask n :: 'a::len word) = unat x mod 2 ^ n"
  by (simp flip: take_bit_eq_mask take_bit_eq_mod add: unsigned_take_bit_eq)

lemma unat_push_bit: "unat (push_bit n x :: 'a::len word) = unat x * 2 ^ n mod 2 ^ LENGTH('a)"
  unfolding unsigned_push_bit_eq take_bit_eq_mod by (simp only: push_bit_eq_mult)

lemma unat_drop_bit: "unat (drop_bit n x :: 'a::len word) = unat x div 2 ^ n"
  unfolding unat_drop_bit_eq by (simp only: drop_bit_eq_div)

section \<open>Option.bind\<close>

lemma bind_Some_iff: "Option.bind m f = Some y \<longleftrightarrow> (\<exists>x. m = Some x \<and> f x = Some y)"
  by (cases m) auto

lemma bind_not_None: "Option.bind m f \<noteq> None \<longleftrightarrow> (\<exists>x. m = Some x \<and> f x \<noteq> None)"
  by (cases m) auto

text \<open>A sum of words is that of their values if this one fits.\<close>

lemma unat_sum_list:
  fixes f :: "'a \<Rightarrow> 'w::len word"
  assumes "sum_list (map (\<lambda>x. unat (f x)) xs) < 2 ^ LENGTH('w)"
  shows "unat (sum_list (map f xs)) = sum_list (map (\<lambda>x. unat (f x)) xs)"
  using assms by (induction xs) (simp_all add: unat_word_ariths)

end
