(* ===== verification/Errors.thy ===== *)
theory Errors
  imports Prelude
begin

text \<open>
  The error codes of \<open>infrastructure/include/kth/infrastructure/error.hpp\<close>
  (\<open>enum error_code_t\<close>), split along the enum's own comments into one datatype per section,
  with \<open>success\<close> the code that converts to false. The sections about operating system, network and
  wallet errors are left out: no modelled function returns them.
\<close>

text \<open>Header and block checks (lines 75 to 118 of the enum).\<close>

datatype block_error =
    err_orphan_block | err_invalid_previous_block | err_insufficient_work | err_duplicate_block
  | err_invalid_proof_of_work | err_futuristic_timestamp
  | err_checkpoints_failed | err_old_version_block | err_incorrect_proof_of_work
  | err_timestamp_too_early
  | err_block_size_limit | err_empty_block | err_first_not_coinbase | err_extra_coinbases
  | err_internal_duplicate | err_block_internal_double_spend | err_forward_reference
  | err_merkle_mismatch | err_block_legacy_sigop_limit | err_non_canonical_ordered
  | err_block_sigchecks_limit
  | err_block_non_final | err_coinbase_height_mismatch | err_coinbase_value_limit
  | err_block_embedded_sigop_limit

text \<open>Transaction checks.\<close>

datatype tx_error =
    err_empty_transaction | err_previous_output_null | err_spend_overflow
  | err_invalid_coinbase_script_size | err_coinbase_transaction
  | err_transaction_internal_double_spend | err_transaction_size_limit
  | err_transaction_legacy_sigop_limit | err_transaction_sigchecks_limit
  | err_transaction_non_final | err_premature_validation | err_unspent_duplicate
  | err_missing_previous_output | err_double_spend | err_coinbase_maturity
  | err_spend_exceeds_value | err_transaction_embedded_sigop_limit | err_sequence_locked
  | err_transaction_version_out_of_range

text \<open>Connecting an input.\<close>

datatype connect_error =
    err_invalid_script | err_invalid_script_size | err_invalid_push_data_size
  | err_invalid_operation_count | err_invalid_stack_size | err_invalid_stack_scope
  | err_invalid_script_embed | err_invalid_signature_encoding
  | err_invalid_signature_lax_encoding | err_incorrect_signature | err_stack_false
  | err_too_many_hash_iters | err_conditional_stack_depth | err_operation_failed

text \<open>Operation evaluation: flow control and the stack.\<close>

datatype flow_error =
    err_op_disabled | err_op_reserved | err_op_push_size | err_op_push_data | err_op_if
  | err_op_notif | err_op_else | err_op_endif | err_op_verify1 | err_op_verify2 | err_op_return
  | err_op_to_alt_stack | err_op_from_alt_stack | err_op_drop2 | err_op_dup2 | err_op_dup3
  | err_op_over2 | err_op_rot2 | err_op_swap2 | err_op_if_dup | err_op_drop | err_op_dup
  | err_op_nip | err_op_over | err_op_pick | err_op_roll | err_op_rot | err_op_swap | err_op_tuck

text \<open>Splicing and bit logic.\<close>

datatype splice_error =
    err_op_cat | err_op_split | err_op_reverse_bytes | err_op_num2bin
  | err_op_num2bin_invalid_size | err_op_num2bin_size_exceeded
  | err_op_num2bin_impossible_encoding | err_op_bin2num
  | err_op_bin2num_invalid_number_range | err_op_size | err_op_and | err_op_or | err_op_xor
  | err_op_equal | err_op_equal_verify1 | err_op_equal_verify2

text \<open>Numeric operations.\<close>

datatype numeric_error =
    err_op_add1 | err_op_sub1 | err_op_negate | err_op_abs | err_op_not | err_op_nonzero
  | err_op_add | err_op_add_overflow | err_op_sub | err_op_sub_underflow | err_op_mul
  | err_op_mul_overflow | err_op_div | err_op_div_by_zero | err_op_mod | err_op_mod_by_zero
  | err_op_bool_and | err_op_bool_or | err_op_num_equal | err_op_num_equal_verify1
  | err_op_num_equal_verify2 | err_op_num_not_equal | err_op_less_than | err_op_greater_than
  | err_op_less_than_or_equal | err_op_greater_than_or_equal | err_op_min | err_op_max
  | err_op_within | err_overflow

text \<open>Hashes, signatures and locks.\<close>

datatype crypto_error =
    err_op_ripemd160 | err_op_sha1 | err_op_sha256 | err_op_hash160 | err_op_hash256
  | err_op_code_seperator | err_op_check_sig | err_op_check_sig_verify1
  | err_op_check_data_sig | err_op_check_data_sig_verify
  | err_op_check_multisig_verify1 | err_op_check_multisig_verify2
  | err_op_check_multisig_verify3 | err_op_check_multisig_verify4
  | err_op_check_multisig_verify5 | err_op_check_multisig_verify6
  | err_op_check_multisig_verify7 | err_op_check_multisig_verify8 | err_op_check_multisig
  | err_op_check_locktime_verify1 | err_op_check_locktime_verify2
  | err_op_check_locktime_verify3 | err_op_check_locktime_verify4
  | err_op_check_locktime_verify5 | err_op_check_locktime_verify6
  | err_op_check_sequence_verify1 | err_op_check_sequence_verify2
  | err_op_check_sequence_verify3 | err_op_check_sequence_verify4
  | err_op_check_sequence_verify5 | err_op_check_sequence_verify6
  | err_op_check_sequence_verify7

text \<open>Native introspection.\<close>

datatype introspection_error =
    err_op_input_index | err_op_active_bytecode | err_op_tx_version | err_op_tx_input_count
  | err_op_tx_output_count | err_op_tx_locktime | err_op_utxo_value | err_op_utxo_bytecode
  | err_op_outpoint_tx_hash | err_op_outpoint_index | err_op_input_bytecode
  | err_op_input_sequence_number | err_op_output_value | err_op_output_bytecode
  | err_op_utxo_token_category | err_op_utxo_token_commitment | err_op_utxo_token_amount
  | err_op_output_token_category | err_op_output_token_commitment | err_op_output_token_amount

text \<open>Deserialisation of domain objects.\<close>

datatype serial_error =
    err_invalid_bitfield | err_read_past_end_of_buffer | err_skip_past_end_of_buffer
  | err_invalid_size | err_invalid_script_type | err_script_not_push_only
  | err_script_invalid_size | err_illegal_value

text \<open>A \<open>code\<close>: success, or an error of one of the sections.\<close>

datatype error_code =
    success
  | Block_error block_error
  | Tx_error tx_error
  | Connect_error connect_error
  | Flow_error flow_error
  | Splice_error splice_error
  | Numeric_error numeric_error
  | Crypto_error crypto_error
  | Introspection_error introspection_error
  | Serial_error serial_error

end
