(* ===== verification/Byte_Reader.thy ===== *)
theory Byte_Reader
  imports Errors
begin

text \<open>
  Reading and writing byte strings:
  \<open>infrastructure/include/kth/infrastructure/utility/byte_reader.hpp\<close> (the reader every
  deserialiser of the domain library takes), \<open>infrastructure/src/utility/ostream_writer.cpp\<close> with
  \<open>impl/utility/endian.ipp\<close> (the writers), and \<open>domain/deserialization.hpp\<close> (counted collections).

  The reader is its buffer and its position. A read has three outcomes: a value and the moved
  reader (\<open>Got\<close>), an error code with the reader where the failing call left it (\<open>Fail\<close>), and
  \<open>Undef\<close>, undefined behaviour: the guard \<open>position_ + size > buffer_.size()\<close> is
  evaluated in \<open>size_t\<close>, so a size close to \<open>2 ^ 64\<close> wraps past it and \<open>subspan\<close> is called out of
  bounds.

  The interface between a writer and its reader is the locale \<open>codec\<close>: reading at the place where
  the writer's bytes stand returns the written value and stops right behind them. Its consequences
  (injectivity, no encoding is a proper prefix of another one, counted lists) are proved once.
\<close>

section \<open>The reader\<close>

record byte_reader =
  buffer :: bytes
  position :: nat

datatype 'a parse = Got 'a byte_reader | Fail error_code byte_reader | Undef

type_synonym 'a reader = "byte_reader \<Rightarrow> 'a parse"

abbreviation err_past_end :: error_code where
  "err_past_end \<equiv> Serial_error err_read_past_end_of_buffer"

definition rreturn :: "'a \<Rightarrow> 'a reader" where
  "rreturn a r = Got a r"

definition rfail :: "error_code \<Rightarrow> 'a reader" where
  "rfail e r = Fail e r"

definition rbind :: "'a reader \<Rightarrow> ('a \<Rightarrow> 'b reader) \<Rightarrow> 'b reader" where
  "rbind m f r = (case m r of Got a r' \<Rightarrow> f a r' | Fail e r' \<Rightarrow> Fail e r' | Undef \<Rightarrow> Undef)"

definition is_exhausted :: "byte_reader \<Rightarrow> bool" where
  "is_exhausted r \<longleftrightarrow> length (buffer r) \<le> position r"

definition skip :: "nat \<Rightarrow> unit reader" where
  "skip count r =
     (if (position r + count) mod size_t_range > length (buffer r)
      then Fail (Serial_error err_skip_past_end_of_buffer) r
      else Got () (r\<lparr>position := (position r + count) mod size_t_range\<rparr>))"

definition unsafe_read_byte :: "u8 reader" where
  "unsafe_read_byte r =
     (if position r < length (buffer r)
      then Got (buffer r ! position r) (r\<lparr>position := Suc (position r)\<rparr>) else Undef)"

definition read_byte :: "u8 reader" where
  "read_byte r = (if length (buffer r) \<le> position r then Fail err_past_end r else unsafe_read_byte r)"

definition peek_byte :: "u8 reader" where
  "peek_byte r =
     (if length (buffer r) \<le> position r then Fail err_past_end r else Got (buffer r ! position r) r)"

text \<open>
  The guard is the source's, in \<open>size_t\<close> arithmetic; \<open>buffer_.subspan(start, size)\<close> has the
  precondition that the range lies in the buffer.
\<close>

definition read_bytes :: "nat \<Rightarrow> bytes reader" where
  "read_bytes sz r =
     (if (position r + sz) mod size_t_range > length (buffer r) then Fail err_past_end r
      else if position r + sz > length (buffer r) then Undef
      else Got (take sz (drop (position r) (buffer r)))
             (r\<lparr>position := (position r + sz) mod size_t_range\<rparr>))"

definition read_remaining_bytes :: "bytes reader" where
  "read_remaining_bytes r = read_bytes (length (buffer r) - position r) r"

text \<open>\<open>std::memcpy\<close> into an integer of a little endian machine.\<close>

fun from_little_endian_unsafe :: "bytes \<Rightarrow> 'w::len word" where
  "from_little_endian_unsafe [] = 0"
| "from_little_endian_unsafe (b # bs) = ucast b OR push_bit 8 (from_little_endian_unsafe bs)"

definition read_little_endian :: "nat \<Rightarrow> 'w::len word reader" where
  "read_little_endian sz r =
     (if (position r + sz) mod size_t_range > length (buffer r) then Fail err_past_end r
      else Got (from_little_endian_unsafe (take sz (drop (position r) (buffer r))))
             (r\<lparr>position := (position r + sz) mod size_t_range\<rparr>))"

fun from_big_endian_unsafe :: "bytes \<Rightarrow> 'w::len word \<Rightarrow> 'w word" where
  "from_big_endian_unsafe [] value = value"
| "from_big_endian_unsafe (b # bs) value = from_big_endian_unsafe bs (push_bit 8 value OR ucast b)"

definition read_big_endian :: "nat \<Rightarrow> 'w::len word reader" where
  "read_big_endian sz r =
     (if (position r + sz) mod size_t_range > length (buffer r) then Fail err_past_end r
      else Got (from_big_endian_unsafe (take sz (drop (position r) (buffer r))) 0)
             (r\<lparr>position := (position r + sz) mod size_t_range\<rparr>))"

abbreviation varint_two_bytes :: u8 where "varint_two_bytes \<equiv> 0xfd"
abbreviation varint_four_bytes :: u8 where "varint_four_bytes \<equiv> 0xfe"
abbreviation varint_eight_bytes :: u8 where "varint_eight_bytes \<equiv> 0xff"

definition read_variable_little_endian :: "u64 reader" where
  "read_variable_little_endian =
     rbind read_byte (\<lambda>value.
       if value = varint_eight_bytes then read_little_endian 8
       else if value = varint_four_bytes
         then rbind (read_little_endian 4) (\<lambda>x :: u32. rreturn (ucast x))
       else if value = varint_two_bytes
         then rbind (read_little_endian 2) (\<lambda>x :: u16. rreturn (ucast x))
       else rreturn (ucast value))"

text \<open>\<open>max_size_t\<close> is \<open>2 ^ 64 - 1\<close> on the supported platforms, so no varint exceeds it.\<close>

definition read_size_little_endian :: "nat reader" where
  "read_size_little_endian = rbind read_variable_little_endian (\<lambda>sz. rreturn (unat sz))"

text \<open>Reads \<open>size\<close> bytes and keeps those before the first null.\<close>

definition read_string_sized :: "nat \<Rightarrow> bytes reader" where
  "read_string_sized sz r =
     (if (position r + sz) mod size_t_range > length (buffer r) then Fail err_past_end r
      else if position r + sz > length (buffer r) then Undef
      else Got (takeWhile (\<lambda>c. c \<noteq> 0) (take sz (drop (position r) (buffer r))))
             (r\<lparr>position := position r + sz\<rparr>))"

definition read_string :: "bytes reader" where
  "read_string = rbind read_size_little_endian read_string_sized"

text \<open>\<open>read_collection\<close>: a count, guarded by the block size limit, and that many elements.\<close>

abbreviation static_absolute_max_block_size :: nat where
  "static_absolute_max_block_size \<equiv> 2000000000"

fun read_elements :: "'a reader \<Rightarrow> nat \<Rightarrow> 'a list reader" where
  "read_elements from_data 0 = rreturn []"
| "read_elements from_data (Suc count) =
     rbind from_data (\<lambda>x. rbind (read_elements from_data count) (\<lambda>xs. rreturn (x # xs)))"

definition read_collection :: "'a reader \<Rightarrow> 'a list reader" where
  "read_collection from_data =
     rbind read_size_little_endian (\<lambda>count.
       if count > static_absolute_max_block_size then rfail (Serial_error err_invalid_size)
       else read_elements from_data count)"

section \<open>The writers\<close>

fun to_little_endian :: "nat \<Rightarrow> 'w::len word \<Rightarrow> bytes" where
  "to_little_endian 0 value = []"
| "to_little_endian (Suc n) value = ucast value # to_little_endian n (drop_bit 8 value)"

definition write_2_bytes_little_endian :: "u16 \<Rightarrow> bytes" where
  "write_2_bytes_little_endian = to_little_endian 2"

definition write_4_bytes_little_endian :: "u32 \<Rightarrow> bytes" where
  "write_4_bytes_little_endian = to_little_endian 4"

definition write_8_bytes_little_endian :: "u64 \<Rightarrow> bytes" where
  "write_8_bytes_little_endian = to_little_endian 8"

definition write_variable_little_endian :: "u64 \<Rightarrow> bytes" where
  "write_variable_little_endian value =
     (if unat value < 0xfd then [ucast value]
      else if unat value \<le> max_uint16 then varint_two_bytes # write_2_bytes_little_endian (ucast value)
      else if unat value \<le> max_uint32 then varint_four_bytes # write_4_bytes_little_endian (ucast value)
      else varint_eight_bytes # write_8_bytes_little_endian value)"

definition write_size_little_endian :: "nat \<Rightarrow> bytes" where
  "write_size_little_endian value = write_variable_little_endian (of_nat value)"

definition write_string :: "bytes \<Rightarrow> bytes" where
  "write_string value = write_size_little_endian (length value) @ value"

definition variable_uint_size :: "u64 \<Rightarrow> nat" where
  "variable_uint_size value =
     (if unat value < 0xfd then 1 else if unat value \<le> 0xffff then 3
      else if unat value \<le> 0xffffffff then 5 else 9)"

definition write_collection :: "('a \<Rightarrow> bytes) \<Rightarrow> 'a list \<Rightarrow> bytes" where
  "write_collection to_data xs = write_size_little_endian (length xs) @ concat (map to_data xs)"

section \<open>Readers at a place in a buffer\<close>

text \<open>
  \<open>reader_at pre post\<close> has read \<open>pre\<close> and stands before \<open>post\<close>. A buffer \<open>fits\<close> when a
  \<open>std::vector\<close> can hold it (\<open>max_size()\<close> is \<open>2 ^ 63 - 1\<close>).
\<close>

definition reader_at :: "bytes \<Rightarrow> bytes \<Rightarrow> byte_reader" where
  "reader_at pre post = \<lparr>buffer = pre @ post, position = length pre\<rparr>"

abbreviation fits :: "bytes \<Rightarrow> bool" where
  "fits bs \<equiv> length bs < 9223372036854775808"

lemma rbind_Got [codec_simps]: "m r = Got a r' \<Longrightarrow> rbind m f r = f a r'"
  by (simp add: rbind_def)

lemma rbind_Fail: "m r = Fail e r' \<Longrightarrow> rbind m f r = Fail e r'"
  by (simp add: rbind_def)

lemma rbind_Got_iff:
  "rbind m f r = Got b r'' \<longleftrightarrow> (\<exists>a r'. m r = Got a r' \<and> f a r' = Got b r'')"
  by (auto simp: rbind_def split: parse.splits)

lemma rbind_assoc: "rbind (rbind m f) g = rbind m (\<lambda>a. rbind (f a) g)"
  by (rule ext) (simp add: rbind_def split: parse.splits)

lemma rbind_return [simp]: "rbind (rreturn a) f = f a"
  by (rule ext) (simp add: rbind_def rreturn_def)

lemma rreturn_app [codec_simps, simp]: "rreturn a r = Got a r"
  by (simp add: rreturn_def)

lemma rfail_app [codec_simps, simp]: "rfail e r = Fail e r"
  by (simp add: rfail_def)

lemma buffer_reader_at [simp]: "buffer (reader_at pre post) = pre @ post"
  and position_reader_at [simp]: "position (reader_at pre post) = length pre"
  by (simp_all add: reader_at_def)

lemma reader_at_moved:
  "(reader_at pre (mid @ post))\<lparr>position := length pre + length mid\<rparr> = reader_at (pre @ mid) post"
  by (simp add: reader_at_def)

lemma is_exhausted_at [simp]: "is_exhausted (reader_at pre post) \<longleftrightarrow> post = []"
  by (auto simp: is_exhausted_def)

lemma read_byte_at [codec_simps]:
  "read_byte (reader_at pre (b # post)) = Got b (reader_at (pre @ [b]) post)"
  by (simp add: read_byte_def unsafe_read_byte_def reader_at_def)

lemma read_byte_end: "read_byte (reader_at pre []) = Fail err_past_end (reader_at pre [])"
  by (simp add: read_byte_def)

lemma peek_byte_at [codec_simps]:
  "peek_byte (reader_at pre (b # post)) = Got b (reader_at pre (b # post))"
  by (simp add: peek_byte_def)

lemma skip_at [codec_simps]:
  "fits (pre @ mid @ post) \<Longrightarrow>
   skip (length mid) (reader_at pre (mid @ post)) = Got () (reader_at (pre @ mid) post)"
  by (simp add: skip_def reader_at_moved)

lemma read_bytes_at [codec_simps]:
  "fits (pre @ mid @ post) \<Longrightarrow> n = length mid \<Longrightarrow>
   read_bytes n (reader_at pre (mid @ post)) = Got mid (reader_at (pre @ mid) post)"
  by (simp add: read_bytes_def reader_at_moved)

lemma read_remaining_bytes_at [codec_simps]:
  "fits (pre @ mid) \<Longrightarrow> read_remaining_bytes (reader_at pre mid) = Got mid (reader_at (pre @ mid) [])"
  using read_bytes_at [of pre mid "[]" "length mid"] by (simp add: read_remaining_bytes_def)

lemma read_bytes_past:
  "length pre + n < size_t_range \<Longrightarrow> length post < n \<Longrightarrow>
   read_bytes n (reader_at pre post) = Fail err_past_end (reader_at pre post)"
  by (simp add: read_bytes_def)

lemma read_little_endian_at:
  "fits (pre @ mid @ post) \<Longrightarrow> n = length mid \<Longrightarrow>
   read_little_endian n (reader_at pre (mid @ post)) =
     Got (from_little_endian_unsafe mid) (reader_at (pre @ mid) post)"
  by (simp add: read_little_endian_def reader_at_moved)

section \<open>Little endian integers\<close>

lemma length_to_little_endian [simp]: "length (to_little_endian n w) = n"
  by (induction n arbitrary: w) auto

lemma from_to_little_endian:
  "from_little_endian_unsafe (to_little_endian n w) = take_bit (8 * n) (w :: 'w::len word)"
proof (induction n arbitrary: w)
  case 0
  then show ?case by simp
next
  case (Suc n)
  have "ucast (ucast w :: u8) OR push_bit 8 (take_bit (8 * n) (drop_bit 8 w)) = take_bit (8 * Suc n) w"
    by (rule bit_word_eqI) (auto simp: bit_simps)
  with Suc show ?case by simp
qed

lemma from_to_little_endian_id [simp]:
  "LENGTH('w) \<le> 8 * n \<Longrightarrow> from_little_endian_unsafe (to_little_endian n w) = (w :: 'w::len word)"
  by (simp add: from_to_little_endian take_bit_word_eq_self)

section \<open>The interface of a writer and its reader\<close>

locale codec =
  fixes enc :: "'a \<Rightarrow> bytes" and dec :: "'a reader" and ok :: "'a \<Rightarrow> bool"
  assumes dec_enc: "fits (pre @ enc x @ post) \<Longrightarrow> ok x \<Longrightarrow>
    dec (reader_at pre (enc x @ post)) = Got x (reader_at (pre @ enc x) post)"
begin

lemma dec_whole: "ok x \<Longrightarrow> fits (enc x) \<Longrightarrow> dec (reader_at [] (enc x)) = Got x (reader_at (enc x) [])"
  using dec_enc [of "[]" x "[]"] by simp

text \<open>Reading one part of a composite value and going on with the next part.\<close>

lemma rbind_enc [codec_simps]:
  "ok x \<Longrightarrow> fits (pre @ enc x @ post) \<Longrightarrow>
   rbind dec f (reader_at pre (enc x @ post)) = f x (reader_at (pre @ enc x) post)"
  using dec_enc [of pre x post] by (simp add: rbind_def)

lemma rbind_enc_end [codec_simps]:
  "ok x \<Longrightarrow> fits (pre @ enc x) \<Longrightarrow>
   rbind dec f (reader_at pre (enc x)) = f x (reader_at (pre @ enc x) [])"
  using rbind_enc [of x pre "[]" f] by simp

lemma enc_prefix_free:
  assumes "ok x" "ok y" "fits (enc x @ s)" "enc x @ s = enc y @ t"
  shows "x = y \<and> s = t"
proof -
  have "dec (reader_at [] (enc x @ s)) = Got x (reader_at (enc x) s)"
    and "dec (reader_at [] (enc y @ t)) = Got y (reader_at (enc y) t)"
    using assms dec_enc [of "[]" x s] dec_enc [of "[]" y t] by auto
  with assms(4) have "x = y" by simp
  with assms(4) show ?thesis by simp
qed

lemma enc_inj: "ok x \<Longrightarrow> ok y \<Longrightarrow> fits (enc x) \<Longrightarrow> enc x = enc y \<Longrightarrow> x = y"
  using enc_prefix_free [of x y "[]" "[]"] by simp

lemma read_elements_enc:
  "list_all ok xs \<Longrightarrow> fits (pre @ concat (map enc xs) @ post) \<Longrightarrow>
   read_elements dec (length xs) (reader_at pre (concat (map enc xs) @ post)) =
     Got xs (reader_at (pre @ concat (map enc xs)) post)"
proof (induction xs arbitrary: pre)
  case Nil
  then show ?case by simp
next
  case (Cons x xs)
  have "dec (reader_at pre (enc x @ concat (map enc xs) @ post)) =
      Got x (reader_at (pre @ enc x) (concat (map enc xs) @ post))"
    using Cons.prems by (intro dec_enc) simp_all
  moreover have "read_elements dec (length xs) (reader_at (pre @ enc x) (concat (map enc xs) @ post)) =
      Got xs (reader_at ((pre @ enc x) @ concat (map enc xs)) post)"
    using Cons.prems by (intro Cons.IH) simp_all
  ultimately show ?case by (simp add: rbind_def)
qed

end

section \<open>Integers and sizes are codecs\<close>

interpretation byte: codec "\<lambda>b. [b]" read_byte "\<lambda>_. True"
  by unfold_locales (simp add: read_byte_at)

interpretation le16: codec write_2_bytes_little_endian "read_little_endian 2" "\<lambda>_. True"
  by unfold_locales (simp add: write_2_bytes_little_endian_def read_little_endian_at)

interpretation le32: codec write_4_bytes_little_endian "read_little_endian 4" "\<lambda>_. True"
  by unfold_locales (simp add: write_4_bytes_little_endian_def read_little_endian_at)

interpretation le64: codec write_8_bytes_little_endian "read_little_endian 8" "\<lambda>_. True"
  by unfold_locales (simp add: write_8_bytes_little_endian_def read_little_endian_at)

lemma length_write_le [simp]:
  "length (write_2_bytes_little_endian a) = 2" "length (write_4_bytes_little_endian b) = 4"
  "length (write_8_bytes_little_endian c) = 8"
  by (simp_all add: write_2_bytes_little_endian_def write_4_bytes_little_endian_def
      write_8_bytes_little_endian_def)

lemma length_write_variable [simp]:
  "length (write_variable_little_endian value) = variable_uint_size value"
  by (simp add: write_variable_little_endian_def variable_uint_size_def)

lemma variable_uint_size_bounds: "1 \<le> variable_uint_size v" "variable_uint_size v \<le> 9"
  by (simp_all add: variable_uint_size_def)

lemma ucast_ucast_u64:
  "unat (v :: u64) < 256 \<Longrightarrow> ucast (ucast v :: u8) = v"
  "unat v < 65536 \<Longrightarrow> ucast (ucast v :: u16) = v"
  "unat v < 4294967296 \<Longrightarrow> ucast (ucast v :: u32) = v"
  by (simp_all only: word_unat_eq_iff unsigned_ucast_eq take_bit_eq_mod) (simp_all add: unat_mod)

lemma unat_ucast_u8: "unat (v :: u64) < 256 \<Longrightarrow> unat (ucast v :: u8) = unat v"
  by (simp add: unsigned_ucast_eq take_bit_nat_eq_self)

interpretation varint: codec write_variable_little_endian read_variable_little_endian "\<lambda>_. True"
proof
  fix v :: u64 and pre post
  assume fit: "fits (pre @ write_variable_little_endian v @ post)"
  note defs = write_variable_little_endian_def read_variable_little_endian_def rbind_def read_byte_at
  consider "unat v < 0xfd" | "0xfd \<le> unat v" "unat v \<le> max_uint16"
    | "max_uint16 < unat v" "unat v \<le> max_uint32" | "max_uint32 < unat v"
    by linarith
  then show "read_variable_little_endian (reader_at pre (write_variable_little_endian v @ post)) =
      Got v (reader_at (pre @ write_variable_little_endian v) post)"
  proof cases
    case 1
    then have "unat (ucast v :: u8) < 0xfd" by (simp add: unat_ucast_u8)
    then have "(ucast v :: u8) \<noteq> 0xfd" "(ucast v :: u8) \<noteq> 0xfe" "(ucast v :: u8) \<noteq> 0xff"
      by auto
    with 1 show ?thesis by (simp add: defs ucast_ucast_u64)
  next
    case 2
    with fit le16.dec_enc [of "pre @ [0xfd]" "ucast v" post] show ?thesis
      by (simp add: defs ucast_ucast_u64)
  next
    case 3
    with fit le32.dec_enc [of "pre @ [0xfe]" "ucast v" post] show ?thesis
      by (simp add: defs ucast_ucast_u64)
  next
    case 4
    with fit le64.dec_enc [of "pre @ [0xff]" v post] show ?thesis
      by (simp add: defs)
  qed
qed

interpretation size_prefix: codec write_size_little_endian read_size_little_endian
  "\<lambda>n. n < size_t_range"
proof
  fix n pre post
  assume n: "n < size_t_range" and "fits (pre @ write_size_little_endian n @ post)"
  then show "read_size_little_endian (reader_at pre (write_size_little_endian n @ post)) =
      Got n (reader_at (pre @ write_size_little_endian n) post)"
    using varint.dec_enc [of pre "of_nat n" post]
    by (simp add: read_size_little_endian_def write_size_little_endian_def rbind_def
        unsigned_of_nat take_bit_nat_eq_self)
qed

lemma length_write_size: "length (write_size_little_endian n) = variable_uint_size (of_nat n)"
  by (simp add: write_size_little_endian_def)

context codec
begin

lemma codec_collection:
  "codec (write_collection enc) (read_collection dec)
     (\<lambda>xs. list_all ok xs \<and> length xs \<le> static_absolute_max_block_size)"
proof
  fix xs pre post
  assume ok: "list_all ok xs \<and> length xs \<le> static_absolute_max_block_size"
    and fit: "fits (pre @ write_collection enc xs @ post)"
  let ?n = "write_size_little_endian (length xs)" and ?b = "concat (map enc xs)"
  have "read_size_little_endian (reader_at pre (?n @ ?b @ post)) =
      Got (length xs) (reader_at (pre @ ?n) (?b @ post))"
    using fit ok by (intro size_prefix.dec_enc) (auto simp: write_collection_def)
  moreover have "read_elements dec (length xs) (reader_at (pre @ ?n) (?b @ post)) =
      Got xs (reader_at ((pre @ ?n) @ ?b) post)"
    using fit ok by (intro read_elements_enc) (auto simp: write_collection_def)
  ultimately show "read_collection dec (reader_at pre (write_collection enc xs @ post)) =
      Got xs (reader_at (pre @ write_collection enc xs) post)"
    using ok by (simp add: read_collection_def write_collection_def rbind_def)
qed

end

text \<open>A string that holds no null byte is read back as it was written.\<close>

interpretation strings: codec write_string read_string "\<lambda>s. fits s \<and> 0 \<notin> set s"
proof
  fix s :: bytes and pre post
  assume s: "fits s \<and> 0 \<notin> set s" and fit: "fits (pre @ write_string s @ post)"
  let ?n = "write_size_little_endian (length s)"
  have "read_size_little_endian (reader_at pre (?n @ s @ post)) =
      Got (length s) (reader_at (pre @ ?n) (s @ post))"
    using fit s by (intro size_prefix.dec_enc) (auto simp: write_string_def)
  moreover have "takeWhile (\<lambda>c. c \<noteq> 0) s = s"
    using s by (intro takeWhile_eq_all_conv [THEN iffD2]) auto
  moreover from this have "read_string_sized (length s) (reader_at (pre @ ?n) (s @ post)) =
      Got s (reader_at ((pre @ ?n) @ s) post)"
    using fit by (simp add: read_string_sized_def write_string_def reader_at_def)
  ultimately show "read_string (reader_at pre (write_string s @ post)) =
      Got s (reader_at (pre @ write_string s) post)"
    by (simp add: read_string_def write_string_def rbind_def)
qed

section \<open>Readers do not move backwards\<close>

text \<open>
  A reader built from the primitives leaves the buffer alone and the position at or after where it
  was, whether it succeeds or fails; this is what makes the parsing loops terminate.
\<close>

definition advanced :: "byte_reader \<Rightarrow> byte_reader \<Rightarrow> bool" where
  "advanced r r' \<longleftrightarrow>
     buffer r' = buffer r \<and> position r \<le> position r' \<and> position r' \<le> length (buffer r)"

definition in_buffer :: "byte_reader \<Rightarrow> bool" where
  "in_buffer r \<longleftrightarrow> fits (buffer r) \<and> position r \<le> length (buffer r)"

definition monotone_reader :: "'a reader \<Rightarrow> bool" where
  "monotone_reader m \<longleftrightarrow>
     (\<forall>r. in_buffer r \<longrightarrow>
       (case m r of Got _ r' \<Rightarrow> advanced r r' | Fail _ r' \<Rightarrow> advanced r r' | Undef \<Rightarrow> True))"

lemma advanced_trans: "advanced r r' \<Longrightarrow> advanced r' r'' \<Longrightarrow> advanced r r''"
  by (auto simp: advanced_def)

lemma advanced_in_buffer: "advanced r r' \<Longrightarrow> in_buffer r \<Longrightarrow> in_buffer r'"
  by (auto simp: advanced_def in_buffer_def)

lemma advanced_refl: "in_buffer r \<Longrightarrow> advanced r r"
  by (auto simp: advanced_def in_buffer_def)

lemma monotone_readerD:
  assumes "monotone_reader m" "in_buffer r"
  shows "m r = Got a r' \<Longrightarrow> advanced r r'" "m r = Fail e r' \<Longrightarrow> advanced r r'"
  using assms unfolding monotone_reader_def by fastforce+

lemma monotone_rbind:
  assumes "monotone_reader m" and "\<And>a. monotone_reader (f a)"
  shows "monotone_reader (rbind m f)"
  unfolding monotone_reader_def
proof (intro allI impI)
  fix r :: byte_reader
  assume r: "in_buffer r"
  show "case rbind m f r of Got _ r' \<Rightarrow> advanced r r' | Fail _ r' \<Rightarrow> advanced r r' | Undef \<Rightarrow> True"
  proof (cases "m r")
    case (Got a r')
    then have "advanced r r'" using assms(1) r by (blast dest: monotone_readerD)
    with Got r show ?thesis
      by (auto simp: rbind_def split: parse.splits
          intro: advanced_trans dest: monotone_readerD [OF assms(2)] advanced_in_buffer)
  next
    case (Fail e r')
    then show ?thesis using assms(1) r by (auto simp: rbind_def dest: monotone_readerD)
  next
    case Undef
    then show ?thesis by (simp add: rbind_def)
  qed
qed

lemma monotone_reader_prims [intro, simp]:
  "monotone_reader (rreturn a)" "monotone_reader (rfail e)" "monotone_reader read_byte"
  "monotone_reader peek_byte"
  by (auto simp: monotone_reader_def in_buffer_def advanced_def read_byte_def unsafe_read_byte_def
      peek_byte_def)

lemma no_wrap: "in_buffer r \<Longrightarrow> position r + n \<le> length (buffer r) \<Longrightarrow> (position r + n) mod size_t_range = position r + n"
  by (simp add: in_buffer_def)

lemma monotone_read_bytes [intro, simp]: "monotone_reader (read_bytes n)"
  by (auto simp: monotone_reader_def read_bytes_def advanced_refl no_wrap simp del: mod_less)
    (auto simp: advanced_def)

lemma monotone_read_little_endian [intro, simp]:
  assumes "n \<le> 8"
  shows "monotone_reader (read_little_endian n :: 'w::len word reader)"
  unfolding monotone_reader_def
proof (intro allI impI)
  fix r :: byte_reader
  assume r: "in_buffer r"
  with assms have "(position r + n) mod size_t_range = position r + n"
    by (simp add: in_buffer_def)
  with r show "case (read_little_endian n :: 'w word reader) r of
      Got _ r' \<Rightarrow> advanced r r' | Fail _ r' \<Rightarrow> advanced r r' | Undef \<Rightarrow> True"
    by (auto simp: read_little_endian_def advanced_def in_buffer_def simp del: mod_less)
qed

lemma read_bytes_guarded:
  "in_buffer r \<Longrightarrow> n < 9223372036854775808 \<Longrightarrow> read_bytes n r \<noteq> Undef"
  by (auto simp: read_bytes_def in_buffer_def)

text \<open>
  Without a guard on the size the bounds check itself can wrap: at position 1 of any buffer, a size
  of \<open>2 ^ 64 - 1\<close> makes \<open>position_ + size\<close> zero, the check passes and the span is out of bounds.
\<close>

lemma read_bytes_wraps:
  "pre \<noteq> [] \<Longrightarrow> fits (pre @ post) \<Longrightarrow> read_bytes max_uint64 (reader_at pre post) = Undef"
  by (cases pre) (simp_all add: read_bytes_def)

end
