(* ===== verification/Script_Number.thy ===== *)
theory Script_Number
  imports Byte_Reader "HOL-Library.Signed_Division"
begin

text \<open>
  The numbers of the script machine:
  \<open>infrastructure/include/kth/infrastructure/impl/machine/number.ipp\<close>.

  A \<open>number\<close> is its \<open>int64_t value_\<close>, an \<open>int\<close> here. A stack item encodes a number as little endian
  magnitude with the sign in the top bit of the last byte. \<open>None\<close> is a failure the C++ function
  reports (\<open>set_data\<close>, \<open>safe_add\<close>, ...), or, where the function reports none, undefined behaviour:
  \<open>data()\<close> negates \<open>value_\<close>, which overflows on the most negative \<open>int64_t\<close>, and the unchecked
  operators may overflow or divide by zero.

  \<open>sm_value\<close> is the abstract specification of the encoding; the loops of \<open>set_data\<close> and \<open>data\<close> are
  related to it, which gives the round trips in both directions.
\<close>

section \<open>The code\<close>

abbreviation negative_mask :: u8 where "negative_mask \<equiv> 0x80"
abbreviation negative_bit :: u64 where "negative_bit \<equiv> 0x80"
abbreviation negative_1 :: u8 where "negative_1 \<equiv> 0x81"
abbreviation negative_0 :: u8 where "negative_0 \<equiv> 0x80"
abbreviation positive_0 :: u8 where "positive_0 \<equiv> 0"
abbreviation positive_1 :: u8 where "positive_1 \<equiv> 1"
abbreviation positive_16 :: u8 where "positive_16 \<equiv> 16"

text \<open>\<open>data.back()\<close> of an empty vector is undefined; the callers test for it first.\<close>

definition is_negative :: "bytes \<Rightarrow> bool" where
  "is_negative data \<longleftrightarrow> last data AND negative_mask \<noteq> 0"

text \<open>
  The loop \<open>value_ |= int64_t(data[i]) << (8 * i)\<close>, on the bit pattern of \<open>value_\<close>. A shift by 64 or
  more is undefined; no caller passes a \<open>max_size\<close> above 8.
\<close>

fun set_data_loop :: "nat \<Rightarrow> bytes \<Rightarrow> u64 \<Rightarrow> u64" where
  "set_data_loop i [] value = value"
| "set_data_loop i (b # data) value =
     set_data_loop (Suc i) data (value OR push_bit (8 * i) (ucast b))"

definition set_data :: "bytes \<Rightarrow> nat \<Rightarrow> int option" where
  "set_data data max_size =
     (if length data > max_size then None
      else if data = [] then Some 0
      else
        let value = set_data_loop 0 data 0 in
        if is_negative data then
          let last_shift = 8 * (length data - 1);
              mask = NOT (push_bit last_shift negative_bit)
          in Some (- 1 * sint (value AND mask))
        else Some (sint value))"

text \<open>The loop \<open>while (absolute != 0)\<close>.\<close>

fun absolute_bytes :: "nat \<Rightarrow> bytes" where
  "absolute_bytes absolute =
     (if absolute = 0 then [] else of_nat absolute # absolute_bytes (absolute div 256))"

declare absolute_bytes.simps [simp del]

definition number_data :: "int \<Rightarrow> bytes option" where
  "number_data value =
     (if value = 0 then Some []
      else if value = min_int64 then None
      else
        let set_negative = value < 0;
            absolute = nat \<bar>value\<bar>;
            data = absolute_bytes absolute;
            negative_bit_set = is_negative data
        in Some
          (if negative_bit_set \<and> set_negative then data @ [negative_mask]
           else if negative_bit_set then data @ [0]
           else if set_negative then butlast data @ [last data OR negative_mask]
           else data))"

definition int32 :: "int \<Rightarrow> int" where
  "int32 value =
     (if value < min_int32 then min_int32 else if value > max_int32 then max_int32 else value)"

definition number_is_true :: "int \<Rightarrow> bool" where
  "number_is_true value \<longleftrightarrow> value \<noteq> 0"

text \<open>The unchecked operators: \<open>None\<close> is a signed overflow or a division by zero.\<close>

definition number_add :: "int \<Rightarrow> int \<Rightarrow> int option" where
  "number_add x y = checked_int64 (x + y)"

definition number_sub :: "int \<Rightarrow> int \<Rightarrow> int option" where
  "number_sub x y = checked_int64 (x - y)"

definition number_neg :: "int \<Rightarrow> int option" where
  "number_neg x = checked_int64 (- x)"

definition number_div :: "int \<Rightarrow> int \<Rightarrow> int option" where
  "number_div x y = (if y = 0 then None else checked_int64 (x sdiv y))"

definition number_mod :: "int \<Rightarrow> int \<Rightarrow> int option" where
  "number_mod x y = (if y = 0 \<or> (x = min_int64 \<and> y = -1) then None else Some (x smod y))"

text \<open>The checked operations: \<open>None\<close> is the reported \<open>error::overflow\<close>.\<close>

definition safe_add :: "int \<Rightarrow> int \<Rightarrow> int option" where
  "safe_add x y = (if int64_range (x + y) then Some (x + y) else None)"

definition safe_sub :: "int \<Rightarrow> int \<Rightarrow> int option" where
  "safe_sub x y = (if int64_range (x - y) then Some (x - y) else None)"

definition safe_mul :: "int \<Rightarrow> int \<Rightarrow> int option" where
  "safe_mul x y = (if int64_range (x * y) then Some (x * y) else None)"

definition is_minimally_encoded :: "bytes \<Rightarrow> nat \<Rightarrow> bool" where
  "is_minimally_encoded data max_integer_size \<longleftrightarrow>
     (if length data > max_integer_size then False
      else data = [] \<or> last data AND 0x7f \<noteq> 0 \<or>
        (length data > 1 \<and> data ! (length data - 2) AND 0x80 \<noteq> 0))"

text \<open>The trimming loop of \<open>minimally_encode\<close>, counting \<open>i\<close> down to zero.\<close>

fun minimally_encode_loop :: "u8 \<Rightarrow> nat \<Rightarrow> bytes \<Rightarrow> bool \<times> bytes" where
  "minimally_encode_loop last_byte 0 data = (True, [])"
| "minimally_encode_loop last_byte (Suc k) data =
     (if data ! k \<noteq> 0 then
        if data ! k AND 0x80 = 0
        then (True, take (Suc (Suc k)) (data[Suc k := last_byte]))
        else (True, take (Suc k) (data[k := data ! k OR last_byte]))
      else minimally_encode_loop last_byte k data)"

definition minimally_encode :: "bytes \<Rightarrow> bool \<times> bytes" where
  "minimally_encode data =
     (if data = [] then (False, data)
      else if last data AND 0x7f = 0 then (False, data)
      else if length data = 1 then (True, [])
      else if data ! (length data - 2) AND 0x80 = 0 then (False, data)
      else minimally_encode_loop (last data) (length data - 1) data)"

section \<open>The encoding, abstractly\<close>

fun le_nat :: "bytes \<Rightarrow> nat" where
  "le_nat [] = 0"
| "le_nat (b # bs) = unat b + 256 * le_nat bs"

definition sm_value :: "bytes \<Rightarrow> int" where
  "sm_value data =
     (if data = [] then 0
      else
        let m = int (le_nat (butlast data @ [last data AND 0x7f])) in
        if last data AND 0x80 \<noteq> 0 then - m else m)"

lemma le_nat_append: "le_nat (xs @ ys) = le_nat xs + 256 ^ length xs * le_nat ys"
  by (induction xs) (auto simp: algebra_simps)

lemma le_nat_less: "le_nat bs < 256 ^ length bs"
proof (induction bs)
  case Nil
  then show ?case by simp
next
  case (Cons b bs)
  have "unat b + 256 * le_nat bs < 256 * (le_nat bs + 1)" by simp
  also have "\<dots> \<le> 256 * 256 ^ length bs" using Cons by (intro mult_le_mono2) simp
  finally show ?case by simp
qed

lemma set_data_loop_eq:
  "set_data_loop i data v = v OR push_bit (8 * i) (from_little_endian_unsafe data)"
proof (induction data arbitrary: i v)
  case Nil
  then show ?case by simp
next
  case (Cons b data)
  have "push_bit (8 * i) (ucast b OR push_bit 8 (from_little_endian_unsafe data :: u64)) =
      push_bit (8 * i) (ucast b) OR push_bit (8 * Suc i) (from_little_endian_unsafe data)"
    by (simp add: push_bit_or algebra_simps)
  then show ?case by (simp add: Cons or.assoc)
qed

lemma or_push_8: "(ucast (b :: u8) :: 'w::len word) OR push_bit 8 w = ucast b + 256 * w"
proof -
  have "(ucast b :: 'w word) AND push_bit 8 w = 0"
    by (rule bit_word_eqI) (auto simp: bit_simps)
  then show ?thesis
    by (simp add: disjunctive_add_eq_or push_bit_eq_mult algebra_simps)
qed

lemma from_little_endian_of_nat: "from_little_endian_unsafe bs = (of_nat (le_nat bs) :: 'w::len word)"
  by (induction bs) (simp_all add: or_push_8)


lemma from_little_endian_snoc:
  "from_little_endian_unsafe (bs @ [b]) =
     (from_little_endian_unsafe bs OR push_bit (8 * length bs) (ucast b) :: 'w::len word)"
  by (induction bs) (simp_all add: push_bit_or or.assoc algebra_simps)

lemma bit_from_little_endian:
  "bit (from_little_endian_unsafe bs :: 'w::len word) k \<Longrightarrow> k < 8 * length bs"
proof (induction bs arbitrary: k)
  case Nil
  then show ?case by simp
next
  case (Cons b bs)
  from Cons.prems have "bit b k \<or> 8 \<le> k \<and> bit (from_little_endian_unsafe bs :: 'w word) (k - 8)"
    by (auto simp: bit_simps)
  then show ?case using Cons.IH [of "k - 8"] bit_imp_le_length [of b k] by auto
qed

lemma and_7f: "b AND 0x7f = take_bit 7 (b :: u8)"
  by (simp add: take_bit_eq_mask mask_eq_exp_minus_1)

lemma and_80: "b AND 0x80 = 0 \<longleftrightarrow> \<not> bit (b :: u8) 7"
  using and_exp_eq_0_iff_not_bit [of b 7] by simp

lemma or_80: "b OR 0x80 = set_bit 7 (b :: u8)"
  by (simp add: set_bit_eq_or push_bit_eq_mult)

lemma u8_top_bits:
  "\<not> bit b 7 \<Longrightarrow> take_bit 7 b = (b :: u8)" "bit b 7 \<Longrightarrow> set_bit 7 (take_bit 7 b) = b"
proof -
  have k: "k < 8 \<Longrightarrow> k < 7 \<or> k = 7" for k :: nat by linarith
  show "\<not> bit b 7 \<Longrightarrow> take_bit 7 b = b"
    by (rule bit_word_eqI) (use k in \<open>auto simp: bit_simps\<close>)
  show "bit b 7 \<Longrightarrow> set_bit 7 (take_bit 7 b) = b"
    by (rule bit_word_eqI) (use k in \<open>auto simp: bit_simps\<close>)
qed

lemma clear_sign:
  assumes "length bs < 8"
  shows "from_little_endian_unsafe (bs @ [b]) AND NOT (push_bit (8 * length bs) negative_bit)
    = (from_little_endian_unsafe (bs @ [b AND 0x7f]) :: u64)"
proof (rule bit_word_eqI)
  fix k
  have m: "push_bit (8 * length bs) negative_bit = push_bit (8 * length bs + 7) 1"
    by (simp add: push_bit_eq_mult power_add)
  consider "k < 8 * length bs" | "8 * length bs \<le> k" "k - 8 * length bs < 7"
    | "k - 8 * length bs = 7" "8 * length bs \<le> k" | "8 * length bs \<le> k" "7 < k - 8 * length bs"
    by linarith
  then show "bit (from_little_endian_unsafe (bs @ [b]) AND
      NOT (push_bit (8 * length bs) negative_bit) :: u64) k
    = bit (from_little_endian_unsafe (bs @ [b AND 0x7f]) :: u64) k" if "k < LENGTH(64)"
  proof cases
    case 1
    with that show ?thesis unfolding m and_7f by (auto simp: from_little_endian_snoc bit_simps)
  next
    case 2
    with that show ?thesis unfolding m and_7f by (auto simp: from_little_endian_snoc bit_simps)
  next
    case 3
    then show ?thesis unfolding m and_7f
      by (auto simp: from_little_endian_snoc bit_simps dest: bit_from_little_endian)
  next
    case 4
    then have "\<not> bit b (k - 8 * length bs)" using bit_imp_le_length [of b "k - 8 * length bs"] by auto
    with 4 show ?thesis unfolding m and_7f
      by (auto simp: from_little_endian_snoc bit_simps dest: bit_from_little_endian)
  qed
qed

lemma sint_small: "n < 9223372036854775808 \<Longrightarrow> sint (of_nat n :: u64) = int n"
  by (simp add: sint_uint unsigned_of_nat take_bit_nat_eq_self signed_take_bit_int_eq_self)

lemma le_nat_top:
  assumes "\<not> bit b 7" "length bs < 8"
  shows "le_nat (bs @ [b]) < 9223372036854775808"
proof -
  have "unat b = take_bit 7 (unat b)" using assms by (metis u8_top_bits(1) unsigned_take_bit_eq)
  then have "unat b < 128" using take_bit_nat_less_exp [of 7 "unat b"] by simp
  have "le_nat bs + 256 ^ length bs * unat b < 256 ^ length bs * (unat b + 1)"
    using le_nat_less [of bs] by (simp add: algebra_simps)
  also have "\<dots> \<le> 256 ^ 7 * 128"
    using assms \<open>unat b < 128\<close> by (intro mult_le_mono power_increasing) auto
  finally show ?thesis by (simp add: le_nat_append)
qed

lemma set_data_value:
  assumes "max_size \<le> 8"
  shows "set_data data max_size = (if length data \<le> max_size then Some (sm_value data) else None)"
proof (cases "data = [] \<or> max_size < length data")
  case True
  then show ?thesis by (auto simp: set_data_def sm_value_def)
next
  case False
  then obtain bs b where d: "data = bs @ [b]" by (metis rev_exhaust)
  with False assms have l: "length bs < 8" by simp
  have "\<not> bit (take_bit 7 b) 7" by (simp add: bit_simps)
  from sint_small [OF le_nat_top [OF this l]]
  have "sint (from_little_endian_unsafe (bs @ [b AND 0x7f]) :: u64) = int (le_nat (bs @ [b AND 0x7f]))"
    by (simp only: from_little_endian_of_nat and_7f)
  with False l show ?thesis
    by (auto simp: set_data_def sm_value_def d is_negative_def set_data_loop_eq clear_sign Let_def
        and_80 and_7f u8_top_bits)
qed


section \<open>Writing a number\<close>

lemma le_nat_absolute_bytes [simp]: "le_nat (absolute_bytes a) = a"
proof (induction a rule: absolute_bytes.induct)
  case (1 a)
  then show ?case
    by (subst absolute_bytes.simps) (auto simp: unsigned_of_nat take_bit_eq_mod)
qed

lemma absolute_bytes_le_nat:
  "xs = [] \<or> last xs \<noteq> 0 \<Longrightarrow> absolute_bytes (le_nat xs) = xs"
proof (induction xs)
  case Nil
  then show ?case by (simp add: absolute_bytes.simps)
next
  case (Cons b xs)
  have nz: "le_nat (b # xs) \<noteq> 0"
  proof (cases "xs = []")
    case True
    with Cons.prems show ?thesis by (simp add: unsigned_eq_0_iff)
  next
    case False
    with Cons have "absolute_bytes (le_nat xs) = xs" by simp
    with False have "le_nat xs \<noteq> 0" by (metis absolute_bytes.simps)
    then show ?thesis by simp
  qed
  have "(of_nat (unat b + 256 * le_nat xs) :: u8) = b"
    by (simp only: word_unat_eq_iff unsigned_of_nat take_bit_eq_mod) simp
  moreover have "absolute_bytes (le_nat xs) = xs"
    using Cons by (cases "xs = []") (auto simp: absolute_bytes.simps)
  ultimately show ?case using nz by (subst absolute_bytes.simps) auto
qed

lemma absolute_bytes_last:
  "a \<noteq> 0 \<Longrightarrow> absolute_bytes a \<noteq> [] \<and> last (absolute_bytes a) \<noteq> 0"
proof (induction a rule: absolute_bytes.induct)
  case (1 a)
  show ?case
  proof (cases "a div 256 = 0")
    case True
    with 1 have "absolute_bytes a = [of_nat a]"
      by (simp add: absolute_bytes.simps [of a] absolute_bytes.simps [of 0])
    with 1 True show ?thesis
      by (auto simp: word_of_nat_eq_0_iff take_bit_eq_mod div_eq_0_iff dest: dvd_imp_le)
  next
    case False
    with 1 show ?thesis by (simp add: absolute_bytes.simps [of a])
  qed
qed

lemma absolute_bytes_length: "a < 256 ^ k \<Longrightarrow> length (absolute_bytes a) \<le> k"
proof (induction k arbitrary: a)
  case 0
  then show ?case by (simp add: absolute_bytes.simps)
next
  case (Suc k)
  then have "a div 256 < 256 ^ k" by (simp add: div_less_iff_less_mult mult.commute)
  with Suc.IH show ?case by (subst absolute_bytes.simps) auto
qed

lemma sm_value_snoc:
  "sm_value (bs @ [b]) = (let m = int (le_nat (bs @ [take_bit 7 b])) in if bit b 7 then - m else m)"
  by (simp add: sm_value_def and_7f and_80)

lemma minimal_snoc:
  "is_minimally_encoded (bs @ [b]) n \<longleftrightarrow>
     length bs < n \<and> (take_bit 7 b \<noteq> 0 \<or> (bs \<noteq> [] \<and> bit (last bs) 7))"
  by (cases bs rule: rev_cases)
    (auto simp: is_minimally_encoded_def and_7f and_80 nth_append)

lemma number_data_minimal:
  assumes "is_minimally_encoded data 8"
  shows "number_data (sm_value data) = Some data"
proof (cases data rule: rev_cases)
  case Nil
  then show ?thesis by (simp add: number_data_def sm_value_def)
next
  case (snoc bs b)
  let ?m = "le_nat (bs @ [take_bit 7 b])"
  from assms snoc have l: "length bs < 8"
    and c: "take_bit 7 b \<noteq> 0 \<or> (bs \<noteq> [] \<and> bit (last bs) 7)"
    by (auto simp: minimal_snoc)
  have top: "\<not> bit (take_bit 7 b) 7" by (simp add: bit_simps)
  have m: "?m < 9223372036854775808" by (rule le_nat_top [OF top l])
  show ?thesis
  proof (cases "take_bit 7 b = 0")
    case False
    then have a: "absolute_bytes ?m = bs @ [take_bit 7 b]" by (intro absolute_bytes_le_nat) simp
    then have "?m \<noteq> 0" by (metis absolute_bytes.simps append_is_Nil_conv not_Cons_self2)
    with m a top show ?thesis
      by (auto simp: snoc number_data_def sm_value_snoc Let_def is_negative_def and_80 or_80 u8_top_bits)
  next
    case True
    with c have b: "bs \<noteq> []" "bit (last bs) 7" by auto
    from True have le: "?m = le_nat bs" by (simp add: le_nat_append)
    from b have "last bs \<noteq> 0" by (metis bit_0_eq bot_apply bot_bool_def)
    then have a: "absolute_bytes ?m = bs" unfolding le by (intro absolute_bytes_le_nat) simp
    with b have "?m \<noteq> 0" by (metis absolute_bytes.simps)
    moreover have "b = (if bit b 7 then 0x80 else 0)"
      using True u8_top_bits [of b] by (auto simp: set_bit_eq_or push_bit_eq_mult)
    ultimately show ?thesis using m a b
      by (auto simp: snoc number_data_def sm_value_snoc Let_def is_negative_def and_80)
  qed
qed

lemma number_data_decodes:
  assumes "min_int64 < v" "v \<le> max_int64"
  shows "\<exists>data. number_data v = Some data \<and> set_data data 8 = Some v \<and> is_minimally_encoded data 8"
proof (cases "v = 0")
  case True
  then show ?thesis by (simp add: number_data_def set_data_def is_minimally_encoded_def)
next
  case False
  define bs where "bs = absolute_bytes (nat \<bar>v\<bar>)"
  obtain cs c where bs: "bs = cs @ [c]" "c \<noteq> 0"
    using False absolute_bytes_last [of "nat \<bar>v\<bar>"] unfolding bs_def
    by (metis append_butlast_last_id zero_less_abs_iff zero_less_nat_eq less_numeral_extra(3))
  have le: "le_nat (cs @ [c]) = nat \<bar>v\<bar>" using bs bs_def by (metis le_nat_absolute_bytes)
  have m: "nat \<bar>v\<bar> < 9223372036854775808" using assms by linarith
  then have "nat \<bar>v\<bar> < 256 ^ 8" by simp
  from absolute_bytes_length [OF this] have len: "length cs < 8"
    using bs bs_def by simp
  show ?thesis
  proof (cases "bit c 7")
    case True
    then have "\<not> unat c < 128" using bit_iff_odd [of "unat c" 7] by (auto simp: bit_unsigned_iff)
    then have "128 * 256 ^ length cs \<le> le_nat (cs @ [c])"
      by (simp add: le_nat_append mult.commute trans_le_add2)
    with le m have "(256 :: nat) ^ length cs < 256 ^ 7" by simp
    then have "length cs < 7" by (rule power_less_imp_less_exp [rotated]) simp
    have top: "take_bit 7 (0x80 :: u8) = 0" "bit (0x80 :: u8) 7" "\<not> bit (0 :: u8) 7"
      by (simp_all add: take_bit_eq_mod bit_iff_odd)
    have "number_data v = Some ((cs @ [c]) @ [if v < 0 then 0x80 else 0])"
      using assms \<open>v \<noteq> 0\<close> True
      by (simp add: number_data_def is_negative_def and_80 flip: bs_def) (simp add: bs)
    moreover have "le_nat (cs @ [c, 0]) = nat \<bar>v\<bar>"
      using le by (simp add: le_nat_append)
    then have "sm_value ((cs @ [c]) @ [if v < 0 then 0x80 else 0]) = v"
      unfolding sm_value_snoc using top by (simp add: Let_def)
    moreover have "is_minimally_encoded ((cs @ [c]) @ [if v < 0 then 0x80 else 0]) 8"
      unfolding minimal_snoc using True \<open>length cs < 7\<close> by simp
    ultimately show ?thesis using \<open>length cs < 7\<close> by (auto simp: set_data_value)
  next
    case False
    have set7: "take_bit 7 (set_bit 7 c) = take_bit 7 c" "bit (set_bit 7 c) 7"
      by (rule bit_word_eqI) (auto simp: bit_simps)
    have "number_data v = Some (cs @ [if v < 0 then set_bit 7 c else c])"
      using assms \<open>v \<noteq> 0\<close> False
      by (simp add: number_data_def is_negative_def and_80 or_80 flip: bs_def) (simp add: bs)
    moreover have "sm_value (cs @ [if v < 0 then set_bit 7 c else c]) = v"
      unfolding sm_value_snoc using le set7 False
      by (simp add: u8_top_bits Let_def split: if_splits)
    moreover have "is_minimally_encoded (cs @ [if v < 0 then set_bit 7 c else c]) 8"
      unfolding minimal_snoc using False len bs set7 by (simp add: u8_top_bits)
    ultimately show ?thesis using len by (auto simp: set_data_value)
  qed
qed


section \<open>\<open>minimally_encode\<close>\<close>

text \<open>
  The commented reference algorithm above \<open>minimally_encode\<close> shortens redundant encodings and keeps
  the value. The code's guards are negated, so it leaves every redundant encoding alone and changes
  encodings that are minimal.
\<close>

lemma minimally_encode_redundant:
  "\<not> is_minimally_encoded data (length data) \<Longrightarrow> minimally_encode data = (False, data)"
  by (auto simp: is_minimally_encoded_def minimally_encode_def split: if_splits)

lemma minimally_encode_single: "b AND 0x7f \<noteq> 0 \<Longrightarrow> minimally_encode [b] = (True, [])"
  by (simp add: minimally_encode_def)

lemma minimally_encode_merge:
  assumes "b AND 0x7f \<noteq> 0" "c AND 0x80 \<noteq> 0"
  shows "minimally_encode (bs @ [c, b]) = (True, bs @ [c OR b])"
proof -
  have "c \<noteq> 0" using assms by auto
  with assms show ?thesis
    by (simp add: minimally_encode_def nth_append list_update_append)
qed

lemma minimally_encode_length: "length (snd (minimally_encode data)) \<le> length data"
proof -
  have "k < length data \<Longrightarrow> length (snd (minimally_encode_loop l k data)) \<le> length data" for l k
    by (induction k) auto
  then show ?thesis by (auto simp: minimally_encode_def)
qed


section \<open>Properties\<close>

text \<open>Numbers and stack items correspond. Every \<open>int64_t\<close> but the least one has an encoding,
  \<open>set_data\<close> with the full width decodes it to the same number, and it is minimal; conversely an item
  that is minimal decodes to a number whose encoding is that item.\<close>

theorem number_round_trip:
  "(min_int64 < v \<and> v \<le> max_int64 \<longrightarrow>
     (\<exists>data. number_data v = Some data \<and> set_data data 8 = Some v \<and> is_minimally_encoded data 8)) \<and>
   (is_minimally_encoded data 8 \<longrightarrow>
     (\<exists>v. set_data data 8 = Some v \<and> number_data v = Some data))"
  using number_data_decodes [of v] number_data_minimal [of data] set_data_value [of 8 data]
  by (auto simp: is_minimally_encoded_def split: if_splits)

theorem number_round_trip_witness:
  "(\<exists>data. number_data (- 300) = Some data \<and> set_data data 8 = Some (- 300)) \<and>
   (\<exists>v. set_data [0xff, 0x80] 8 = Some v \<and> number_data v = Some [0xff, 0x80])"
  using number_round_trip [of "- 300" "[0xff, 0x80]"] by (auto simp: is_minimally_encoded_def)

text \<open>\<open>minimally_encode\<close> does the opposite of the algorithm quoted above it: an item that is not
  minimal is returned unchanged, and an item that is minimal can change its value. A single nonzero
  byte is replaced by the empty item (zero), and two bytes are merged into one of another value.\<close>

theorem minimally_encode_inverted:
  "(\<not> is_minimally_encoded data (length data) \<longrightarrow> minimally_encode data = (False, data)) \<and>
   (b AND 0x7f \<noteq> 0 \<longrightarrow> minimally_encode [b] = (True, [])) \<and>
   (b AND 0x7f \<noteq> 0 \<and> c AND 0x80 \<noteq> 0 \<longrightarrow> minimally_encode (bs @ [c, b]) = (True, bs @ [c OR b]))"
  using minimally_encode_redundant minimally_encode_single minimally_encode_merge by blast

theorem minimally_encode_inverted_witness:
  "minimally_encode [5] = (True, []) \<and> minimally_encode [0x80, 5] = (True, [0x85]) \<and>
   minimally_encode [5, 0] = (False, [5, 0])"
  using minimally_encode_inverted [of "[5, 0]" 5 "0x80" "[]"] by (simp add: is_minimally_encoded_def)

end
