(* ===== verification/Opcode.thy ===== *)
theory Opcode
  imports Script_Number
begin

text \<open>
  The byte codes of \<open>domain/include/kth/domain/machine/opcode.hpp\<close> (\<open>enum class opcode : uint8_t\<close>)
  and the rule forks of \<open>machine/rule_fork.hpp\<close> that the script machine consults. An \<open>opcode\<close> is its
  byte, since the code converts any byte into one; the enumerators are names of numerals.
  The families \<open>push_size_n\<close>, \<open>push_positive_n\<close> and \<open>reserved_n\<close> are intervals of bytes, of which the
  code names only the end points used here.
\<close>

type_synonym opcode = u8

section \<open>The enumerators\<close>

subsection \<open>Pushing a value\<close>

abbreviation (input) opcode_push_size_0 :: opcode where "opcode_push_size_0 \<equiv> 0x00"
abbreviation (input) opcode_push_size_1 :: opcode where "opcode_push_size_1 \<equiv> 0x01"
abbreviation (input) opcode_push_size_20 :: opcode where "opcode_push_size_20 \<equiv> 0x14"
abbreviation (input) opcode_push_size_32 :: opcode where "opcode_push_size_32 \<equiv> 0x20"
abbreviation (input) opcode_push_size_75 :: opcode where "opcode_push_size_75 \<equiv> 0x4b"
abbreviation (input) opcode_push_one_size :: opcode where "opcode_push_one_size \<equiv> 0x4c"
abbreviation (input) opcode_push_two_size :: opcode where "opcode_push_two_size \<equiv> 0x4d"
abbreviation (input) opcode_push_four_size :: opcode where "opcode_push_four_size \<equiv> 0x4e"
abbreviation (input) opcode_push_negative_1 :: opcode where "opcode_push_negative_1 \<equiv> 0x4f"
abbreviation (input) opcode_reserved_80 :: opcode where "opcode_reserved_80 \<equiv> 0x50"
abbreviation (input) opcode_push_positive_1 :: opcode where "opcode_push_positive_1 \<equiv> 0x51"
abbreviation (input) opcode_push_positive_16 :: opcode where "opcode_push_positive_16 \<equiv> 0x60"

subsection \<open>Control\<close>

abbreviation (input) opcode_nop :: opcode where "opcode_nop \<equiv> 0x61"
abbreviation (input) opcode_reserved_98 :: opcode where "opcode_reserved_98 \<equiv> 0x62"
abbreviation (input) opcode_if :: opcode where "opcode_if \<equiv> 0x63"
abbreviation (input) opcode_notif :: opcode where "opcode_notif \<equiv> 0x64"
abbreviation (input) opcode_disabled_verif :: opcode where "opcode_disabled_verif \<equiv> 0x65"
abbreviation (input) opcode_disabled_vernotif :: opcode where "opcode_disabled_vernotif \<equiv> 0x66"
abbreviation (input) opcode_else :: opcode where "opcode_else \<equiv> 0x67"
abbreviation (input) opcode_endif :: opcode where "opcode_endif \<equiv> 0x68"
abbreviation (input) opcode_verify :: opcode where "opcode_verify \<equiv> 0x69"
abbreviation (input) opcode_return :: opcode where "opcode_return \<equiv> 0x6a"

subsection \<open>Stack\<close>

abbreviation (input) opcode_toaltstack :: opcode where "opcode_toaltstack \<equiv> 0x6b"
abbreviation (input) opcode_fromaltstack :: opcode where "opcode_fromaltstack \<equiv> 0x6c"
abbreviation (input) opcode_drop2 :: opcode where "opcode_drop2 \<equiv> 0x6d"
abbreviation (input) opcode_dup2 :: opcode where "opcode_dup2 \<equiv> 0x6e"
abbreviation (input) opcode_dup3 :: opcode where "opcode_dup3 \<equiv> 0x6f"
abbreviation (input) opcode_over2 :: opcode where "opcode_over2 \<equiv> 0x70"
abbreviation (input) opcode_rot2 :: opcode where "opcode_rot2 \<equiv> 0x71"
abbreviation (input) opcode_swap2 :: opcode where "opcode_swap2 \<equiv> 0x72"
abbreviation (input) opcode_ifdup :: opcode where "opcode_ifdup \<equiv> 0x73"
abbreviation (input) opcode_depth :: opcode where "opcode_depth \<equiv> 0x74"
abbreviation (input) opcode_drop :: opcode where "opcode_drop \<equiv> 0x75"
abbreviation (input) opcode_dup :: opcode where "opcode_dup \<equiv> 0x76"
abbreviation (input) opcode_nip :: opcode where "opcode_nip \<equiv> 0x77"
abbreviation (input) opcode_over :: opcode where "opcode_over \<equiv> 0x78"
abbreviation (input) opcode_pick :: opcode where "opcode_pick \<equiv> 0x79"
abbreviation (input) opcode_roll :: opcode where "opcode_roll \<equiv> 0x7a"
abbreviation (input) opcode_rot :: opcode where "opcode_rot \<equiv> 0x7b"
abbreviation (input) opcode_swap :: opcode where "opcode_swap \<equiv> 0x7c"
abbreviation (input) opcode_tuck :: opcode where "opcode_tuck \<equiv> 0x7d"

subsection \<open>Splicing\<close>

abbreviation (input) opcode_cat :: opcode where "opcode_cat \<equiv> 0x7e"
abbreviation (input) opcode_split :: opcode where "opcode_split \<equiv> 0x7f"
abbreviation (input) opcode_num2bin :: opcode where "opcode_num2bin \<equiv> 0x80"
abbreviation (input) opcode_bin2num :: opcode where "opcode_bin2num \<equiv> 0x81"
abbreviation (input) opcode_size :: opcode where "opcode_size \<equiv> 0x82"

subsection \<open>Bit logic\<close>

abbreviation (input) opcode_disabled_invert :: opcode where "opcode_disabled_invert \<equiv> 0x83"
abbreviation (input) opcode_and :: opcode where "opcode_and \<equiv> 0x84"
abbreviation (input) opcode_or :: opcode where "opcode_or \<equiv> 0x85"
abbreviation (input) opcode_xor :: opcode where "opcode_xor \<equiv> 0x86"
abbreviation (input) opcode_equal :: opcode where "opcode_equal \<equiv> 0x87"
abbreviation (input) opcode_equalverify :: opcode where "opcode_equalverify \<equiv> 0x88"
abbreviation (input) opcode_reserved_137 :: opcode where "opcode_reserved_137 \<equiv> 0x89"
abbreviation (input) opcode_reserved_138 :: opcode where "opcode_reserved_138 \<equiv> 0x8a"

subsection \<open>Numeric\<close>

abbreviation (input) opcode_add1 :: opcode where "opcode_add1 \<equiv> 0x8b"
abbreviation (input) opcode_sub1 :: opcode where "opcode_sub1 \<equiv> 0x8c"
abbreviation (input) opcode_disabled_mul2 :: opcode where "opcode_disabled_mul2 \<equiv> 0x8d"
abbreviation (input) opcode_disabled_div2 :: opcode where "opcode_disabled_div2 \<equiv> 0x8e"
abbreviation (input) opcode_negate :: opcode where "opcode_negate \<equiv> 0x8f"
abbreviation (input) opcode_abs :: opcode where "opcode_abs \<equiv> 0x90"
abbreviation (input) opcode_not :: opcode where "opcode_not \<equiv> 0x91"
abbreviation (input) opcode_nonzero :: opcode where "opcode_nonzero \<equiv> 0x92"
abbreviation (input) opcode_add :: opcode where "opcode_add \<equiv> 0x93"
abbreviation (input) opcode_sub :: opcode where "opcode_sub \<equiv> 0x94"
abbreviation (input) opcode_mul :: opcode where "opcode_mul \<equiv> 0x95"
abbreviation (input) opcode_div :: opcode where "opcode_div \<equiv> 0x96"
abbreviation (input) opcode_mod :: opcode where "opcode_mod \<equiv> 0x97"
abbreviation (input) opcode_disabled_lshift :: opcode where "opcode_disabled_lshift \<equiv> 0x98"
abbreviation (input) opcode_disabled_rshift :: opcode where "opcode_disabled_rshift \<equiv> 0x99"
abbreviation (input) opcode_booland :: opcode where "opcode_booland \<equiv> 0x9a"
abbreviation (input) opcode_boolor :: opcode where "opcode_boolor \<equiv> 0x9b"
abbreviation (input) opcode_numequal :: opcode where "opcode_numequal \<equiv> 0x9c"
abbreviation (input) opcode_numequalverify :: opcode where "opcode_numequalverify \<equiv> 0x9d"
abbreviation (input) opcode_numnotequal :: opcode where "opcode_numnotequal \<equiv> 0x9e"
abbreviation (input) opcode_lessthan :: opcode where "opcode_lessthan \<equiv> 0x9f"
abbreviation (input) opcode_greaterthan :: opcode where "opcode_greaterthan \<equiv> 0xa0"
abbreviation (input) opcode_lessthanorequal :: opcode where "opcode_lessthanorequal \<equiv> 0xa1"
abbreviation (input) opcode_greaterthanorequal :: opcode where "opcode_greaterthanorequal \<equiv> 0xa2"
abbreviation (input) opcode_min :: opcode where "opcode_min \<equiv> 0xa3"
abbreviation (input) opcode_max :: opcode where "opcode_max \<equiv> 0xa4"
abbreviation (input) opcode_within :: opcode where "opcode_within \<equiv> 0xa5"

subsection \<open>Crypto\<close>

abbreviation (input) opcode_ripemd160 :: opcode where "opcode_ripemd160 \<equiv> 0xa6"
abbreviation (input) opcode_sha1 :: opcode where "opcode_sha1 \<equiv> 0xa7"
abbreviation (input) opcode_sha256 :: opcode where "opcode_sha256 \<equiv> 0xa8"
abbreviation (input) opcode_hash160 :: opcode where "opcode_hash160 \<equiv> 0xa9"
abbreviation (input) opcode_hash256 :: opcode where "opcode_hash256 \<equiv> 0xaa"
abbreviation (input) opcode_codeseparator :: opcode where "opcode_codeseparator \<equiv> 0xab"
abbreviation (input) opcode_checksig :: opcode where "opcode_checksig \<equiv> 0xac"
abbreviation (input) opcode_checksigverify :: opcode where "opcode_checksigverify \<equiv> 0xad"
abbreviation (input) opcode_checkmultisig :: opcode where "opcode_checkmultisig \<equiv> 0xae"
abbreviation (input) opcode_checkmultisigverify :: opcode where "opcode_checkmultisigverify \<equiv> 0xaf"

subsection \<open>Expansion\<close>

abbreviation (input) opcode_nop1 :: opcode where "opcode_nop1 \<equiv> 0xb0"
abbreviation (input) opcode_nop2 :: opcode where "opcode_nop2 \<equiv> 0xb1"
abbreviation (input) opcode_checklocktimeverify :: opcode where "opcode_checklocktimeverify \<equiv> 0xb1"
abbreviation (input) opcode_nop3 :: opcode where "opcode_nop3 \<equiv> 0xb2"
abbreviation (input) opcode_checksequenceverify :: opcode where "opcode_checksequenceverify \<equiv> 0xb2"
abbreviation (input) opcode_nop4 :: opcode where "opcode_nop4 \<equiv> 0xb3"
abbreviation (input) opcode_nop5 :: opcode where "opcode_nop5 \<equiv> 0xb4"
abbreviation (input) opcode_nop6 :: opcode where "opcode_nop6 \<equiv> 0xb5"
abbreviation (input) opcode_nop7 :: opcode where "opcode_nop7 \<equiv> 0xb6"
abbreviation (input) opcode_nop8 :: opcode where "opcode_nop8 \<equiv> 0xb7"
abbreviation (input) opcode_nop9 :: opcode where "opcode_nop9 \<equiv> 0xb8"
abbreviation (input) opcode_nop10 :: opcode where "opcode_nop10 \<equiv> 0xb9"

subsection \<open>Checking data signatures, reversing bytes\<close>

abbreviation (input) opcode_checkdatasig :: opcode where "opcode_checkdatasig \<equiv> 0xba"
abbreviation (input) opcode_checkdatasigverify :: opcode where "opcode_checkdatasigverify \<equiv> 0xbb"
abbreviation (input) opcode_reverse_bytes :: opcode where "opcode_reverse_bytes \<equiv> 0xbc"

subsection \<open>Introspection\<close>

abbreviation (input) opcode_input_index :: opcode where "opcode_input_index \<equiv> 0xc0"
abbreviation (input) opcode_active_bytecode :: opcode where "opcode_active_bytecode \<equiv> 0xc1"
abbreviation (input) opcode_tx_version :: opcode where "opcode_tx_version \<equiv> 0xc2"
abbreviation (input) opcode_tx_input_count :: opcode where "opcode_tx_input_count \<equiv> 0xc3"
abbreviation (input) opcode_tx_output_count :: opcode where "opcode_tx_output_count \<equiv> 0xc4"
abbreviation (input) opcode_tx_locktime :: opcode where "opcode_tx_locktime \<equiv> 0xc5"
abbreviation (input) opcode_utxo_value :: opcode where "opcode_utxo_value \<equiv> 0xc6"
abbreviation (input) opcode_utxo_bytecode :: opcode where "opcode_utxo_bytecode \<equiv> 0xc7"
abbreviation (input) opcode_outpoint_tx_hash :: opcode where "opcode_outpoint_tx_hash \<equiv> 0xc8"
abbreviation (input) opcode_outpoint_index :: opcode where "opcode_outpoint_index \<equiv> 0xc9"
abbreviation (input) opcode_input_bytecode :: opcode where "opcode_input_bytecode \<equiv> 0xca"
abbreviation (input) opcode_input_sequence_number :: opcode where "opcode_input_sequence_number \<equiv> 0xcb"
abbreviation (input) opcode_output_value :: opcode where "opcode_output_value \<equiv> 0xcc"
abbreviation (input) opcode_output_bytecode :: opcode where "opcode_output_bytecode \<equiv> 0xcd"
abbreviation (input) opcode_utxo_token_category :: opcode where "opcode_utxo_token_category \<equiv> 0xce"
abbreviation (input) opcode_utxo_token_commitment :: opcode where "opcode_utxo_token_commitment \<equiv> 0xcf"
abbreviation (input) opcode_utxo_token_amount :: opcode where "opcode_utxo_token_amount \<equiv> 0xd0"
abbreviation (input) opcode_output_token_category :: opcode where "opcode_output_token_category \<equiv> 0xd1"
abbreviation (input) opcode_output_token_commitment :: opcode where "opcode_output_token_commitment \<equiv> 0xd2"
abbreviation (input) opcode_output_token_amount :: opcode where "opcode_output_token_amount \<equiv> 0xd3"

subsection \<open>Reserved\<close>

abbreviation (input) opcode_reserved_212 :: opcode where "opcode_reserved_212 \<equiv> 0xd4"
abbreviation (input) opcode_reserved_255 :: opcode where "opcode_reserved_255 \<equiv> 0xff"
abbreviation (input) opcode_invalidopcode :: opcode where "opcode_invalidopcode \<equiv> 0xff"

section \<open>Rule forks\<close>

type_synonym forks = u32

abbreviation (input) bip16_rule :: forks where "bip16_rule \<equiv> 0x2"
abbreviation (input) bip66_rule :: forks where "bip66_rule \<equiv> 0x10"
abbreviation (input) bip65_rule :: forks where "bip65_rule \<equiv> 0x20"
abbreviation (input) bip112_rule :: forks where "bip112_rule \<equiv> 0x200"
abbreviation (input) bch_uahf :: forks where "bch_uahf \<equiv> 0x800"
abbreviation (input) bch_pythagoras :: forks where "bch_pythagoras \<equiv> 0x2000"
abbreviation (input) bch_euclid :: forks where "bch_euclid \<equiv> 0x4000"
abbreviation (input) bch_pisano :: forks where "bch_pisano \<equiv> 0x8000"
abbreviation (input) bch_mersenne :: forks where "bch_mersenne \<equiv> 0x10000"
abbreviation (input) bch_fermat :: forks where "bch_fermat \<equiv> 0x20000"
abbreviation (input) bch_euler :: forks where "bch_euler \<equiv> 0x40000"
abbreviation (input) bch_gauss :: forks where "bch_gauss \<equiv> 0x80000"
abbreviation (input) bch_descartes :: forks where "bch_descartes \<equiv> 0x100000"
abbreviation (input) bch_lobachevski :: forks where "bch_lobachevski \<equiv> 0x200000"
abbreviation (input) bch_galois :: forks where "bch_galois \<equiv> 0x400000"

definition is_enabled :: "forks \<Rightarrow> forks \<Rightarrow> bool" where
  "is_enabled active_forks fork \<longleftrightarrow> fork AND active_forks \<noteq> 0"

end
