(* ===== verification/Operation.thy ===== *)
theory Operation
  imports Opcode
begin

text \<open>
  Script operations: \<open>domain/include/kth/domain/impl/machine/operation.ipp\<close>,
  \<open>domain/src/machine/operation.cpp\<close> and \<open>machine/operation.hpp\<close>. An operation is its opcode, the data
  it pushes and a validity flag; it is built from data, from an opcode, or parsed from bytes.

  \<open>operation::from_data\<close> reads the opcode and the data and then builds the result from the data
  alone, so the opcode is computed anew from the data's size. That is the identity on the nominal
  pushes, which gives the \<open>codec\<close> interpretation; every other opcode is lost, which
  \<open>from_data_loses_opcode\<close> states.
\<close>

section \<open>Classes of opcodes\<close>

definition op_is_push :: "opcode \<Rightarrow> bool" where
  "op_is_push code \<longleftrightarrow> code \<le> opcode_push_positive_16 \<and> code \<noteq> opcode_reserved_80"

definition op_is_payload :: "opcode \<Rightarrow> bool" where
  "op_is_payload code \<longleftrightarrow> opcode_push_size_1 \<le> code \<and> code \<le> opcode_push_four_size"

definition op_is_counted :: "opcode \<Rightarrow> bool" where
  "op_is_counted code \<longleftrightarrow> opcode_nop \<le> code"

definition op_is_positive :: "opcode \<Rightarrow> bool" where
  "op_is_positive code \<longleftrightarrow> opcode_push_positive_1 \<le> code \<and> code \<le> opcode_push_positive_16"

definition op_is_version :: "opcode \<Rightarrow> bool" where
  "op_is_version code \<longleftrightarrow> code = opcode_push_size_0 \<or> op_is_positive code"

definition op_is_numeric :: "opcode \<Rightarrow> bool" where
  "op_is_numeric code \<longleftrightarrow> op_is_positive code \<or> code = opcode_push_negative_1"

definition op_is_reserved :: "opcode \<Rightarrow> bool" where
  "op_is_reserved code \<longleftrightarrow>
     (if code \<in> {opcode_reserved_80, opcode_reserved_98, opcode_reserved_137, opcode_reserved_138}
      then True
      else opcode_reserved_212 \<le> code \<and> code \<le> opcode_reserved_255)"

definition op_is_disabled :: "opcode \<Rightarrow> forks \<Rightarrow> bool" where
  "op_is_disabled code active_forks \<longleftrightarrow>
     (if code \<in> {opcode_disabled_invert, opcode_disabled_mul2, opcode_disabled_div2,
          opcode_disabled_lshift, opcode_disabled_rshift, opcode_disabled_verif,
          opcode_disabled_vernotif} then True
      else if code = opcode_mul then \<not> is_enabled active_forks bch_gauss
      else False)"

definition op_is_conditional :: "opcode \<Rightarrow> bool" where
  "op_is_conditional code \<longleftrightarrow> code \<in> {opcode_if, opcode_notif, opcode_else, opcode_endif}"

definition op_is_relaxed_push :: "opcode \<Rightarrow> bool" where
  "op_is_relaxed_push code \<longleftrightarrow> code \<le> opcode_push_positive_16"

section \<open>Opcodes from data\<close>

definition opcode_from_size :: "nat \<Rightarrow> opcode" where
  "opcode_from_size sz =
     (if sz \<le> 75 then of_nat sz
      else if sz \<le> max_uint8 then opcode_push_one_size
      else if sz \<le> max_uint16 then opcode_push_two_size
      else opcode_push_four_size)"

definition opcode_from_positive :: "u8 \<Rightarrow> opcode" where
  "opcode_from_positive value = value + opcode_push_positive_1 - 1"

definition opcode_to_positive :: "opcode \<Rightarrow> u8" where
  "opcode_to_positive code = code - opcode_push_positive_1 + 1"

definition minimal_opcode_from_data :: "bytes \<Rightarrow> opcode" where
  "minimal_opcode_from_data data =
     (if length data = 1 \<and> hd data = negative_1 then opcode_push_negative_1
      else if length data = 1 \<and> hd data = positive_0 then opcode_push_size_0
      else if length data = 1 \<and> positive_1 \<le> hd data \<and> hd data \<le> positive_16
        then opcode_from_positive (hd data)
      else opcode_from_size (length data))"

definition nominal_opcode_from_data :: "bytes \<Rightarrow> opcode" where
  "nominal_opcode_from_data data = opcode_from_size (length data)"

definition opcode_from_data :: "bytes \<Rightarrow> bool \<Rightarrow> opcode" where
  "opcode_from_data data minimal =
     (if minimal then minimal_opcode_from_data data else nominal_opcode_from_data data)"

section \<open>Operations\<close>

record operation =
  op_code :: opcode
  op_data :: bytes
  op_valid :: bool

abbreviation max_push_data_size_legacy :: nat where "max_push_data_size_legacy \<equiv> 520"

text \<open>\<open>operation()\<close> and the state after \<open>reset()\<close>.\<close>

definition invalid_operation :: operation where
  "invalid_operation = \<lparr>op_code = opcode_invalidopcode, op_data = [], op_valid = False\<rparr>"

definition operation_of_opcode :: "opcode \<Rightarrow> operation" where
  "operation_of_opcode code = \<lparr>op_code = code, op_data = [], op_valid = True\<rparr>"

definition is_oversized :: "operation \<Rightarrow> nat \<Rightarrow> bool" where
  "is_oversized op max_size \<longleftrightarrow> length (op_data op) > max_size"

definition operation_of_data :: "bytes \<Rightarrow> bool \<Rightarrow> operation" where
  "operation_of_data uncoded minimal =
     (let op = \<lparr>op_code = opcode_from_data uncoded minimal, op_data = uncoded, op_valid = True\<rparr>;
          op = op\<lparr>op_valid := \<not> is_oversized op max_push_data_size_legacy\<rparr>;
          op = (if op_valid op then op else invalid_operation)
      in if minimal \<and> \<not> op_is_payload (op_code op) then op\<lparr>op_data := []\<rparr> else op)"

definition is_minimal_push :: "operation \<Rightarrow> bool" where
  "is_minimal_push op \<longleftrightarrow> op_code op = minimal_opcode_from_data (op_data op)"

definition is_nominal_push :: "operation \<Rightarrow> bool" where
  "is_nominal_push op \<longleftrightarrow> op_code op = nominal_opcode_from_data (op_data op)"

definition op_serialized_size :: "operation \<Rightarrow> nat" where
  "op_serialized_size op =
     (let sz = length (op_data op) in
      if op_code op = opcode_push_one_size then 1 + 1 + sz
      else if op_code op = opcode_push_two_size then 1 + 2 + sz
      else if op_code op = opcode_push_four_size then 1 + 4 + sz
      else 1 + sz)"

definition operation_to_data :: "operation \<Rightarrow> bytes" where
  "operation_to_data op =
     (let sz = length (op_data op) in
      [op_code op] @
      (if op_code op = opcode_push_one_size then [of_nat sz]
       else if op_code op = opcode_push_two_size then write_2_bytes_little_endian (of_nat sz)
       else if op_code op = opcode_push_four_size then write_4_bytes_little_endian (of_nat sz)
       else []) @
      op_data op)"

definition read_data_size :: "opcode \<Rightarrow> u32 reader" where
  "read_data_size code =
     (if code = opcode_push_one_size then rbind read_byte (\<lambda>b. rreturn (ucast b))
      else if code = opcode_push_two_size
        then rbind (read_little_endian 2) (\<lambda>v :: u16. rreturn (ucast v))
      else if code = opcode_push_four_size then read_little_endian 4
      else rreturn (if code \<le> opcode_push_size_75 then ucast code else 0))"

definition operation_from_data :: "operation reader" where
  "operation_from_data =
     rbind read_byte (\<lambda>code. rbind (read_data_size code) (\<lambda>sz. rbind (read_bytes (unat sz)) (\<lambda>data.
       rreturn (operation_of_data data False))))"

section \<open>Sizes and classes\<close>

lemma length_operation_to_data: "length (operation_to_data op) = op_serialized_size op"
  by (simp add: operation_to_data_def op_serialized_size_def Let_def)

lemma opcode_positive_round_trip:
  "opcode_to_positive (opcode_from_positive v) = v"
  "opcode_from_positive (opcode_to_positive c) = c"
  by (simp_all add: opcode_to_positive_def opcode_from_positive_def)

lemma opcode_from_size_nat:
  "unat (opcode_from_size sz) =
     (if sz \<le> 75 then sz else if sz \<le> 255 then 76 else if sz \<le> 65535 then 77 else 78)"
  by (simp add: opcode_from_size_def u8_of_nat_eq)

lemma operation_of_data_nominal:
  "length data \<le> max_push_data_size_legacy \<Longrightarrow>
   operation_of_data data False =
     \<lparr>op_code = opcode_from_size (length data), op_data = data, op_valid = True\<rparr>"
  by (simp add: operation_of_data_def is_oversized_def opcode_from_data_def nominal_opcode_from_data_def)

lemma operation_of_data_oversized:
  "length data > max_push_data_size_legacy \<Longrightarrow> operation_of_data data minimal = invalid_operation"
  by (simp add: operation_of_data_def is_oversized_def invalid_operation_def Let_def)

section \<open>Nominal pushes are a codec\<close>

definition nominal :: "operation \<Rightarrow> bool" where
  "nominal op \<longleftrightarrow> op_valid op \<and> is_nominal_push op \<and> length (op_data op) \<le> max_push_data_size_legacy"

lemma nominal_eq:
  "nominal op \<Longrightarrow> op = \<lparr>op_code = opcode_from_size (length (op_data op)), op_data = op_data op, op_valid = True\<rparr>"
  by (cases op) (simp add: nominal_def is_nominal_push_def nominal_opcode_from_data_def)


lemma read_data_size_small:
  assumes "n \<le> 75"
  shows "read_data_size (of_nat n) = rreturn (of_nat n)"
proof -
  have u: "unat (of_nat n :: u8) = n" using assms by (simp add: u8_of_nat_eq)
  then have "(of_nat n :: u8) \<noteq> 0x4c" "(of_nat n :: u8) \<noteq> 0x4d" "(of_nat n :: u8) \<noteq> 0x4e"
    "(of_nat n :: u8) \<le> 0x4b"
    using assms by (auto simp: u8_eq_iff_unat word_le_nat_alt)
  moreover have "ucast (of_nat n :: u8) = (of_nat n :: u32)"
    using u assms by (simp add: word_unat_eq_iff unsigned_ucast_eq unsigned_of_nat take_bit_nat_eq_self)
  ultimately show ?thesis by (simp add: read_data_size_def)
qed

lemma read_bytes_data_at:
  "fits (pre @ data @ post) \<Longrightarrow> length data \<le> 65535 \<Longrightarrow>
   read_bytes (unat (of_nat (length data) :: u32)) (reader_at pre (data @ post)) =
     Got data (reader_at (pre @ data) post)"
  by (simp add: read_bytes_at unsigned_of_nat take_bit_nat_eq_self)

interpretation op_codec: codec operation_to_data operation_from_data nominal
proof
  fix op pre post
  assume ok: "nominal op" and fit: "fits (pre @ operation_to_data op @ post)"
  let ?d = "op_data op" and ?n = "length (op_data op)"
  have code: "op_code op = opcode_from_size ?n" and len: "?n \<le> 520"
    using ok by (simp_all add: nominal_def is_nominal_push_def nominal_opcode_from_data_def)
  have built: "operation_of_data ?d False = op"
    using operation_of_data_nominal [of ?d] nominal_eq [OF ok] len by simp
  note defs = operation_to_data_def operation_from_data_def rbind_def read_byte_at Let_def
  consider "?n \<le> 75" | "75 < ?n" "?n \<le> 255" | "255 < ?n" by linarith
  then show "operation_from_data (reader_at pre (operation_to_data op @ post)) =
      Got op (reader_at (pre @ operation_to_data op) post)"
  proof cases
    case 1
    then have "op_code op = of_nat ?n" by (simp add: code opcode_from_size_def)
    moreover from 1 have "(of_nat ?n :: u8) \<noteq> 0x4c" "(of_nat ?n :: u8) \<noteq> 0x4d" "(of_nat ?n :: u8) \<noteq> 0x4e"
      by (auto simp: u8_eq_iff_unat u8_of_nat_eq)
    ultimately show ?thesis
      using 1 fit read_bytes_data_at [of "pre @ [of_nat ?n]" ?d post] built
      by (simp add: defs read_data_size_small)
  next
    case 2
    then have "op_code op = opcode_push_one_size" by (simp add: code opcode_from_size_def)
    moreover have "ucast (of_nat ?n :: u8) = (of_nat ?n :: u32)"
      using 2 by (simp add: word_unat_eq_iff unsigned_ucast_eq unsigned_of_nat take_bit_nat_eq_self)
    ultimately show ?thesis
      using 2 fit read_bytes_data_at [of "pre @ [0x4c, of_nat ?n]" ?d post] built
      by (simp add: defs read_data_size_def read_byte_at [of "pre @ [_]", simplified])
  next
    case 3
    then have "op_code op = opcode_push_two_size" using len by (simp add: code opcode_from_size_def)
    moreover have "ucast (of_nat ?n :: u16) = (of_nat ?n :: u32)"
      using len by (simp add: word_unat_eq_iff unsigned_ucast_eq unsigned_of_nat take_bit_nat_eq_self)
    ultimately show ?thesis
      using len fit le16.dec_enc [of "pre @ [0x4d]" "of_nat ?n" "?d @ post"] built
        read_bytes_data_at [of "pre @ [0x4d] @ write_2_bytes_little_endian (of_nat ?n)" ?d post]
      by (simp add: defs read_data_size_def)
  qed
qed

section \<open>What is parsed\<close>

lemma monotone_read_data_size: "monotone_reader (read_data_size code)"
  by (auto simp: read_data_size_def intro!: monotone_rbind)

lemma monotone_operation_from_data: "monotone_reader operation_from_data"
  unfolding operation_from_data_def
  by (intro monotone_rbind monotone_reader_prims monotone_read_data_size monotone_read_bytes)

text \<open>Whatever bytes it is given, the parser returns a nominal push or the invalid operation.\<close>

lemma operation_of_data_parsed: "operation_of_data data False = invalid_operation \<or> nominal (operation_of_data data False)"
  by (cases "length data \<le> max_push_data_size_legacy")
    (simp_all add: operation_of_data_nominal operation_of_data_oversized nominal_def is_nominal_push_def
      nominal_opcode_from_data_def)

lemma operation_from_data_parsed:
  "operation_from_data r = Got op r' \<Longrightarrow> op = invalid_operation \<or> nominal op"
  using operation_of_data_parsed by (auto simp: operation_from_data_def rbind_Got_iff)

lemma nominal_code_le: "nominal op \<Longrightarrow> op_code op \<le> opcode_push_two_size"
  by (simp add: nominal_def is_nominal_push_def nominal_opcode_from_data_def word_le_nat_alt opcode_from_size_nat)

lemma operation_from_data_opcode:
  assumes "opcode_push_four_size < c" "fits (pre @ c # post)"
  shows "operation_from_data (reader_at pre (c # post)) =
    Got (operation_of_opcode opcode_push_size_0) (reader_at (pre @ [c]) post)"
proof -
  have "c \<noteq> 0x4c" "c \<noteq> 0x4d" "c \<noteq> 0x4e" "\<not> c \<le> 0x4b"
    using assms by (auto simp: word_le_nat_alt word_less_nat_alt)
  then have "read_data_size c = rreturn 0" by (simp add: read_data_size_def)
  moreover have "read_bytes 0 (reader_at (pre @ [c]) post) = Got [] (reader_at (pre @ [c]) post)"
    using assms read_bytes_at [of "pre @ [c]" "[]" post 0] by simp
  ultimately show ?thesis
    by (simp add: operation_from_data_def rbind_def read_byte_at operation_of_data_nominal
        opcode_from_size_def operation_of_opcode_def)
qed


text \<open>Sizes read are below \<open>2 ^ 32\<close>, so the bounds check of \<open>read_bytes\<close> cannot wrap.\<close>

lemma read_data_size_not_Undef: "in_buffer r \<Longrightarrow> read_data_size c r \<noteq> Undef"
  by (auto simp: read_data_size_def rbind_def read_little_endian_def read_byte_def unsafe_read_byte_def
      in_buffer_def split: parse.splits)

lemma operation_from_data_not_Undef:
  assumes "in_buffer r"
  shows "operation_from_data r \<noteq> Undef"
proof (cases "read_byte r")
  case (Got c r1)
  then have r1: "in_buffer r1"
    using assms monotone_readerD(1) [OF monotone_reader_prims(3)] advanced_in_buffer by blast
  show ?thesis
  proof (cases "read_data_size c r1")
    case (Got sz r2)
    then have r2: "in_buffer r2"
      using r1 monotone_readerD(1) [OF monotone_read_data_size] advanced_in_buffer by blast
    have "unat sz < 9223372036854775808" using unat_u32_less [of sz] by linarith
    with r2 have "read_bytes (unat sz) r2 \<noteq> Undef" by (rule read_bytes_guarded)
    with \<open>read_byte r = Got c r1\<close> Got show ?thesis
      by (auto simp: operation_from_data_def rbind_def split: parse.splits)
  qed (use \<open>read_byte r = Got c r1\<close> r1 read_data_size_not_Undef in
      \<open>auto simp: operation_from_data_def rbind_def\<close>)
qed (auto simp: operation_from_data_def rbind_def read_byte_def unsafe_read_byte_def split: if_splits)

lemma operation_from_data_progress:
  assumes "in_buffer r" "\<not> is_exhausted r"
  shows "\<exists>r'. advanced r r' \<and> position r < position r' \<and>
    ((\<exists>op. operation_from_data r = Got op r') \<or> (\<exists>e. operation_from_data r = Fail e r'))"
proof -
  let ?c = "buffer r ! position r" and ?r1 = "r\<lparr>position := Suc (position r)\<rparr>"
  have "read_byte r = Got ?c ?r1" "position ?r1 = Suc (position r)" "advanced r ?r1"
    using assms
    by (auto simp: read_byte_def unsafe_read_byte_def is_exhausted_def in_buffer_def advanced_def)
  then obtain c r1 where b: "read_byte r = Got c r1" "position r1 = Suc (position r)" "advanced r r1"
    by blast
  with assms have r1: "in_buffer r1" by (blast dest: advanced_in_buffer)
  let ?m = "rbind (read_data_size c) (\<lambda>sz. rbind (read_bytes (unat sz)) (\<lambda>data.
       rreturn (operation_of_data data False)))"
  have "monotone_reader ?m"
    by (intro monotone_rbind monotone_read_data_size monotone_reader_prims monotone_read_bytes)
  note mono = monotone_readerD [OF this r1]
  have eq: "operation_from_data r = ?m r1" using b by (simp add: operation_from_data_def rbind_def)
  have "?m r1 \<noteq> Undef" using operation_from_data_not_Undef [OF assms(1)] eq by simp
  then obtain op r' e where m: "?m r1 = Got op r' \<or> ?m r1 = Fail e r'" by (metis parse.exhaust)
  with mono have "advanced r1 r'" by blast
  with b have "advanced r r'" "position r < position r'"
    by (blast intro: advanced_trans, simp add: advanced_def)
  with m eq show ?thesis by metis
qed


section \<open>Properties\<close>

text \<open>A nominal push of at most 520 bytes is read back from its serialisation, whatever stands
  before and behind it, and the serialisation has the length \<open>serialized_size\<close> announces.\<close>

theorem operation_round_trip:
  assumes "nominal op" "fits (pre @ operation_to_data op @ post)"
  shows "operation_from_data (reader_at pre (operation_to_data op @ post)) =
      Got op (reader_at (pre @ operation_to_data op) post) \<and>
    length (operation_to_data op) = op_serialized_size op"
  using op_codec.dec_enc [OF assms(2,1)] length_operation_to_data by simp

theorem operation_round_trip_witness:
  "operation_from_data (reader_at [7] (operation_to_data (operation_of_data [1, 2, 3] False) @ [9])) =
     Got (operation_of_data [1, 2, 3] False)
       (reader_at ([7] @ operation_to_data (operation_of_data [1, 2, 3] False)) [9])"
proof (rule operation_round_trip [THEN conjunct1])
  show n: "nominal (operation_of_data [1, 2, 3] False)"
    using operation_of_data_parsed [of "[1, 2, 3]"]
    by (simp add: operation_of_data_nominal invalid_operation_def)
  show "fits ([7] @ operation_to_data (operation_of_data [1, 2, 3] False) @ [9])"
    by (simp add: operation_of_data_nominal operation_to_data_def opcode_from_size_def Let_def)
qed

text \<open>The parser builds the operation from its data alone. An opcode above \<open>push_four_size\<close>
  carries no data, so whatever it was, the parsed operation is \<open>push_size_0\<close>: serialising it again
  does not give the bytes it was read from. (The unit tests of \<open>operation\<close> expect the opcode to
  survive.)\<close>

theorem from_data_loses_opcode:
  assumes "opcode_push_four_size < c" "fits (pre @ c # post)"
  shows "operation_from_data (reader_at pre (c # post)) =
      Got (operation_of_opcode opcode_push_size_0) (reader_at (pre @ [c]) post) \<and>
    operation_to_data (operation_of_opcode opcode_push_size_0) \<noteq> [c]"
proof -
  have "c \<noteq> 0" using assms(1) by (auto simp: word_less_nat_alt)
  then show ?thesis using operation_from_data_opcode [OF assms]
    by (simp add: operation_to_data_def operation_of_opcode_def)
qed

theorem from_data_loses_opcode_witness:
  "operation_from_data (reader_at [] [opcode_checksig]) =
     Got (operation_of_opcode opcode_push_size_0) (reader_at [opcode_checksig] [])"
  using from_data_loses_opcode [of opcode_checksig "[]" "[]"] by simp

end
