(* ===== verification/Script.thy ===== *)
theory Script
  imports Operation
begin

text \<open>
  Scripts: \<open>domain/src/chain/script_basis.cpp\<close>, \<open>domain/src/chain/script.cpp\<close> and their headers. A
  script is its bytes; the operations are parsed from them on the first access and then cached, unless
  the script was built from operations, which are cached at once. Copying or moving a script drops the
  cache.

  Parsing the operations is a loop that ends at the end of the bytes; it is a
  \<open>partial_function\<close>, whose \<open>None\<close> stands for undefined behaviour or a loop that does not end, and
  \<open>parse_operations_total\<close> shows that neither happens. An operation that cannot be read
  becomes the invalid operation and parsing goes on behind the bytes read so far.
\<close>

section \<open>Parsing and serialising operations\<close>

partial_function (option) operations_loop :: "byte_reader \<Rightarrow> operation list option" where
  "operations_loop r =
     (if is_exhausted r then Some []
      else case operation_from_data r of
        Got op r' \<Rightarrow> Option.bind (operations_loop r') (\<lambda>ops. Some (op # ops))
      | Fail e r' \<Rightarrow> Option.bind (operations_loop r') (\<lambda>ops. Some (invalid_operation # ops))
      | Undef \<Rightarrow> None)"

definition parse_operations :: "bytes \<Rightarrow> operation list option" where
  "parse_operations bytes = operations_loop \<lparr>buffer = bytes, position = 0\<rparr>"

definition parse_first_operation :: "bytes \<Rightarrow> operation option" where
  "parse_first_operation bytes =
     (case operation_from_data \<lparr>buffer = bytes, position = 0\<rparr> of
        Got op _ \<Rightarrow> Some op | Fail _ _ \<Rightarrow> Some invalid_operation | Undef \<Rightarrow> None)"

definition operations_to_data :: "operation list \<Rightarrow> bytes" where
  "operations_to_data ops = concat (map operation_to_data ops)"

definition operations_size :: "operation list \<Rightarrow> nat" where
  "operations_size ops = fold (\<lambda>op sum. sum + op_serialized_size op) ops 0"

section \<open>Scripts\<close>

record script =
  script_bytes :: bytes
  script_valid :: bool
  script_cache :: "operation list option"

definition script_of_bytes :: "bytes \<Rightarrow> script" where
  "script_of_bytes encoded = \<lparr>script_bytes = encoded, script_valid = True, script_cache = None\<rparr>"

definition script_from_operations :: "operation list \<Rightarrow> script" where
  "script_from_operations ops =
     \<lparr>script_bytes = operations_to_data ops, script_valid = True, script_cache = Some ops\<rparr>"

definition script_default :: script where
  "script_default = \<lparr>script_bytes = [], script_valid = False, script_cache = None\<rparr>"

text \<open>The copy and move constructors and assignments: the cache is not transferred.\<close>

definition script_copy :: "script \<Rightarrow> script" where
  "script_copy s = s\<lparr>script_cache := None\<rparr>"

definition script_operations :: "script \<Rightarrow> operation list option" where
  "script_operations s =
     (case script_cache s of Some ops \<Rightarrow> Some ops | None \<Rightarrow> parse_operations (script_bytes s))"

definition script_serialized_size :: "script \<Rightarrow> bool \<Rightarrow> nat" where
  "script_serialized_size s prefix =
     (let sz = length (script_bytes s) in
      if prefix then sz + variable_uint_size (of_nat sz) else sz)"

definition script_to_data :: "bool \<Rightarrow> script \<Rightarrow> bytes" where
  "script_to_data prefix s =
     (if prefix then write_variable_little_endian (of_nat (script_serialized_size s False)) else []) @
     script_bytes s"

definition script_from_data_with_size :: "nat \<Rightarrow> script reader" where
  "script_from_data_with_size sz =
     (if sz > static_absolute_max_block_size then rfail (Serial_error err_script_invalid_size)
      else rbind (read_bytes sz) (\<lambda>bytes. rreturn (script_of_bytes bytes)))"

definition script_from_data :: "bool \<Rightarrow> script reader" where
  "script_from_data prefix =
     (if \<not> prefix then rbind read_remaining_bytes (\<lambda>bytes. rreturn (script_of_bytes bytes))
      else rbind read_size_little_endian (\<lambda>sz.
        if sz > static_absolute_max_block_size then rfail (Serial_error err_script_invalid_size)
        else rbind (read_bytes sz) (\<lambda>bytes. rreturn (script_of_bytes bytes))))"

definition is_valid_operations :: "operation list \<Rightarrow> bool" where
  "is_valid_operations ops \<longleftrightarrow> ops = [] \<or> op_valid (last ops)"

section \<open>Patterns\<close>

abbreviation max_null_data_size :: nat where "max_null_data_size \<equiv> 80"
abbreviation multisig_default_sigops :: nat where "multisig_default_sigops \<equiv> 20"
abbreviation max_script_size :: nat where "max_script_size \<equiv> 10000"
abbreviation short_hash_size :: nat where "short_hash_size \<equiv> 20"
abbreviation hash_size :: nat where "hash_size \<equiv> 32"

definition is_compressed_key :: "bytes \<Rightarrow> bool" where
  "is_compressed_key point \<longleftrightarrow>
     (if length point \<noteq> 33 then False else hd point = 0x02 \<or> hd point = 0x03)"

definition is_uncompressed_key :: "bytes \<Rightarrow> bool" where
  "is_uncompressed_key point \<longleftrightarrow> (if length point \<noteq> 65 then False else hd point = 0x04)"

definition is_public_key :: "bytes \<Rightarrow> bool" where
  "is_public_key point \<longleftrightarrow> is_compressed_key point \<or> is_uncompressed_key point"

definition is_endorsement :: "bytes \<Rightarrow> bool" where
  "is_endorsement endorsement \<longleftrightarrow> length endorsement \<ge> 9 \<and> length endorsement \<le> 73"

definition is_push_only :: "operation list \<Rightarrow> bool" where
  "is_push_only ops \<longleftrightarrow> list_all (\<lambda>op. op_is_push (op_code op)) ops"

definition is_relaxed_push :: "operation list \<Rightarrow> bool" where
  "is_relaxed_push ops \<longleftrightarrow> list_all (\<lambda>op. op_is_relaxed_push (op_code op)) ops"

definition is_coinbase_pattern :: "operation list \<Rightarrow> nat \<Rightarrow> bool" where
  "is_coinbase_pattern ops height \<longleftrightarrow>
     (if ops = [] then False
      else if height \<le> 16 then
        if op_code (ops ! 0) < opcode_push_positive_1 then False
        else height = unat (op_code (ops ! 0)) - unat opcode_push_positive_1 + 1
      else is_nominal_push (ops ! 0) \<and> number_data (int height) = Some (op_data (ops ! 0)))"

definition is_null_data_pattern :: "operation list \<Rightarrow> bool" where
  "is_null_data_pattern ops \<longleftrightarrow>
     length ops = 2 \<and> op_code (ops ! 0) = opcode_return \<and> is_minimal_push (ops ! 1) \<and>
     length (op_data (ops ! 1)) \<le> max_null_data_size"

definition is_pay_multisig_pattern :: "operation list \<Rightarrow> bool" where
  "is_pay_multisig_pattern ops \<longleftrightarrow>
     (let op_count = length ops in
      if op_count < 4 \<or> op_code (ops ! (op_count - 1)) \<noteq> opcode_checkmultisig then False
      else
        let op_m = op_code (ops ! 0); op_n = op_code (ops ! (op_count - 2)) in
        if op_m < opcode_push_positive_1 \<or> op_m > op_n \<or> op_n < opcode_push_positive_1 \<or>
           op_n > opcode_push_positive_16 then False
        else if unat op_n - 0x51 + 1 \<noteq> op_count - 3 then False
        else list_all (\<lambda>op. is_public_key (op_data op)) (take (op_count - 3) (drop 1 ops)))"

definition is_pay_public_key_pattern :: "operation list \<Rightarrow> bool" where
  "is_pay_public_key_pattern ops \<longleftrightarrow>
     length ops = 2 \<and> is_public_key (op_data (ops ! 0)) \<and> op_code (ops ! 1) = opcode_checksig"

definition is_pay_public_key_hash_pattern :: "operation list \<Rightarrow> bool" where
  "is_pay_public_key_hash_pattern ops \<longleftrightarrow>
     length ops = 5 \<and> op_code (ops ! 0) = opcode_dup \<and> op_code (ops ! 1) = opcode_hash160 \<and>
     length (op_data (ops ! 2)) = short_hash_size \<and> op_code (ops ! 3) = opcode_equalverify \<and>
     op_code (ops ! 4) = opcode_checksig"

definition is_pay_script_hash_pattern :: "operation list \<Rightarrow> bool" where
  "is_pay_script_hash_pattern ops \<longleftrightarrow>
     length ops = 3 \<and> op_code (ops ! 0) = opcode_hash160 \<and> op_code (ops ! 1) = opcode_push_size_20 \<and>
     op_code (ops ! 2) = opcode_equal"

definition is_pay_script_hash_32_pattern :: "operation list \<Rightarrow> bool" where
  "is_pay_script_hash_32_pattern ops \<longleftrightarrow>
     length ops = 3 \<and> op_code (ops ! 0) = opcode_hash256 \<and> op_code (ops ! 1) = opcode_push_size_32 \<and>
     op_code (ops ! 2) = opcode_equal"

definition is_sign_multisig_pattern :: "operation list \<Rightarrow> bool" where
  "is_sign_multisig_pattern ops \<longleftrightarrow>
     length ops \<ge> 2 \<and> op_code (ops ! 0) = opcode_push_size_0 \<and>
     list_all (\<lambda>op. is_endorsement (op_data op)) (drop 1 ops)"

definition is_sign_public_key_pattern :: "operation list \<Rightarrow> bool" where
  "is_sign_public_key_pattern ops \<longleftrightarrow> length ops = 1 \<and> is_endorsement (op_data (ops ! 0))"

definition is_sign_public_key_hash_pattern :: "operation list \<Rightarrow> bool" where
  "is_sign_public_key_hash_pattern ops \<longleftrightarrow>
     length ops = 2 \<and> is_endorsement (op_data (ops ! 0)) \<and> is_public_key (op_data (ops ! 1))"

definition is_sign_script_hash_pattern :: "operation list \<Rightarrow> bool" where
  "is_sign_script_hash_pattern ops \<longleftrightarrow> ops \<noteq> [] \<and> is_push_only ops \<and> op_data (last ops) \<noteq> []"

definition to_null_data_pattern :: "bytes \<Rightarrow> operation list" where
  "to_null_data_pattern data =
     (if length data > max_null_data_size then []
      else [operation_of_opcode opcode_return, operation_of_data data True])"

definition to_pay_public_key_pattern :: "bytes \<Rightarrow> operation list" where
  "to_pay_public_key_pattern point =
     (if \<not> is_public_key point then []
      else [operation_of_data point True, operation_of_opcode opcode_checksig])"

definition to_pay_public_key_hash_pattern :: "bytes \<Rightarrow> operation list" where
  "to_pay_public_key_hash_pattern hash =
     [operation_of_opcode opcode_dup, operation_of_opcode opcode_hash160, operation_of_data hash True,
      operation_of_opcode opcode_equalverify, operation_of_opcode opcode_checksig]"

definition to_pay_script_hash_pattern :: "bytes \<Rightarrow> operation list" where
  "to_pay_script_hash_pattern hash =
     [operation_of_opcode opcode_hash160, operation_of_data hash True, operation_of_opcode opcode_equal]"

definition to_pay_script_hash_32_pattern :: "bytes \<Rightarrow> operation list" where
  "to_pay_script_hash_32_pattern hash =
     [operation_of_opcode opcode_hash256, operation_of_data hash True, operation_of_opcode opcode_equal]"

text \<open>The loop over the points returns the empty list at the first one that is no public key.\<close>

definition to_pay_multisig_pattern :: "u8 \<Rightarrow> bytes list \<Rightarrow> operation list" where
  "to_pay_multisig_pattern signatures points =
     (let m = unat signatures; n = length points in
      if m < 1 \<or> m > n \<or> n < 1 \<or> n > 16 then []
      else if \<not> list_all is_public_key points then []
      else [operation_of_opcode (of_nat (m + 80))] @ map (\<lambda>p. operation_of_data p True) points @
        [operation_of_opcode (of_nat (n + 80)), operation_of_opcode opcode_checkmultisig])"

datatype script_pattern =
    null_data | pay_multisig | pay_public_key | pay_public_key_hash | pay_script_hash
  | pay_script_hash_32 | sign_multisig | sign_public_key | sign_public_key_hash | sign_script_hash
  | witness_reservation | non_standard

definition output_pattern :: "operation list \<Rightarrow> script_pattern" where
  "output_pattern ops =
     (if is_pay_public_key_hash_pattern ops then pay_public_key_hash
      else if is_pay_script_hash_pattern ops then pay_script_hash
      else if is_pay_script_hash_32_pattern ops then pay_script_hash_32
      else if is_null_data_pattern ops then null_data
      else if is_pay_public_key_pattern ops then pay_public_key
      else if is_pay_multisig_pattern ops then pay_multisig
      else non_standard)"

definition input_pattern :: "operation list \<Rightarrow> script_pattern" where
  "input_pattern ops =
     (if is_sign_public_key_hash_pattern ops then sign_public_key_hash
      else if is_sign_script_hash_pattern ops then sign_script_hash
      else if is_sign_public_key_pattern ops then sign_public_key
      else if is_sign_multisig_pattern ops then sign_multisig
      else non_standard)"

definition pattern :: "operation list \<Rightarrow> script_pattern" where
  "pattern ops =
     (let output = output_pattern ops in
      if output = non_standard then input_pattern ops else output)"

definition is_pay_to_script_hash :: "operation list \<Rightarrow> forks \<Rightarrow> bool" where
  "is_pay_to_script_hash ops forks \<longleftrightarrow> is_enabled forks bip16_rule \<and> is_pay_script_hash_pattern ops"

definition is_pay_to_script_hash_32 :: "operation list \<Rightarrow> forks \<Rightarrow> bool" where
  "is_pay_to_script_hash_32 ops forks \<longleftrightarrow>
     is_enabled forks bch_gauss \<and> is_pay_script_hash_32_pattern ops"

definition multisig_sigops :: "bool \<Rightarrow> opcode \<Rightarrow> nat" where
  "multisig_sigops accurate code =
     (if accurate \<and> op_is_positive code then unat (opcode_to_positive code)
      else multisig_default_sigops)"

fun sigops_loop :: "bool \<Rightarrow> opcode \<Rightarrow> operation list \<Rightarrow> nat \<Rightarrow> nat" where
  "sigops_loop accurate preceding [] count = count"
| "sigops_loop accurate preceding (op # ops) count =
     (let code = op_code op in
      sigops_loop accurate code ops
        (if code = opcode_checksig \<or> code = opcode_checksigverify then count + 1
         else if code = opcode_checkmultisig \<or> code = opcode_checkmultisigverify
           then count + multisig_sigops accurate preceding
         else count))"

definition sigops :: "operation list \<Rightarrow> bool \<Rightarrow> nat" where
  "sigops ops accurate = sigops_loop accurate opcode_reserved_255 ops 0"

definition is_unspendable :: "script \<Rightarrow> operation list \<Rightarrow> bool" where
  "is_unspendable s ops \<longleftrightarrow>
     (ops \<noteq> [] \<and> op_code (ops ! 0) = opcode_return) \<or> script_serialized_size s False > max_script_size"


section \<open>Parsing ends, and what it yields\<close>

declare operations_loop.simps [code]

lemma operations_loop_total:
  assumes "in_buffer r"
  shows "\<exists>ops. operations_loop r = Some ops \<and> length ops \<le> length (buffer r) - position r \<and>
    (\<forall>op \<in> set ops. op = invalid_operation \<or> nominal op)"
  using assms
proof (induction "length (buffer r) - position r" arbitrary: r rule: less_induct)
  case less
  show ?case
  proof (cases "is_exhausted r")
    case True
    then show ?thesis by (subst operations_loop.simps) simp
  next
    case False
    obtain r' where r': "advanced r r'" "position r < position r'"
      and m: "(\<exists>op. operation_from_data r = Got op r') \<or> (\<exists>e. operation_from_data r = Fail e r')"
      using operation_from_data_progress [OF less.prems False] by blast
    have "length (buffer r') - position r' < length (buffer r) - position r"
      using r' False by (auto simp: advanced_def is_exhausted_def)
    from less.hyps [OF this advanced_in_buffer [OF r'(1) less.prems]] obtain ops
      where ops: "operations_loop r' = Some ops" "length ops \<le> length (buffer r') - position r'"
        "\<forall>op \<in> set ops. op = invalid_operation \<or> nominal op" by blast
    have len: "Suc (length ops) \<le> length (buffer r) - position r"
      using ops(2) r' False by (auto simp: advanced_def is_exhausted_def)
    from m show ?thesis
    proof
      assume "\<exists>op. operation_from_data r = Got op r'"
      then obtain op where "operation_from_data r = Got op r'" by blast
      with False ops len show ?thesis
        by (subst operations_loop.simps) (auto dest: operation_from_data_parsed)
    next
      assume "\<exists>e. operation_from_data r = Fail e r'"
      with False ops len show ?thesis by (subst operations_loop.simps) auto
    qed
  qed
qed

lemma in_buffer_start [simp]: "fits bytes \<Longrightarrow> in_buffer \<lparr>buffer = bytes, position = 0\<rparr>"
  by (simp add: in_buffer_def)

lemma parse_operations_total:
  assumes "fits bytes"
  shows "\<exists>ops. parse_operations bytes = Some ops \<and> length ops \<le> length bytes \<and>
    (\<forall>op \<in> set ops. op = invalid_operation \<or> nominal op)"
  using operations_loop_total [OF in_buffer_start [OF assms]] by (simp add: parse_operations_def)

lemma operations_loop_nominal:
  "list_all nominal ops \<Longrightarrow> fits (pre @ operations_to_data ops) \<Longrightarrow>
   operations_loop (reader_at pre (operations_to_data ops)) = Some ops"
proof (induction ops arbitrary: pre)
  case Nil
  then show ?case by (subst operations_loop.simps) (simp add: operations_to_data_def)
next
  case (Cons op ops)
  let ?rest = "operations_to_data ops"
  have d: "operations_to_data (op # ops) = operation_to_data op @ ?rest"
    by (simp add: operations_to_data_def)
  have "operation_from_data (reader_at pre (operation_to_data op @ ?rest)) =
      Got op (reader_at (pre @ operation_to_data op) ?rest)"
    using Cons.prems d by (intro op_codec.dec_enc) auto
  moreover have "operations_loop (reader_at (pre @ operation_to_data op) ?rest) = Some ops"
    using Cons.prems d by (intro Cons.IH) auto
  moreover have "operation_to_data op \<noteq> []" by (simp add: operation_to_data_def Let_def)
  ultimately show ?case unfolding d by (subst operations_loop.simps) simp
qed

lemma reader_start: "\<lparr>buffer = bytes, position = 0\<rparr> = reader_at [] bytes"
  by (simp add: reader_at_def)

lemma parse_operations_to_data:
  "list_all nominal ops \<Longrightarrow> fits (operations_to_data ops) \<Longrightarrow>
   parse_operations (operations_to_data ops) = Some ops"
  using operations_loop_nominal [of ops "[]"] by (simp add: parse_operations_def reader_start)

lemma operations_size_eq: "operations_size ops = length (operations_to_data ops)"
proof -
  have "fold (\<lambda>op sum. sum + op_serialized_size op) ops n = n + length (operations_to_data ops)" for n
    by (induction ops arbitrary: n)
      (simp_all add: operations_to_data_def length_operation_to_data)
  then show ?thesis by (simp add: operations_size_def)
qed

section \<open>Scripts are a codec\<close>

lemma length_script_to_data: "length (script_to_data prefix s) = script_serialized_size s prefix"
  by (simp add: script_to_data_def script_serialized_size_def Let_def)

abbreviation plain_script :: "script \<Rightarrow> bool" where
  "plain_script s \<equiv> s = script_of_bytes (script_bytes s) \<and>
     length (script_bytes s) \<le> static_absolute_max_block_size"

interpretation script_codec: codec "script_to_data True" "script_from_data True" plain_script
proof
  fix s pre post
  assume ok: "plain_script s" and fit: "fits (pre @ script_to_data True s @ post)"
  let ?n = "write_size_little_endian (length (script_bytes s))" and ?b = "script_bytes s"
  have e: "script_to_data True s = ?n @ ?b"
    by (simp add: script_to_data_def script_serialized_size_def write_size_little_endian_def)
  have "read_size_little_endian (reader_at pre (?n @ ?b @ post)) =
      Got (length ?b) (reader_at (pre @ ?n) (?b @ post))"
    using fit ok e by (intro size_prefix.dec_enc) auto
  moreover have "read_bytes (length ?b) (reader_at (pre @ ?n) (?b @ post)) =
      Got ?b (reader_at ((pre @ ?n) @ ?b) post)"
    using fit e by (intro read_bytes_at) auto
  ultimately show "script_from_data True (reader_at pre (script_to_data True s @ post)) =
      Got s (reader_at (pre @ script_to_data True s) post)"
    using ok by (simp add: script_from_data_def e rbind_def)
qed

lemma script_from_data_unprefixed:
  "fits (pre @ bytes) \<Longrightarrow>
   script_from_data False (reader_at pre bytes) = Got (script_of_bytes bytes) (reader_at (pre @ bytes) [])"
  by (simp add: script_from_data_def rbind_def read_remaining_bytes_at)

lemma script_from_data_with_size_at:
  "fits (pre @ bytes @ post) \<Longrightarrow> length bytes \<le> static_absolute_max_block_size \<Longrightarrow> n = length bytes \<Longrightarrow>
   script_from_data_with_size n (reader_at pre (bytes @ post)) =
     Got (script_of_bytes bytes) (reader_at (pre @ bytes) post)"
  by (simp add: script_from_data_with_size_def rbind_def read_bytes_at)


section \<open>Patterns\<close>

lemma is_public_key_length: "is_public_key p \<Longrightarrow> length p = 33 \<or> length p = 65"
  by (auto simp: is_public_key_def is_compressed_key_def is_uncompressed_key_def split: if_splits)

lemma operation_of_data_minimal:
  "length data \<le> max_push_data_size_legacy \<Longrightarrow> length data \<noteq> 1 \<Longrightarrow> data \<noteq> [] \<Longrightarrow>
   operation_of_data data True =
     \<lparr>op_code = opcode_from_size (length data), op_data = data, op_valid = True\<rparr>"
  by (simp add: operation_of_data_def is_oversized_def opcode_from_data_def minimal_opcode_from_data_def
      op_is_payload_def word_le_nat_alt opcode_from_size_nat Suc_le_eq)

lemma operation_of_public_key:
  "is_public_key p \<Longrightarrow> operation_of_data p True =
     \<lparr>op_code = of_nat (length p), op_data = p, op_valid = True\<rparr>"
  by (drule is_public_key_length, subst operation_of_data_minimal) (auto simp: opcode_from_size_def)

lemma operation_of_hash:
  "length h = 20 \<or> length h = 32 \<Longrightarrow> operation_of_data h True =
     \<lparr>op_code = of_nat (length h), op_data = h, op_valid = True\<rparr>"
  by (subst operation_of_data_minimal) (auto simp: opcode_from_size_def)

lemma opcode_from_positive_nat: "v \<le> 16 \<Longrightarrow> unat (opcode_from_positive v) = unat v + 80"
proof -
  assume "v \<le> 16"
  then have "unat (v + 0x50) = unat v + 80"
    by (subst unat_add_lem [THEN iffD1]) (simp_all add: word_le_nat_alt)
  then show ?thesis by (simp add: opcode_from_positive_def add.commute [of _ v])
qed

lemma minimal_opcode_le: "unat (minimal_opcode_from_data data) \<le> 96"
  by (simp add: minimal_opcode_from_data_def opcode_from_size_nat opcode_from_positive_nat)
    (simp add: word_le_nat_alt)

text \<open>
  A single byte that is encoded as a number is stored as an opcode without data, which
  \<open>is_minimal_push\<close> does not recognise: for such data the null data script is not a null data pattern.
\<close>

definition encodes_as_number :: "bytes \<Rightarrow> bool" where
  "encodes_as_number data \<longleftrightarrow>
     (\<exists>b. data = [b] \<and> (b = negative_1 \<or> positive_1 \<le> b \<and> b \<le> positive_16))"

lemma null_data_pattern_iff:
  assumes "length data \<le> max_null_data_size"
  shows "is_null_data_pattern (to_null_data_pattern data) \<longleftrightarrow> \<not> encodes_as_number data"
proof -
  note defs = is_null_data_pattern_def to_null_data_pattern_def operation_of_opcode_def
    is_minimal_push_def encodes_as_number_def
  consider "data = []" | b where "data = [b]" | "length data \<noteq> 1" "data \<noteq> []"
    by (cases data rule: remdups_adj.cases) auto
  then show ?thesis
  proof cases
    case 1
    then show ?thesis
      by (simp add: defs operation_of_data_def is_oversized_def opcode_from_data_def
          minimal_opcode_from_data_def Let_def opcode_from_size_def op_is_payload_def)
  next
    case 2
    have "b \<le> 16 \<Longrightarrow> opcode_from_positive b \<noteq> 0 \<and> \<not> op_is_payload (opcode_from_positive b)"
      by (auto simp: op_is_payload_def u8_eq_iff_unat word_le_nat_alt opcode_from_positive_nat)
    with 2 show ?thesis
      by (auto simp: defs operation_of_data_def is_oversized_def opcode_from_data_def
          minimal_opcode_from_data_def Let_def opcode_from_size_def op_is_payload_def)
  next
    case 3
    with assms show ?thesis
      by (auto simp: defs operation_of_data_minimal minimal_opcode_from_data_def)
  qed
qed

text \<open>The output patterns exclude each other.\<close>

lemma output_patterns_exclusive:
  "length (filter id [is_pay_public_key_hash_pattern ops, is_pay_script_hash_pattern ops,
     is_pay_script_hash_32_pattern ops, is_null_data_pattern ops, is_pay_public_key_pattern ops,
     is_pay_multisig_pattern ops]) \<le> 1"
proof -
  have "op_code (ops ! 1) \<noteq> opcode_checksig" if "is_null_data_pattern ops"
  proof
    assume "op_code (ops ! 1) = opcode_checksig"
    with that minimal_opcode_le [of "op_data (ops ! 1)"] show False
      by (simp add: is_null_data_pattern_def is_minimal_push_def)
  qed
  then show ?thesis
    by (auto simp: is_pay_public_key_hash_pattern_def is_pay_script_hash_pattern_def
        is_pay_script_hash_32_pattern_def is_null_data_pattern_def is_pay_public_key_pattern_def
        is_pay_multisig_pattern_def Let_def split: if_splits)
qed


lemma output_pattern_to_pay:
  "length h = 20 \<Longrightarrow> output_pattern (to_pay_public_key_hash_pattern h) = pay_public_key_hash"
  "length h = 20 \<Longrightarrow> output_pattern (to_pay_script_hash_pattern h) = pay_script_hash"
  "length h' = 32 \<Longrightarrow> output_pattern (to_pay_script_hash_32_pattern h') = pay_script_hash_32"
  "is_public_key k \<Longrightarrow> output_pattern (to_pay_public_key_pattern k) = pay_public_key"
  by (auto simp: output_pattern_def to_pay_public_key_hash_pattern_def to_pay_script_hash_pattern_def
      to_pay_script_hash_32_pattern_def to_pay_public_key_pattern_def operation_of_opcode_def
      operation_of_hash operation_of_public_key is_pay_public_key_hash_pattern_def
      is_pay_script_hash_pattern_def is_pay_script_hash_32_pattern_def is_null_data_pattern_def
      is_pay_public_key_pattern_def dest: is_public_key_length)

lemma sigops_loop_add: "sigops_loop accurate c ops n = n + sigops_loop accurate c ops 0"
proof (induction ops arbitrary: c n)
  case (Cons op ops)
  show ?case
    by (simp only: sigops_loop.simps Let_def, subst (1 2) Cons.IH) simp
qed simp

lemma sigops_loop_quiet:
  "\<forall>op \<in> set ops. op_code op \<notin> {opcode_checksig, opcode_checksigverify, opcode_checkmultisig,
     opcode_checkmultisigverify} \<Longrightarrow>
   sigops_loop accurate c (ops @ rest) n =
     sigops_loop accurate (if ops = [] then c else op_code (last ops)) rest n"
  by (induction ops arbitrary: c) auto

lemma to_pay_multisig:
  assumes "1 \<le> unat m" "unat m \<le> length points" "length points \<le> 16" "list_all is_public_key points"
  shows "is_pay_multisig_pattern (to_pay_multisig_pattern m points)"
    and "sigops (to_pay_multisig_pattern m points) True = length points"
proof -
  let ?n = "length points"
  let ?ks = "map (\<lambda>p. \<lparr>op_code = of_nat (length p), op_data = p, op_valid = True\<rparr>) points"
  let ?m = "operation_of_opcode (of_nat (unat m + 80))" and ?nn = "operation_of_opcode (of_nat (?n + 80))"
  have ks: "map (\<lambda>p. operation_of_data p True) points = ?ks"
    using assms(4) by (auto simp: list_all_iff operation_of_public_key)
  have ne: "points \<noteq> []" using assms by auto
  have eq: "to_pay_multisig_pattern m points =
      [?m] @ ?ks @ [?nn, operation_of_opcode opcode_checkmultisig]"
    using assms ne by (simp add: to_pay_multisig_pattern_def Let_def ks)
  have u: "unat (of_nat (unat m + 80) :: u8) = unat m + 80" "unat (of_nat (?n + 80) :: u8) = ?n + 80"
    using assms by (simp_all only: u8_of_nat_eq)
  have nth: "([?m] @ ?ks @ [?nn, operation_of_opcode opcode_checkmultisig]) ! (?n + 1) = ?nn"
    "([?m] @ ?ks @ [?nn, operation_of_opcode opcode_checkmultisig]) ! (?n + 2) =
      operation_of_opcode opcode_checkmultisig"
    by (simp_all add: nth_append)
  show "is_pay_multisig_pattern (to_pay_multisig_pattern m points)"
    unfolding eq is_pay_multisig_pattern_def using assms u nth
    by (auto simp: Let_def operation_of_opcode_def word_less_nat_alt list_all_iff)
  have "\<forall>op \<in> set (?m # ?ks @ [?nn]). op_code op \<notin> {opcode_checksig, opcode_checksigverify,
      opcode_checkmultisig, opcode_checkmultisigverify}"
    using assms u by (auto simp: operation_of_opcode_def u8_eq_iff_unat list_all_iff dest!: is_public_key_length)
  note q = sigops_loop_quiet [OF this, of True _ "[operation_of_opcode opcode_checkmultisig]" 0]
  have "op_is_positive (of_nat (?n + 80))" "unat (opcode_to_positive (of_nat (?n + 80))) = ?n"
    using assms u by (simp_all add: op_is_positive_def opcode_to_positive_def word_le_nat_alt u8_of_nat_eq)
  then show "sigops (to_pay_multisig_pattern m points) True = ?n"
    unfolding eq sigops_def using q
    by (simp add: operation_of_opcode_def multisig_sigops_def)
qed


section \<open>What the parser's loss of opcodes means for scripts\<close>

lemma parsed_code:
  "op = invalid_operation \<or> nominal op \<Longrightarrow> unat (op_code op) \<le> 77 \<or> op_code op = 0xff"
  using nominal_code_le [of op] by (auto simp: invalid_operation_def word_le_nat_alt)

lemma parsed_ops_codes:
  assumes "\<forall>op \<in> set ops. op = invalid_operation \<or> nominal op" "op \<in> set ops"
    "77 < unat c" "c \<noteq> 0xff"
  shows "op_code op \<noteq> c"
  using parsed_code assms by fastforce

lemma sigops_quiet:
  "\<forall>op \<in> set ops. op_code op \<notin> {opcode_checksig, opcode_checksigverify, opcode_checkmultisig,
     opcode_checkmultisigverify} \<Longrightarrow> sigops ops accurate = 0"
  using sigops_loop_quiet [of ops accurate _ "[]" 0] by (simp add: sigops_def)

section \<open>Properties\<close>

text \<open>Parsing ends on every byte string that fits in memory, with at most one operation per byte,
  each of them the invalid operation or a nominal push. In particular no parsed script counts any
  signature operation or matches an output pattern.\<close>

theorem parse_operations_result:
  assumes "fits bytes"
  shows "\<exists>ops. parse_operations bytes = Some ops \<and> length ops \<le> length bytes \<and>
    (\<forall>op \<in> set ops. op = invalid_operation \<or> nominal op) \<and>
    sigops ops accurate = 0 \<and> output_pattern ops = non_standard"
proof -
  obtain ops where ops: "parse_operations bytes = Some ops" "length ops \<le> length bytes"
    and n: "\<forall>op \<in> set ops. op = invalid_operation \<or> nominal op"
    using parse_operations_total [OF assms] by blast
  have c: "op_code op \<noteq> c" if "op \<in> set ops" "77 < unat c" "c \<noteq> 0xff" for op c
    using parsed_ops_codes [OF n] that by blast
  then have "sigops ops accurate = 0" by (intro sigops_quiet) auto
  moreover have "output_pattern ops = non_standard"
    using c nth_mem [of 0 ops] nth_mem [of 1 ops] nth_mem [of "length ops - 1" ops]
    by (auto simp: output_pattern_def is_pay_public_key_hash_pattern_def is_pay_script_hash_pattern_def
        is_pay_script_hash_32_pattern_def is_null_data_pattern_def is_pay_public_key_pattern_def
        is_pay_multisig_pattern_def Let_def split: if_splits)
  ultimately show ?thesis using ops n by blast
qed

theorem parse_operations_result_witness:
  "\<exists>ops. parse_operations [0x76, 0xa9, 0x01, 0x05, 0x88, 0xac] = Some ops \<and> length ops \<le> 6 \<and>
    sigops ops True = 0"
  using parse_operations_result [of "[0x76, 0xa9, 0x01, 0x05, 0x88, 0xac]" True] by auto

text \<open>A script of nominal pushes is parsed back from its serialisation, and
  \<open>serialized_size\<close> is the length of that serialisation.\<close>

theorem operations_round_trip:
  assumes "list_all nominal ops" "fits (operations_to_data ops)"
  shows "parse_operations (operations_to_data ops) = Some ops \<and>
    operations_size ops = length (operations_to_data ops)"
  using parse_operations_to_data [OF assms] operations_size_eq by simp

theorem operations_round_trip_witness:
  "parse_operations (operations_to_data [operation_of_data [1, 2] False, operation_of_data [] False]) =
     Some [operation_of_data [1, 2] False, operation_of_data [] False]"
proof (rule operations_round_trip [THEN conjunct1])
  show "list_all nominal [operation_of_data [1, 2] False, operation_of_data [] False]"
    using operation_of_data_parsed [of "[1, 2]"] operation_of_data_parsed [of "[]"]
    by (simp add: operation_of_data_nominal invalid_operation_def)
  show "fits (operations_to_data [operation_of_data [1, 2] False, operation_of_data [] False])"
    by (simp add: operations_to_data_def operation_of_data_nominal operation_to_data_def
        opcode_from_size_def Let_def)
qed

text \<open>A script on the wire (with its size in front) is read back from its serialisation, whatever
  stands around it, provided it is within the block size limit.\<close>

theorem script_round_trip:
  assumes "length bytes \<le> static_absolute_max_block_size"
    and "fits (pre @ script_to_data True (script_of_bytes bytes) @ post)"
  shows "script_from_data True (reader_at pre (script_to_data True (script_of_bytes bytes) @ post)) =
    Got (script_of_bytes bytes) (reader_at (pre @ script_to_data True (script_of_bytes bytes)) post)"
  using assms by (intro script_codec.dec_enc) (auto simp: script_of_bytes_def)

theorem script_round_trip_witness:
  "script_from_data True (reader_at [] (script_to_data True (script_of_bytes [0x51, 0x52]) @ [3])) =
    Got (script_of_bytes [0x51, 0x52])
      (reader_at ([] @ script_to_data True (script_of_bytes [0x51, 0x52])) [3])"
  by (rule script_round_trip)
    (simp_all add: length_script_to_data script_serialized_size_def script_of_bytes_def Let_def
      variable_uint_size_def)

text \<open>No list of operations matches two output patterns, so the order in which \<open>output_pattern\<close>
  tests them is immaterial, and the scripts built for a hash or a key are classified as what they
  were built for.\<close>

theorem output_pattern_classifies:
  "length (filter id [is_pay_public_key_hash_pattern ops, is_pay_script_hash_pattern ops,
     is_pay_script_hash_32_pattern ops, is_null_data_pattern ops, is_pay_public_key_pattern ops,
     is_pay_multisig_pattern ops]) \<le> 1 \<and>
   (length h = 20 \<longrightarrow> output_pattern (to_pay_public_key_hash_pattern h) = pay_public_key_hash \<and>
      output_pattern (to_pay_script_hash_pattern h) = pay_script_hash) \<and>
   (length h = 32 \<longrightarrow> output_pattern (to_pay_script_hash_32_pattern h) = pay_script_hash_32) \<and>
   (is_public_key h \<longrightarrow> output_pattern (to_pay_public_key_pattern h) = pay_public_key)"
  using output_patterns_exclusive output_pattern_to_pay by blast

theorem output_pattern_classifies_witness:
  "output_pattern (to_pay_public_key_hash_pattern (replicate 20 7)) = pay_public_key_hash"
  using output_pattern_classifies [of "[]" "replicate 20 7"] by simp

text \<open>An m-of-n multisig script built by \<open>to_pay_multisig_pattern\<close> matches the multisig
  pattern, and counting its signature operations accurately gives n, as many as it has keys.\<close>

theorem multisig_sigops_accurate:
  assumes "1 \<le> unat m" "unat m \<le> length points" "length points \<le> 16" "list_all is_public_key points"
  shows "is_pay_multisig_pattern (to_pay_multisig_pattern m points) \<and>
    sigops (to_pay_multisig_pattern m points) True = length points"
  using to_pay_multisig [OF assms] by blast

theorem multisig_sigops_accurate_witness:
  "sigops (to_pay_multisig_pattern 1 [2 # replicate 32 5, 3 # replicate 32 6]) True = 2"
  using multisig_sigops_accurate [of 1 "[2 # replicate 32 5, 3 # replicate 32 6]"]
  by (simp add: is_public_key_def is_compressed_key_def)

end
