(* ===== verification/Tx_Primitives.thy ===== *)
theory Tx_Primitives
  imports Script
begin

text \<open>
  The parts of a transaction: points (\<open>domain/src/chain/point.cpp\<close>), CashTokens data
  (\<open>domain/include/kth/domain/chain/token_data.hpp\<close>), outputs (\<open>output_basis.cpp\<close>), output points
  with the metadata validation fills in (\<open>output_point.cpp\<close>) and inputs (\<open>input_basis.cpp\<close>). Each has
  its writer and its reader, and an interpretation of \<open>codec\<close> says on which values the reader undoes
  the writer. A \<open>bool\<close> argument \<open>wire\<close> chooses between the protocol's and the database's format, as
  in the code.
\<close>

section \<open>Points\<close>

abbreviation null_index :: u32 where "null_index \<equiv> 0xffffffff"

definition null_hash :: bytes where
  "null_hash = replicate 32 0"

record point =
  point_hash :: bytes
  point_index :: u32
  point_valid :: bool

definition point_default :: point where
  "point_default = \<lparr>point_hash = null_hash, point_index = 0, point_valid = False\<rparr>"

definition make_point :: "bytes \<Rightarrow> u32 \<Rightarrow> point" where
  "make_point hash index = \<lparr>point_hash = hash, point_index = index, point_valid = True\<rparr>"

definition point_is_valid :: "'a point_scheme \<Rightarrow> bool" where
  "point_is_valid p \<longleftrightarrow> point_valid p \<or> point_hash p \<noteq> null_hash \<or> point_index p \<noteq> 0"

definition point_is_null :: "'a point_scheme \<Rightarrow> bool" where
  "point_is_null p \<longleftrightarrow> point_index p = null_index \<and> point_hash p = null_hash"

text \<open>The mask keeps the upper 49 bits of eight bytes of the hash and the lower 15 of the index.\<close>

definition point_checksum :: "'a point_scheme \<Rightarrow> u64" where
  "point_checksum p =
     (let mask = 0xffffffffffff8000 :: u64;
          tx = from_little_endian_unsafe (take 8 (drop 12 (point_hash p)));
          index = ucast (point_index p)
      in (tx AND mask) OR (index AND NOT mask))"

definition read_hash :: "bytes reader" where
  "read_hash = read_bytes hash_size"

definition point_from_data :: "bool \<Rightarrow> point reader" where
  "point_from_data wire =
     rbind read_hash (\<lambda>hash.
       if \<not> wire then
         rbind (read_little_endian 2) (\<lambda>index :: u16.
           if index = 0xffff then rreturn (make_point hash null_index)
           else rreturn (make_point hash (ucast index)))
       else rbind (read_little_endian 4) (\<lambda>index. rreturn (make_point hash index)))"

definition point_to_data :: "bool \<Rightarrow> 'a point_scheme \<Rightarrow> bytes" where
  "point_to_data wire p =
     point_hash p @
     (if wire then write_4_bytes_little_endian (point_index p)
      else write_2_bytes_little_endian (ucast (point_index p)))"

definition point_serialized_size :: "bool \<Rightarrow> nat" where
  "point_serialized_size wire = (if wire then hash_size + 4 else hash_size + 2)"

section \<open>Tokens\<close>

abbreviation (input) PREFIX_BYTE :: u8 where "PREFIX_BYTE \<equiv> 0xef"

datatype capability = cap_none | cap_mut | cap_minting

text \<open>The variant of \<open>token_data_t\<close>; an \<open>amount_t\<close> is the bit pattern of an \<open>int64_t\<close>.\<close>

datatype token_kind =
    fungible (amount: u64)
  | non_fungible capability bytes
  | both_kinds u64 capability bytes

record token_data =
  token_id :: bytes
  token_kind :: token_kind

definition capability_byte :: "capability \<Rightarrow> u8" where
  "capability_byte c = (case c of cap_none \<Rightarrow> 0 | cap_mut \<Rightarrow> 1 | cap_minting \<Rightarrow> 2)"

definition token_is_valid :: "token_data \<Rightarrow> bool" where
  "token_is_valid t \<longleftrightarrow>
     (case token_kind t of
        fungible a \<Rightarrow> sint a > 0
      | non_fungible c m \<Rightarrow> True
      | both_kinds a c m \<Rightarrow> sint a > 0)"

definition commitment_size :: "bytes \<Rightarrow> nat" where
  "commitment_size m = (if length m = 0 then 0 else variable_uint_size (of_nat (length m)) + length m)"

definition token_serialized_size :: "token_data \<Rightarrow> nat" where
  "token_serialized_size t =
     length (token_id t) + 1 +
     (case token_kind t of
        fungible a \<Rightarrow> variable_uint_size a
      | non_fungible c m \<Rightarrow> commitment_size m
      | both_kinds a c m \<Rightarrow> variable_uint_size a + commitment_size m)"

definition bitfield_non_fungible :: "capability \<Rightarrow> bytes \<Rightarrow> u8" where
  "bitfield_non_fungible c m = (if m = [] then 0 else 0x40) OR 0x20 OR capability_byte c"

definition token_bitfield :: "token_data \<Rightarrow> u8" where
  "token_bitfield t =
     (case token_kind t of
        fungible a \<Rightarrow> 0x10
      | non_fungible c m \<Rightarrow> bitfield_non_fungible c m
      | both_kinds a c m \<Rightarrow> 0x10 OR bitfield_non_fungible c m)"

definition commitment_to_data :: "bytes \<Rightarrow> bytes" where
  "commitment_to_data m = (if m = [] then [] else write_size_little_endian (length m) @ m)"

definition token_to_data :: "token_data \<Rightarrow> bytes" where
  "token_to_data t =
     token_id t @ [token_bitfield t] @
     (case token_kind t of
        fungible a \<Rightarrow> write_variable_little_endian a
      | non_fungible c m \<Rightarrow> commitment_to_data m
      | both_kinds a c m \<Rightarrow> commitment_to_data m @ write_variable_little_endian a)"

definition has_nft :: "u8 \<Rightarrow> bool" where "has_nft bitfield \<longleftrightarrow> bitfield AND 0x20 \<noteq> 0"
definition has_amount :: "u8 \<Rightarrow> bool" where "has_amount bitfield \<longleftrightarrow> bitfield AND 0x10 \<noteq> 0"
definition has_commitment :: "u8 \<Rightarrow> bool" where "has_commitment bitfield \<longleftrightarrow> bitfield AND 0x40 \<noteq> 0"

definition token_capability :: "u8 \<Rightarrow> capability" where
  "token_capability bitfield =
     (let c = bitfield AND 0x0f in if c = 0 then cap_none else if c = 1 then cap_mut else cap_minting)"

definition is_valid_bitfield :: "u8 \<Rightarrow> bool" where
  "is_valid_bitfield bitfield \<longleftrightarrow>
     (let structure = bitfield AND 0xf0; cap = bitfield AND 0x0f in
      if structure \<ge> 0x80 \<or> structure = 0 then False
      else if cap > 2 then False
      else if \<not> has_nft bitfield \<and> \<not> has_amount bitfield then False
      else if \<not> has_nft bitfield \<and> cap \<noteq> 0 then False
      else if \<not> has_nft bitfield \<and> has_commitment bitfield then False
      else True)"

text \<open>\<open>detail::from_data\<close> for a non-fungible token: the size is used without any check.\<close>

definition commitment_from_data :: "bool \<Rightarrow> bytes reader" where
  "commitment_from_data has_comm =
     (if \<not> has_comm then rreturn []
      else rbind read_size_little_endian read_bytes)"

definition token_from_data :: "token_data reader" where
  "token_from_data =
     rbind read_hash (\<lambda>id. rbind read_byte (\<lambda>bitfield.
       if \<not> is_valid_bitfield bitfield then rfail (Serial_error err_invalid_bitfield)
       else if has_nft bitfield \<and> has_amount bitfield then
         rbind (commitment_from_data (has_commitment bitfield)) (\<lambda>m.
         rbind read_variable_little_endian (\<lambda>a.
           rreturn \<lparr>token_id = id, token_kind = both_kinds a (token_capability bitfield) m\<rparr>))
       else if has_nft bitfield then
         rbind (commitment_from_data (has_commitment bitfield)) (\<lambda>m.
           rreturn \<lparr>token_id = id, token_kind = non_fungible (token_capability bitfield) m\<rparr>)
       else
         rbind read_variable_little_endian (\<lambda>a.
           rreturn \<lparr>token_id = id, token_kind = fungible a\<rparr>)))"

section \<open>Outputs\<close>

abbreviation not_found :: u64 where "not_found \<equiv> 0xffffffffffffffff"

record tx_output =
  out_value :: u64
  out_script :: script
  out_token :: "token_data option"

definition output_default :: tx_output where
  "output_default = \<lparr>out_value = not_found, out_script = script_default, out_token = None\<rparr>"

definition output_is_valid :: "tx_output \<Rightarrow> bool" where
  "output_is_valid out \<longleftrightarrow>
     out_value out \<noteq> not_found \<and> (case out_token out of None \<Rightarrow> True | Some t \<Rightarrow> token_is_valid t)"

text \<open>Subtraction of \<open>size_t\<close> values.\<close>

definition size_sub :: "nat \<Rightarrow> nat \<Rightarrow> nat" where
  "size_sub a b = (a + (size_t_range - b)) mod size_t_range"

text \<open>
  The byte behind the script's size is inspected for the token prefix whether or not it belongs to the
  script, and the size taken off is that of the token's own serialisation.
\<close>

definition output_from_data :: "tx_output reader" where
  "output_from_data =
     rbind (read_little_endian 8) (\<lambda>val.
     rbind read_size_little_endian (\<lambda>script_size.
     rbind peek_byte (\<lambda>prefix.
       if prefix = PREFIX_BYTE then
         (\<lambda>r. rbind token_from_data (\<lambda>t.
           rbind (script_from_data_with_size
                   (size_sub (size_sub script_size (token_serialized_size t)) 1)) (\<lambda>s.
             rreturn \<lparr>out_value = val, out_script = s, out_token = Some t\<rparr>))
          (case skip 1 r of Got _ r' \<Rightarrow> r' | _ \<Rightarrow> r))
       else
         rbind (script_from_data_with_size script_size) (\<lambda>s.
           rreturn \<lparr>out_value = val, out_script = s, out_token = None\<rparr>))))"

definition token_opt_size :: "token_data option \<Rightarrow> nat" where
  "token_opt_size t = (case t of None \<Rightarrow> 0 | Some t \<Rightarrow> token_serialized_size t)"

definition output_to_data :: "tx_output \<Rightarrow> bytes" where
  "output_to_data out =
     write_8_bytes_little_endian (out_value out) @
     (case out_token out of
        None \<Rightarrow> script_to_data True (out_script out)
      | Some t \<Rightarrow>
          write_variable_little_endian
            (of_nat (token_opt_size (out_token out) + script_serialized_size (out_script out) False + 1)) @
          [PREFIX_BYTE] @ token_to_data t @ script_to_data False (out_script out))"

text \<open>
  \<open>serialized_size\<close> adds the size of the prefixed script alone to that of the token, so with a token
  the length prefix is counted for the wrong number.
\<close>

definition output_serialized_size :: "tx_output \<Rightarrow> nat" where
  "output_serialized_size out =
     8 + script_serialized_size (out_script out) True + token_opt_size (out_token out) +
     (if out_token out = None then 0 else 1)"

text \<open>
  \<open>chain::output\<close> adds the height of its spender, which only the store format writes. An output in the
  model has no such height: no spend is recorded in it, and an output of a transaction is written as
  unspent.
\<close>

abbreviation not_spent :: u32 where "not_spent \<equiv> 0xffffffff"

definition stored_output_from_data :: "(tx_output \<times> u32) reader" where
  "stored_output_from_data =
     rbind (read_little_endian 4) (\<lambda>height. rbind output_from_data (\<lambda>out. rreturn (out, height)))"

definition stored_output_to_data :: "tx_output \<times> u32 \<Rightarrow> bytes" where
  "stored_output_to_data out = write_4_bytes_little_endian (snd out) @ output_to_data (fst out)"

definition chain_output_from_data :: "bool \<Rightarrow> tx_output reader" where
  "chain_output_from_data wire =
     (if wire then output_from_data else rbind stored_output_from_data (\<lambda>out. rreturn (fst out)))"

definition chain_output_to_data :: "bool \<Rightarrow> tx_output \<Rightarrow> bytes" where
  "chain_output_to_data wire out =
     (if wire then output_to_data out else stored_output_to_data (out, not_spent))"

definition chain_output_serialized_size :: "bool \<Rightarrow> tx_output \<Rightarrow> nat" where
  "chain_output_serialized_size wire out = (if wire then 0 else 4) + output_serialized_size out"

section \<open>Output points and inputs\<close>

text \<open>\<open>output_point::validation_type\<close>, filled from the database before an input is validated.\<close>

record prevout_metadata =
  pv_spent :: bool
  pv_confirmed :: bool
  pv_coinbase :: bool
  pv_height :: nat
  pv_median_time_past :: u32
  pv_cache :: tx_output

definition prevout_default :: prevout_metadata where
  "prevout_default = \<lparr>pv_spent = False, pv_confirmed = False, pv_coinbase = False, pv_height = 0,
     pv_median_time_past = 0, pv_cache = output_default\<rparr>"

record output_point = point +
  validation :: prevout_metadata

definition output_point_of :: "point \<Rightarrow> output_point" where
  "output_point_of p = point.extend p \<lparr>validation = prevout_default\<rparr>"

abbreviation coinbase_maturity :: nat where "coinbase_maturity \<equiv> 100"

definition floor_subtract :: "nat \<Rightarrow> nat \<Rightarrow> nat" where
  "floor_subtract left right = (if right \<ge> left then 0 else left - right)"

definition output_point_is_mature :: "output_point \<Rightarrow> nat \<Rightarrow> bool" where
  "output_point_is_mature p height \<longleftrightarrow>
     (if \<not> pv_coinbase (validation p) \<or> point_is_null p then True
      else floor_subtract height (pv_height (validation p)) \<ge> coinbase_maturity)"

record tx_input =
  in_prevout :: output_point
  in_script :: script
  in_sequence :: u32

abbreviation max_input_sequence :: u32 where "max_input_sequence \<equiv> 0xffffffff"
abbreviation relative_locktime_disabled :: u32 where "relative_locktime_disabled \<equiv> 0x80000000"
abbreviation relative_locktime_time_locked :: u32 where "relative_locktime_time_locked \<equiv> 0x00400000"
abbreviation relative_locktime_mask :: u32 where "relative_locktime_mask \<equiv> 0x0000ffff"

definition input_from_data :: "bool \<Rightarrow> tx_input reader" where
  "input_from_data wire =
     rbind (point_from_data wire) (\<lambda>p. rbind (script_from_data True) (\<lambda>s.
     rbind (read_little_endian 4) (\<lambda>q.
       rreturn \<lparr>in_prevout = output_point_of p, in_script = s, in_sequence = q\<rparr>)))"

definition input_to_data :: "bool \<Rightarrow> tx_input \<Rightarrow> bytes" where
  "input_to_data wire i =
     point_to_data wire (in_prevout i) @ script_to_data True (in_script i) @
     write_4_bytes_little_endian (in_sequence i)"

definition input_serialized_size :: "bool \<Rightarrow> tx_input \<Rightarrow> nat" where
  "input_serialized_size wire i =
     point_serialized_size wire + script_serialized_size (in_script i) True + 4"

definition input_is_final :: "tx_input \<Rightarrow> bool" where
  "input_is_final i \<longleftrightarrow> in_sequence i = max_input_sequence"

text \<open>\<open>uint32_t\<close> and \<open>size_t\<close> differences wrap; the asserts above them are off in release builds.\<close>

definition input_is_locked :: "tx_input \<Rightarrow> nat \<Rightarrow> u32 \<Rightarrow> bool" where
  "input_is_locked i block_height median_time_past \<longleftrightarrow>
     (if in_sequence i AND relative_locktime_disabled \<noteq> 0 then False
      else
        let minimum = in_sequence i AND relative_locktime_mask; prevout = validation (in_prevout i) in
        if in_sequence i AND relative_locktime_time_locked \<noteq> 0 then
          median_time_past - pv_median_time_past prevout < push_bit 9 minimum
        else size_sub block_height (pv_height prevout) < unat minimum)"

text \<open>\<open>extract_embedded_script\<close>, on the parsed operations of the two scripts.\<close>

definition extract_embedded_script ::
  "operation list \<Rightarrow> operation list \<Rightarrow> error_code + script" where
  "extract_embedded_script ops prevout_ops =
     (if \<not> is_pay_to_script_hash prevout_ops bip16_rule \<and>
         \<not> is_pay_to_script_hash_32 prevout_ops bch_gauss
      then Inl (Serial_error err_invalid_script_type)
      else if ops = [] \<or> \<not> is_relaxed_push ops then Inl (Serial_error err_script_not_push_only)
      else Inr (script_of_bytes (op_data (last ops))))"

text \<open>\<open>None\<close> where one of the scripts cannot be parsed.\<close>

definition input_signature_operations :: "tx_input \<Rightarrow> bool \<Rightarrow> nat option" where
  "input_signature_operations i bip16 = do {
     ops \<leftarrow> script_operations (in_script i);
     let sigs = sigops ops False;
     if bip16 then do {
       prevout_ops \<leftarrow> script_operations (out_script (pv_cache (validation (in_prevout i))));
       case extract_embedded_script ops prevout_ops of
         Inl e \<Rightarrow> Some sigs
       | Inr embedded \<Rightarrow> do {
           embedded_ops \<leftarrow> script_operations embedded;
           Some (sigs + sigops embedded_ops True) } }
     else Some sigs }"


section \<open>Points and tokens are codecs\<close>

interpretation hash_codec: codec "\<lambda>h. h" read_hash "\<lambda>h. length h = hash_size"
  by unfold_locales (simp add: read_hash_def read_bytes_at)

abbreviation wire_point :: "point \<Rightarrow> bool" where
  "wire_point p \<equiv> point_valid p \<and> length (point_hash p) = hash_size"

abbreviation store_point :: "point \<Rightarrow> bool" where
  "store_point p \<equiv> wire_point p \<and> (point_index p = null_index \<or> unat (point_index p) < max_uint16)"

lemma make_point_eq: "point_valid p \<Longrightarrow> make_point (point_hash p) (point_index p) = p"
  by (cases p) (simp add: make_point_def)

interpretation point_wire: codec "point_to_data True" "point_from_data True" wire_point
  by unfold_locales (simp add: point_to_data_def point_from_data_def codec_simps make_point_eq)

lemma store_index:
  assumes "i = null_index \<or> unat i < max_uint16"
  shows "(ucast i :: u16) = 0xffff \<longleftrightarrow> i = null_index"
    and "i \<noteq> null_index \<Longrightarrow> ucast (ucast i :: u16) = i"
proof -
  have u: "unat (ucast i :: u16) = unat i mod 65536"
    by (simp add: unsigned_ucast_eq take_bit_eq_mod)
  show "(ucast i :: u16) = 0xffff \<longleftrightarrow> i = null_index"
    using assms u by (auto simp: word_unat_eq_iff [where 'a = 16])
  show "i \<noteq> null_index \<Longrightarrow> ucast (ucast i :: u16) = i"
    using assms by (simp add: word_unat_eq_iff unsigned_take_bit_eq unsigned_ucast_eq take_bit_nat_eq_self)
qed

interpretation point_store: codec "point_to_data False" "point_from_data False" store_point
proof unfold_locales
  fix p :: point and pre post
  assume fit: "fits (pre @ point_to_data False p @ post)" and ok: "store_point p"
  note [simp] = make_point_eq [OF conjunct1 [OF conjunct1 [OF ok]]]
  show "point_from_data False (reader_at pre (point_to_data False p @ post)) =
      Got p (reader_at (pre @ point_to_data False p) post)"
  proof (cases "point_index p = null_index")
    case True
    with fit ok show ?thesis
      using make_point_eq [of p] by (simp add: point_to_data_def point_from_data_def codec_simps)
  next
    case False
    with fit ok show ?thesis using store_index [of "point_index p"]
      by (simp add: point_to_data_def point_from_data_def codec_simps)
  qed
qed

lemma length_point_to_data:
  "length (point_hash p) = hash_size \<Longrightarrow> length (point_to_data wire p) = point_serialized_size wire"
  by (simp add: point_to_data_def point_serialized_size_def)

abbreviation wf_token :: "token_data \<Rightarrow> bool" where
  "wf_token t \<equiv> length (token_id t) = hash_size"

lemma length_commitment_to_data: "length (commitment_to_data m) = commitment_size m"
  by (simp add: commitment_to_data_def commitment_size_def length_write_size)

lemma length_token_to_data: "length (token_to_data t) = token_serialized_size t"
  by (simp add: token_to_data_def token_serialized_size_def length_commitment_to_data split: token_kind.splits)

lemma commitment_at:
  assumes "fits (pre @ commitment_to_data m @ post)"
  shows "rbind (commitment_from_data (m \<noteq> [])) f (reader_at pre (commitment_to_data m @ post)) =
    f m (reader_at (pre @ commitment_to_data m) post)"
proof (cases "m = []")
  case False
  with assms have "read_bytes (length m) (reader_at (pre @ write_size_little_endian (length m)) (m @ post)) =
      Got m (reader_at ((pre @ write_size_little_endian (length m)) @ m) post)"
    by (intro read_bytes_at) (simp_all add: commitment_to_data_def)
  with False assms show ?thesis
    by (simp add: commitment_from_data_def commitment_to_data_def codec_simps rbind_assoc)
qed (simp add: commitment_from_data_def commitment_to_data_def)

lemma bitfield_classes:
  "is_valid_bitfield (0x10 OR b) \<and> is_valid_bitfield b \<and> has_nft b \<and> \<not> has_amount b \<and>
   has_nft (0x10 OR b) \<and> has_amount (0x10 OR b) \<and> (has_commitment b \<longleftrightarrow> m \<noteq> []) \<and>
   (has_commitment (0x10 OR b) \<longleftrightarrow> m \<noteq> []) \<and> token_capability b = c \<and> token_capability (0x10 OR b) = c"
  if "b = bitfield_non_fungible c m"
  unfolding that by (cases c; cases "m = []")
    (simp_all add: bitfield_non_fungible_def capability_byte_def is_valid_bitfield_def has_nft_def
      has_amount_def has_commitment_def token_capability_def Let_def)

lemma bitfield_fungible:
  "is_valid_bitfield 0x10" "\<not> has_nft 0x10"
  by (simp_all add: is_valid_bitfield_def has_nft_def has_amount_def has_commitment_def Let_def)

interpretation token_codec: codec token_to_data token_from_data wf_token
proof unfold_locales
  fix t pre post
  assume fit: "fits (pre @ token_to_data t @ post)" and ok: "wf_token t"
  show "token_from_data (reader_at pre (token_to_data t @ post)) =
      Got t (reader_at (pre @ token_to_data t) post)"
  proof (cases "token_kind t")
    case (fungible a)
    with fit ok show ?thesis
      by (cases t) (simp add: token_to_data_def token_from_data_def token_bitfield_def codec_simps
          bitfield_fungible rbind_def [of read_byte])
  next
    case (non_fungible c m)
    note b = bitfield_classes [OF refl, of c m]
    from fit ok non_fungible show ?thesis
      by (cases t) (simp add: token_to_data_def token_from_data_def token_bitfield_def codec_simps
          b commitment_at rbind_def [of read_byte])
  next
    case (both_kinds a c m)
    note b = bitfield_classes [OF refl, of c m]
    from fit ok both_kinds show ?thesis
      by (cases t) (simp add: token_to_data_def token_from_data_def token_bitfield_def codec_simps
          b commitment_at rbind_def [of read_byte])
  qed
qed


section \<open>Outputs and inputs are codecs\<close>

lemma script_to_data_parts:
  "script_to_data True s = write_size_little_endian (length (script_bytes s)) @ script_bytes s"
  "script_to_data False s = script_bytes s"
  by (simp_all add: script_to_data_def script_serialized_size_def write_size_little_endian_def)

lemma size_sub_exact: "b \<le> a \<Longrightarrow> a < size_t_range \<Longrightarrow> size_sub a b = a - b"
  by (simp add: size_sub_def mod_if)

text \<open>
  What an output must satisfy to be read back: without a token its script must not be empty and must
  not begin with the token prefix.
\<close>

definition wf_output :: "tx_output \<Rightarrow> bool" where
  "wf_output out \<longleftrightarrow> plain_script (out_script out) \<and>
     (case out_token out of
        None \<Rightarrow> script_bytes (out_script out) \<noteq> [] \<and> hd (script_bytes (out_script out)) \<noteq> PREFIX_BYTE
      | Some t \<Rightarrow> wf_token t)"

lemma script_sized_at:
  "plain_script s \<Longrightarrow> fits (pre @ script_bytes s @ post) \<Longrightarrow>
   rbind (script_from_data_with_size (length (script_bytes s))) f (reader_at pre (script_bytes s @ post)) =
     f s (reader_at (pre @ script_bytes s) post)"
  by (simp add: rbind_def script_from_data_with_size_at)

lemma peek_at: "rbind peek_byte f (reader_at pre (b # post)) = f b (reader_at pre (b # post))"
  by (simp add: rbind_def peek_byte_at)

interpretation output_codec: codec output_to_data output_from_data wf_output
proof unfold_locales
  fix out pre post
  assume fit: "fits (pre @ output_to_data out @ post)" and ok: "wf_output out"
  let ?s = "out_script out" and ?b = "script_bytes (out_script out)"
  show "output_from_data (reader_at pre (output_to_data out @ post)) =
      Got out (reader_at (pre @ output_to_data out) post)"
  proof (cases "out_token out")
    case None
    with ok obtain c cs where b: "?b = c # cs" "c \<noteq> PREFIX_BYTE" and pl: "plain_script ?s"
      by (auto simp: wf_output_def neq_Nil_conv)
    let ?pre = "pre @ write_8_bytes_little_endian (out_value out) @ write_size_little_endian (length ?b)"
    have "rbind (script_from_data_with_size (length ?b)) f (reader_at ?pre (?b @ post)) =
        f ?s (reader_at (?pre @ ?b) post)" for f :: "script \<Rightarrow> tx_output reader"
      using fit None pl by (intro script_sized_at) (simp_all add: output_to_data_def script_to_data_parts)
    with fit None b pl show ?thesis
      by (cases out) (simp add: output_to_data_def output_from_data_def script_to_data_parts codec_simps
          peek_at)
  next
    case (Some t)
    with ok have t: "wf_token t" and pl: "plain_script ?s" by (simp_all add: wf_output_def)
    define n where "n = token_serialized_size t + length ?b + 1"
    define head where "head = write_8_bytes_little_endian (out_value out) @ write_size_little_endian n"
    have e: "output_to_data out = head @ [PREFIX_BYTE] @ token_to_data t @ ?b"
      by (simp add: output_to_data_def Some token_opt_size_def script_serialized_size_def n_def head_def
          script_to_data_parts write_size_little_endian_def)
    have "n \<le> length (output_to_data out)" by (simp add: e n_def length_token_to_data)
    with fit have n: "n < size_t_range" by simp
    then have sub: "size_sub (size_sub n (token_serialized_size t)) (Suc 0) = length ?b"
      by (simp add: n_def size_sub_exact)
    have "skip (length [PREFIX_BYTE]) (reader_at (pre @ head) ([PREFIX_BYTE] @ token_to_data t @ ?b @ post)) =
        Got () (reader_at ((pre @ head) @ [PREFIX_BYTE]) (token_to_data t @ ?b @ post))"
      using fit e by (intro skip_at) simp
    moreover have "rbind token_from_data f
          (reader_at ((pre @ head) @ [PREFIX_BYTE]) (token_to_data t @ ?b @ post)) =
        f t (reader_at (((pre @ head) @ [PREFIX_BYTE]) @ token_to_data t) (?b @ post))"
      for f :: "token_data \<Rightarrow> tx_output reader"
      using fit e t by (intro token_codec.rbind_enc) simp_all
    moreover have "rbind (script_from_data_with_size (length ?b)) f
          (reader_at (((pre @ head) @ [PREFIX_BYTE]) @ token_to_data t) (?b @ post)) =
        f ?s (reader_at ((((pre @ head) @ [PREFIX_BYTE]) @ token_to_data t) @ ?b) post)"
      for f :: "script \<Rightarrow> tx_output reader"
      using fit e pl by (intro script_sized_at) simp_all
    moreover have "rbind (read_little_endian 8) (\<lambda>v. rbind read_size_little_endian (f v))
          (reader_at pre (head @ [PREFIX_BYTE] @ token_to_data t @ ?b @ post)) =
        f (out_value out) n (reader_at (pre @ head) ([PREFIX_BYTE] @ token_to_data t @ ?b @ post))"
      for f :: "u64 \<Rightarrow> nat \<Rightarrow> tx_output reader"
      using fit e n by (simp add: head_def codec_simps)
    moreover have "\<lparr>out_value = out_value out, out_script = ?s, out_token = Some t\<rparr> = out"
      using Some by (cases out) simp
    ultimately show ?thesis by (simp add: e output_from_data_def peek_at sub)
  qed
qed


interpretation stored_output: codec stored_output_to_data stored_output_from_data "\<lambda>out. wf_output (fst out)"
  by unfold_locales (simp add: stored_output_to_data_def stored_output_from_data_def codec_simps)

lemma chain_output_codec: "codec (chain_output_to_data wire) (chain_output_from_data wire) wf_output"
  by unfold_locales
    (cases wire; simp add: chain_output_to_data_def chain_output_from_data_def output_codec.dec_enc stored_output.rbind_enc
      rreturn_def)

interpretation output_wire: codec "chain_output_to_data True" "chain_output_from_data True" wf_output
  by (rule chain_output_codec)

interpretation output_store: codec "chain_output_to_data False" "chain_output_from_data False" wf_output
  by (rule chain_output_codec)

lemma length_output_to_data:
  "out_token out = None \<Longrightarrow> length (output_to_data out) = output_serialized_size out"
  by (simp add: output_to_data_def output_serialized_size_def length_script_to_data token_opt_size_def)

abbreviation fresh_output_point :: "output_point \<Rightarrow> bool" where
  "fresh_output_point p \<equiv> validation p = prevout_default"

definition wf_input :: "bool \<Rightarrow> tx_input \<Rightarrow> bool" where
  "wf_input wire i \<longleftrightarrow>
     (if wire then wire_point (point.truncate (in_prevout i)) else store_point (point.truncate (in_prevout i))) \<and>
     fresh_output_point (in_prevout i) \<and> plain_script (in_script i)"

lemma point_to_data_truncate: "point_to_data wire (point.truncate p) = point_to_data wire p"
  by (simp add: point_to_data_def point.truncate_def)

lemma output_point_of_truncate:
  "fresh_output_point p \<Longrightarrow> output_point_of (point.truncate p) = p"
  by (cases p) (simp add: output_point_of_def point.extend_def point.truncate_def)

lemma input_codec: "codec (input_to_data wire) (input_from_data wire) (wf_input wire)"
proof unfold_locales
  fix i pre post
  assume fit: "fits (pre @ input_to_data wire i @ post)" and ok: "wf_input wire i"
  let ?p = "point.truncate (in_prevout i)"
  have e: "input_to_data wire i = point_to_data wire ?p @ script_to_data True (in_script i) @
      write_4_bytes_little_endian (in_sequence i)"
    by (simp add: input_to_data_def point_to_data_truncate)
  have i: "output_point_of ?p = in_prevout i" and s: "plain_script (in_script i)"
    using ok output_point_of_truncate by (auto simp: wf_input_def)
  have "rbind (point_from_data wire) f (reader_at pre (point_to_data wire ?p @ rest)) =
      f ?p (reader_at (pre @ point_to_data wire ?p) rest)"
    if "fits (pre @ point_to_data wire ?p @ rest)" for rest and f :: "point \<Rightarrow> tx_input reader"
    using ok that point_wire.rbind_enc [of ?p pre rest f] point_store.rbind_enc [of ?p pre rest f]
    by (cases wire) (auto simp: wf_input_def)
  moreover have "\<lparr>in_prevout = in_prevout i, in_script = in_script i, in_sequence = in_sequence i\<rparr> = i"
    by (cases i) simp
  ultimately show "input_from_data wire (reader_at pre (input_to_data wire i @ post)) =
      Got i (reader_at (pre @ input_to_data wire i) post)"
    using fit s i by (simp add: e input_from_data_def codec_simps)
qed

interpretation input_wire: codec "input_to_data True" "input_from_data True" "wf_input True"
  by (rule input_codec)

interpretation input_store: codec "input_to_data False" "input_from_data False" "wf_input False"
  by (rule input_codec)

lemma length_input_to_data:
  "length (point_hash (in_prevout i)) = hash_size \<Longrightarrow>
   length (input_to_data wire i) = input_serialized_size wire i"
  by (simp add: input_to_data_def input_serialized_size_def length_point_to_data length_script_to_data)

end
