(* ===== verification/Checkpoint.thy ===== *)
theory Checkpoint
  imports Tx_Primitives
begin

text \<open>
  Checkpoints (infrastructure/src/config/checkpoint.cpp): a block hash that the chain must have at a height,
  their text form and their lists, over the base 16 format of infrastructure/src/formats/base_16.cpp.
\<close>

unbundle bit_operations_syntax

section \<open>Base 16\<close>

definition is_base16 :: "char \<Rightarrow> bool" where
  "is_base16 c \<longleftrightarrow>
     (let n = (of_char c :: nat) in 48 \<le> n \<and> n \<le> 57 \<or> 65 \<le> n \<and> n \<le> 70 \<or> 97 \<le> n \<and> n \<le> 102)"

definition from_hex :: "char \<Rightarrow> u32" where
  "from_hex c =
     (let n = (of_char c :: nat)
      in if 65 \<le> n \<and> n \<le> 70 then 10 + of_nat n - 65
         else if 97 \<le> n \<and> n \<le> 102 then 10 + of_nat n - 97
         else of_nat n - 48)"

fun decode_pairs :: "string \<Rightarrow> bytes" where
  "decode_pairs (a # b # cs) = ucast (push_bit 4 (from_hex a) + from_hex b) # decode_pairs cs"
| "decode_pairs _ = []"

definition decode_base16_private :: "nat \<Rightarrow> string \<Rightarrow> bytes option" where
  "decode_base16_private out_size cs =
     (if \<not> list_all is_base16 (take (2 * out_size) cs) then None
      else Some (decode_pairs (take (2 * out_size) cs)))"

definition decode_base16 :: "string \<Rightarrow> bytes option" where
  "decode_base16 cs =
     (if length cs mod 2 \<noteq> 0 then None else decode_base16_private (length cs div 2) cs)"

definition hex_digit :: "nat \<Rightarrow> char" where
  "hex_digit n = char_of (if n < 10 then 48 + n else 87 + n)"

definition encode_base16 :: "bytes \<Rightarrow> string" where
  "encode_base16 bs = concat (map (\<lambda>b. [hex_digit (unat b div 16), hex_digit (unat b mod 16)]) bs)"

definition encode_hash :: "bytes \<Rightarrow> string" where
  "encode_hash h = encode_base16 (rev h)"

definition decode_hash :: "string \<Rightarrow> bytes option" where
  "decode_hash cs =
     (if length cs \<noteq> 2 * hash_size then None
      else map_option rev (decode_base16_private hash_size cs))"

section \<open>Checkpoints\<close>

record checkpoint =
  cp_hash :: bytes
  cp_height :: nat

text \<open>The static initialisers; an exception is \<open>None\<close>.\<close>

definition checkpoint_of :: "string \<Rightarrow> nat \<Rightarrow> checkpoint option" where
  "checkpoint_of hash height = do {
     h \<leftarrow> decode_hash hash;
     Some \<lparr>cp_hash = h, cp_height = height\<rparr> }"

definition covered :: "nat \<Rightarrow> checkpoint list \<Rightarrow> bool" where
  "covered height checks \<longleftrightarrow> checks \<noteq> [] \<and> height \<le> cp_height (last checks)"

definition checkpoint_validate :: "bytes \<Rightarrow> nat \<Rightarrow> checkpoint list \<Rightarrow> bool" where
  "checkpoint_validate hash height checks \<longleftrightarrow>
     List.find (\<lambda>item. height = cp_height item \<and> hash \<noteq> cp_hash item) checks = None"

text \<open>The order of checkpoints of one height is unspecified in the library; here it is that of the list.\<close>

definition checkpoint_sort :: "checkpoint list \<Rightarrow> checkpoint list" where
  "checkpoint_sort checks = sort_key cp_height checks"

section \<open>Text\<close>

fun decimal :: "nat \<Rightarrow> string" where
  "decimal n = (if n < 10 then [hex_digit n] else decimal (n div 10) @ [hex_digit (n mod 10)])"

declare decimal.simps [simp del]

definition is_digit :: "char \<Rightarrow> bool" where
  "is_digit c \<longleftrightarrow> (let n = (of_char c :: nat) in 48 \<le> n \<and> n \<le> 57)"

definition is_lower_hex :: "char \<Rightarrow> bool" where
  "is_lower_hex c \<longleftrightarrow> is_digit c \<or> (let n = (of_char c :: nat) in 97 \<le> n \<and> n \<le> 102)"

definition digits_value :: "string \<Rightarrow> nat" where
  "digits_value cs = foldl (\<lambda>v c. 10 * v + (of_char c - 48)) 0 cs"

text \<open>The cast of a string of digits; the empty string and numbers out of range throw.\<close>

definition lexical_cast_size_t :: "string \<Rightarrow> nat option" where
  "lexical_cast_size_t cs =
     (if cs \<noteq> [] \<and> list_all is_digit cs \<and> digits_value cs < size_t_range then Some (digits_value cs) else None)"

definition checkpoint_to_string :: "checkpoint \<Rightarrow> string" where
  "checkpoint_to_string c = encode_hash (cp_hash c) @ '':'' @ decimal (cp_height c)"

text \<open>
  A word is read that matches 64 lower case hexadecimal digits and optionally a colon and one to twenty decimal
  digits. Without them the height is an empty match, whose cast throws.
\<close>

definition checkpoint_of_string :: "string \<Rightarrow> checkpoint option" where
  "checkpoint_of_string value =
     (let hash = take 64 value; rest = drop 64 value; digits = tl rest
      in if length hash = 64 \<and> list_all is_lower_hex hash \<and>
           (rest = [] \<or>
            hd rest = CHR '':'' \<and> list_all is_digit digits \<and> 1 \<le> length digits \<and> length digits \<le> 20)
         then do {
           h \<leftarrow> decode_hash hash;
           height \<leftarrow> lexical_cast_size_t digits;
           Some \<lparr>cp_hash = h, cp_height = height\<rparr> }
         else None)"

section \<open>Lemmas\<close>

lemma of_char_hex_digit: "n < 16 \<Longrightarrow> of_char (hex_digit n) = (if n < 10 then 48 + n else 87 + n)"
  by (simp add: hex_digit_def)

lemma of_char_hex_digit_less: "n < 10 \<Longrightarrow> of_char (hex_digit n) = 48 + n"
  by (simp add: hex_digit_def)

lemma is_lower_hex_base16: "is_lower_hex c \<Longrightarrow> is_base16 c"
  by (auto simp: is_lower_hex_def is_base16_def is_digit_def Let_def)

lemma is_lower_hex_digit: "n < 16 \<Longrightarrow> is_lower_hex (hex_digit n)"
  by (auto simp: is_lower_hex_def is_digit_def of_char_hex_digit Let_def)

lemma from_hex_digit: "n < 16 \<Longrightarrow> from_hex (hex_digit n) = of_nat n"
  by (auto simp: from_hex_def of_char_hex_digit Let_def)

lemma hex_byte: "ucast (push_bit 4 (of_nat (unat b div 16) :: u32) + of_nat (unat b mod 16)) = (b :: u8)"
proof -
  have "push_bit 4 (of_nat (unat b div 16) :: u32) + of_nat (unat b mod 16) =
      of_nat (unat b div 16 * 16 + unat b mod 16)"
    by (simp only: of_nat_add of_nat_mult push_bit_eq_mult) simp
  also have "\<dots> = of_nat (unat b)" by (simp only: div_mult_mod_eq)
  finally show ?thesis
    by (simp only: word_eq_iff_unsigned [where ?'a = nat] unat_ucast_mod unat_of_nat)
      (simp add: unat_u8_less [THEN less_trans])
qed

lemma encode_base16_Cons:
  "encode_base16 (b # bs) = hex_digit (unat b div 16) # hex_digit (unat b mod 16) # encode_base16 bs"
  by (simp add: encode_base16_def)

lemma byte_nibbles: "unat (b :: u8) div 16 < 16" "unat (b :: u8) mod 16 < 16"
  using unat_u8_less [of b] by (simp_all add: div_less_iff_less_mult)

lemma length_encode_base16 [simp]: "length (encode_base16 bs) = 2 * length bs"
  by (induction bs) (simp_all add: encode_base16_Cons encode_base16_def)

lemma encode_base16_lower: "list_all is_lower_hex (encode_base16 bs)"
  by (induction bs)
    (simp_all add: encode_base16_Cons is_lower_hex_digit byte_nibbles, simp add: encode_base16_def)

lemma decode_pairs_encode: "decode_pairs (encode_base16 bs) = bs"
  by (induction bs)
    (simp_all add: encode_base16_Cons from_hex_digit byte_nibbles hex_byte, simp add: encode_base16_def)

lemma decode_private_encode: "decode_base16_private (length bs) (encode_base16 bs) = Some bs"
  using encode_base16_lower [of bs]
  by (auto simp: decode_base16_private_def decode_pairs_encode list_all_iff dest: is_lower_hex_base16)

lemma decode_hash_encode: "length h = hash_size \<Longrightarrow> decode_hash (encode_hash h) = Some h"
  using decode_private_encode [of "rev h"] by (simp add: decode_hash_def encode_hash_def)

lemma digits_value_snoc: "digits_value (cs @ [c]) = 10 * digits_value cs + (of_char c - 48)"
  by (simp add: digits_value_def)

lemma is_digit_hex: "n < 10 \<Longrightarrow> is_digit (hex_digit n)"
  by (simp add: is_digit_def of_char_hex_digit_less Let_def)

lemma decimal_digits: "list_all is_digit (decimal n)"
  by (induction n rule: decimal.induct) (subst decimal.simps, simp add: is_digit_hex)

lemma digits_value_decimal: "digits_value (decimal n) = n"
proof (induction n rule: decimal.induct)
  case (1 n)
  then show ?case
    by (subst decimal.simps)
      (auto simp: digits_value_snoc of_char_hex_digit_less, simp add: digits_value_def of_char_hex_digit_less)
qed

lemma length_decimal: "n < 10 ^ k \<Longrightarrow> 0 < k \<Longrightarrow> 1 \<le> length (decimal n) \<and> length (decimal n) \<le> k"
proof (induction k arbitrary: n)
  case (Suc k)
  show ?case
  proof (cases "n < 10")
    case False
    then have k: "0 < k" using Suc.prems by (cases k) auto
    have "n div 10 < 10 ^ k" using Suc.prems by (simp add: div_less_iff_less_mult mult.commute)
    with Suc.IH k False show ?thesis by (subst (1 2) decimal.simps) simp
  qed (subst (1 2) decimal.simps, simp)
qed simp

section \<open>Properties\<close>

text \<open>A checkpoint printed as hash and height is read back, for every 32 byte hash and every height.\<close>

theorem checkpoint_round_trip:
  assumes "length (cp_hash c) = hash_size" "cp_height c < size_t_range"
  shows "checkpoint_of_string (checkpoint_to_string c) = Some c"
proof -
  have "length (encode_hash (cp_hash c)) = 64" using assms(1) by (simp add: encode_hash_def)
  moreover have "list_all is_lower_hex (encode_hash (cp_hash c))"
    by (simp add: encode_hash_def encode_base16_lower)
  moreover have "1 \<le> length (decimal (cp_height c)) \<and> length (decimal (cp_height c)) \<le> 20"
    using assms(2) by (intro length_decimal) simp_all
  moreover from this have "decimal (cp_height c) \<noteq> []" by auto
  ultimately show ?thesis
    using assms decimal_digits [of "cp_height c"] digits_value_decimal [of "cp_height c"]
    by (simp add: checkpoint_to_string_def checkpoint_of_string_def decode_hash_encode lexical_cast_size_t_def Let_def)
qed

theorem checkpoint_round_trip_witness:
  "checkpoint_of_string (checkpoint_to_string \<lparr>cp_hash = replicate 32 7, cp_height = 227931\<rparr>) =
     Some \<lparr>cp_hash = replicate 32 7, cp_height = 227931\<rparr>"
  by (rule checkpoint_round_trip) simp_all

end
