(* ===== verification/Abla.thy ===== *)
theory Abla
  imports Prelude
begin

text \<open>
  The adaptive block size limit (domain/include/kth/domain/chain/abla.hpp): a control size that follows
  the sizes of the blocks and an elastic buffer on top of it, kept in 64 bit numbers.
\<close>

section \<open>The algorithm\<close>

text \<open>Multiplication and division with a 128 bit intermediate result.\<close>

definition muldiv :: "u64 \<Rightarrow> u64 \<Rightarrow> u64 \<Rightarrow> u64 option" where
  "muldiv x y z =
     (if z = 0 then None
      else let res = unat x * unat y div unat z
        in if res > max_uint64 then None else Some (of_nat res))"

record abla_config =
  epsilon0 :: u64
  beta0 :: u64
  n0 :: u64
  gamma_reciprocal :: u64
  zeta_xB7 :: u64
  theta_reciprocal :: u64
  delta :: u64
  epsilon_max :: u64
  beta_max :: u64

definition B7 :: u64 where "B7 = 128"

definition set_max :: "abla_config \<Rightarrow> abla_config" where
  "set_max cfg =
     (let max_safe_blocksize_limit = (of_nat max_uint64 :: u64) div zeta_xB7 cfg * B7;
          numerator = delta cfg * ((zeta_xB7 cfg - B7) * theta_reciprocal cfg div gamma_reciprocal cfg);
          denominator = (zeta_xB7 cfg - B7) * theta_reciprocal cfg div gamma_reciprocal cfg + B7;
          eps = max_safe_blocksize_limit div (numerator + denominator) * denominator
      in cfg\<lparr>epsilon_max := eps, beta_max := max_safe_blocksize_limit - eps\<rparr>)"

definition default_config :: "u64 \<Rightarrow> bool \<Rightarrow> abla_config" where
  "default_config default_block_size fixed_size =
     (let ret = \<lparr>epsilon0 = default_block_size div 2, beta0 = default_block_size div 2, n0 = 0,
            gamma_reciprocal = 37938, zeta_xB7 = 192, theta_reciprocal = 37938, delta = 10,
            epsilon_max = 0, beta_max = 0\<rparr>
      in if \<not> fixed_size then set_max ret
         else ret\<lparr>epsilon_max := epsilon0 ret, beta_max := beta0 ret\<rparr>)"

datatype config_validity =
    valid_config | error_epsilon_max | error_beta_max | error_zeta | error_gamma_reciprocal
  | error_delta | error_theta_reciprocal | error_epsilon0

text \<open>An empty optional is not above any number.\<close>

definition validate_config :: "abla_config \<Rightarrow> config_validity" where
  "validate_config cfg =
     (if epsilon0 cfg > epsilon_max cfg then error_epsilon_max
      else if beta0 cfg > beta_max cfg then error_beta_max
      else if zeta_xB7 cfg < 129 \<or> zeta_xB7 cfg > 256 then error_zeta
      else if gamma_reciprocal cfg < 9484 \<or> gamma_reciprocal cfg > 151744 then error_gamma_reciprocal
      else if delta cfg + 1 \<le> 0 \<or> delta cfg > 32 then error_delta
      else if theta_reciprocal cfg < 9484 \<or> theta_reciprocal cfg > 151744 then error_theta_reciprocal
      else if (case muldiv (gamma_reciprocal cfg) B7 (zeta_xB7 cfg - B7) of
          None \<Rightarrow> False | Some m \<Rightarrow> epsilon0 cfg < m) then error_epsilon0
      else valid_config)"

record abla_state =
  block_size :: u64
  control_block_size :: u64
  elastic_buffer_size :: u64

definition initial_state :: "abla_config \<Rightarrow> u64 \<Rightarrow> abla_state" where
  "initial_state cfg sz =
     \<lparr>block_size = sz, control_block_size = epsilon0 cfg, elastic_buffer_size = beta0 cfg\<rparr>"

definition block_size_limit :: "abla_state \<Rightarrow> u64" where
  "block_size_limit st = control_block_size st + elastic_buffer_size st"

definition abla_next :: "abla_state \<Rightarrow> abla_config \<Rightarrow> u64 \<Rightarrow> abla_state option" where
  "abla_next st cfg next_block_size = do {
     let clamped_block_size = min (block_size st) (control_block_size st + elastic_buffer_size st);
     amplified \<leftarrow> muldiv (zeta_xB7 cfg) clamped_block_size B7;
     control \<leftarrow>
       (if amplified > control_block_size st then do {
          let bytes_to_add = amplified - control_block_size st;
          amplified_limit \<leftarrow> muldiv (zeta_xB7 cfg) (control_block_size st + elastic_buffer_size st) B7;
          let bytes_max = amplified_limit - control_block_size st;
          tmp \<leftarrow> muldiv (zeta_xB7 cfg) (elastic_buffer_size st) B7;
          scaling_offset \<leftarrow> muldiv tmp bytes_to_add bytes_max;
          Some (control_block_size st + (bytes_to_add - scaling_offset) div gamma_reciprocal cfg) }
        else
          let bytes_to_remove = control_block_size st - amplified
          in Some (max (control_block_size st - bytes_to_remove div gamma_reciprocal cfg) (epsilon0 cfg)));
     let buffer_decay = elastic_buffer_size st div theta_reciprocal cfg;
     let elastic =
       (if amplified > control_block_size st
        then let bytes_to_add = (control - control_block_size st) * delta cfg
          in elastic_buffer_size st - buffer_decay + bytes_to_add
        else elastic_buffer_size st - buffer_decay);
     Some \<lparr>block_size = next_block_size,
       control_block_size = min control (epsilon_max cfg),
       elastic_buffer_size = min (max elastic (beta0 cfg)) (beta_max cfg)\<rparr> }"

fun lookahead :: "abla_state \<Rightarrow> abla_config \<Rightarrow> nat \<Rightarrow> abla_state option" where
  "lookahead st cfg 0 = Some st"
| "lookahead st cfg (Suc count) = do {
     st \<leftarrow> abla_next st cfg (block_size_limit st);
     lookahead st cfg count }"

datatype state_validity = valid_state | error_control_block_size | error_elastic_buffer_size

definition validate_state :: "abla_state \<Rightarrow> abla_config \<Rightarrow> state_validity" where
  "validate_state st cfg =
     (if control_block_size st < epsilon0 cfg \<or> control_block_size st > epsilon_max cfg
      then error_control_block_size
      else if elastic_buffer_size st < beta0 cfg \<or> elastic_buffer_size st > beta_max cfg
      then error_elastic_buffer_size
      else valid_state)"


section \<open>The specification\<close>

text \<open>The same over the natural numbers, without any limit on their size.\<close>

definition amplify :: "abla_config \<Rightarrow> nat \<Rightarrow> nat" where
  "amplify cfg x = unat (zeta_xB7 cfg) * x div 128"

definition control_spec :: "abla_config \<Rightarrow> nat \<Rightarrow> nat \<Rightarrow> nat \<Rightarrow> nat" where
  "control_spec cfg c e x =
     (if amplify cfg x > c then
        c + (amplify cfg x - c - amplify cfg e * (amplify cfg x - c) div (amplify cfg (c + e) - c))
          div unat (gamma_reciprocal cfg)
      else max (c - (c - amplify cfg x) div unat (gamma_reciprocal cfg)) (unat (epsilon0 cfg)))"

definition elastic_spec :: "abla_config \<Rightarrow> nat \<Rightarrow> nat \<Rightarrow> nat \<Rightarrow> nat" where
  "elastic_spec cfg c e x =
     max (e - e div unat (theta_reciprocal cfg) +
       (if amplify cfg x > c then (control_spec cfg c e x - c) * unat (delta cfg) else 0)) (unat (beta0 cfg))"

definition safe_config :: "abla_config \<Rightarrow> bool" where
  "safe_config cfg \<longleftrightarrow> validate_config cfg = valid_config \<and>
     unat (epsilon_max cfg) + unat (beta_max cfg) \<le> max_uint64 div unat (zeta_xB7 cfg) * 128"

lemma muldiv_eq:
  assumes "z \<noteq> 0" "unat x * unat y div unat z \<le> max_uint64"
  obtains r where "muldiv x y z = Some r" "unat r = unat x * unat y div unat z"
proof (rule that)
  show "muldiv x y z = Some (of_nat (unat x * unat y div unat z))"
    using assms by (simp add: muldiv_def Let_def)
  show "unat (of_nat (unat x * unat y div unat z) :: u64) = unat x * unat y div unat z"
    using assms(2) by (simp only: unat_of_nat) simp
qed

lemma safe_configD:
  assumes "safe_config cfg"
  shows "129 \<le> unat (zeta_xB7 cfg)" "unat (zeta_xB7 cfg) \<le> 256"
    "9484 \<le> unat (gamma_reciprocal cfg)" "9484 \<le> unat (theta_reciprocal cfg)" "unat (delta cfg) \<le> 32"
    "unat (epsilon0 cfg) \<le> unat (epsilon_max cfg)" "unat (beta0 cfg) \<le> unat (beta_max cfg)"
  using assms by (auto simp: safe_config_def validate_config_def word_le_nat_alt word_less_nat_alt split: if_splits)

lemma amplify_mono: "x \<le> y \<Longrightarrow> amplify cfg x \<le> amplify cfg y"
  by (simp add: amplify_def div_le_mono)

lemma amplify_bound:
  assumes "safe_config cfg" "x \<le> unat (epsilon_max cfg) + unat (beta_max cfg)"
  shows "amplify cfg x \<le> max_uint64"
proof -
  let ?z = "unat (zeta_xB7 cfg)"
  have "?z * x \<le> ?z * (max_uint64 div ?z * 128)"
    using assms by (intro mult_le_mono2) (auto simp: safe_config_def)
  also have "\<dots> \<le> max_uint64 * 128" using mult_le_mono1 [OF times_div_less_eq_dividend] by (simp add: mult.assoc [symmetric])
  finally show ?thesis by (simp add: amplify_def)
qed

lemma amplify_add:
  assumes "safe_config cfg"
  shows "amplify cfg e + c \<le> amplify cfg (c + e)"
proof -
  let ?z = "unat (zeta_xB7 cfg)"
  have "128 * c \<le> ?z * c" using safe_configD(1) [OF assms] by simp
  then have "(?z * e + 128 * c) div 128 \<le> (?z * e + ?z * c) div 128" by (intro div_le_mono) simp
  then show ?thesis by (simp add: amplify_def distrib_left add.commute)
qed


lemma safe_sum:
  assumes "safe_config cfg"
  shows "unat (epsilon_max cfg) + unat (beta_max cfg) + 32 * (max_uint64 div 9484) \<le> max_uint64"
proof -
  have "max_uint64 div unat (zeta_xB7 cfg) \<le> max_uint64 div 129"
    by (rule div_le_mono2) (use safe_configD(1) [OF assms] in simp_all)
  with assms show ?thesis by (simp add: safe_config_def)
qed

lemma unat_min: "unat (min a b) = min (unat a) (unat b)" for a b :: "'a::len word"
  by (simp add: min_def word_le_nat_alt)

lemma unat_max: "unat (max a b) = max (unat a) (unat b)" for a b :: "'a::len word"
  by (simp add: max_def word_le_nat_alt)

lemma unat_add_u64: "unat a + unat b \<le> max_uint64 \<Longrightarrow> unat (a + b) = unat a + unat b" for a b :: u64
  by (simp add: unat_word_ariths)

lemma unat_mult_u64: "unat a * unat b \<le> max_uint64 \<Longrightarrow> unat (a * b) = unat a * unat b" for a b :: u64
  by (simp add: unat_word_ariths)

lemma unat_sub_le: "unat b \<le> unat a \<Longrightarrow> unat (a - b) = unat a - unat b" for a b :: "'a::len word"
  by (rule unat_sub) (simp add: word_le_nat_alt)

lemma div_le_le: "(k :: nat) \<le> m * n \<Longrightarrow> k div m \<le> n"
  by (metis div_le_mono div_mult_self1_is_m div_by_0 gr_zeroI zero_le)

lemma scaling_le:
  assumes "safe_config cfg" "c < amplify cfg x" "x \<le> c + e"
  shows "amplify cfg e * (amplify cfg x - c) div (amplify cfg (c + e) - c) \<le> amplify cfg x - c"
proof (rule div_le_le)
  have "amplify cfg e \<le> amplify cfg (c + e) - c" using amplify_add [OF assms(1), of e c] by simp
  then show "amplify cfg e * (amplify cfg x - c) \<le> (amplify cfg (c + e) - c) * (amplify cfg x - c)"
    by (rule mult_le_mono1)
qed

lemma control_spec_bound:
  assumes "safe_config cfg" "c < amplify cfg x"
  shows "control_spec cfg c e x - c \<le> amplify cfg x div 9484" "c \<le> control_spec cfg c e x"
proof -
  let ?g = "unat (gamma_reciprocal cfg)" and ?n = "amplify cfg x - c - amplify cfg e * (amplify cfg x - c) div (amplify cfg (c + e) - c)"
  have "?n div ?g \<le> ?n div 9484" by (rule div_le_mono2) (use safe_configD(3) [OF assms(1)] in simp_all)
  also have "\<dots> \<le> amplify cfg x div 9484" by (rule div_le_mono) simp
  finally show "control_spec cfg c e x - c \<le> amplify cfg x div 9484" using assms(2) by (simp add: control_spec_def)
  show "c \<le> control_spec cfg c e x" using assms(2) by (simp add: control_spec_def)
qed

text \<open>The control size and the buffer of the next state before they are clipped.\<close>

lemma abla_next_increase:
  fixes st cfg
  defines "c \<equiv> unat (control_block_size st)" and "e \<equiv> unat (elastic_buffer_size st)"
  assumes cfg: "safe_config cfg" and c: "c \<le> unat (epsilon_max cfg)" and e: "e \<le> unat (beta_max cfg)"
    and x: "x \<le> c + e" and a: "unat a = amplify cfg x" and inc: "c < amplify cfg x"
  obtains l t s where
    "muldiv (zeta_xB7 cfg) (control_block_size st + elastic_buffer_size st) B7 = Some l"
    "muldiv (zeta_xB7 cfg) (elastic_buffer_size st) B7 = Some t"
    "muldiv t (a - control_block_size st) (l - control_block_size st) = Some s"
    "unat (control_block_size st + (a - control_block_size st - s) div gamma_reciprocal cfg) =
       control_spec cfg c e x"
proof -
  have sum: "c + e \<le> max_uint64" using safe_sum [OF cfg] c e by linarith
  have B: "B7 \<noteq> 0" "unat B7 = 128" by (simp_all add: B7_def)
  have le: "c + e \<le> unat (epsilon_max cfg) + unat (beta_max cfg)" using c e by simp
  have u: "unat (control_block_size st + elastic_buffer_size st) = c + e"
    using sum by (simp add: c_def e_def unat_add_u64)
  obtain l where l: "muldiv (zeta_xB7 cfg) (control_block_size st + elastic_buffer_size st) B7 = Some l"
    "unat l = amplify cfg (c + e)"
    using muldiv_eq [OF B(1), of "zeta_xB7 cfg" "control_block_size st + elastic_buffer_size st"]
      amplify_bound [OF cfg le] by (auto simp: B u amplify_def)
  obtain t where t: "muldiv (zeta_xB7 cfg) (elastic_buffer_size st) B7 = Some t" "unat t = amplify cfg e"
    using muldiv_eq [OF B(1), of "zeta_xB7 cfg" "elastic_buffer_size st"]
      amplify_bound [OF cfg, of e] e by (auto simp: B amplify_def simp flip: e_def)
  have ac: "unat (a - control_block_size st) = amplify cfg x - c"
    using inc a by (simp add: unat_sub_le c_def)
  have lc: "unat (l - control_block_size st) = amplify cfg (c + e) - c" "c < amplify cfg (c + e)"
    using inc l(2) amplify_mono [OF x, of cfg] by (simp_all add: unat_sub_le c_def)
  then have nz: "l - control_block_size st \<noteq> 0" by (metis unsigned_0 zero_less_diff less_irrefl)
  have sc: "amplify cfg e * (amplify cfg x - c) div (amplify cfg (c + e) - c) \<le> amplify cfg x - c"
    by (rule scaling_le [OF cfg inc x])
  have ax: "amplify cfg x \<le> max_uint64" using amplify_bound [OF cfg] x le by simp
  have "unat t * unat (a - control_block_size st) div unat (l - control_block_size st) \<le> max_uint64"
    using le_trans [OF sc] ax by (simp only: t(2) ac lc(1))
  then obtain s where "muldiv t (a - control_block_size st) (l - control_block_size st) = Some s"
    "unat s = unat t * unat (a - control_block_size st) div unat (l - control_block_size st)"
    using muldiv_eq [OF nz, of t "a - control_block_size st"] by blast
  then have s: "muldiv t (a - control_block_size st) (l - control_block_size st) = Some s"
    "unat s = amplify cfg e * (amplify cfg x - c) div (amplify cfg (c + e) - c)"
    by (simp_all only: t(2) ac lc(1))
  let ?d = "(a - control_block_size st - s) div gamma_reciprocal cfg"
  have d: "unat ?d = (amplify cfg x - c - unat s) div unat (gamma_reciprocal cfg)"
    using sc s(2) by (simp add: unat_div_distrib unat_sub_le ac)
  have "unat ?d \<le> amplify cfg x - c" unfolding d by (rule order_trans [OF div_le_dividend]) simp
  then have "c + unat ?d \<le> max_uint64" using inc ax by linarith
  then have "unat (control_block_size st + ?d) = c + unat ?d" by (simp add: c_def unat_add_u64)
  then have "unat (control_block_size st + ?d) = control_spec cfg c e x"
    using inc by (simp add: d control_spec_def s(2))
  with l(1) t(1) s(1) that show thesis by blast
qed


lemma abla_next_eq:
  fixes st cfg
  defines "c \<equiv> unat (control_block_size st)" and "e \<equiv> unat (elastic_buffer_size st)"
  defines "x \<equiv> min (unat (block_size st)) (c + e)"
  assumes cfg: "safe_config cfg" and c: "c \<le> unat (epsilon_max cfg)" and e: "e \<le> unat (beta_max cfg)"
  shows "\<exists>st'. abla_next st cfg n = Some st' \<and> block_size st' = n \<and>
    unat (control_block_size st') = min (control_spec cfg c e x) (unat (epsilon_max cfg)) \<and>
    unat (elastic_buffer_size st') = min (elastic_spec cfg c e x) (unat (beta_max cfg))"
proof -
  have sum: "c + e + 32 * (max_uint64 div 9484) \<le> max_uint64" using safe_sum [OF cfg] c e by linarith
  have B: "B7 \<noteq> 0" "unat B7 = 128" by (simp_all add: B7_def)
  let ?x = "min (block_size st) (control_block_size st + elastic_buffer_size st)"
  have xc: "x \<le> c + e" by (simp add: x_def)
  have ux: "unat ?x = x" using sum by (simp add: unat_min x_def c_def e_def unat_add_u64)
  have ax: "amplify cfg x \<le> max_uint64" using amplify_bound [OF cfg] xc c e by simp
  obtain a where a: "muldiv (zeta_xB7 cfg) ?x B7 = Some a" "unat a = amplify cfg x"
    using muldiv_eq [OF B(1), of "zeta_xB7 cfg" ?x] ax by (auto simp: B ux amplify_def)
  have gt: "a > control_block_size st \<longleftrightarrow> c < amplify cfg x" by (simp add: word_less_nat_alt a(2) c_def)
  have decay: "unat (elastic_buffer_size st - elastic_buffer_size st div theta_reciprocal cfg) =
      e - e div unat (theta_reciprocal cfg)"
    by (simp add: unat_sub_le unat_div_distrib e_def)
  show ?thesis
  proof (cases "c < amplify cfg x")
    case True
    obtain l t s where step: "muldiv (zeta_xB7 cfg) (control_block_size st + elastic_buffer_size st) B7 = Some l"
      "muldiv (zeta_xB7 cfg) (elastic_buffer_size st) B7 = Some t"
      "muldiv t (a - control_block_size st) (l - control_block_size st) = Some s"
      "unat (control_block_size st + (a - control_block_size st - s) div gamma_reciprocal cfg) =
         control_spec cfg c e x"
      using abla_next_increase [OF cfg, of st x a] c e xc a(2) True by (auto simp: c_def e_def)
    let ?k = "control_block_size st + (a - control_block_size st - s) div gamma_reciprocal cfg"
    have diff: "unat (?k - control_block_size st) = control_spec cfg c e x - c"
      by (subst unat_sub_le) (use control_spec_bound(2) [OF cfg True] step(4) in \<open>simp_all add: c_def\<close>)
    have "(control_spec cfg c e x - c) * unat (delta cfg) \<le> (max_uint64 div 9484) * 32"
      using control_spec_bound(1) [OF cfg True, of e] div_le_mono [OF ax, of 9484] safe_configD(5) [OF cfg]
      by (intro mult_le_mono) linarith+
    then have grow: "(control_spec cfg c e x - c) * unat (delta cfg) \<le> 32 * (max_uint64 div 9484)"
      by (simp only: mult.commute)
    then have "unat ((?k - control_block_size st) * delta cfg) = (control_spec cfg c e x - c) * unat (delta cfg)"
      using unat_mult_u64 [of "?k - control_block_size st" "delta cfg"] by (simp only: diff)
    then have "unat (elastic_buffer_size st - elastic_buffer_size st div theta_reciprocal cfg +
        (?k - control_block_size st) * delta cfg) =
        e - e div unat (theta_reciprocal cfg) + (control_spec cfg c e x - c) * unat (delta cfg)"
      using grow sum by (subst unat_add_u64) (simp_all add: decay)
    then show ?thesis
      using True by (simp add: abla_next_def Let_def a(1) gt step(1-3) unat_min unat_max step(4) elastic_spec_def)
  next
    case False
    have "unat (max (control_block_size st - (control_block_size st - a) div gamma_reciprocal cfg) (epsilon0 cfg)) =
        control_spec cfg c e x"
    proof -
      have r: "unat ((control_block_size st - a) div gamma_reciprocal cfg) =
          (c - amplify cfg x) div unat (gamma_reciprocal cfg)"
        using False a(2) by (simp add: unat_sub_le unat_div_distrib c_def)
      have "unat (control_block_size st - (control_block_size st - a) div gamma_reciprocal cfg) =
          c - (c - amplify cfg x) div unat (gamma_reciprocal cfg)"
      proof -
        have "(c - amplify cfg x) div unat (gamma_reciprocal cfg) \<le> c"
          using div_le_dividend [of "c - amplify cfg x" "unat (gamma_reciprocal cfg)"] by linarith
        with unat_sub_le [of "(control_block_size st - a) div gamma_reciprocal cfg" "control_block_size st"]
        show ?thesis unfolding r by (simp only: c_def)
      qed
      with False show ?thesis by (simp add: unat_max control_spec_def)
    qed
    then show ?thesis
      using False decay by (simp add: abla_next_def Let_def a(1) gt unat_min unat_max elastic_spec_def)
  qed
qed


section \<open>A limit that adapts\<close>

text \<open>
  What the chain relies on: from every acceptable state there is a next one, whatever the size of the
  next block, and its limit is bounded.
\<close>

locale adaptive_limit =
  fixes step :: "'s \<Rightarrow> u64 \<Rightarrow> 's option" and ok :: "'s \<Rightarrow> bool" and limit :: "'s \<Rightarrow> nat" and bound :: "'s \<Rightarrow> nat"
  assumes step_ok: "ok s \<Longrightarrow> \<exists>s'. step s n = Some s' \<and> ok s' \<and> bound s' = bound s"
    and limit_bound: "ok s \<Longrightarrow> limit s \<le> bound s"
begin

primrec run_blocks :: "'s \<Rightarrow> u64 list \<Rightarrow> 's option" where
  "run_blocks s [] = Some s"
| "run_blocks s (n # ns) = do { s \<leftarrow> step s n; run_blocks s ns }"

lemma run_blocks_ok: "ok s \<Longrightarrow> \<exists>s'. run_blocks s ns = Some s' \<and> ok s' \<and> limit s' \<le> bound s"
proof (induction ns arbitrary: s)
  case Nil
  then show ?case using limit_bound by simp
next
  case (Cons n ns)
  obtain s' where "step s n = Some s'" "ok s'" "bound s' = bound s" using step_ok [OF Cons.prems] by blast
  with Cons.IH [of s'] show ?case by simp
qed

end

lemma validate_state_iff:
  "validate_state st cfg = valid_state \<longleftrightarrow>
     unat (epsilon0 cfg) \<le> unat (control_block_size st) \<and>
     unat (control_block_size st) \<le> unat (epsilon_max cfg) \<and>
     unat (beta0 cfg) \<le> unat (elastic_buffer_size st) \<and>
     unat (elastic_buffer_size st) \<le> unat (beta_max cfg)"
  by (auto simp: validate_state_def word_less_nat_alt)

lemma control_spec_ge:
  assumes "unat (epsilon0 cfg) \<le> c"
  shows "unat (epsilon0 cfg) \<le> control_spec cfg c e x"
  using assms by (simp add: control_spec_def)

lemma abla_next_valid:
  assumes "safe_config cfg" "validate_state st cfg = valid_state"
  shows "\<exists>st'. abla_next st cfg n = Some st' \<and> validate_state st' cfg = valid_state"
proof -
  have v: "unat (epsilon0 cfg) \<le> unat (control_block_size st)" "unat (control_block_size st) \<le> unat (epsilon_max cfg)"
    "unat (elastic_buffer_size st) \<le> unat (beta_max cfg)"
    using assms(2) by (simp_all add: validate_state_iff)
  let ?c = "unat (control_block_size st)" and ?e = "unat (elastic_buffer_size st)"
  let ?x = "min (unat (block_size st)) (?c + ?e)"
  obtain st' where st': "abla_next st cfg n = Some st'"
    "unat (control_block_size st') = min (control_spec cfg ?c ?e ?x) (unat (epsilon_max cfg))"
    "unat (elastic_buffer_size st') = min (elastic_spec cfg ?c ?e ?x) (unat (beta_max cfg))"
    using abla_next_eq [OF assms(1) v(2,3), of n] by blast
  have "unat (epsilon0 cfg) \<le> control_spec cfg ?c ?e ?x" by (rule control_spec_ge [OF v(1)])
  moreover have "unat (beta0 cfg) \<le> elastic_spec cfg ?c ?e ?x" by (simp add: elastic_spec_def)
  ultimately have "validate_state st' cfg = valid_state"
    unfolding validate_state_iff st'(2,3) using safe_configD(6,7) [OF assms(1)] by simp
  with st'(1) show ?thesis by blast
qed

lemma block_size_limit_bound:
  assumes "safe_config cfg" "validate_state st cfg = valid_state"
  shows "unat (block_size_limit st) \<le> unat (epsilon_max cfg) + unat (beta_max cfg)"
proof -
  have "unat (control_block_size st) + unat (elastic_buffer_size st) \<le> unat (epsilon_max cfg) + unat (beta_max cfg)"
    using assms(2) by (simp add: validate_state_iff)
  moreover from this have "unat (control_block_size st) + unat (elastic_buffer_size st) \<le> max_uint64"
    using safe_sum [OF assms(1)] by linarith
  ultimately show ?thesis by (simp add: block_size_limit_def unat_add_u64)
qed

interpretation abla: adaptive_limit
  "\<lambda>(cfg, st) n. map_option (Pair cfg) (abla_next st cfg n)"
  "\<lambda>(cfg, st). safe_config cfg \<and> validate_state st cfg = valid_state"
  "\<lambda>(cfg, st). unat (block_size_limit st)"
  "\<lambda>(cfg, st). unat (epsilon_max cfg) + unat (beta_max cfg)"
proof (unfold_locales, goal_cases)
  case (1 s n)
  then show ?case using abla_next_valid by (force split: prod.splits)
next
  case (2 s)
  then show ?case using block_size_limit_bound by (auto split: prod.splits)
qed


section \<open>Properties\<close>

text \<open>C24: The block size limit never overflows. In a valid state of a safe configuration the next state
  exists, whatever the block sizes; it is valid, its sizes are those of the specification over the
  natural numbers clipped to the maxima, so that no 64 bit operation wraps or divides by zero on the way.\<close>

theorem abla_next_invariant:
  assumes "safe_config cfg" "validate_state st cfg = valid_state"
  defines "c \<equiv> unat (control_block_size st)" and "e \<equiv> unat (elastic_buffer_size st)"
  defines "x \<equiv> min (unat (block_size st)) (c + e)"
  shows "\<exists>st'. abla_next st cfg n = Some st' \<and> validate_state st' cfg = valid_state \<and> block_size st' = n \<and>
    unat (control_block_size st') = min (control_spec cfg c e x) (unat (epsilon_max cfg)) \<and>
    unat (elastic_buffer_size st') = min (elastic_spec cfg c e x) (unat (beta_max cfg))"
proof -
  have le: "c \<le> unat (epsilon_max cfg)" "e \<le> unat (beta_max cfg)"
    using assms(2) by (simp_all add: validate_state_iff c_def e_def)
  show ?thesis
    using abla_next_valid [OF assms(1,2), of n] abla_next_eq [OF assms(1) le [unfolded c_def e_def], of n]
    unfolding x_def c_def e_def by fastforce
qed

text \<open>Looking ahead over full blocks from a valid state always yields a valid state, whose limit is at
  most the sum of the maxima.\<close>

theorem lookahead_valid:
  assumes "safe_config cfg" "validate_state st cfg = valid_state"
  shows "\<exists>st'. lookahead st cfg count = Some st' \<and> validate_state st' cfg = valid_state \<and>
    unat (block_size_limit st') \<le> unat (epsilon_max cfg) + unat (beta_max cfg)"
proof -
  have "\<exists>ns. map_option (Pair cfg) (lookahead st cfg count) = abla.run_blocks (cfg, st) ns" for count st
  proof (induction count arbitrary: st)
    case 0
    show ?case by (rule exI [of _ "[]"]) simp
  next
    case (Suc count)
    show ?case
    proof (cases "abla_next st cfg (block_size_limit st)")
      case None
      then have "map_option (Pair cfg) (lookahead st cfg (Suc count)) = abla.run_blocks (cfg, st) [block_size_limit st]"
        by simp
      then show ?thesis by blast
    next
      case (Some st')
      obtain ns where "map_option (Pair cfg) (lookahead st' cfg count) = abla.run_blocks (cfg, st') ns"
        using Suc.IH by blast
      with Some have "map_option (Pair cfg) (lookahead st cfg (Suc count)) =
          abla.run_blocks (cfg, st) (block_size_limit st # ns)" by simp
      then show ?thesis by blast
    qed
  qed
  then obtain ns where "map_option (Pair cfg) (lookahead st cfg count) = abla.run_blocks (cfg, st) ns" by blast
  moreover obtain cfg' st' where "abla.run_blocks (cfg, st) ns = Some (cfg', st')"
    "validate_state st' cfg' = valid_state" "unat (block_size_limit st') \<le> unat (epsilon_max cfg) + unat (beta_max cfg)"
    using abla.run_blocks_ok [of "(cfg, st)" ns] assms by (force split: prod.splits)
  ultimately show ?thesis by auto
qed

lemma default_config_safe: "safe_config (default_config 32000000 False)"
  by (simp add: safe_config_def validate_config_def default_config_def set_max_def B7_def muldiv_def Let_def)

lemma initial_state_valid: "validate_state (initial_state (default_config 32000000 False) n) (default_config 32000000 False) = valid_state"
  by (simp add: validate_state_def initial_state_def default_config_def set_max_def B7_def Let_def)

theorem abla_next_invariant_witness:
  "\<exists>st'. abla_next (initial_state (default_config 32000000 False) 32000000) (default_config 32000000 False) 7 = Some st' \<and>
     block_size st' = 7"
  using abla_next_invariant [OF default_config_safe initial_state_valid, of 32000000 7] by blast

theorem lookahead_valid_witness:
  "lookahead (initial_state (default_config 32000000 False) 1) (default_config 32000000 False) 1000000 \<noteq> None"
  using lookahead_valid [OF default_config_safe initial_state_valid, of 1 1000000] by force

end
