(* ===== verification/Activation.thy ===== *)
theory Activation
  imports Opcode Checkpoint Abla "HOL-Library.Multiset"
begin

text \<open>
  The networks and the activation of consensus rules (domain/src/chain/chain_state.cpp up to and including the
  median time past, with the heights of domain/include/kth/domain/constants/bch.hpp and bch_btc.hpp), for
  the Bitcoin Cash configuration: which of the configured rule forks are in force at a block.
\<close>

unbundle bit_operations_syntax

section \<open>Networks\<close>

datatype network = mainnet | testnet | regtest | testnet4 | scalenet | chipnet

fun network_map :: "network \<Rightarrow> 'a \<Rightarrow> 'a \<Rightarrow> 'a \<Rightarrow> 'a \<Rightarrow> 'a \<Rightarrow> 'a \<Rightarrow> 'a" where
  "network_map testnet m t r t4 s c = t"
| "network_map regtest m t r t4 s c = r"
| "network_map testnet4 m t r t4 s c = t4"
| "network_map scalenet m t r t4 s c = s"
| "network_map chipnet m t r t4 s c = c"
| "network_map mainnet m t r t4 s c = m"

fun network_relation ::
  "network \<Rightarrow> ('a \<Rightarrow> 'a \<Rightarrow> bool) \<Rightarrow> 'a \<Rightarrow> 'a \<Rightarrow> 'a \<Rightarrow> 'a \<Rightarrow> 'a \<Rightarrow> 'a \<Rightarrow> 'a \<Rightarrow> bool" where
  "network_relation testnet r v m t rt t4 s c = r v t"
| "network_relation regtest r v m t rt t4 s c = r v rt"
| "network_relation testnet4 r v m t rt t4 s c = r v t4"
| "network_relation scalenet r v m t rt t4 s c = r v s"
| "network_relation chipnet r v m t rt t4 s c = r v c"
| "network_relation mainnet r v m t rt t4 s c = r v m"

section \<open>Rules activated at a height\<close>

text \<open>The heights on mainnet, testnet, testnet4, scalenet and chipnet; on regtest every rule is in force.\<close>

type_synonym rule_heights = "nat \<times> nat \<times> nat \<times> nat \<times> nat"

fun is_rule_enabled :: "nat \<Rightarrow> network \<Rightarrow> rule_heights \<Rightarrow> bool" where
  "is_rule_enabled height network (m, t, t4, s, c) \<longleftrightarrow>
     (if network = regtest then True else network_relation network (\<ge>) height m t 0 t4 s c)"

definition csv_heights :: rule_heights where "csv_heights = (419329, 770113, 6, 6, 6)"
definition uahf_heights :: rule_heights where "uahf_heights = (478559, 1155876, 6, 6, 6)"
definition daa_cw144_heights :: rule_heights where "daa_cw144_heights = (504032, 1188698, 3001, 3001, 3001)"
definition pythagoras_heights :: rule_heights where "pythagoras_heights = (530356, 1233070, 0, 0, 0)"
definition euclid_heights :: rule_heights where "euclid_heights = (556767, 1267997, 4001, 4001, 4001)"
definition pisano_heights :: rule_heights where "pisano_heights = (582680, 1303885, 0, 0, 0)"
definition mersenne_heights :: rule_heights where "mersenne_heights = (609136, 1341712, 5001, 5001, 5001)"
definition fermat_heights :: rule_heights where "fermat_heights = (635259, 1378461, 0, 0, 0)"
definition euler_heights :: rule_heights where "euler_heights = (661648, 1421482, 16845, 16869, 16845)"
definition gauss_heights :: rule_heights where "gauss_heights = (740238, 1500206, 95465, 10007, 95465)"
definition descartes_heights :: rule_heights where "descartes_heights = (792773, 1552788, 148044, 10007, 121957)"
definition lobachevski_heights :: rule_heights where "lobachevski_heights = (845891, 1605521, 200741, 10007, 174520)"
definition galois_heights :: rule_heights where "galois_heights = (898374, 1658050, 253319, 10007, 227229)"

definition is_csv_enabled :: "nat \<Rightarrow> network \<Rightarrow> bool" where
  "is_csv_enabled height network = is_rule_enabled height network csv_heights"

definition is_uahf_enabled :: "nat \<Rightarrow> network \<Rightarrow> bool" where
  "is_uahf_enabled height network = is_rule_enabled height network uahf_heights"

definition is_daa_cw144_enabled :: "nat \<Rightarrow> network \<Rightarrow> bool" where
  "is_daa_cw144_enabled height network = is_rule_enabled height network daa_cw144_heights"

definition is_pythagoras_enabled :: "nat \<Rightarrow> network \<Rightarrow> bool" where
  "is_pythagoras_enabled height network = is_rule_enabled height network pythagoras_heights"

definition is_euclid_enabled :: "nat \<Rightarrow> network \<Rightarrow> bool" where
  "is_euclid_enabled height network = is_rule_enabled height network euclid_heights"

definition is_pisano_enabled :: "nat \<Rightarrow> network \<Rightarrow> bool" where
  "is_pisano_enabled height network = is_rule_enabled height network pisano_heights"

definition is_mersenne_enabled :: "nat \<Rightarrow> network \<Rightarrow> bool" where
  "is_mersenne_enabled height network = is_rule_enabled height network mersenne_heights"

definition is_fermat_enabled :: "nat \<Rightarrow> network \<Rightarrow> bool" where
  "is_fermat_enabled height network = is_rule_enabled height network fermat_heights"

definition is_euler_enabled :: "nat \<Rightarrow> network \<Rightarrow> bool" where
  "is_euler_enabled height network = is_rule_enabled height network euler_heights"

definition is_gauss_enabled :: "nat \<Rightarrow> network \<Rightarrow> bool" where
  "is_gauss_enabled height network = is_rule_enabled height network gauss_heights"

definition is_descartes_enabled :: "nat \<Rightarrow> network \<Rightarrow> bool" where
  "is_descartes_enabled height network = is_rule_enabled height network descartes_heights"

definition is_lobachevski_enabled :: "nat \<Rightarrow> network \<Rightarrow> bool" where
  "is_lobachevski_enabled height network = is_rule_enabled height network lobachevski_heights"

definition is_galois_enabled :: "nat \<Rightarrow> network \<Rightarrow> bool" where
  "is_galois_enabled height network = is_rule_enabled height network galois_heights"

section \<open>Checkpoints of the rules\<close>

definition mainnet_bip16_exception_checkpoint :: "checkpoint option" where
  "mainnet_bip16_exception_checkpoint =
     checkpoint_of ''00000000000002dc756eebf4f49723ed8d30cc28a5f108eb94b1ba88ac4f9c22'' 170060"

definition mainnet_bip30_exception_checkpoint1 :: "checkpoint option" where
  "mainnet_bip30_exception_checkpoint1 =
     checkpoint_of ''00000000000a4d0a398161ffc163c503763b1f4360639393e0e4c8e300e0caec'' 91842"

definition mainnet_bip30_exception_checkpoint2 :: "checkpoint option" where
  "mainnet_bip30_exception_checkpoint2 =
     checkpoint_of ''00000000000743f190a18c5577a3c2d2a1f610ae9601ac046a38084ccb7cd721'' 91880"

definition mainnet_bip34_active_checkpoint :: "checkpoint option" where
  "mainnet_bip34_active_checkpoint =
     checkpoint_of ''000000000000024b89b42a942fe0d9fea3bb44ab7bd1b19115dd6a759c0808b8'' 227931"

definition testnet_bip34_active_checkpoint :: "checkpoint option" where
  "testnet_bip34_active_checkpoint =
     checkpoint_of ''0000000023b3a96d3484e5abb3755c413e7d41500f8e2a5c3f0dd01299cd8ef8'' 21111"

definition regtest_bip34_active_checkpoint :: "checkpoint option" where
  "regtest_bip34_active_checkpoint =
     checkpoint_of ''06226e46111a0b59caaf126043eb5bbf28c34f3a5e332a1fc7b2b73cf188910f'' 0"

definition testnet4_bip34_active_checkpoint :: "checkpoint option" where
  "testnet4_bip34_active_checkpoint =
     checkpoint_of ''00000000b0c65b1e03baace7d5c093db0d6aac224df01484985ffd5e86a1a20c'' 2"

definition scalenet_bip34_active_checkpoint :: "checkpoint option" where
  "scalenet_bip34_active_checkpoint =
     checkpoint_of ''00000000c8c35eaac40e0089a83bf5c5d9ecf831601f98c21ed4a7cb511a07d8'' 2"

definition chipnet_bip34_active_checkpoint :: "checkpoint option" where
  "chipnet_bip34_active_checkpoint =
     checkpoint_of ''00000000b0c65b1e03baace7d5c093db0d6aac224df01484985ffd5e86a1a20c'' 2"

definition is_bip16_exception :: "checkpoint \<Rightarrow> network \<Rightarrow> bool" where
  "is_bip16_exception check network \<longleftrightarrow> network = mainnet \<and> Some check = mainnet_bip16_exception_checkpoint"

definition is_bip30_exception :: "checkpoint \<Rightarrow> network \<Rightarrow> bool" where
  "is_bip30_exception check network \<longleftrightarrow>
     network = mainnet \<and>
     (Some check = mainnet_bip30_exception_checkpoint1 \<or> Some check = mainnet_bip30_exception_checkpoint2)"

definition allow_collisions_at_hash :: "bytes \<Rightarrow> network \<Rightarrow> bool" where
  "allow_collisions_at_hash hash network =
     network_relation network (=) (Some hash)
       (map_option cp_hash mainnet_bip34_active_checkpoint)
       (map_option cp_hash testnet_bip34_active_checkpoint)
       (map_option cp_hash regtest_bip34_active_checkpoint)
       (map_option cp_hash testnet4_bip34_active_checkpoint)
       (map_option cp_hash scalenet_bip34_active_checkpoint)
       (map_option cp_hash chipnet_bip34_active_checkpoint)"

definition allow_collisions_at_height :: "nat \<Rightarrow> network \<Rightarrow> bool" where
  "allow_collisions_at_height height network =
     network_relation network (=) (Some height)
       (map_option cp_height mainnet_bip34_active_checkpoint)
       (map_option cp_height testnet_bip34_active_checkpoint)
       (map_option cp_height regtest_bip34_active_checkpoint)
       (map_option cp_height testnet4_bip34_active_checkpoint)
       (map_option cp_height scalenet_bip34_active_checkpoint)
       (map_option cp_height chipnet_bip34_active_checkpoint)"

section \<open>Rules activated by versions\<close>

definition version_sample_size :: "network \<Rightarrow> nat" where
  "version_sample_size network = (if network = mainnet then 1000 else 100)"

definition is_active :: "nat \<Rightarrow> network \<Rightarrow> bool" where
  "is_active n network = network_relation network (\<ge>) n 750 51 0 0 0 0"

definition is_enforced :: "nat \<Rightarrow> network \<Rightarrow> bool" where
  "is_enforced n network \<longleftrightarrow> n \<ge> (if network = mainnet then 950 else 75)"

definition bip34_ice :: "nat \<Rightarrow> bool \<Rightarrow> network \<Rightarrow> bool" where
  "bip34_ice height frozen network \<longleftrightarrow> frozen \<and> network_relation network (\<ge>) height 227931 21111 0 2 2 2"

definition bip66_ice :: "nat \<Rightarrow> bool \<Rightarrow> network \<Rightarrow> bool" where
  "bip66_ice height frozen network \<longleftrightarrow> frozen \<and> network_relation network (\<ge>) height 363725 330776 1251 4 4 4"

definition bip65_ice :: "nat \<Rightarrow> bool \<Rightarrow> network \<Rightarrow> bool" where
  "bip65_ice height frozen network \<longleftrightarrow> frozen \<and> network_relation network (\<ge>) height 388381 581885 1351 3 3 3"

section \<open>The state of the chain below a block\<close>

text \<open>The lists are ordered by height, the parent of the block is last.\<close>

record chain_data =
  cd_height :: nat
  cd_hash :: bytes
  allow_collisions_hash :: bytes
  bits_self :: u32
  bits_ordered :: "u32 list"
  version_self :: u32
  version_ordered :: "u32 list"
  timestamp_self :: u32
  timestamp_retarget :: u32
  timestamp_ordered :: "u32 list"
  cd_abla_state :: abla_state

abbreviation (input) median_time_past_interval :: nat where "median_time_past_interval \<equiv> 11"

definition timestamps_subset :: "u32 list \<Rightarrow> nat \<Rightarrow> u32 list" where
  "timestamps_subset ts last_n =
     (let at = (if length ts > last_n then length ts - last_n else 0);
          n = min (length ts - at) median_time_past_interval
      in take n (drop at ts))"

definition median :: "u32 list \<Rightarrow> u32" where
  "median times_subset =
     (let sorted_times = sort times_subset
      in if sorted_times = [] then 0 else sorted_times ! (length sorted_times div 2))"

definition median_time_past :: "chain_data \<Rightarrow> nat \<Rightarrow> u32" where
  "median_time_past values last_n = median (timestamps_subset (timestamp_ordered values) last_n)"

definition is_mtp_activated :: "u32 \<Rightarrow> u32 \<Rightarrow> bool" where
  "is_mtp_activated mtp activation_time \<longleftrightarrow> mtp \<ge> activation_time"

section \<open>Activation\<close>

abbreviation (input) easy_blocks :: forks where "easy_blocks \<equiv> 0x1"
abbreviation (input) bip30_rule :: forks where "bip30_rule \<equiv> 0x4"
abbreviation (input) bip34_rule :: forks where "bip34_rule \<equiv> 0x8"
abbreviation (input) bip90_rule :: forks where "bip90_rule \<equiv> 0x40"
abbreviation (input) allow_collisions :: forks where "allow_collisions \<equiv> 0x80"
abbreviation (input) bip68_rule :: forks where "bip68_rule \<equiv> 0x100"
abbreviation (input) bip113_rule :: forks where "bip113_rule \<equiv> 0x400"
abbreviation (input) bch_daa_cw144 :: forks where "bch_daa_cw144 \<equiv> 0x1000"
abbreviation (input) bch_leibniz :: forks where "bch_leibniz \<equiv> 0x800000"
abbreviation (input) bch_cantor :: forks where "bch_cantor \<equiv> 0x1000000"
abbreviation (input) retarget :: forks where "retarget \<equiv> 0x40000000"
abbreviation (input) bip34_activations :: forks where "bip34_activations \<equiv> 0x38"

abbreviation (input) first_version :: nat where "first_version \<equiv> 1"
abbreviation (input) bip34_version :: nat where "bip34_version \<equiv> 2"
abbreviation (input) bip66_version :: nat where "bip66_version \<equiv> 3"
abbreviation (input) bip65_version :: nat where "bip65_version \<equiv> 4"

text \<open>The signed value is converted back to the unsigned type of the other operand, of 64 bits.\<close>

definition version_ge :: "u32 \<Rightarrow> nat \<Rightarrow> bool" where
  "version_ge v version \<longleftrightarrow> unat (scast v :: u64) \<ge> version"

definition version_total :: "chain_data \<Rightarrow> nat \<Rightarrow> nat" where
  "version_total values version = length (filter (\<lambda>v. version_ge v version) (version_ordered values))"

text \<open>
  The conditions of the activation in the order of the code, each with the rule that it adds when it holds and the
  rule is configured. The activation times are of 64 bits and passed as 32.
\<close>

definition rule_conditions :: "chain_data \<Rightarrow> forks \<Rightarrow> network \<Rightarrow> u64 \<Rightarrow> u64 \<Rightarrow> (bool \<times> forks) list" where
  "rule_conditions values forks network leibniz_activation_time cantor_activation_time =
     (let height = cd_height values;
          version = unat (version_self values);
          frozen = is_enabled forks bip90_rule;
          here = \<lparr>cp_hash = cd_hash values, cp_height = height\<rparr>;
          mtp = median_time_past values median_time_past_interval
      in [(True, retarget),
          (True, easy_blocks),
          (True, bip90_rule),
          (timestamp_self values \<ge> 0x4f3af580 \<and> \<not> is_bip16_exception here network, bip16_rule),
          (\<not> is_bip30_exception here network, bip30_rule),
          (bip34_ice height frozen network \<or>
             is_active (version_total values bip34_version) network \<and> version \<ge> bip34_version, bip34_rule),
          (bip66_ice height frozen network \<or>
             is_active (version_total values bip66_version) network \<and> version \<ge> bip66_version, bip66_rule),
          (bip65_ice height frozen network \<or>
             is_active (version_total values bip65_version) network \<and> version \<ge> bip65_version, bip65_rule),
          (allow_collisions_at_hash (allow_collisions_hash values) network, allow_collisions),
          (is_csv_enabled height network, bip112_rule),
          (is_uahf_enabled height network, bch_uahf),
          (is_daa_cw144_enabled height network, bch_daa_cw144),
          (is_pythagoras_enabled height network, bch_pythagoras),
          (is_euclid_enabled height network, bch_euclid),
          (is_pisano_enabled height network, bch_pisano),
          (is_mersenne_enabled height network, bch_mersenne),
          (is_fermat_enabled height network, bch_fermat),
          (is_euler_enabled height network, bch_euler),
          (is_gauss_enabled height network, bch_gauss),
          (is_descartes_enabled height network, bch_descartes),
          (is_lobachevski_enabled height network, bch_lobachevski),
          (is_galois_enabled height network, bch_galois),
          (is_mtp_activated mtp (ucast leibniz_activation_time), bch_leibniz),
          (is_mtp_activated mtp (ucast cantor_activation_time), bch_cantor)])"

definition add_rule :: "forks \<Rightarrow> bool \<times> forks \<Rightarrow> forks \<Rightarrow> forks" where
  "add_rule forks c result = (if fst c then result OR (snd c AND forks) else result)"

definition minimum_version_of :: "chain_data \<Rightarrow> forks \<Rightarrow> network \<Rightarrow> nat" where
  "minimum_version_of values forks network =
     (let height = cd_height values; frozen = is_enabled forks bip90_rule
      in if bip65_ice height frozen network \<or> is_enforced (version_total values bip65_version) network
         then bip65_version
         else if bip66_ice height frozen network \<or> is_enforced (version_total values bip66_version) network
         then bip66_version
         else if bip34_ice height frozen network \<or> is_enforced (version_total values bip34_version) network
         then bip34_version
         else first_version)"

record activations =
  act_forks :: forks
  act_minimum_version :: nat

definition activation :: "chain_data \<Rightarrow> forks \<Rightarrow> network \<Rightarrow> u64 \<Rightarrow> u64 \<Rightarrow> activations" where
  "activation values forks network leibniz_activation_time cantor_activation_time =
     \<lparr>act_forks = fold (add_rule forks)
        (rule_conditions values forks network leibniz_activation_time cantor_activation_time) 0,
      act_minimum_version = minimum_version_of values forks network\<rparr>"

definition signal_version :: "forks \<Rightarrow> nat" where
  "signal_version forks =
     (if is_enabled forks bip65_rule then bip65_version
      else if is_enabled forks bip66_rule then bip66_version
      else if is_enabled forks bip34_rule then bip34_version
      else first_version)"


section \<open>Lemmas\<close>

lemma bit_add_rules:
  "bit (fold (add_rule forks) cs f) n \<longleftrightarrow> bit f n \<or> bit forks n \<and> (\<exists>(c, r) \<in> set cs. c \<and> bit r n)"
proof (induction cs arbitrary: f)
  case (Cons cr cs)
  have "bit (add_rule forks cr f) n \<longleftrightarrow> bit f n \<or> bit forks n \<and> fst cr \<and> bit (snd cr) n"
    by (auto simp only: add_rule_def bit_or_iff bit_and_iff split: if_splits)
  then show ?case by (simp add: Cons.IH case_prod_unfold) blast
qed simp

lemma bit_active_forks:
  "bit (act_forks (activation values forks network l c)) n \<longleftrightarrow>
     bit forks n \<and> (\<exists>(a, r) \<in> set (rule_conditions values forks network l c). a \<and> bit r n)"
  by (simp add: activation_def bit_add_rules)

lemma is_rule_enabled_mono:
  "is_rule_enabled h network hs \<Longrightarrow> h \<le> h' \<Longrightarrow> is_rule_enabled h' network hs"
  by (cases hs; cases network) auto

declare is_rule_enabled.simps [simp del]

lemma is_enabled_bit: "is_enabled f (push_bit n 1) \<longleftrightarrow> bit f n" if "n < 32"
proof -
  have "push_bit n 1 AND f = (if bit f n then push_bit n 1 else 0)"
    by (rule bit_eqI) (auto simp: bit_simps)
  moreover have "push_bit n (1 :: u32) \<noteq> 0"
    using that by simp
  ultimately show ?thesis by (simp add: is_enabled_def)
qed

lemma is_enabled_activation:
  assumes "n < 32"
  shows "is_enabled (act_forks (activation values forks network l c)) (push_bit n 1) \<longleftrightarrow>
    is_enabled forks (push_bit n 1) \<and>
    (\<exists>(a, r) \<in> set (rule_conditions values forks network l c). a \<and> bit r n)"
  unfolding is_enabled_bit [OF assms] bit_active_forks by (rule refl)

text \<open>The rules whose activation is a matter of the height alone, by their bits.\<close>

definition upgrade_heights :: "(nat \<times> rule_heights) list" where
  "upgrade_heights =
     [(9, csv_heights), (11, uahf_heights), (12, daa_cw144_heights), (13, pythagoras_heights),
      (14, euclid_heights), (15, pisano_heights), (16, mersenne_heights), (17, fermat_heights),
      (18, euler_heights), (19, gauss_heights), (20, descartes_heights), (21, lobachevski_heights),
      (22, galois_heights)]"

lemma upgrade_active_iff:
  assumes "(n, hs) \<in> set upgrade_heights"
  shows "is_enabled (act_forks (activation values forks network l c)) (push_bit n 1) \<longleftrightarrow>
    is_enabled forks (push_bit n 1) \<and> is_rule_enabled (cd_height values) network hs"
proof -
  have "n < 32" using assms by (auto simp: upgrade_heights_def)
  moreover have "(\<exists>(a, r) \<in> set (rule_conditions values forks network l c). a \<and> bit r n) \<longleftrightarrow>
      is_rule_enabled (cd_height values) network hs"
    using assms unfolding upgrade_heights_def
    by (simp only: list.set insert_iff empty_iff simp_thms Pair_inject)
      (elim disjE; simp add: rule_conditions_def Let_def is_csv_enabled_def is_uahf_enabled_def
        is_daa_cw144_enabled_def is_pythagoras_enabled_def is_euclid_enabled_def is_pisano_enabled_def
        is_mersenne_enabled_def is_fermat_enabled_def is_euler_enabled_def is_gauss_enabled_def
        is_descartes_enabled_def is_lobachevski_enabled_def is_galois_enabled_def)
  ultimately show ?thesis by (simp only: is_enabled_activation)
qed

lemma sorted_below: "sorted xs \<Longrightarrow> i < length xs \<Longrightarrow> length (filter (\<lambda>x. x < xs ! i) xs) \<le> i"
proof -
  assume s: "sorted xs" "i < length xs"
  have "filter (\<lambda>x. x < xs ! i) xs = filter (\<lambda>x. x < xs ! i) (take i xs) @ filter (\<lambda>x. x < xs ! i) (drop i xs)"
    by (simp flip: filter_append)
  moreover have "filter (\<lambda>x. x < xs ! i) (drop i xs) = []"
    using s by (auto simp: filter_empty_conv in_set_conv_nth not_less sorted_iff_nth_mono)
  ultimately show ?thesis
    by simp (metis length_filter_le length_take min.bounded_iff order_trans min.cobounded2)
qed

lemma sorted_above:
  assumes "sorted xs" "i < length xs"
  shows "length (filter (\<lambda>x. xs ! i < x) xs) \<le> length xs - 1 - i"
proof -
  have "filter (\<lambda>x. xs ! i < x) xs =
      filter (\<lambda>x. xs ! i < x) (take (Suc i) xs) @ filter (\<lambda>x. xs ! i < x) (drop (Suc i) xs)"
    by (simp flip: filter_append)
  moreover have "filter (\<lambda>x. xs ! i < x) (take (Suc i) xs) = []"
    using assms by (auto simp: filter_empty_conv in_set_conv_nth not_less sorted_iff_nth_mono)
  moreover have "length (filter (\<lambda>x. xs ! i < x) (drop (Suc i) xs)) \<le> length (drop (Suc i) xs)"
    by (rule length_filter_le)
  ultimately show ?thesis by simp
qed

lemma median_spec:
  assumes "ts \<noteq> []"
  shows "median ts \<in> set ts" "length (filter (\<lambda>t. t < median ts) ts) \<le> length ts div 2"
    "length (filter (\<lambda>t. median ts < t) ts) \<le> length ts - 1 - length ts div 2"
proof -
  have i: "length ts div 2 < length (sort ts)" using assms by simp
  have m: "median ts = sort ts ! (length ts div 2)"
  proof -
    have "sort ts \<noteq> []" using assms by (metis length_sort length_0_conv)
    then show ?thesis by (simp add: median_def)
  qed
  have f: "length (filter P ts) = length (filter P (sort ts))" for P
    by (metis mset_filter mset_sort size_mset)
  show "median ts \<in> set ts" using m nth_mem [OF i] by simp
  show "length (filter (\<lambda>t. t < median ts) ts) \<le> length ts div 2"
    unfolding f m by (rule sorted_below [OF sorted_sort i])
  show "length (filter (\<lambda>t. median ts < t) ts) \<le> length ts - 1 - length ts div 2"
    unfolding f m using sorted_above [OF sorted_sort i] by simp
qed

lemma inactive_rules:
  "\<not> is_enabled (act_forks (activation values forks network l c)) bip68_rule"
  "\<not> is_enabled (act_forks (activation values forks network l c)) bip113_rule"
proof -
  have none: "\<not> (\<exists>(a, r) \<in> set (rule_conditions values forks network l c). a \<and> bit r n)"
    if "n = 8 \<or> n = 10" for n
    using that by (elim disjE) (simp_all add: rule_conditions_def Let_def)
  have never: "\<not> is_enabled (act_forks (activation values forks network l c)) (push_bit n 1)"
    if n: "n = 8 \<or> n = 10" for n
  proof -
    have "n < 32" using n by auto
    from is_enabled_activation [OF this] none [OF n] show ?thesis by metis
  qed
  from never [of 8] never [of 10]
  show "\<not> is_enabled (act_forks (activation values forks network l c)) bip68_rule"
    "\<not> is_enabled (act_forks (activation values forks network l c)) bip113_rule" by simp_all
qed

text \<open>The height of a rule on each network.\<close>

definition rule_height :: "network \<Rightarrow> rule_heights \<Rightarrow> nat" where
  "rule_height network hs =
     (case hs of (m, t, t4, s, c) \<Rightarrow>
        case network of mainnet \<Rightarrow> m | testnet \<Rightarrow> t | regtest \<Rightarrow> 0 | testnet4 \<Rightarrow> t4 | scalenet \<Rightarrow> s | chipnet \<Rightarrow> c)"

lemma is_rule_enabled_height: "is_rule_enabled h network hs \<longleftrightarrow> rule_height network hs \<le> h"
  by (cases hs; cases network) (simp_all add: rule_height_def is_rule_enabled.simps)

lemma time_rules_iff:
  "is_enabled (act_forks (activation values forks network l c)) bch_leibniz \<longleftrightarrow>
     is_enabled forks bch_leibniz \<and> ucast l \<le> median_time_past values 11"
  "is_enabled (act_forks (activation values forks network l c)) bch_cantor \<longleftrightarrow>
     is_enabled forks bch_cantor \<and> ucast c \<le> median_time_past values 11"
proof -
  have "(\<exists>(a, r) \<in> set (rule_conditions values forks network l c). a \<and> bit r 23) \<longleftrightarrow> ucast l \<le> median_time_past values 11"
    "(\<exists>(a, r) \<in> set (rule_conditions values forks network l c). a \<and> bit r 24) \<longleftrightarrow> ucast c \<le> median_time_past values 11"
    by (simp_all add: rule_conditions_def Let_def is_mtp_activated_def)
  with is_enabled_activation [of 23 "values" forks network l c] is_enabled_activation [of 24 "values" forks network l c]
  show "is_enabled (act_forks (activation values forks network l c)) bch_leibniz \<longleftrightarrow>
      is_enabled forks bch_leibniz \<and> ucast l \<le> median_time_past values 11"
    "is_enabled (act_forks (activation values forks network l c)) bch_cantor \<longleftrightarrow>
      is_enabled forks bch_cantor \<and> ucast c \<le> median_time_past values 11"
    by simp_all
qed

section \<open>Properties\<close>

text \<open>Only configured rules are in force; relative lock times (BIP68) and the median time past as the time of
  the block for lock times (BIP113) never are, whatever is configured and at every height, although the
  comment at the activation of CSV counts them in.\<close>

theorem active_rules_configured:
  "act_forks (activation values forks network l c) AND NOT forks = 0 \<and>
   \<not> is_enabled (act_forks (activation values forks network l c)) bip68_rule \<and>
   \<not> is_enabled (act_forks (activation values forks network l c)) bip113_rule"
proof (intro conjI)
  show "act_forks (activation values forks network l c) AND NOT forks = 0"
    by (rule bit_eqI) (auto simp: bit_and_iff bit_not_iff bit_active_forks)
qed (rule inactive_rules)+

text \<open>C25: The rules of an upgrade are in force exactly from its height on, when configured: each of the thirteen that are
  activated by height is in force at a block exactly when it is configured and the block is at or above the height
  of the rule on its network, which is 0 on regtest; so along a chain, whatever its versions and times, none is ever taken
  back. Leibniz and cantor are in force exactly when they are configured and the median time past of the last eleven
  blocks has reached their activation time, of which only the low 32 bits count.\<close>

theorem upgrades_stay_active:
  "(\<forall>(n, hs) \<in> set upgrade_heights.
      (is_enabled (act_forks (activation values forks network l c)) (push_bit n 1) \<longleftrightarrow>
         is_enabled forks (push_bit n 1) \<and> rule_height network hs \<le> cd_height values) \<and>
      (\<forall>values'. cd_height values \<le> cd_height values' \<and>
         is_enabled (act_forks (activation values forks network l c)) (push_bit n 1) \<longrightarrow>
         is_enabled (act_forks (activation values' forks network l c)) (push_bit n 1))) \<and>
   (is_enabled (act_forks (activation values forks network l c)) bch_leibniz \<longleftrightarrow>
      is_enabled forks bch_leibniz \<and> ucast l \<le> median_time_past values 11) \<and>
   (is_enabled (act_forks (activation values forks network l c)) bch_cantor \<longleftrightarrow>
      is_enabled forks bch_cantor \<and> ucast c \<le> median_time_past values 11)"
proof (intro conjI)
  show "\<forall>(n, hs) \<in> set upgrade_heights.
      (is_enabled (act_forks (activation values forks network l c)) (push_bit n 1) \<longleftrightarrow>
         is_enabled forks (push_bit n 1) \<and> rule_height network hs \<le> cd_height values) \<and>
      (\<forall>values'. cd_height values \<le> cd_height values' \<and>
         is_enabled (act_forks (activation values forks network l c)) (push_bit n 1) \<longrightarrow>
         is_enabled (act_forks (activation values' forks network l c)) (push_bit n 1))"
    by (auto simp: upgrade_active_iff is_rule_enabled_height simp del: push_bit_of_1)
qed (rule time_rules_iff)+

text \<open>The median time past is one of the times of the latest eleven blocks, or of all of them while
  there are fewer; at most half of those times are before it and fewer than half are after it.\<close>

theorem median_time_past_spec:
  assumes "timestamp_ordered values \<noteq> []"
  defines "recent \<equiv> drop (length (timestamp_ordered values) - 11) (timestamp_ordered values)"
  shows "median_time_past values 11 \<in> set recent \<and>
    2 * length (filter (\<lambda>t. t < median_time_past values 11) recent) \<le> length recent \<and>
    2 * length (filter (\<lambda>t. median_time_past values 11 < t) recent) < length recent"
proof -
  have r: "recent \<noteq> []" using assms(1) by (cases "timestamp_ordered values") (simp_all add: recent_def)
  have "timestamps_subset (timestamp_ordered values) 11 = recent"
    by (simp add: timestamps_subset_def recent_def Let_def min_def)
  then have m: "median_time_past values 11 = median recent" by (simp add: median_time_past_def)
  from median_spec [OF r] r show ?thesis unfolding m by (cases recent) auto
qed

section \<open>Witnesses\<close>

definition example_data :: "nat \<Rightarrow> chain_data" where
  "example_data height =
     \<lparr>cd_height = height, cd_hash = replicate 32 1, allow_collisions_hash = replicate 32 0,
      bits_self = 0x1d00ffff, bits_ordered = replicate 147 0x1d00ffff,
      version_self = 4, version_ordered = [], timestamp_self = 2000, timestamp_retarget = 0,
      timestamp_ordered = map of_nat [0..<147],
      cd_abla_state = \<lparr>block_size = 0, control_block_size = 16000000, elastic_buffer_size = 16000000\<rparr>\<rparr>"

theorem upgrades_stay_active_witness:
  "is_enabled (act_forks (activation (example_data 898374) 0xffffffff mainnet 0 0)) (push_bit 22 1) \<and>
   \<not> is_enabled (act_forks (activation (example_data 898373) 0xffffffff mainnet 0 0)) (push_bit 22 1) \<and>
   is_enabled (act_forks (activation (example_data 898373) 0xffffffff mainnet 0 0)) bch_cantor"
proof -
  have "(22, galois_heights) \<in> set upgrade_heights" by (simp add: upgrade_heights_def)
  with upgrades_stay_active [of "example_data 898374" "0xffffffff" mainnet 0 0]
    upgrades_stay_active [of "example_data 898373" "0xffffffff" mainnet 0 0]
  show ?thesis
    by (auto simp: example_data_def is_enabled_def galois_heights_def rule_height_def)
qed

theorem median_time_past_spec_witness:
  "median_time_past (example_data 1000) 11 \<in> set (drop 136 (map of_nat [0..<147]))"
  using median_time_past_spec [of "example_data 1000"] by (simp add: example_data_def)

text \<open>The comparison of versions is unsigned, although its comment requires that of the signed value: a
  version with the highest bit counts for every rule.\<close>

lemma version_ge_unsigned:
  assumes "version \<le> 2 ^ 31"
  shows "version_ge v version \<longleftrightarrow> version \<le> unat v"
proof -
  have s: "sint v = (uint v + 2 ^ 31) mod 2 ^ 32 - 2 ^ 31"
    unfolding sint_uint signed_take_bit_eq_take_bit_shift by (simp add: take_bit_eq_mod)
  have u: "uint (scast v :: u64) = sint v mod 2 ^ 64"
    unfolding scast_eq uint_word_of_int by simp
  have b: "0 \<le> uint v" "uint v < 2 ^ 32" using unsigned_less [of v, where ?'a = int] by simp_all
  have n: "unat v = nat (uint v)" "unat (scast v :: u64) = nat (uint (scast v :: u64))" by simp_all
  show ?thesis
  proof (cases "uint v < 2 ^ 31")
    case True
    then have "sint v = uint v" unfolding s using b by simp
    with True b u have "uint (scast v :: u64) = uint v" by simp
    then show ?thesis unfolding version_ge_def n by simp
  next
    case False
    then have "(uint v + 2 ^ 31) mod 2 ^ 32 = uint v + 2 ^ 31 - 2 ^ 32"
      using b by (simp add: mod_pos_geq)
    then have "sint v = uint v - 2 ^ 32" unfolding s by simp
    moreover have "(uint v - 2 ^ 32) mod 2 ^ 64 = uint v - 2 ^ 32 + 2 ^ 64"
      using b mod_add_self2 [of "uint v - 2 ^ 32" "2 ^ 64 :: int"] by simp
    ultimately have e: "uint (scast v :: u64) = uint v - 2 ^ 32 + 2 ^ 64" using u by simp
    have "int version \<le> 2 ^ 31" using assms zle_int [of version "2 ^ 31"] by simp
    with False have le: "int version \<le> uint v" by linarith
    have "int version \<le> uint (scast v :: u64)" unfolding e using le by simp
    with le have "version \<le> nat (uint v)" "version \<le> nat (uint (scast v :: u64))" by linarith+
    then show ?thesis unfolding version_ge_def n by blast
  qed
qed

end
