(* ===== verification/Compact.thy ===== *)
theory Compact
  imports Prelude
begin

unbundle bit_operations_syntax

text \<open>
  The compact notation of proof of work targets (domain/src/chain/compact.cpp): one byte of exponent
  and three of mantissa, base 256, with an unused sign bit, against 256 bit numbers.
\<close>

section \<open>The notation\<close>

definition exp_byte :: u32 where "exp_byte = 0xff000000"
definition sign_bit :: u32 where "sign_bit = 0x00800000"
definition mantissa_max :: u32 where "mantissa_max = NOT (exp_byte OR sign_bit)"
definition mantissa_bits :: nat where "mantissa_bits = 24"

definition is_negated :: "u32 \<Rightarrow> bool" where
  "is_negated compact \<longleftrightarrow> compact AND sign_bit \<noteq> 0"

definition log_256 :: "u32 \<Rightarrow> nat" where
  "log_256 mantissa =
     (if mantissa > 0x0000ffff then 3 else if mantissa > 0x000000ff then 2
      else if mantissa > 0 then 1 else 0)"

definition compact_overflow :: "u8 \<Rightarrow> u32 \<Rightarrow> bool" where
  "compact_overflow exponent mantissa \<longleftrightarrow>
     mantissa > 0 \<and> int (unat exponent) > 32 + 3 - int (log_256 mantissa)"

definition shift_low :: "u8 \<Rightarrow> nat" where
  "shift_low exponent = 8 * (3 - unat exponent)"

definition shift_high :: "u8 \<Rightarrow> nat" where
  "shift_high exponent = 8 * (unat exponent - 3)"

function logical_size :: "u256 \<Rightarrow> nat" where
  "logical_size v = (if v = 0 then 0 else Suc (logical_size (drop_bit 8 v)))"
  by pat_completeness auto
termination
proof (relation "measure unat")
  fix v :: u256
  assume "v \<noteq> 0"
  then have "unat v \<noteq> 0" by (simp add: unat_eq_zero)
  then show "(drop_bit 8 v, v) \<in> measure unat" by (simp add: drop_bit_eq_div unat_div_distrib)
qed simp

declare logical_size.simps [simp del]

text \<open>\<open>None\<close> is an overflow. Negative numbers are zero.\<close>

definition from_compact :: "u32 \<Rightarrow> u256 option" where
  "from_compact compact =
     (if is_negated compact then Some 0
      else
        let mantissa = compact AND mantissa_max;
            exponent = (ucast (drop_bit mantissa_bits compact) :: u8)
        in if exponent \<le> 3 then Some (ucast (drop_bit (shift_low exponent) mantissa))
           else if compact_overflow exponent mantissa then None
           else Some (push_bit (shift_high exponent) (ucast mantissa)))"

definition from_big :: "u256 \<Rightarrow> u32" where
  "from_big big =
     (let exponent = (of_nat (logical_size big) :: u8);
          mantissa64 = (if exponent \<le> 3 then push_bit (shift_low exponent) (ucast big :: u64)
            else ucast (drop_bit (shift_high exponent) big));
          mantissa = (ucast mantissa64 :: u32);
          (exponent, mantissa) =
            (if is_negated mantissa then (exponent + 1, drop_bit 8 mantissa) else (exponent, mantissa))
      in push_bit mantissa_bits (ucast exponent) OR mantissa)"

record compact =
  big :: u256
  normal :: u32
  overflowed :: bool

definition compact_of_bits :: "u32 \<Rightarrow> compact" where
  "compact_of_bits bits =
     (let b = (case from_compact bits of None \<Rightarrow> 0 | Some b \<Rightarrow> b)
      in \<lparr>big = b, normal = from_big b, overflowed = (from_compact bits = None)\<rparr>)"

definition compact_of_big :: "u256 \<Rightarrow> compact" where
  "compact_of_big b = \<lparr>big = b, normal = from_big b, overflowed = False\<rparr>"

section \<open>The notation over the natural numbers\<close>

definition byte_length :: "nat \<Rightarrow> nat" where
  "byte_length k = (LEAST n. k < 256 ^ n)"

lemma byte_length_less: "k < 256 ^ byte_length k"
proof -
  have "k < 256 ^ k" by (rule less_exp [THEN less_le_trans]) (simp add: power_mono)
  then show ?thesis unfolding byte_length_def by (rule LeastI)
qed

lemma byte_length_le_iff: "byte_length k \<le> n \<longleftrightarrow> k < 256 ^ n"
proof
  assume "byte_length k \<le> n"
  then have "(256 :: nat) ^ byte_length k \<le> 256 ^ n" by (simp add: power_increasing)
  with byte_length_less [of k] show "k < 256 ^ n" by linarith
next
  assume "k < 256 ^ n"
  then show "byte_length k \<le> n" unfolding byte_length_def by (rule Least_le)
qed

lemma byte_length_0 [simp]: "byte_length 0 = 0"
  using byte_length_le_iff [of 0 0] by simp

lemma byte_length_div:
  assumes "k \<noteq> 0"
  shows "byte_length k = Suc (byte_length (k div 256))"
proof (rule antisym)
  have "k div 256 < 256 ^ byte_length (k div 256)" by (rule byte_length_less)
  then have "k < 256 ^ Suc (byte_length (k div 256))" by (simp add: div_less_iff_less_mult mult.commute)
  then show "byte_length k \<le> Suc (byte_length (k div 256))" by (simp only: byte_length_le_iff)
  obtain n where n: "byte_length k = Suc n"
    using assms byte_length_le_iff [of k 0] by (cases "byte_length k") auto
  then have "k < 256 ^ Suc n" using byte_length_less [of k] by simp
  then have "k div 256 < 256 ^ n" by (simp add: div_less_iff_less_mult mult.commute)
  with n show "Suc (byte_length (k div 256)) \<le> byte_length k" by (simp add: byte_length_le_iff)
qed

lemma logical_size_eq: "logical_size v = byte_length (unat v)"
proof (induction v rule: logical_size.induct)
  case (1 v)
  show ?case
  proof (cases "v = 0")
    case False
    then have "unat v \<noteq> 0" by (simp add: unat_eq_zero)
    with False 1 show ?thesis
      by (subst logical_size.simps) (simp add: byte_length_div drop_bit_eq_div unat_div_distrib)
  qed (simp add: logical_size.simps)
qed

lemma logical_size_le: "logical_size v \<le> 32"
  using unsigned_less [of v] by (simp add: logical_size_eq byte_length_le_iff)


text \<open>The notation of exponent \<open>e\<close> and mantissa \<open>m\<close>, and what it stands for.\<close>

definition assemble :: "nat \<Rightarrow> nat \<Rightarrow> u32" where
  "assemble e m = of_nat (e * 2 ^ 24 + m)"

definition compact_value :: "nat \<Rightarrow> nat \<Rightarrow> nat" where
  "compact_value e m = (if e \<le> 3 then m div 256 ^ (3 - e) else m * 256 ^ (e - 3))"

lemma unat_assemble: "e < 256 \<Longrightarrow> m < 2 ^ 24 \<Longrightarrow> unat (assemble e m) = e * 2 ^ 24 + m"
  unfolding assemble_def unat_of_nat by simp

lemma mantissa_max_mask: "mantissa_max = mask 23"
  by (simp add: mantissa_max_def exp_byte_def sign_bit_def mask_eq_exp_minus_1)

lemma is_negated_bit: "is_negated c \<longleftrightarrow> bit c 23"
proof -
  have "sign_bit = 2 ^ 23" by (simp add: sign_bit_def)
  then show ?thesis unfolding is_negated_def \<open>sign_bit = 2 ^ 23\<close> and_exp_eq_0_iff_not_bit by blast
qed

lemma bit_unat_23: "bit (c :: u32) 23 \<longleftrightarrow> unat c mod 2 ^ 24 \<ge> 2 ^ 23"
proof -
  have "bit (unat c) 23 \<longleftrightarrow> bit c 23" by (simp add: bit_unsigned_iff)
  then have "bit c 23 \<longleftrightarrow> odd (unat c div 2 ^ 23)" by (simp add: bit_iff_odd [of "unat c"])
  also have "\<dots> \<longleftrightarrow> unat c mod 2 ^ 24 \<ge> 2 ^ 23"
    using mod_mult2_eq [of "unat c" "2 ^ 23" 2] by (cases "even (unat c div 2 ^ 23)") (auto simp: odd_iff_mod_2_eq_one not_le)
  finally show ?thesis .
qed

lemma byte_length_eq: "byte_length k = n \<longleftrightarrow> k < 256 ^ n \<and> (n = 0 \<or> 256 ^ (n - 1) \<le> k)"
  using byte_length_le_iff [of k n] byte_length_le_iff [of k "n - 1"] by (cases n) auto

lemma log_256_byte_length:
  assumes "m < 2 ^ 24"
  shows "log_256 (of_nat m) = byte_length m"
proof -
  have "unat (of_nat m :: u32) = m" using assms by (simp add: unat_of_nat)
  then show ?thesis using assms
    by (auto simp: log_256_def word_less_nat_alt byte_length_eq eq_commute [of _ "byte_length m"])
qed

lemma assemble_parts:
  assumes "e < 256" "m < 2 ^ 24"
  shows "(ucast (drop_bit mantissa_bits (assemble e m)) :: u8) = of_nat e"
    "is_negated (assemble e m) \<longleftrightarrow> 2 ^ 23 \<le> m"
    "m < 2 ^ 23 \<Longrightarrow> assemble e m AND mantissa_max = of_nat m"
proof -
  note u = unat_assemble [OF assms]
  show "(ucast (drop_bit mantissa_bits (assemble e m)) :: u8) = of_nat e"
    using assms by (simp add: u8_eq_iff_unat unat_ucast_mod mantissa_bits_def unat_drop_bit u unat_of_nat)
  show "is_negated (assemble e m) \<longleftrightarrow> 2 ^ 23 \<le> m"
    using assms by (simp add: is_negated_bit bit_unat_23 u mult.commute)
  show "assemble e m AND mantissa_max = of_nat m" if "m < 2 ^ 23"
  proof -
    have "unat (assemble e m AND mantissa_max) = unat (assemble e m) mod 2 ^ 23"
      by (simp only: mantissa_max_mask unat_and_mask)
    also have "\<dots> = m" using that mod_mult_self3 [of "e * 2" "2 ^ 23" m] by (simp add: u mult.commute)
    finally show ?thesis using that by (simp add: word_eq_iff_unsigned [where ?'a = nat] unat_of_nat)
  qed
qed

lemma from_compact_assemble:
  assumes "e < 256" "m < 2 ^ 24"
  shows "from_compact (assemble e m) =
    (if m \<ge> 2 ^ 23 then Some 0
     else if e > 3 \<and> m > 0 \<and> e > 35 - byte_length m then None
     else Some (of_nat (compact_value e m)))"
proof (cases "2 ^ 23 \<le> m")
  case True
  then show ?thesis using assemble_parts(2) [OF assms] by (simp add: from_compact_def)
next
  case False
  then have m: "assemble e m AND mantissa_max = of_nat m" "\<not> is_negated (assemble e m)"
    using assemble_parts [OF assms] by auto
  have e: "unat (of_nat e :: u8) = e" using assms(1) by (simp add: unat_of_nat)
  have um: "unat (of_nat m :: u32) = m" using assms(2) by (simp add: unat_of_nat)
  have e3: "(of_nat e :: u8) \<le> 3 \<longleftrightarrow> e \<le> 3" by (simp add: word_le_nat_alt e)
  have pow: "(2 :: nat) ^ (8 * n) = 256 ^ n" for n by (simp add: power_mult)
  have low: "ucast (drop_bit (8 * (3 - e)) (of_nat m :: u32)) = (of_nat (m div 256 ^ (3 - e)) :: u256)"
    using assms(2)
    by (simp add: word_eq_iff_unsigned [where ?'a = nat] unat_ucast_mod unat_drop_bit um pow unat_of_nat)
  have high: "push_bit (8 * (e - 3)) (ucast (of_nat m :: u32) :: u256) = of_nat (m * 256 ^ (e - 3))"
  proof -
    have "(ucast (of_nat m :: u32) :: u256) = of_nat m"
      using assms(2) by (simp add: word_eq_iff_unsigned [where ?'a = nat] unat_ucast_mod um unat_of_nat)
    then show ?thesis by (simp add: push_bit_eq_mult flip: pow)
  qed
  have over: "compact_overflow (of_nat e) (of_nat m) \<longleftrightarrow> m > 0 \<and> e > 35 - byte_length m"
    using assms(2) log_256_byte_length [OF assms(2)] byte_length_le_iff [of m 3]
    by (auto simp: compact_overflow_def e word_less_nat_alt um)
  show ?thesis
    using False m by (simp add: from_compact_def assemble_parts(1) [OF assms] e3 over shift_low_def
        shift_high_def e low high compact_value_def Let_def)
qed


text \<open>The first three bytes of a number, and how many bytes its notation drops.\<close>

definition leading :: "nat \<Rightarrow> nat" where
  "leading k = (if byte_length k \<le> 3 then k * 256 ^ (3 - byte_length k) else k div 256 ^ (byte_length k - 3))"

definition dropped :: "nat \<Rightarrow> nat" where
  "dropped k = (if leading k < 2 ^ 23 then byte_length k - 3 else byte_length k - 2)"

lemma leading_less: "leading k < 2 ^ 24"
proof (cases "byte_length k \<le> 3")
  case True
  have "k * 256 ^ (3 - byte_length k) < 256 ^ byte_length k * 256 ^ (3 - byte_length k)"
    using byte_length_less [of k] by simp
  with True show ?thesis by (simp add: leading_def flip: power_add)
next
  case False
  then have "(256 :: nat) ^ byte_length k = 256 ^ 3 * 256 ^ (byte_length k - 3)"
    using power_add [of "256 :: nat" 3 "byte_length k - 3"] by simp
  with byte_length_less [of k] False show ?thesis
    by (simp add: leading_def div_less_iff_less_mult)
qed

lemma leading_ge:
  assumes "k \<noteq> 0"
  shows "2 ^ 16 \<le> leading k"
proof -
  have n: "byte_length k \<noteq> 0" "256 ^ (byte_length k - 1) \<le> k"
    using assms byte_length_eq [of k "byte_length k"] byte_length_le_iff [of k 0] by auto
  show ?thesis
  proof (cases "byte_length k \<le> 3")
    case True
    have "(256 :: nat) ^ (byte_length k - 1) * 256 ^ (3 - byte_length k) = 256 ^ 2"
      using True n(1) by (simp flip: power_add)
    then have "256 ^ 2 \<le> k * 256 ^ (3 - byte_length k)"
      using mult_le_mono1 [OF n(2), of "256 ^ (3 - byte_length k)"] by metis
    with True show ?thesis by (simp add: leading_def)
  next
    case False
    then have "byte_length k - 1 = 2 + (byte_length k - 3)" by simp
    then have "(256 :: nat) ^ (byte_length k - 1) = 256 ^ 2 * 256 ^ (byte_length k - 3)"
      by (simp only: power_add)
    with n(2) False show ?thesis by (simp add: leading_def less_eq_div_iff_mult_less_eq)
  qed
qed

lemma from_big_eq:
  "from_big v = (if leading (unat v) < 2 ^ 23 then assemble (byte_length (unat v)) (leading (unat v))
     else assemble (byte_length (unat v) + 1) (leading (unat v) div 256))"
proof -
  let ?k = "unat v" and ?n = "byte_length (unat v)"
  have n: "?n \<le> 32" using logical_size_le [of v] by (simp add: logical_size_eq)
  have e: "unat (of_nat ?n :: u8) = ?n" using n by (simp add: unat_of_nat)
  have e3: "(of_nat ?n :: u8) \<le> 3 \<longleftrightarrow> ?n \<le> 3" by (simp add: word_le_nat_alt e)
  have pow: "(2 :: nat) ^ (8 * n) = 256 ^ n" for n by (simp add: power_mult)
  let ?m64 = "if (of_nat ?n :: u8) \<le> 3 then push_bit (shift_low (of_nat ?n)) (ucast v :: u64)
    else ucast (drop_bit (shift_high (of_nat ?n)) v)"
  have "unat ?m64 = leading ?k"
  proof (cases "?n \<le> 3")
    case True
    then have "?k < 2 ^ 24" using byte_length_le_iff [of ?k 3] by simp
    then have "unat (ucast v :: u64) = ?k" by (simp add: unat_ucast_mod)
    with True leading_less [of ?k] show ?thesis
      by (simp add: e3 shift_low_def e unat_push_bit pow leading_def)
  next
    case False
    with leading_less [of ?k] show ?thesis
      by (simp add: e3 shift_high_def e unat_ucast_mod unat_drop_bit pow leading_def)
  qed
  then have m: "(ucast ?m64 :: u32) = of_nat (leading ?k)"
    using leading_less [of ?k] by (simp add: word_eq_iff_unsigned [where ?'a = nat] unat_ucast_mod unat_of_nat)
  have neg: "is_negated (of_nat (leading ?k)) \<longleftrightarrow> 2 ^ 23 \<le> leading ?k"
    using assemble_parts(2) [of 0 "leading ?k"] leading_less [of ?k] by (simp add: assemble_def)
  have join: "push_bit mantissa_bits (ucast (of_nat e' :: u8)) OR (of_nat m' :: u32) = assemble e' m'"
    if "e' < 256" "m' < 2 ^ 24" for e' m'
  proof -
    have "(ucast (of_nat e' :: u8) :: u32) = of_nat e'"
      using that by (simp add: word_eq_iff_unsigned [where ?'a = nat] unat_ucast_mod unat_of_nat)
    moreover have "push_bit 24 (of_nat e' :: u32) AND of_nat m' = 0"
    proof (rule bit_word_eqI)
      fix i assume "i < LENGTH(32)"
      have "take_bit 24 m' = m'" using \<open>m' < 2 ^ 24\<close> by (simp add: take_bit_nat_eq_self)
      then have "\<not> bit m' i" if "24 \<le> i" using that bit_take_bit_iff [of 24 m' i] by simp
      then show "bit (push_bit 24 (of_nat e' :: u32) AND of_nat m') i = bit (0 :: u32) i"
        by (auto simp: bit_simps)
    qed
    ultimately show ?thesis
      by (simp add: mantissa_bits_def assemble_def push_bit_eq_mult mult.commute flip: disjunctive_add_eq_or)
  qed
  have half: "drop_bit 8 (of_nat (leading ?k) :: u32) = of_nat (leading ?k div 256)"
    using leading_less [of ?k]
    by (simp add: word_eq_iff_unsigned [where ?'a = nat] unat_drop_bit unat_of_nat)
  show ?thesis
    unfolding from_big_def logical_size_eq Let_def m neg half
    using n leading_less [of ?k] join [of ?n "leading ?k"] join [of "?n + 1" "leading ?k div 256"]
    by (simp add: not_le add.commute)
qed


lemma from_compact_from_big:
  "from_compact (from_big v) = Some (of_nat (unat v div 256 ^ dropped (unat v) * 256 ^ dropped (unat v)))"
proof -
  let ?k = "unat v"
  let ?n = "byte_length ?k" and ?l = "leading ?k"
  have n: "?n \<le> 32" using logical_size_le [of v] by (simp add: logical_size_eq)
  have l: "?l < 2 ^ 24" by (rule leading_less)
  have b: "byte_length m \<le> j \<longleftrightarrow> m < 256 ^ j" for m j by (rule byte_length_le_iff)
  show ?thesis
  proof (cases "?l < 2 ^ 23")
    case True
    have "byte_length ?l \<le> 3" using l by (simp add: b)
    then have "?n \<le> 35 - byte_length ?l" using n by simp
    then have "from_compact (from_big v) = Some (of_nat (compact_value ?n ?l))"
      using True l n by (simp add: from_big_eq from_compact_assemble)
    moreover have "compact_value ?n ?l = ?k div 256 ^ dropped ?k * 256 ^ dropped ?k"
      using True by (simp add: compact_value_def dropped_def leading_def)
    ultimately show ?thesis by simp
  next
    case False
    have "byte_length (?l div 256) \<le> 2" using l by (simp add: b div_less_iff_less_mult)
    then have "?n + 1 \<le> 35 - byte_length (?l div 256)" using n by simp
    moreover have "\<not> 2 ^ 23 \<le> ?l div 256" "?l div 256 < 2 ^ 24" using l by auto
    ultimately have "from_compact (assemble (?n + 1) (?l div 256)) = Some (of_nat (compact_value (?n + 1) (?l div 256)))"
      using n from_compact_assemble [of "?n + 1" "?l div 256"] by simp
    then have "from_compact (from_big v) = Some (of_nat (compact_value (?n + 1) (?l div 256)))"
      using False by (simp add: from_big_eq)
    moreover have "compact_value (?n + 1) (?l div 256) = ?k div 256 ^ dropped ?k * 256 ^ dropped ?k"
    proof -
      consider "?n \<le> 2" | "?n = 3" | "4 \<le> ?n" by linarith
      then show ?thesis
      proof cases
        case 1
        then have "(256 :: nat) ^ (3 - ?n) = 256 * 256 ^ (2 - ?n)"
          by (simp add: Suc_diff_le flip: power_Suc)
        with 1 False show ?thesis by (simp add: compact_value_def dropped_def leading_def)
      next
        case 2
        with False show ?thesis by (simp add: compact_value_def dropped_def leading_def)
      next
        case 3
        then have "?n - 2 = Suc (?n - 3)" by simp
        then have "(256 :: nat) ^ (?n - 2) = 256 ^ (?n - 3) * 256" by (simp only: power_Suc2)
        with 3 False show ?thesis
          by (simp add: compact_value_def dropped_def leading_def div_mult2_eq)
      qed
    qed
    ultimately show ?thesis by simp
  qed
qed


text \<open>Numbers that a notation stands for have no bytes to drop.\<close>

lemma compact_form:
  obtains e m where "c = assemble e m" "e < 256" "m < 2 ^ 24"
proof
  have "unat c = unat c div 2 ^ 24 * 2 ^ 24 + unat c mod 2 ^ 24" by (rule div_mult_mod_eq [symmetric])
  then show "c = assemble (unat c div 2 ^ 24) (unat c mod 2 ^ 24)"
    unfolding assemble_def by simp
  show "unat c div 2 ^ 24 < 256" using unsigned_less [of c] by (simp add: div_less_iff_less_mult)
qed simp

lemma byte_length_mult: "m \<noteq> 0 \<Longrightarrow> byte_length (m * 256 ^ j) = byte_length m + j"
proof (induction j)
  case (Suc j)
  then show ?case using byte_length_div [of "m * 256 ^ Suc j"] by (simp add: mult.left_commute)
qed simp

lemma dropped_exact:
  assumes "m < 2 ^ 23"
  shows "256 ^ dropped (m * 256 ^ j) dvd m * 256 ^ j"
proof (cases "m = 0")
  case False
  have "dropped (m * 256 ^ j) \<le> j"
  proof (cases "byte_length m \<le> 2")
    case True
    then show ?thesis by (auto simp: dropped_def byte_length_mult [OF False])
  next
    case long: False
    moreover have "byte_length m \<le> 3" using assms by (simp add: byte_length_le_iff)
    ultimately have "byte_length m = 3" by simp
    then have "leading (m * 256 ^ j) = m"
      by (simp add: leading_def byte_length_mult [OF False])
    with assms \<open>byte_length m = 3\<close> show ?thesis by (simp add: dropped_def byte_length_mult [OF False])
  qed
  then show ?thesis by (meson dvd_triv_right dvd_trans le_imp_power_dvd)
qed simp

lemma from_compact_form:
  assumes "from_compact c = Some v"
  obtains m j where "unat v = m * 256 ^ j" "m < 2 ^ 23"
proof -
  obtain e m where c: "c = assemble e m" "e < 256" "m < 2 ^ 24" by (rule compact_form)
  show thesis
  proof (cases "2 ^ 23 \<le> m \<or> m = 0 \<or> e \<le> 3")
    case True
    have "m div 256 ^ (3 - e) \<le> m" by (rule div_le_dividend)
    then have "m div 256 ^ (3 - e) < 2 ^ 23 \<or> 2 ^ 23 \<le> m" by linarith
    with True assms c that [of "m div 256 ^ (3 - e)" 0] that [of 0 0] show thesis
      by (auto simp: from_compact_assemble compact_value_def unat_of_nat split: if_splits)
  next
    case False
    then have e: "e \<le> 35 - byte_length m" "v = of_nat (m * 256 ^ (e - 3))"
      using assms c by (auto simp: from_compact_assemble compact_value_def split: if_splits)
    have "m * 256 ^ (e - 3) < 256 ^ byte_length m * 256 ^ (e - 3)" using byte_length_less [of m] by simp
    also have "\<dots> = 256 ^ (byte_length m + (e - 3))" by (rule power_add [symmetric])
    also have "\<dots> \<le> 256 ^ 32" by (rule power_increasing) (use e(1) False in auto)
    finally have "unat v = m * 256 ^ (e - 3)" unfolding e(2) unat_of_nat by simp
    with False that show thesis by simp
  qed
qed

lemma from_compact_not_max:
  assumes "from_compact c = Some v"
  shows "unat v + 1 < 2 ^ 256"
proof -
  obtain m j where v: "unat v = m * 256 ^ j" "m < 2 ^ 23" by (rule from_compact_form [OF assms])
  have "unat v + 1 \<noteq> 2 ^ 256"
  proof
    assume max: "unat v + 1 = 2 ^ 256"
    then have "odd (unat v)" by (metis even_plus_one_iff even_power even_numeral zero_less_numeral)
    then have "j = 0" using v(1) by (cases j) auto
    with v max show False by simp
  qed
  moreover have "unat v < 2 ^ 256" using unsigned_less [of v, where ?'a = nat] by simp
  ultimately show ?thesis by linarith
qed

lemma from_big_from_compact:
  assumes "from_compact c = Some v"
  shows "from_compact (from_big v) = Some v"
proof -
  obtain m j where v: "unat v = m * 256 ^ j" "m < 2 ^ 23" by (rule from_compact_form [OF assms])
  then have "unat v div 256 ^ dropped (unat v) * 256 ^ dropped (unat v) = unat v"
    using dropped_exact [OF v(2), of j] by (simp add: v(1))
  then show ?thesis by (simp add: from_compact_from_big)
qed

lemma dropped_bound:
  assumes "dropped k \<noteq> 0"
  shows "2 ^ 15 * 256 ^ dropped k \<le> k"
proof -
  have "dropped 0 = 0" by (simp add: dropped_def)
  with assms have k: "k \<noteq> 0" by metis
  have split: "leading k * 256 ^ (byte_length k - 3) \<le> k" if "3 \<le> byte_length k"
    using that by (auto simp: leading_def)
  show ?thesis
  proof (cases "leading k < 2 ^ 23")
    case True
    then have d: "dropped k = byte_length k - 3" "3 \<le> byte_length k"
      using assms by (auto simp: dropped_def)
    have "2 ^ 15 * 256 ^ dropped k \<le> leading k * 256 ^ (byte_length k - 3)"
      unfolding d(1) by (rule mult_le_mono1, rule order_trans [OF _ leading_ge [OF k]]) simp
    with split d(2) show ?thesis by linarith
  next
    case False
    then have d: "dropped k = Suc (byte_length k - 3)" "3 \<le> byte_length k"
      using assms by (auto simp: dropped_def)
    have "(2 :: nat) ^ 15 * 256 ^ dropped k = 2 ^ 23 * 256 ^ (byte_length k - 3)" by (simp add: d(1))
    also have "\<dots> \<le> leading k * 256 ^ (byte_length k - 3)" using False by simp
    finally show ?thesis using split d(2) by linarith
  qed
qed

text \<open>Writing a number rounds it down.\<close>

lemma from_big_rounds_down:
  "\<not> overflowed (compact_of_bits (from_big v)) \<and> big (compact_of_bits (from_big v)) \<le> v \<and>
   (unat v - unat (big (compact_of_bits (from_big v)))) * 2 ^ 15 \<le> unat v"
proof (intro conjI)
  let ?s = "256 ^ dropped (unat v)"
  have le: "unat v div ?s * ?s \<le> unat v" by simp
  have r: "from_compact (from_big v) = Some (of_nat (unat v div ?s * ?s))" by (rule from_compact_from_big)
  have u: "unat (big (compact_of_bits (from_big v))) = unat v div ?s * ?s"
    unfolding compact_of_bits_def r
    using le_less_trans [OF le unsigned_less [of v, where ?'a = nat]] by (simp only: option.case Let_def compact.simps unat_of_nat mod_less)
  show "\<not> overflowed (compact_of_bits (from_big v))" by (simp add: compact_of_bits_def r Let_def)
  show "big (compact_of_bits (from_big v)) \<le> v" unfolding word_le_nat_alt u by (rule le)
  have "unat v - unat v div ?s * ?s = unat v mod ?s" by (rule minus_div_mult_eq_mod)
  also have "\<dots> * 2 ^ 15 \<le> unat v"
  proof (cases "dropped (unat v) = 0")
    case False
    have "unat v mod ?s * 2 ^ 15 \<le> ?s * 2 ^ 15" by (rule mult_le_mono1) (simp add: less_imp_le)
    also have "\<dots> \<le> unat v" using dropped_bound [OF False] by (simp only: mult.commute)
    finally show ?thesis .
  qed simp
  finally show "(unat v - unat (big (compact_of_bits (from_big v)))) * 2 ^ 15 \<le> unat v" unfolding u .
qed

text \<open>The limit of the main network.\<close>

lemma from_compact_limit: "from_compact 0x1d00ffff = Some (of_nat (0xffff * 256 ^ 26))"
proof -
  have "byte_length 0xffff = 2" by (simp add: byte_length_eq)
  then show ?thesis using from_compact_assemble [of 29 "0xffff"] by (simp add: assemble_def compact_value_def)
qed

section \<open>Property\<close>

text \<open>C38: Compact targets. A target read from bits that do not overflow is read back from its normal
  notation, which is the same for both; writing any 256 bit number rounds it down, by less than
  \<open>2 ^ -15\<close> of it.\<close>

theorem compact_round_trip:
  "(\<not> overflowed (compact_of_bits bits) \<longrightarrow>
      compact_of_bits (normal (compact_of_bits bits)) = compact_of_bits bits) \<and>
   \<not> overflowed (compact_of_bits (from_big v)) \<and>
   big (compact_of_bits (from_big v)) \<le> v \<and>
   (unat v - unat (big (compact_of_bits (from_big v)))) * 2 ^ 15 \<le> unat v"
proof (intro conjI impI)
  assume "\<not> overflowed (compact_of_bits bits)"
  then obtain b where b: "from_compact bits = Some b" by (auto simp: compact_of_bits_def Let_def)
  then show "compact_of_bits (normal (compact_of_bits bits)) = compact_of_bits bits"
    by (simp add: compact_of_bits_def from_big_from_compact Let_def)
qed (use from_big_rounds_down [of v] in blast)+

theorem compact_round_trip_witness:
  "compact_of_bits (normal (compact_of_bits 0x1d00ffff)) = compact_of_bits 0x1d00ffff"
  using compact_round_trip [of "0x1d00ffff" 0] by (simp add: compact_of_bits_def from_compact_limit Let_def)

end
