(* ===== verification/Header.thy ===== *)
theory Header
  imports Tx_Primitives Compact
begin

text \<open>
  Block headers (domain/src/chain/header_basis.cpp, header.cpp): serialisation in the protocol's and the
  database's format, the work a header proves and the check of its proof of work.
\<close>

section \<open>Headers\<close>

record header =
  hd_version :: u32
  previous_block_hash :: bytes
  hd_merkle :: bytes
  hd_timestamp :: u32
  hd_bits :: u32
  hd_nonce :: u32

text \<open>A header with the median time past that validation fills in.\<close>

record validated_header = header +
  hd_median_time_past :: u32

definition header_default :: header where
  "header_default = \<lparr>hd_version = 0, previous_block_hash = null_hash, hd_merkle = null_hash,
     hd_timestamp = 0, hd_bits = 0, hd_nonce = 0\<rparr>"

definition header_is_valid :: "'a header_scheme \<Rightarrow> bool" where
  "header_is_valid h \<longleftrightarrow>
     hd_version h \<noteq> 0 \<or> previous_block_hash h \<noteq> null_hash \<or> hd_merkle h \<noteq> null_hash \<or>
     hd_timestamp h \<noteq> 0 \<or> hd_bits h \<noteq> 0 \<or> hd_nonce h \<noteq> 0"

definition header_fixed_size :: nat where
  "header_fixed_size = 4 + hash_size + hash_size + 4 + 4 + 4"

text \<open>The packed structure of 80 bytes is read at once, behind the bounds check.\<close>

definition unpack_header :: "bytes \<Rightarrow> header" where
  "unpack_header b =
     \<lparr>hd_version = from_little_endian_unsafe (take 4 b),
      previous_block_hash = take 32 (drop 4 b),
      hd_merkle = take 32 (drop 36 b),
      hd_timestamp = from_little_endian_unsafe (take 4 (drop 68 b)),
      hd_bits = from_little_endian_unsafe (take 4 (drop 72 b)),
      hd_nonce = from_little_endian_unsafe (take 4 (drop 76 b))\<rparr>"

definition header_basis_from_data :: "header reader" where
  "header_basis_from_data = rbind (read_bytes header_fixed_size) (\<lambda>packed. rreturn (unpack_header packed))"

definition header_basis_to_data :: "'a header_scheme \<Rightarrow> bytes" where
  "header_basis_to_data h =
     write_4_bytes_little_endian (hd_version h) @ previous_block_hash h @ hd_merkle h @
     write_4_bytes_little_endian (hd_timestamp h) @ write_4_bytes_little_endian (hd_bits h) @
     write_4_bytes_little_endian (hd_nonce h)"

definition header_from_data :: "bool \<Rightarrow> validated_header reader" where
  "header_from_data wire =
     rbind header_basis_from_data (\<lambda>basis.
       if wire then rreturn (header.extend basis \<lparr>hd_median_time_past = 0\<rparr>)
       else rbind (read_little_endian 4) (\<lambda>mtp.
         rreturn (header.extend basis \<lparr>hd_median_time_past = mtp\<rparr>)))"

definition header_to_data :: "bool \<Rightarrow> validated_header \<Rightarrow> bytes" where
  "header_to_data wire h =
     header_basis_to_data h @ (if wire then [] else write_4_bytes_little_endian (hd_median_time_past h))"

definition header_serialized_size :: "bool \<Rightarrow> nat" where
  "header_serialized_size wire = header_fixed_size + (if wire then 0 else 4)"

section \<open>Proof of work\<close>

text \<open>The expected number of hashes for a target.\<close>

definition header_proof :: "u32 \<Rightarrow> u256" where
  "header_proof bits =
     (let header_bits = compact_of_bits bits
      in if overflowed header_bits then 0
         else
           let target = big header_bits; divisor = target + 1
           in if divisor = 0 then 0 else NOT target div divisor + 1)"

abbreviation retarget_proof_of_work_limit :: u32 where "retarget_proof_of_work_limit \<equiv> 0x1d00ffff"
abbreviation no_retarget_proof_of_work_limit :: u32 where "no_retarget_proof_of_work_limit \<equiv> 0x207fffff"

definition work_limit :: "bool \<Rightarrow> u32" where
  "work_limit retarget = (if retarget then retarget_proof_of_work_limit else no_retarget_proof_of_work_limit)"

definition to_uint256 :: "bytes \<Rightarrow> u256" where
  "to_uint256 hash = from_little_endian_unsafe hash"

text \<open>
  \<open>pow_limit\<close> is a static local variable: the first call determines it for all later ones. The argument
  \<open>s\<close> is its value before the call, \<open>None\<close> before the first one.
\<close>

definition is_valid_proof_of_work ::
  "u256 option \<Rightarrow> 'a header_scheme \<Rightarrow> bytes \<Rightarrow> bool \<Rightarrow> bool \<times> u256 option" where
  "is_valid_proof_of_work s h hash retarget =
     (let bits = compact_of_bits (hd_bits h);
          pow_limit = (case s of Some l \<Rightarrow> l | None \<Rightarrow> big (compact_of_bits (work_limit retarget)));
          target = big bits
      in (\<not> overflowed bits \<and> \<not> (target < 1 \<or> target > pow_limit) \<and> to_uint256 hash \<le> target,
          Some pow_limit))"

text \<open>Two hours into the future; the clock is an argument, in nanoseconds.\<close>

definition is_valid_timestamp :: "nat \<Rightarrow> 'a header_scheme \<Rightarrow> bool" where
  "is_valid_timestamp now h \<longleftrightarrow> unat (hd_timestamp h) * 10 ^ 9 \<le> now + 2 * 60 * 60 * 10 ^ 9"

definition header_check ::
  "u256 option \<Rightarrow> nat \<Rightarrow> 'a header_scheme \<Rightarrow> bytes \<Rightarrow> bool \<Rightarrow> error_code \<times> u256 option" where
  "header_check s now h hash retarget =
     (case is_valid_proof_of_work s h hash retarget of
        (ok, s') \<Rightarrow>
          (if \<not> ok then Block_error err_invalid_proof_of_work
           else if \<not> is_valid_timestamp now h then Block_error err_futuristic_timestamp
           else success, s'))"


section \<open>Lemmas\<close>

definition wf_header :: "'a header_scheme \<Rightarrow> bool" where
  "wf_header h \<longleftrightarrow> length (previous_block_hash h) = hash_size \<and> length (hd_merkle h) = hash_size"

lemma length_header_basis: "wf_header h \<Longrightarrow> length (header_basis_to_data h) = header_fixed_size"
  by (simp add: wf_header_def header_basis_to_data_def header_fixed_size_def)

lemma unpack_header_basis: "wf_header h \<Longrightarrow> unpack_header (header_basis_to_data h) = header.truncate h"
  by (simp add: unpack_header_def header_basis_to_data_def wf_header_def header.truncate_def
      write_4_bytes_little_endian_def)

lemma header_basis_at:
  assumes "wf_header h" "fits (pre @ header_basis_to_data h @ post)"
  shows "header_basis_from_data (reader_at pre (header_basis_to_data h @ post)) =
    Got (header.truncate h) (reader_at (pre @ header_basis_to_data h) post)"
  using read_bytes_at [of pre "header_basis_to_data h" post] assms
  by (simp add: header_basis_from_data_def rbind_def unpack_header_basis length_header_basis)

interpretation header_codec: codec "header_basis_to_data :: header \<Rightarrow> bytes" header_basis_from_data wf_header
  by unfold_locales (simp add: header_basis_at header.truncate_def)

lemma header_at:
  assumes "wf_header h" "wire \<longrightarrow> hd_median_time_past h = 0" "fits (pre @ header_to_data wire h @ post)"
  shows "header_from_data wire (reader_at pre (header_to_data wire h @ post)) =
    Got h (reader_at (pre @ header_to_data wire h) post)"
  using assms header_basis_at [of h pre] le32.dec_enc [of "pre @ header_basis_to_data h" "hd_median_time_past h" post]
  by (cases wire)
    (simp_all add: header_from_data_def header_to_data_def rbind_def header.defs)

interpretation wire_header: codec "header_to_data True" "header_from_data True"
    "\<lambda>h. wf_header h \<and> hd_median_time_past h = 0"
  by unfold_locales (simp add: header_at)

interpretation store_header: codec "header_to_data False" "header_from_data False" wf_header
  by unfold_locales (simp add: header_at)

lemma unat_to_uint256: "length b \<le> 32 \<Longrightarrow> unat (to_uint256 b) = le_nat b"
proof -
  assume l: "length b \<le> 32"
  have "le_nat b < 256 ^ length b" by (rule le_nat_less)
  also have "\<dots> \<le> 256 ^ 32" using l by (rule power_increasing) simp
  finally have "le_nat b < 2 ^ 256" by simp
  then show ?thesis by (simp add: to_uint256_def from_little_endian_of_nat unat_of_nat)
qed

lemma not_div_plus_one:
  fixes t :: u256
  assumes "unat t + 1 < 2 ^ 256"
  shows "unat (NOT t div (t + 1) + 1) = 2 ^ 256 div (unat t + 1) mod 2 ^ 256"
proof -
  have s: "unat (t + 1) = unat t + 1" using assms by (simp add: unat_word_ariths)
  have n: "unat (NOT t) = 2 ^ 256 - (unat t + 1)"
  proof -
    have "NOT t = - 1 - t" by (simp add: not_eq_complement)
    moreover have "unat (- 1 - t) = unat (- 1 :: u256) - unat t" by (rule unat_sub) simp
    moreover have "unat (- 1 :: u256) = 2 ^ 256 - 1" by (simp add: unsigned_minus_1_eq_mask mask_eq_exp_minus_1)
    ultimately show ?thesis by simp
  qed
  have "2 ^ 256 div (unat t + 1) = (2 ^ 256 - (unat t + 1) + (unat t + 1)) div (unat t + 1)"
    using assms by simp
  also have "\<dots> = (2 ^ 256 - (unat t + 1)) div (unat t + 1) + 1" by (rule div_add_self2) simp
  finally have "2 ^ 256 div (unat t + 1) = (2 ^ 256 - (unat t + 1)) div (unat t + 1) + 1" .
  moreover have "unat (NOT t div (t + 1) + 1) = (unat (NOT t) div unat (t + 1) + 1) mod 2 ^ 256"
    by (simp add: unat_word_ariths unat_div_distrib mod_Suc_eq del: unat_add_lem)
  ultimately show ?thesis by (simp only: s n)
qed

lemma header_proof_eq:
  "unat (header_proof bits) =
     (case from_compact bits of None \<Rightarrow> 0 | Some t \<Rightarrow> 2 ^ 256 div (unat t + 1) mod 2 ^ 256)"
proof (cases "from_compact bits")
  case (Some t)
  then have t: "unat t + 1 < 2 ^ 256" by (rule from_compact_not_max)
  then have "unat (t + 1) = unat t + 1" by (simp add: unat_word_ariths)
  then have "t + 1 \<noteq> 0" by (metis Suc_eq_plus1 nat.simps(3) unsigned_0)
  with Some show ?thesis
    using not_div_plus_one [OF t] by (simp add: header_proof_def compact_of_bits_def Let_def)
qed (simp add: header_proof_def compact_of_bits_def)

section \<open>Properties\<close>

text \<open>Headers are read back from their serialisation in the protocol's format (80 bytes, no median time
  past) and in the database's (84 bytes) inside any surrounding bytes.\<close>

theorem header_round_trip:
  assumes "wf_header h" "wire \<longrightarrow> hd_median_time_past h = 0" "fits (pre @ header_to_data wire h @ post)"
  shows "header_from_data wire (reader_at pre (header_to_data wire h @ post)) =
      Got h (reader_at (pre @ header_to_data wire h) post) \<and>
    length (header_to_data wire h) = header_serialized_size wire"
  using assms wire_header.dec_enc [of pre h post] store_header.dec_enc [of pre h post]
  by (cases wire) (simp_all add: header_to_data_def header_serialized_size_def length_header_basis)

definition genesis_like :: validated_header where
  "genesis_like = header.extend (header_default\<lparr>hd_version := 1, hd_bits := 0x1d00ffff\<rparr>)
     \<lparr>hd_median_time_past = 0\<rparr>"

theorem header_round_trip_witness:
  "header_from_data True (reader_at [] (header_to_data True genesis_like @ [7])) =
     Got genesis_like (reader_at ([] @ header_to_data True genesis_like) [7])"
proof -
  have "wf_header genesis_like" "hd_median_time_past genesis_like = 0"
    by (simp_all add: wf_header_def genesis_like_def header_default_def header.defs null_hash_def)
  moreover from this have "fits ([] @ header_to_data True genesis_like @ [7])"
    by (simp add: header_to_data_def length_header_basis header_fixed_size_def)
  ultimately show ?thesis using header_round_trip [of genesis_like True "[]" "[7]"] by blast
qed

text \<open>C37: The check of a header's proof of work, on its first evaluation for a chain, accepts exactly the
  hashes that as little endian numbers do not exceed the target the header's bits denote, for targets
  from one to the limit that the limit's own bits denote; the work credited for an accepted header is the whole
  number of attempts 2^256 / (target + 1) that such a hash takes on average, and it is not zero.\<close>

theorem proof_of_work_iff:
  assumes "length hash = hash_size"
  shows "fst (is_valid_proof_of_work None h hash retarget) \<longleftrightarrow>
    (\<exists>t. from_compact (hd_bits h) = Some t \<and> 0 < unat t \<and> t \<le> big (compact_of_bits (work_limit retarget)) \<and>
       le_nat hash \<le> unat t \<and>
       unat (header_proof (hd_bits h)) = 2 ^ 256 div (unat t + 1) \<and> 0 < unat (header_proof (hd_bits h)))"
    (is "?ok \<longleftrightarrow> (\<exists>t. ?P t)")
proof
  assume ok: ?ok
  then obtain t where t: "from_compact (hd_bits h) = Some t"
    by (auto simp: is_valid_proof_of_work_def compact_of_bits_def Let_def split: option.splits)
  with ok have o: "\<not> t < 1" "t \<le> big (compact_of_bits (work_limit retarget))" "to_uint256 hash \<le> t"
    by (simp_all add: is_valid_proof_of_work_def compact_of_bits_def Let_def linorder_not_less)
  have p: "0 < unat t" using o(1) by (simp add: word_less_nat_alt)
  have "le_nat hash \<le> unat t"
    using o(3) assms by (simp add: word_le_nat_alt unat_to_uint256)
  moreover have "2 ^ 256 div (unat t + 1) < 2 ^ 256" using p by (intro div_less_dividend) simp_all
  then have "unat (header_proof (hd_bits h)) = 2 ^ 256 div (unat t + 1)"
    using t by (simp add: header_proof_eq)
  moreover have "0 < 2 ^ 256 div (unat t + 1)"
    using from_compact_not_max [OF t] by (simp add: div_greater_zero_iff)
  ultimately show "\<exists>t. ?P t" using t o p by metis
next
  assume "\<exists>t. ?P t"
  then obtain t where t: "?P t" ..
  then have "to_uint256 hash \<le> t" "\<not> t < 1"
    using assms by (simp_all add: word_le_nat_alt word_less_nat_alt unat_to_uint256)
  with t show ?ok by (simp add: is_valid_proof_of_work_def compact_of_bits_def Let_def linorder_not_less)
qed

theorem proof_of_work_iff_witness:
  "fst (is_valid_proof_of_work None (header_default\<lparr>hd_bits := 0x207fffff\<rparr>) (replicate 32 0) False) \<and>
   0 < unat (header_proof 0x207fffff)"
proof -
  have "to_uint256 (replicate 32 0) = 0"
    by (simp add: unat_eq_zero [symmetric] unat_to_uint256 numeral_eq_Suc)
  then have "fst (is_valid_proof_of_work None (header_default\<lparr>hd_bits := 0x207fffff\<rparr>) (replicate 32 0) False)"
    by (simp add: is_valid_proof_of_work_def compact_of_bits_def work_limit_def from_compact_def is_negated_def
        sign_bit_def mantissa_max_def exp_byte_def mantissa_bits_def compact_overflow_def log_256_def
        shift_high_def Let_def)
  then show ?thesis
    using proof_of_work_iff [of "replicate 32 0" "header_default\<lparr>hd_bits := 0x207fffff\<rparr>" False] by auto
qed

text \<open>The limit of the proof of work is fixed by the first call: whatever the first call's argument was,
  every later call gives the verdict of that argument, whatever is passed to it.\<close>

theorem proof_of_work_limit_sticks:
  "is_valid_proof_of_work (snd (is_valid_proof_of_work None h0 hash0 retarget0)) h hash retarget =
     is_valid_proof_of_work None h hash retarget0"
  by (simp add: is_valid_proof_of_work_def Let_def)

end
