(* ===== verification/Asert.thy ===== *)
theory Asert
  imports Compact "HOL-Library.Signed_Division"
begin

text \<open>
  The difficulty adjustment aserti3-2d (domain/include/kth/domain/chain/daa/aserti3_2d.hpp): the target
  doubles for every half life that the chain is behind its schedule. The specification is over the
  natural numbers; the code works with 64 bit signed and unsigned numbers and 256 bit targets.
\<close>

unbundle bit_operations_syntax

section \<open>The algorithm\<close>

text \<open>\<open>None\<close> is a signed overflow or a division by zero.\<close>

definition shifts_frac :: "int \<Rightarrow> int \<Rightarrow> u32 \<Rightarrow> u32 \<Rightarrow> (int \<times> u16) option" where
  "shifts_frac time_diff height_diff target_spacing_seconds half_life = do {
     scheduled \<leftarrow> checked_int64 (uint target_spacing_seconds * height_diff);
     behind \<leftarrow> checked_int64 (time_diff - scheduled);
     scaled \<leftarrow> checked_int64 (behind * 65536);
     if half_life = 0 then None
     else
       let exponent = scaled sdiv uint half_life
       in Some (drop_bit 16 exponent - 16, of_int exponent) }"

definition shifts_factor :: "int \<Rightarrow> int \<Rightarrow> u32 \<Rightarrow> u32 \<Rightarrow> (int \<times> u32) option" where
  "shifts_factor time_diff height_diff target_spacing_seconds half_life = do {
     (shifts, frac) \<leftarrow> shifts_frac time_diff height_diff target_spacing_seconds half_life;
     let frac = (ucast frac :: u64);
         factor = 65536 + drop_bit 48 (195766423245049 * frac + 971821376 * frac * frac +
           5127 * frac * frac * frac + push_bit 47 1)
     in Some (shifts, ucast factor) }"

text \<open>The index of the most significant bit; there is none in 0, where an exception is thrown.\<close>

function msb :: "u256 \<Rightarrow> nat option" where
  "msb v = (if v = 0 then None else if drop_bit 1 v = 0 then Some 0 else map_option Suc (msb (drop_bit 1 v)))"
  by pat_completeness auto
termination
proof (relation "measure unat")
  fix v :: u256
  assume "v \<noteq> 0"
  then have "unat v \<noteq> 0" by (simp add: unat_eq_zero)
  then show "(drop_bit 1 v, v) \<in> measure unat" by (simp add: unat_drop_bit del: drop_bit_numeral_bit0 drop_bit_Suc)
qed simp

declare msb.simps [simp del]

definition shift_2way_safe :: "u256 \<Rightarrow> int \<Rightarrow> u256 \<Rightarrow> u256 option" where
  "shift_2way_safe x n limit =
     (if n \<le> 0 then
        let x = drop_bit (nat (- n)) x
        in if x = 0 then Some 1 else if x > limit then Some limit else Some x
      else case msb x of
        None \<Rightarrow> None
      | Some k \<Rightarrow>
          if int k + n > 255 then Some limit
          else let x = push_bit (nat n) x in if x > limit then Some limit else Some x)"

definition aserti3_2d :: "u256 \<Rightarrow> u32 \<Rightarrow> int \<Rightarrow> int \<Rightarrow> u256 \<Rightarrow> u32 \<Rightarrow> u256 option" where
  "aserti3_2d anchor_target target_spacing_seconds time_diff height_diff pow_limit half_life = do {
     (shifts, factor) \<leftarrow> shifts_factor time_diff height_diff target_spacing_seconds half_life;
     shift_2way_safe (anchor_target * ucast factor) shifts pow_limit }"

section \<open>The specification\<close>

definition asert_factor :: "nat \<Rightarrow> nat" where
  "asert_factor f = 65536 + (195766423245049 * f + 971821376 * f ^ 2 + 5127 * f ^ 3 + 2 ^ 47) div 2 ^ 48"

definition shifted :: "nat \<Rightarrow> int \<Rightarrow> nat" where
  "shifted x n = (if n \<le> 0 then x div 2 ^ nat (- n) else x * 2 ^ nat n)"

text \<open>The target at an exponent in units of \<open>2 ^ -16\<close>, before it is limited.\<close>

definition asert_scaled :: "nat \<Rightarrow> int \<Rightarrow> nat" where
  "asert_scaled anchor e = shifted (anchor * asert_factor (nat (e mod 65536))) (e div 65536 - 16)"

definition asert_spec :: "nat \<Rightarrow> nat \<Rightarrow> int \<Rightarrow> nat" where
  "asert_spec anchor limit e = max 1 (min limit (asert_scaled anchor e))"

lemma asert_factor_mono: "f \<le> g \<Longrightarrow> asert_factor f \<le> asert_factor g"
  by (auto simp: asert_factor_def intro!: add_mono mult_le_mono2 power_mono div_le_mono)

lemma asert_factor_bounds:
  assumes "f \<le> 65535"
  shows "65536 \<le> asert_factor f" "asert_factor f \<le> 131072"
    "195766423245049 * f + 971821376 * f ^ 2 + 5127 * f ^ 3 + 2 ^ 47 < 2 ^ 64"
proof -
  have "asert_factor 65535 \<le> 131072" by (simp add: asert_factor_def)
  with asert_factor_mono [OF assms] show "asert_factor f \<le> 131072" by linarith
  show "65536 \<le> asert_factor f" by (simp add: asert_factor_def)
  have "195766423245049 * f + 971821376 * f ^ 2 + 5127 * f ^ 3 + 2 ^ 47 \<le>
      195766423245049 * 65535 + 971821376 * 65535 ^ 2 + 5127 * 65535 ^ 3 + (2 ^ 47 :: nat)"
    using assms by (intro add_mono mult_le_mono2 power_mono) auto
  then show "195766423245049 * f + 971821376 * f ^ 2 + 5127 * f ^ 3 + 2 ^ 47 < 2 ^ 64" by simp
qed

lemma asert_factor_0: "asert_factor 0 = 65536"
  by (simp add: asert_factor_def)

lemma int_div_step:
  fixes e b :: int
  assumes "0 < b"
  shows "e mod b + 1 < b \<Longrightarrow> (e + 1) div b = e div b \<and> (e + 1) mod b = e mod b + 1"
    "e mod b + 1 = b \<Longrightarrow> (e + 1) div b = e div b + 1 \<and> (e + 1) mod b = 0"
proof -
  have e: "e = b * (e div b) + e mod b" "0 \<le> e mod b" using assms by simp_all
  show "(e + 1) div b = e div b \<and> (e + 1) mod b = e mod b + 1" if "e mod b + 1 < b"
    using int_div_pos_eq [of "e + 1" b "e div b" "e mod b + 1"] int_mod_pos_eq [of "e + 1" b "e div b" "e mod b + 1"] e that
    by linarith
  show "(e + 1) div b = e div b + 1 \<and> (e + 1) mod b = 0" if "e mod b + 1 = b"
    using int_div_pos_eq [of "e + 1" b "e div b + 1" 0] int_mod_pos_eq [of "e + 1" b "e div b + 1" 0] e that assms
    by (simp add: distrib_left)
qed

lemma shifted_mono: "x \<le> y \<Longrightarrow> shifted x n \<le> shifted y n"
  by (simp add: shifted_def div_le_mono)

lemma half_le: "x \<le> 2 * y \<Longrightarrow> x div 2 ^ Suc m \<le> y div 2 ^ m" for x y :: nat
  using div_le_mono [of x "2 * y" "2 * 2 ^ m"] by simp

lemma asert_scaled_step: "asert_scaled a e \<le> asert_scaled a (e + 1)"
proof (cases "e mod 65536 = 65535")
  case False
  then have "e mod 65536 + 1 < 65536" using pos_mod_bound [of 65536 e] by linarith
  then have "(e + 1) mod 65536 = e mod 65536 + 1" "(e + 1) div 65536 = e div 65536"
    using int_div_step(1) [of 65536 e] by simp_all
  moreover have "asert_factor (nat (e mod 65536)) \<le> asert_factor (nat (e mod 65536 + 1))"
    by (rule asert_factor_mono) simp
  ultimately show ?thesis unfolding asert_scaled_def by (simp add: shifted_mono)
next
  case True
  let ?s = "e div 65536 - 16"
  have e: "(e + 1) mod 65536 = 0" "(e + 1) div 65536 = e div 65536 + 1"
    using int_div_step(2) [of 65536 e] True by simp_all
  let ?x = "a * asert_factor 65535" and ?y = "a * 65536"
  have le: "?x \<le> 2 * ?y" using asert_factor_bounds(2) [of 65535] by simp
  have "shifted ?x ?s \<le> shifted ?y (?s + 1)"
  proof (cases "?s \<le> 0")
    case neg: True
    show ?thesis
    proof (cases "?s = 0")
      case False
      then have "nat (- ?s) = Suc (nat (- (?s + 1)))" using neg by simp
      then have "?x div 2 ^ nat (- ?s) \<le> ?y div 2 ^ nat (- (?s + 1))" using half_le [OF le] by (simp only:)
      with neg False show ?thesis by (simp add: shifted_def)
    qed (use le in \<open>simp add: shifted_def\<close>)
  next
    case False
    then have "nat (?s + 1) = Suc (nat ?s)" by simp
    with False le show ?thesis by (simp add: shifted_def)
  qed
  with e True show ?thesis by (simp add: asert_scaled_def asert_factor_0 algebra_simps)
qed

lemma asert_scaled_mono: "e \<le> e' \<Longrightarrow> asert_scaled a e \<le> asert_scaled a e'"
proof (induction rule: int_ge_induct)
  case (step i)
  with asert_scaled_step [of a i] show ?case by linarith
qed simp


section \<open>The code computes the specification\<close>

definition asert_exponent :: "int \<Rightarrow> int \<Rightarrow> u32 \<Rightarrow> u32 \<Rightarrow> int" where
  "asert_exponent time_diff height_diff spacing half_life =
     ((time_diff - uint spacing * height_diff) * 65536) sdiv uint half_life"

definition asert_in_range :: "int \<Rightarrow> int \<Rightarrow> u32 \<Rightarrow> u32 \<Rightarrow> bool" where
  "asert_in_range time_diff height_diff spacing half_life \<longleftrightarrow>
     half_life \<noteq> 0 \<and> int64_range (uint spacing * height_diff) \<and>
     int64_range (time_diff - uint spacing * height_diff) \<and>
     int64_range ((time_diff - uint spacing * height_diff) * 65536)"

lemma shifts_factor_eq:
  assumes "asert_in_range t h spacing hl"
  defines "e \<equiv> asert_exponent t h spacing hl"
  shows "shifts_factor t h spacing hl = Some (e div 65536 - 16, of_nat (asert_factor (nat (e mod 65536))))"
proof -
  let ?f = "nat (e mod 65536)"
  have f: "?f \<le> 65535" using pos_mod_bound [of 65536 e] by linarith
  have frac: "shifts_frac t h spacing hl = Some (drop_bit 16 e - 16, of_int e)"
    using assms(1) by (simp add: shifts_frac_def asert_in_range_def checked_int64_def e_def asert_exponent_def Let_def)
  have word: "(ucast (of_int e :: u16) :: u64) = of_nat ?f"
    by (simp add: word_eq_iff_unsigned [where ?'a = nat] unat_ucast_mod unat_of_nat unsigned_of_int
        take_bit_eq_mod nat_mod_distrib)
  have poly: "195766423245049 * of_nat ?f + 971821376 * of_nat ?f * of_nat ?f +
      5127 * of_nat ?f * of_nat ?f * of_nat ?f + push_bit 47 1 =
      (of_nat (195766423245049 * ?f + 971821376 * ?f ^ 2 + 5127 * ?f ^ 3 + 2 ^ 47) :: u64)"
    by (simp add: power2_eq_square power3_eq_cube ac_simps push_bit_eq_mult)
  have fin: "(ucast (65536 + drop_bit 48
      (of_nat (195766423245049 * ?f + 971821376 * ?f ^ 2 + 5127 * ?f ^ 3 + 2 ^ 47) :: u64)) :: u32) =
      of_nat (asert_factor ?f)"
  proof -
    let ?n = "195766423245049 * ?f + 971821376 * ?f ^ 2 + 5127 * ?f ^ 3 + 2 ^ 47"
    have "unat (of_nat ?n :: u64) = ?n" using asert_factor_bounds(3) [OF f] by (simp only: unat_of_nat) simp
    moreover have "?n div 2 ^ 48 \<le> 65536" using asert_factor_bounds(2) [OF f] unfolding asert_factor_def by linarith
    ultimately have "unat (65536 + drop_bit 48 (of_nat ?n :: u64)) = asert_factor ?f"
      by (simp only: asert_factor_def unat_word_ariths unat_drop_bit) simp
    moreover have "asert_factor ?f < 2 ^ 32" using asert_factor_bounds(2) [OF f] by simp
    ultimately show ?thesis by (simp add: word_eq_iff_unsigned [where ?'a = nat] unat_ucast_mod unat_of_nat)
  qed
  show ?thesis
    unfolding shifts_factor_def frac Option.bind.simps(2) prod.case Let_def word poly fin
    by (simp add: drop_bit_eq_div)
qed


lemma msb_bounds: "v \<noteq> 0 \<Longrightarrow> \<exists>k. msb v = Some k \<and> 2 ^ k \<le> unat v \<and> unat v < 2 ^ Suc k"
proof (induction v rule: msb.induct)
  case (1 v)
  have half: "unat (drop_bit 1 v) = unat v div 2" using unat_drop_bit [of 1 v] by simp
  show ?case
  proof (cases "drop_bit 1 v = 0")
    case True
    then have "unat v div 2 = 0" using half by simp
    moreover have "unat v \<noteq> 0" using "1.prems" by (simp add: unat_eq_zero)
    ultimately have "unat v = 1" by linarith
    with True "1.prems" show ?thesis by (subst msb.simps) simp
  next
    case False
    then obtain k where k: "msb (drop_bit 1 v) = Some k" "2 ^ k \<le> unat v div 2" "unat v div 2 < 2 ^ Suc k"
      using "1.IH" "1.prems" half by auto
    then have "2 ^ Suc k \<le> unat v" "unat v < 2 ^ Suc (Suc k)" by (auto simp: div_less_iff_less_mult)
    with k(1) False "1.prems" show ?thesis by (subst msb.simps) simp
  qed
qed

lemma shift_2way_safe_eq:
  assumes "x \<noteq> 0" "limit \<noteq> 0"
  shows "\<exists>r. shift_2way_safe x n limit = Some r \<and>
    unat r = max 1 (min (unat limit) (shifted (unat x) n))"
proof -
  have l: "1 \<le> unat limit" using assms(2) by (simp add: Suc_le_eq unat_gt_0)
  show ?thesis
  proof (cases "n \<le> 0")
    case True
    let ?y = "drop_bit (nat (- n)) x"
    have y: "unat ?y = shifted (unat x) n" using True by (simp only: shifted_def unat_drop_bit if_True)
    show ?thesis
      using True l y unat_eq_zero [of ?y]
      by (auto simp: shift_2way_safe_def Let_def word_less_nat_alt max_def min_def)
  next
    case False
    obtain k where k: "msb x = Some k" "2 ^ k \<le> unat x" "unat x < 2 ^ Suc k"
      using msb_bounds [OF assms(1)] by blast
    have s: "shifted (unat x) n = unat x * 2 ^ nat n" using False by (simp add: shifted_def)
    have lower: "2 ^ (k + nat n) \<le> unat x * 2 ^ nat n" using k(2) by (simp add: power_add)
    show ?thesis
    proof (cases "int k + n > 255")
      case True
      then have "256 \<le> k + nat n" using False by linarith
      then have "(2 :: nat) ^ 256 \<le> 2 ^ (k + nat n)" by (rule power_increasing) simp
      moreover have "unat limit < 2 ^ 256" using unsigned_less [of limit, where ?'a = nat] by simp
      ultimately have "unat limit \<le> shifted (unat x) n" using lower s by linarith
      with True False k(1) l show ?thesis by (simp add: shift_2way_safe_def max_def min_def)
    next
      case fits: False
      then have "Suc k + nat n \<le> 256" using False by linarith
      then have "(2 :: nat) ^ (Suc k + nat n) \<le> 2 ^ 256" by (rule power_increasing) simp
      moreover have "unat x * 2 ^ nat n < 2 ^ (Suc k + nat n)" using k(3) by (simp only: power_add) simp
      ultimately have "unat x * 2 ^ nat n < 2 ^ 256" by linarith
      then have y: "unat (push_bit (nat n) x) = shifted (unat x) n"
        unfolding unat_push_bit s by simp
      have "1 \<le> (2 :: nat) ^ (k + nat n)" by simp
      then have "1 \<le> shifted (unat x) n" using lower s by linarith
      with fits False k(1) l y show ?thesis
        by (auto simp: shift_2way_safe_def Let_def word_less_nat_alt max_def min_def)
    qed
  qed
qed


lemma aserti3_2d_eq:
  assumes "asert_in_range t h spacing hl" "anchor \<noteq> 0" "unat anchor < 2 ^ 239" "limit \<noteq> 0"
  shows "\<exists>r. aserti3_2d anchor spacing t h limit hl = Some r \<and>
    unat r = asert_spec (unat anchor) (unat limit) (asert_exponent t h spacing hl)"
proof -
  let ?e = "asert_exponent t h spacing hl"
  let ?f = "asert_factor (nat (?e mod 65536))"
  have "nat (?e mod 65536) \<le> 65535" using pos_mod_bound [of 65536 ?e] by linarith
  then have f: "65536 \<le> ?f" "?f \<le> 131072" by (rule asert_factor_bounds)+
  have "unat anchor * ?f \<le> (2 ^ 239 - 1) * 2 ^ 17" by (rule mult_le_mono) (use assms(3) f in simp_all)
  then have "unat anchor * ?f < 2 ^ 256" by (rule le_less_trans) simp
  moreover have "(ucast (of_nat ?f :: u32) :: u256) = of_nat ?f"
    using f by (simp add: word_eq_iff_unsigned [where ?'a = nat] unat_ucast_mod unat_of_nat)
  ultimately have u: "unat (anchor * ucast (of_nat ?f :: u32)) = unat anchor * ?f"
    using f by (simp add: unat_word_ariths unat_of_nat)
  then have "anchor * ucast (of_nat ?f :: u32) \<noteq> 0"
    using assms(2) f by (metis mult_eq_0_iff not_numeral_le_zero unat_eq_zero unsigned_0)
  from shift_2way_safe_eq [OF this assms(4), of "?e div 65536 - 16"] show ?thesis
    by (simp add: aserti3_2d_def shifts_factor_eq [OF assms(1)] u asert_spec_def asert_scaled_def)
qed

lemma sdiv_mono: "x \<le> y \<Longrightarrow> 0 < c \<Longrightarrow> x sdiv c \<le> y sdiv c" for x y c :: int
  by (cases "0 \<le> x"; cases "0 \<le> y")
    (auto simp: signed_divide_int_def sgn_if zdiv_mono1 minus_le_iff pos_imp_zdiv_nonneg_iff
      intro: order_trans [of _ 0])

section \<open>Properties\<close>

text \<open>C21: The difficulty adjustment computes its specification over the natural numbers: for an anchor
  target below \<open>2 ^ 239\<close> and arguments that do not overflow int64, neither the polynomial, the product nor
  the shift loses a bit, and the result is the scaled anchor target between 1 and the limit.\<close>

theorem asert_computes_specification:
  assumes "asert_in_range t h spacing hl" "anchor \<noteq> 0" "unat anchor < 2 ^ 239" "limit \<noteq> 0"
  shows "\<exists>r. aserti3_2d anchor spacing t h limit hl = Some r \<and>
    unat r = max 1 (min (unat limit)
      (let e = ((t - uint spacing * h) * 65536) sdiv uint hl;
           x = unat anchor * asert_factor (nat (e mod 65536));
           n = e div 65536 - 16
       in if n \<le> 0 then x div 2 ^ nat (- n) else x * 2 ^ nat n))"
  using aserti3_2d_eq [OF assms]
  by (simp add: asert_spec_def asert_scaled_def shifted_def asert_exponent_def Let_def)

text \<open>The later a block, the easier the next one. On schedule the target is the anchor's, it never
  falls when the time since the anchor grows, and it is always between 1 and the limit.\<close>

theorem asert_monotone_in_time:
  assumes "asert_in_range t h spacing hl" "asert_in_range t' h spacing hl" "t \<le> t'"
    and "anchor \<noteq> 0" "unat anchor < 2 ^ 239" "anchor \<le> limit"
    and "aserti3_2d anchor spacing t h limit hl = Some r" "aserti3_2d anchor spacing t' h limit hl = Some r'"
  shows "1 \<le> r \<and> r \<le> r' \<and> r' \<le> limit \<and> (t = uint spacing * h \<longrightarrow> r = anchor)"
proof -
  have limit: "limit \<noteq> 0" "1 \<le> unat limit" "unat anchor \<le> unat limit" "1 \<le> unat anchor"
  proof -
    have "unat anchor \<noteq> 0" using assms(4) unat_eq_zero by blast
    moreover show le: "unat anchor \<le> unat limit" using assms(6) by (simp add: word_le_nat_alt)
    ultimately show "1 \<le> unat anchor" "1 \<le> unat limit" by linarith+
    then show "limit \<noteq> 0" by auto
  qed
  let ?e = "asert_exponent t h spacing hl" and ?e' = "asert_exponent t' h spacing hl"
  have r: "unat r = asert_spec (unat anchor) (unat limit) ?e"
    "unat r' = asert_spec (unat anchor) (unat limit) ?e'"
    using aserti3_2d_eq [OF assms(1,4,5) limit(1)] aserti3_2d_eq [OF assms(2,4,5) limit(1)] assms(7,8) by auto
  have "0 < uint hl" using assms(1) unsigned_greater_eq [of hl, where ?'a = int] uint_0_iff [of hl] by (simp add: asert_in_range_def less_le)
  then have "?e \<le> ?e'" unfolding asert_exponent_def by (intro sdiv_mono) (use assms(3) in simp_all)
  then have "unat r \<le> unat r'"
    unfolding r asert_spec_def using asert_scaled_mono [of ?e ?e' "unat anchor"] by linarith
  moreover have "unat r = unat anchor" if "t = uint spacing * h"
  proof -
    have "?e = 0" using that by (simp add: asert_exponent_def signed_divide_int_def)
    then show ?thesis
      using limit by (simp add: r asert_spec_def asert_scaled_def asert_factor_0 shifted_def)
  qed
  ultimately show ?thesis
    using r limit by (auto simp: word_le_nat_alt asert_spec_def word_eq_iff_unsigned [where ?'a = nat])
qed


lemma example_in_range: "0 \<le> t \<Longrightarrow> t \<le> 1000000 \<Longrightarrow> asert_in_range t 1000 600 172800"
  by (simp add: asert_in_range_def int64_range_def)

theorem asert_computes_specification_witness:
  "\<exists>r. aserti3_2d 65536 600 600000 1000 0xffffff 172800 = Some r \<and> unat r = 65536"
  using asert_computes_specification [OF example_in_range, of 600000 65536 "0xffffff"]
  by (simp add: asert_factor_0 Let_def)

theorem asert_monotone_in_time_witness:
  "\<exists>r r'. aserti3_2d 65536 600 600000 1000 0xffffff 172800 = Some r \<and>
     aserti3_2d 65536 600 900000 1000 0xffffff 172800 = Some r' \<and> r = 65536 \<and> r \<le> r'"
proof -
  obtain r r' where r: "aserti3_2d 65536 600 600000 1000 0xffffff 172800 = Some r"
    "aserti3_2d 65536 600 900000 1000 0xffffff 172800 = Some r'"
    using aserti3_2d_eq [OF example_in_range, of 600000 65536 "0xffffff"]
      aserti3_2d_eq [OF example_in_range, of 900000 65536 "0xffffff"] by auto
  with asert_monotone_in_time [OF example_in_range example_in_range _ _ _ _ r] show ?thesis by auto
qed

end
