(* ===== verification/Work_Required.thy ===== *)
theory Work_Required
  imports Activation Header Asert
begin

text \<open>
  The work a block must prove (domain/src/chain/chain_state.cpp, \<open>work_required\<close> and its parts): the retargeting
  every 2016 blocks, the emergency adjustment, cw-144 and aserti3-2d, with the easy blocks of the test networks.
\<close>

unbundle bit_operations_syntax

section \<open>The difficulty adjustments\<close>

abbreviation (input) retargeting_interval :: nat where "retargeting_interval \<equiv> 2016"
abbreviation (input) target_spacing_seconds :: u32 where "target_spacing_seconds \<equiv> 600"
abbreviation (input) target_timespan_seconds :: u32 where "target_timespan_seconds \<equiv> 1209600"

text \<open>The limit is a constant of the algorithms.\<close>

definition pow_limit :: u256 where
  "pow_limit = big (compact_of_bits retarget_proof_of_work_limit)"

text \<open>An element of a deque; there is none outside its bounds.\<close>

definition deque_at :: "'a list \<Rightarrow> nat \<Rightarrow> 'a option" where
  "deque_at xs i = (if i < length xs then Some (xs ! i) else None)"

definition deque_back :: "'a list \<Rightarrow> 'a option" where
  "deque_back xs = (if xs = [] then None else Some (last xs))"

definition timestamp_high :: "chain_data \<Rightarrow> u32 option" where
  "timestamp_high values = deque_back (timestamp_ordered values)"

definition bits_high :: "chain_data \<Rightarrow> u32 option" where
  "bits_high values = deque_back (bits_ordered values)"

record asert_anchor =
  anchor_height :: nat
  ancestor_timestamp :: u64
  anchor_bits :: u32

text \<open>The differences are of unsigned 64 bit numbers, read as signed ones.\<close>

definition daa_aserti3_2d :: "chain_data \<Rightarrow> asert_anchor \<Rightarrow> u32 \<Rightarrow> u32 option" where
  "daa_aserti3_2d values anchor half_life = do {
     high \<leftarrow> timestamp_high values;
     let time_diff = (ucast high :: u64) - ancestor_timestamp anchor;
     let height_diff = (of_nat (cd_height values) :: u64) - of_nat (anchor_height anchor);
     let anchor_target = big (compact_of_bits (anchor_bits anchor));
     next_target \<leftarrow>
       aserti3_2d anchor_target target_spacing_seconds (sint time_diff) (sint height_diff) pow_limit half_life;
     Some (normal (compact_of_big next_target)) }"

text \<open>The median of three by their second components, among equals not the first.\<close>

definition select_0_2 :: "nat \<times> u32 \<Rightarrow> nat \<times> u32 \<Rightarrow> nat \<times> u32" where
  "select_0_2 a b = (if snd b < snd a then b else a)"

definition select_1_3_unstable_ac :: "nat \<times> u32 \<Rightarrow> nat \<times> u32 \<Rightarrow> nat \<times> u32 \<Rightarrow> nat \<times> u32" where
  "select_1_3_unstable_ac a b c = (if snd b < snd a then a else select_0_2 b c)"

definition select_1_3_unstable :: "nat \<times> u32 \<Rightarrow> nat \<times> u32 \<Rightarrow> nat \<times> u32 \<Rightarrow> nat \<times> u32" where
  "select_1_3_unstable a b c =
     (if snd c < snd a then select_1_3_unstable_ac c b a else select_1_3_unstable_ac a b c)"

text \<open>The difference of two \<open>size_t\<close>.\<close>

definition size_diff :: "nat \<Rightarrow> nat \<Rightarrow> nat" where
  "size_diff a b = nat ((int a - int b) mod int size_t_range)"

definition sum_proofs :: "u32 list \<Rightarrow> nat list \<Rightarrow> u256 option" where
  "sum_proofs bits is =
     fold (\<lambda>i work. do { w \<leftarrow> work; b \<leftarrow> deque_at bits i; Some (w + header_proof b) }) is (Some 0)"

definition daa_cw144 :: "chain_data \<Rightarrow> u32 option" where
  "daa_cw144 values = do {
     let bits_size = length (bits_ordered values);
     let ts = timestamp_ordered values;
     t144 \<leftarrow> deque_at ts 144; t145 \<leftarrow> deque_at ts 145; t146 \<leftarrow> deque_at ts 146;
     let first_block = select_1_3_unstable
           (size_diff bits_size 3, t144) (size_diff bits_size 2, t145) (size_diff bits_size 1, t146);
     t0 \<leftarrow> deque_at ts 0; t1 \<leftarrow> deque_at ts 1; t2 \<leftarrow> deque_at ts 2;
     let last_block = select_1_3_unstable
           (size_diff bits_size 147, t0) (size_diff bits_size 146, t1) (size_diff bits_size 145, t2);
     work \<leftarrow> sum_proofs (bits_ordered values) [(fst last_block + 1) mod size_t_range..<Suc (fst first_block)];
     let work = work * 600;
     let actual_timespan = uint (snd first_block - snd last_block);
     let actual_timespan =
           (if actual_timespan > 288 * 600 then 288 * 600
            else if actual_timespan < 72 * 600 then 72 * 600 else actual_timespan);
     let work = work div of_int actual_timespan;
     if work = 0 then None
     else
       let next_target = (- work) div work
       in Some (if next_target > pow_limit then retarget_proof_of_work_limit
                else normal (compact_of_big next_target)) }"

definition difficulty_adjustment_cash :: "u256 \<Rightarrow> u256" where
  "difficulty_adjustment_cash target = target + drop_bit 2 target"

definition work_required_adjust_cash :: "chain_data \<Rightarrow> u32 option" where
  "work_required_adjust_cash values = do {
     high \<leftarrow> bits_high values;
     let target = difficulty_adjustment_cash (big (compact_of_bits high))
     in Some (if target > pow_limit then retarget_proof_of_work_limit else normal (compact_of_big target)) }"

definition range_constrain :: "int \<Rightarrow> u32 \<Rightarrow> u32 \<Rightarrow> u32" where
  "range_constrain v minimum maximum =
     (if v < uint minimum then minimum else if v > uint maximum then maximum else of_int v)"

definition retarget_timespan :: "chain_data \<Rightarrow> u32 option" where
  "retarget_timespan values = do {
     high \<leftarrow> timestamp_high values;
     let timespan = uint high - uint (timestamp_retarget values)
     in Some (range_constrain timespan (target_timespan_seconds div 4) (target_timespan_seconds * 4)) }"

definition work_required_retarget :: "chain_data \<Rightarrow> u32 option" where
  "work_required_retarget values = do {
     high \<leftarrow> bits_high values;
     timespan \<leftarrow> retarget_timespan values;
     let target = big (compact_of_bits high) * ucast timespan div ucast target_timespan_seconds
     in Some (if target > pow_limit then retarget_proof_of_work_limit else normal (compact_of_big target)) }"

definition retarget_distance :: "nat \<Rightarrow> nat" where
  "retarget_distance height = height mod retargeting_interval"

definition is_retarget_height :: "nat \<Rightarrow> bool" where
  "is_retarget_height height \<longleftrightarrow> retarget_distance height = 0"

definition is_retarget_or_non_limit :: "nat \<Rightarrow> u32 \<Rightarrow> bool" where
  "is_retarget_or_non_limit height bits \<longleftrightarrow> bits \<noteq> retarget_proof_of_work_limit \<or> is_retarget_height height"

definition domain_constrain :: "int \<Rightarrow> u32" where
  "domain_constrain v = (if v < 0 then 0 else if v > int max_uint32 then of_nat max_uint32 else of_int v)"

definition easy_time_limit :: "chain_data \<Rightarrow> u32 option" where
  "easy_time_limit values = do {
     high \<leftarrow> timestamp_high values;
     Some (domain_constrain (uint high + 2 * 600)) }"

text \<open>The loop over the bits in reverse order.\<close>

fun easy_bits :: "nat \<Rightarrow> u32 list \<Rightarrow> u32" where
  "easy_bits height [] = retarget_proof_of_work_limit"
| "easy_bits height (b # bs) =
     (let height = size_diff height 1
      in if is_retarget_or_non_limit height b then b else easy_bits height bs)"

definition easy_work_required :: "chain_data \<Rightarrow> bool \<Rightarrow> bool \<Rightarrow> asert_anchor \<Rightarrow> u32 \<Rightarrow> u32 option" where
  "easy_work_required values daa_cw144_active daa_asert_active anchor half_life = do {
     limit \<leftarrow> easy_time_limit values;
     if timestamp_self values > limit then Some retarget_proof_of_work_limit
     else if daa_asert_active then daa_aserti3_2d values anchor half_life
     else if daa_cw144_active then daa_cw144 values
     else Some (easy_bits (cd_height values) (rev (bits_ordered values))) }"

text \<open>
  \<open>None\<close> is an access outside the lists, a division by zero or a signed overflow. The arguments of the later
  activation times are unused.
\<close>

definition work_required :: "chain_data \<Rightarrow> network \<Rightarrow> forks \<Rightarrow> asert_anchor \<Rightarrow> u32 \<Rightarrow> u32 option" where
  "work_required values network forks anchor half_life =
     (if cd_height values = 0 then Some 0
      else if \<not> is_enabled forks retarget then bits_high values
      else
        let daa_cw144_active = is_daa_cw144_enabled (cd_height values) network;
            daa_asert_active = is_euler_enabled (cd_height values) network
        in if is_retarget_height (cd_height values) \<and> \<not> daa_cw144_active then work_required_retarget values
           else if is_enabled forks easy_blocks
           then easy_work_required values daa_cw144_active daa_asert_active anchor half_life
           else if daa_asert_active then daa_aserti3_2d values anchor half_life
           else if daa_cw144_active then daa_cw144 values
           else if is_uahf_enabled (cd_height values) network \<and>
             median_time_past values 11 - median_time_past values 17 > 12 * 3600
           then work_required_adjust_cash values
           else bits_high values)"

section \<open>Lemmas\<close>

lemma pow_limit_eq: "pow_limit = of_nat (0xffff * 256 ^ 26)"
  by (simp add: pow_limit_def compact_of_bits_def from_compact_limit Let_def)

lemma unat_pow_limit: "unat pow_limit = 0xffff * 256 ^ 26"
  unfolding pow_limit_eq unat_of_nat by simp

text \<open>What the bits stand for within the limit.\<close>

definition within_limit :: "u32 \<Rightarrow> bool" where
  "within_limit bits \<longleftrightarrow> \<not> overflowed (compact_of_bits bits) \<and> big (compact_of_bits bits) \<le> pow_limit"

lemma within_limit_limit [simp]: "within_limit retarget_proof_of_work_limit"
  by (simp add: within_limit_def pow_limit_def compact_of_bits_def from_compact_limit Let_def)

lemma within_limit_normal: "t \<le> pow_limit \<Longrightarrow> within_limit (normal (compact_of_big t))"
  using from_big_rounds_down [of t] by (auto simp: within_limit_def compact_of_big_def intro: order_trans)

lemma within_limit_clamped [simp]:
  "within_limit (if t > pow_limit then retarget_proof_of_work_limit else normal (compact_of_big t))"
  by (simp add: within_limit_normal not_less)

lemma deque_back_in: "deque_back xs = Some x \<Longrightarrow> x \<in> set xs"
  by (auto simp: deque_back_def split: if_splits)

lemma easy_bits_in: "easy_bits h xs = b \<Longrightarrow> b = retarget_proof_of_work_limit \<or> b \<in> set xs"
  by (induction h xs rule: easy_bits.induct) (auto simp: Let_def split: if_splits)


lemma select_1_3_unstable_median:
  "select_1_3_unstable a b c \<in> {a, b, c} \<and>
   snd (select_1_3_unstable a b c) = sort [snd a, snd b, snd c] ! 1"
  by (auto simp: select_1_3_unstable_def select_1_3_unstable_ac_def select_0_2_def insort_key.simps not_less
      intro: antisym)

lemma sint_u64: "sint (w :: u64) = (uint w + 2 ^ 63) mod 2 ^ 64 - 2 ^ 63"
  unfolding sint_uint signed_take_bit_eq_take_bit_shift by (simp add: take_bit_eq_mod)

lemma sint_sub_u64:
  fixes a b :: u64
  assumes "uint a < 2 ^ 62" "uint b < 2 ^ 62"
  shows "sint (a - b) = uint a - uint b"
proof -
  have range: "0 \<le> x - y + 2 ^ 63 \<and> x - y + 2 ^ 63 < 2 ^ 64"
    if "0 \<le> x" "x < 2 ^ 62" "0 \<le> y" "y < 2 ^ 62" for x y :: int
    using that by simp
  have "sint (a - b) = (uint a - uint b + 2 ^ 63) mod 2 ^ 64 - 2 ^ 63"
    unfolding sint_u64 by (simp only: uint_word_ariths) (simp add: mod_simps)
  also have "(uint a - uint b + 2 ^ 63) mod 2 ^ 64 = uint a - uint b + 2 ^ 63"
    by (rule mod_pos_pos_trivial) (use range [OF uint_ge_0 assms(1) uint_ge_0 assms(2)] in blast)+
  finally show ?thesis by simp
qed

lemma sum_proofs_start:
  assumes "\<forall>i \<in> set is. i < length bits"
  shows "fold (\<lambda>i work. do { w \<leftarrow> work; b \<leftarrow> deque_at bits i; Some (w + header_proof b) }) is (Some s) =
    Some (s + sum_list (map (\<lambda>i. header_proof (bits ! i)) is))"
  using assms by (induction "is" arbitrary: s) (simp_all add: deque_at_def add.assoc)

lemma sum_proofs_eq:
  "\<forall>i \<in> set is. i < length bits \<Longrightarrow>
   sum_proofs bits is = Some (sum_list (map (\<lambda>i. header_proof (bits ! i)) is))"
  by (simp add: sum_proofs_def sum_proofs_start)

text \<open>Targets that a proof of work can meet, with the difficulty below \<open>2 ^ 192\<close>.\<close>

definition target_of :: "u32 \<Rightarrow> nat" where
  "target_of bits = unat (big (compact_of_bits bits))"

definition workable :: "u32 \<Rightarrow> bool" where
  "workable bits \<longleftrightarrow> within_limit bits \<and> 2 ^ 32 \<le> target_of bits"

lemma workable_proof:
  assumes "workable b"
  shows "unat (header_proof b) = 2 ^ 256 div (target_of b + 1)"
    "2 ^ 32 \<le> unat (header_proof b)" "unat (header_proof b) \<le> 2 ^ 224"
proof -
  obtain t where t: "from_compact b = Some t" "target_of b = unat t" "2 ^ 32 \<le> unat t" "unat t \<le> 0xffff * 256 ^ 26"
    using assms unat_pow_limit
    by (cases "from_compact b")
      (auto simp: workable_def within_limit_def target_of_def compact_of_bits_def word_le_nat_alt Let_def)
  have "2 ^ 256 div (unat t + 1) \<le> 2 ^ 256 div 2 ^ 32" by (rule div_le_mono2) (use t in simp_all)
  also have "\<dots> = 2 ^ 224" by simp
  finally have hi: "2 ^ 256 div (unat t + 1) \<le> 2 ^ 224" .
  have "2 ^ 256 div 2 ^ 224 \<le> 2 ^ 256 div (unat t + 1)" by (rule div_le_mono2) (use t in simp_all)
  then have lo: "2 ^ 32 \<le> 2 ^ 256 div (unat t + 1)" by simp
  have eq: "unat (header_proof b) = 2 ^ 256 div (unat t + 1)"
    using hi by (simp add: header_proof_eq t(1) le_less_trans)
  show "unat (header_proof b) = 2 ^ 256 div (target_of b + 1)" unfolding eq t(2) ..
  show "2 ^ 32 \<le> unat (header_proof b)" "unat (header_proof b) \<le> 2 ^ 224" unfolding eq using lo hi by simp_all
qed


text \<open>The arithmetic of cw-144 over the natural numbers.\<close>

definition clamp_timespan :: "int \<Rightarrow> int" where
  "clamp_timespan d = (if d > 288 * 600 then 288 * 600 else if d < 72 * 600 then 72 * 600 else d)"

definition cw144_target :: "nat \<Rightarrow> int \<Rightarrow> nat" where
  "cw144_target work d = 2 ^ 256 div (work * 600 div nat (clamp_timespan d)) - 1"

lemma clamp_timespan_bounds: "43200 \<le> clamp_timespan d" "clamp_timespan d \<le> 172800"
  by (auto simp: clamp_timespan_def)

lemma minus_div_self:
  fixes w :: u256
  assumes "w \<noteq> 0"
  shows "unat ((- w) div w) = 2 ^ 256 div unat w - 1"
proof -
  have w: "0 < unat w" "unat w < 2 ^ 256"
    using assms unsigned_less [of w, where ?'a = nat] by (simp_all add: unat_gt_0)
  have neg: "nat ((- int k) mod 2 ^ 256) = 2 ^ 256 - k" if "0 < k" "k < 2 ^ 256" for k
    using that by (simp add: zmod_zminus1_eq_if nat_diff_distrib')
  have "uint (- w) = (- int (unat w)) mod 2 ^ 256" by (simp add: uint_word_ariths)
  then have "nat (uint (- w)) = nat ((- int (unat w)) mod 2 ^ 256)" by (rule arg_cong)
  also have "\<dots> = 2 ^ 256 - unat w" by (rule neg [OF w])
  finally have "unat (- w) = 2 ^ 256 - unat w" by simp
  then have "unat ((- w) div w) = (2 ^ 256 - unat w) div unat w" by (simp only: unat_div_distrib)
  also have "\<dots> = 2 ^ 256 div unat w - 1"
  proof -
    have "2 ^ 256 div unat w = (2 ^ 256 - unat w + unat w) div unat w" using w by simp
    also have "\<dots> = (2 ^ 256 - unat w) div unat w + 1" using w by (intro div_add_self2) simp
    finally show ?thesis by simp
  qed
  finally show ?thesis .
qed

lemma cw144_arithmetic:
  fixes work :: u256 and d :: int
  assumes "142 * 2 ^ 32 \<le> unat work" "unat work \<le> 146 * 2 ^ 224"
  defines "w \<equiv> work * 600 div of_int (clamp_timespan d)"
  shows "w \<noteq> 0" "unat ((- w) div w) = cw144_target (unat work) d"
proof -
  define k where "k = nat (clamp_timespan d)"
  then have k: "clamp_timespan d = int k" "43200 \<le> k" "k \<le> 172800"
    using clamp_timespan_bounds [of d] by linarith+
  have m: "unat (work * 600) = unat work * 600"
    using assms(2) by (simp add: unat_word_ariths)
  have "unat (of_int (clamp_timespan d) :: u256) = k" unfolding k(1) using k(3) by (simp add: unat_of_nat)
  then have w: "unat w = unat work * 600 div k" unfolding w_def by (simp only: unat_div_distrib m)
  have "142 * 2 ^ 32 * 600 div 172800 \<le> unat work * 600 div k"
    by (rule order_trans [OF div_le_mono div_le_mono2]) (use assms(1) k in simp_all)
  then have "unat w \<noteq> 0" unfolding w by simp
  then show nz: "w \<noteq> 0" by (metis unsigned_0)
  show "unat ((- w) div w) = cw144_target (unat work) d"
    unfolding minus_div_self [OF nz] w cw144_target_def k(1) by simp
qed

lemma sum_list_bounds:
  fixes f :: "'a \<Rightarrow> nat"
  assumes "\<forall>x \<in> set xs. lo \<le> f x \<and> f x \<le> hi"
  shows "length xs * lo \<le> sum_list (map f xs)" "sum_list (map f xs) \<le> length xs * hi"
  using assms by (induction xs) auto

lemma size_diff_le: "b \<le> a \<Longrightarrow> a < size_t_range \<Longrightarrow> size_diff a b = a - b"
  by (simp add: size_diff_def flip: of_nat_diff)

lemma daa_cw144_eq:
  assumes "length (timestamp_ordered values) = 147" "147 \<le> length (bits_ordered values)"
    "length (bits_ordered values) < 2 ^ 32" "\<forall>b \<in> set (bits_ordered values). workable b"
  defines "n \<equiv> length (bits_ordered values)" and "ts \<equiv> timestamp_ordered values"
  defines "late \<equiv> select_1_3_unstable (n - 3, ts ! 144) (n - 2, ts ! 145) (n - 1, ts ! 146)"
    and "early \<equiv> select_1_3_unstable (n - 147, ts ! 0) (n - 146, ts ! 1) (n - 145, ts ! 2)"
  defines "t \<equiv> cw144_target (\<Sum>i \<leftarrow> [fst early + 1..<Suc (fst late)]. 2 ^ 256 div (target_of (bits_ordered values ! i) + 1))
      (uint (snd late - snd early))"
  shows "\<exists>r. unat r = t \<and> daa_cw144 values =
    Some (if r > pow_limit then retarget_proof_of_work_limit else normal (compact_of_big r))"
proof -
  let ?is = "[fst early + 1..<Suc (fst late)]"
  let ?p = "\<lambda>i. header_proof (bits_ordered values ! i)"
  have late: "n - 3 \<le> fst late" "fst late \<le> n - 1"
    using select_1_3_unstable_median [of "(n - 3, ts ! 144)" "(n - 2, ts ! 145)" "(n - 1, ts ! 146)"]
    unfolding late_def by (auto simp only: insert_iff empty_iff fst_conv)
  have early: "n - 147 \<le> fst early" "fst early \<le> n - 145"
    using select_1_3_unstable_median [of "(n - 147, ts ! 0)" "(n - 146, ts ! 1)" "(n - 145, ts ! 2)"] assms(2)
    unfolding early_def n_def by (auto simp only: insert_iff empty_iff fst_conv)
  have n: "147 \<le> n" "n < 2 ^ 32" using assms by (simp_all add: n_def)
  have idx: "\<forall>i \<in> set ?is. i < length (bits_ordered values)"
    using late n by (auto simp: n_def)
  have len: "142 \<le> length ?is" "length ?is \<le> 146" using late early n by auto
  have work: "\<forall>i \<in> set ?is. 2 ^ 32 \<le> unat (?p i) \<and> unat (?p i) \<le> 2 ^ 224 \<and>
      unat (?p i) = 2 ^ 256 div (target_of (bits_ordered values ! i) + 1)"
    using assms(4) idx workable_proof by (metis nth_mem)
  let ?W = "\<Sum>i \<leftarrow> ?is. unat (?p i)"
  have lo: "142 * 2 ^ 32 \<le> ?W"
    using sum_list_bounds(1) [of ?is "2 ^ 32" "\<lambda>i. unat (?p i)" "2 ^ 224"] work len(1)
    by (meson mult_le_mono1 order_trans)
  have hi: "?W \<le> 146 * 2 ^ 224"
    using sum_list_bounds(2) [of ?is "2 ^ 32" "\<lambda>i. unat (?p i)" "2 ^ 224"] work len(2)
    by (meson mult_le_mono1 order_trans)
  have "?W < 2 ^ 256" by (rule le_less_trans [OF hi]) simp
  then have u: "unat (sum_list (map ?p ?is)) = ?W" by (intro unat_sum_list) simp
  have "(\<Sum>i \<leftarrow> ?is. 2 ^ 256 div (target_of (bits_ordered values ! i) + 1)) = ?W"
    by (intro arg_cong [where f = sum_list] map_cong [OF refl]) (metis work)
  then have t: "t = cw144_target ?W (uint (snd late - snd early))" unfolding t_def by (simp only:)
  let ?w = "sum_list (map ?p ?is) * 600 div of_int (clamp_timespan (uint (snd late - snd early)))"
  have nz: "?w \<noteq> 0" "unat ((- ?w) div ?w) = t"
    unfolding t using cw144_arithmetic [of "sum_list (map ?p ?is)" "uint (snd late - snd early)"] lo hi
    unfolding u by blast+
  have "daa_cw144 values = Some (if (- ?w) div ?w > pow_limit then retarget_proof_of_work_limit
      else normal (compact_of_big ((- ?w) div ?w)))"
  proof -
    have sd: "size_diff n 3 = n - 3" "size_diff n 2 = n - 2" "size_diff n 1 = n - 1"
      "size_diff n 147 = n - 147" "size_diff n 146 = n - 146" "size_diff n 145 = n - 145"
      using n by (simp_all add: size_diff_le)
    have at: "deque_at ts 144 = Some (ts ! 144)" "deque_at ts 145 = Some (ts ! 145)"
      "deque_at ts 146 = Some (ts ! 146)" "deque_at ts 0 = Some (ts ! 0)"
      "deque_at ts 1 = Some (ts ! 1)" "deque_at ts 2 = Some (ts ! 2)"
      using assms(1) by (simp_all add: deque_at_def ts_def)
    have early': "(fst early + 1) mod size_t_range = fst early + 1" using early n by (intro mod_less) simp
    have sum: "sum_proofs (bits_ordered values) ?is = Some (sum_list (map ?p ?is))" by (rule sum_proofs_eq [OF idx])
    show ?thesis
      by (simp only: daa_cw144_def Let_def n_def [symmetric] ts_def [symmetric] at sd Option.bind.bind_lunit
          late_def [symmetric] early_def [symmetric] early' sum clamp_timespan_def [symmetric] nz(1) if_False)
  qed
  with nz(2) show ?thesis by blast
qed


lemma target_of_le: "within_limit b \<Longrightarrow> target_of b \<le> 0xffff * 256 ^ 26"
  using unat_pow_limit by (simp add: within_limit_def target_of_def word_le_nat_alt)

lemma retarget_timespan_eq:
  assumes "timestamp_ordered values \<noteq> []"
  shows "retarget_timespan values = Some (of_int
    (max 302400 (min 4838400 (uint (last (timestamp_ordered values)) - uint (timestamp_retarget values)))))"
  using assms
  by (auto simp: retarget_timespan_def timestamp_high_def deque_back_def range_constrain_def min_def max_def Let_def)

lemma work_required_retarget_eq:
  assumes "timestamp_ordered values \<noteq> []" "bits_ordered values \<noteq> []" "within_limit (last (bits_ordered values))"
  defines "span \<equiv> nat (max 302400 (min 4838400
      (uint (last (timestamp_ordered values)) - uint (timestamp_retarget values))))"
  shows "\<exists>r. unat r = target_of (last (bits_ordered values)) * span div 1209600 \<and>
    work_required_retarget values =
      Some (if r > pow_limit then retarget_proof_of_work_limit else normal (compact_of_big r))"
proof -
  let ?b = "last (bits_ordered values)"
  let ?r = "big (compact_of_bits ?b) * ucast (of_nat span :: u32) div ucast target_timespan_seconds"
  have span: "302400 \<le> span" "span \<le> 4838400" by (simp_all add: span_def)
  have s: "(of_int (max 302400 (min 4838400
      (uint (last (timestamp_ordered values)) - uint (timestamp_retarget values)))) :: u32) = of_nat span"
    by (simp add: span_def)
  have u: "unat (ucast (of_nat span :: u32) :: u256) = span"
    using span by (simp add: unat_ucast_mod unat_of_nat)
  have "target_of ?b * span \<le> 0xffff * 256 ^ 26 * 4838400"
    by (rule mult_le_mono [OF target_of_le [OF assms(3)] span(2)])
  then have "target_of ?b * span < 2 ^ 256" by (rule le_less_trans) simp
  then have "unat (big (compact_of_bits ?b) * ucast (of_nat span :: u32)) = target_of ?b * span"
    by (simp add: unat_word_ariths u target_of_def)
  then have "unat ?r = target_of ?b * span div 1209600"
    by (simp add: unat_div_distrib unat_ucast_mod)
  moreover have "work_required_retarget values =
      Some (if ?r > pow_limit then retarget_proof_of_work_limit else normal (compact_of_big ?r))"
    using assms(2) by (simp add: work_required_retarget_def retarget_timespan_eq [OF assms(1)] s bits_high_def
        deque_back_def Let_def)
  ultimately show ?thesis by blast
qed

section \<open>Properties\<close>

text \<open>C23: Retargeting at the end of a period multiplies the target of the last block by the time the period took,
  at least a quarter and at most four times two weeks, over two weeks, exactly over the natural numbers (no
  256 bit product overflows), and caps it at the limit.\<close>

theorem retarget_computes:
  assumes "timestamp_ordered values \<noteq> []" "bits_ordered values \<noteq> []" "within_limit (last (bits_ordered values))"
  shows "\<exists>r. unat r = target_of (last (bits_ordered values)) *
        nat (max 302400 (min 4838400
          (uint (last (timestamp_ordered values)) - uint (timestamp_retarget values)))) div 1209600 \<and>
      work_required_retarget values = Some (if r > pow_limit then 0x1d00ffff else from_big r)"
  using work_required_retarget_eq [OF assms] by (simp only: compact_of_big_def compact.simps)

text \<open>C22: The adjustment cw-144 computes, over the natural numbers, the target whose expected work is the
  work of the window between the median blocks of the first and the last three of 147, scaled to ten
  minutes a block, and caps it at the limit. The time between the two blocks is however taken modulo 2^32, so a
  negative one counts as the largest.\<close>

theorem cw144_computes_specification:
  assumes "length (timestamp_ordered values) = 147" "147 \<le> length (bits_ordered values)"
    "length (bits_ordered values) < 2 ^ 32" "\<forall>b \<in> set (bits_ordered values). workable b"
  defines "n \<equiv> length (bits_ordered values)" and "ts \<equiv> timestamp_ordered values"
  defines "late \<equiv> select_1_3_unstable (n - 3, ts ! 144) (n - 2, ts ! 145) (n - 1, ts ! 146)"
    and "early \<equiv> select_1_3_unstable (n - 147, ts ! 0) (n - 146, ts ! 1) (n - 145, ts ! 2)"
  defines "work \<equiv> \<Sum>i \<leftarrow> [fst early + 1..<Suc (fst late)]. 2 ^ 256 div (target_of (bits_ordered values ! i) + 1)"
  shows "(\<exists>r. unat r = 2 ^ 256 div (work * 600 div nat (max 43200 (min 172800 (uint (snd late - snd early))))) - 1 \<and>
      daa_cw144 values = Some (if r > pow_limit then 0x1d00ffff else from_big r)) \<and>
    snd late = sort [ts ! 144, ts ! 145, ts ! 146] ! 1 \<and> snd early = sort [ts ! 0, ts ! 1, ts ! 2] ! 1"
proof -
  have "clamp_timespan d = max 43200 (min 172800 d)" for d by (auto simp: clamp_timespan_def)
  then show ?thesis
    using daa_cw144_eq [OF assms(1-4)] select_1_3_unstable_median
    unfolding late_def early_def work_def n_def ts_def cw144_target_def
    by (simp only: snd_conv compact_of_big_def compact.simps)
qed

lemma workable_limit: "workable 0x1d00ffff"
proof -
  have "target_of 0x1d00ffff = 0xffff * 256 ^ 26"
    using unat_pow_limit by (simp add: target_of_def pow_limit_def)
  then show ?thesis by (simp add: workable_def)
qed

theorem retarget_computes_witness:
  "\<exists>r. unat r = target_of 0x1d00ffff * 302400 div 1209600 \<and>
     work_required_retarget (example_data 2016) = Some (if r > pow_limit then 0x1d00ffff else from_big r)"
proof -
  have "timestamp_ordered (example_data 2016) \<noteq> []" "bits_ordered (example_data 2016) \<noteq> []"
    "last (bits_ordered (example_data 2016)) = 0x1d00ffff" "timestamp_retarget (example_data 2016) = 0"
    "last (timestamp_ordered (example_data 2016)) = 146"
    by (simp_all add: example_data_def last_map)
  then show ?thesis using retarget_computes [of "example_data 2016"] by simp
qed

theorem cw144_computes_specification_witness:
  "\<exists>r. daa_cw144 (example_data 600000) = Some (if r > pow_limit then 0x1d00ffff else from_big r)"
proof -
  have "length (timestamp_ordered (example_data 600000)) = 147"
    "147 \<le> length (bits_ordered (example_data 600000))"
    "length (bits_ordered (example_data 600000)) < 2 ^ 32"
    "\<forall>b \<in> set (bits_ordered (example_data 600000)). workable b"
    using workable_limit by (simp_all add: example_data_def)
  from cw144_computes_specification [OF this] show ?thesis by blast
qed

end
