(* ===== verification/Transaction.thy ===== *)
theory Transaction
  imports Tx_Primitives "HOL-Library.List_Lexorder" "HOL-Library.Product_Lexorder"
begin

text \<open>
  Transactions: \<open>domain/src/chain/transaction_basis.cpp\<close> (the value, its serialisation and the
  context free checks) and \<open>domain/src/chain/transaction.cpp\<close> (the caches of the hashes and totals).

  \<open>bitcoin_hash\<close>, the double SHA-256 of the vendored crypto code, is a parameter of the definitions
  that hash. The caches are a record beside the value; each accessor fills its cache, each setter
  resets some of them, and \<open>coherent\<close> says that a filled cache holds what would be computed.
\<close>

section \<open>The value\<close>

record transaction =
  tx_version :: u32
  tx_locktime :: u32
  tx_inputs :: "tx_input list"
  tx_outputs :: "tx_output list"

definition tx_is_valid :: "transaction \<Rightarrow> bool" where
  "tx_is_valid tx \<longleftrightarrow>
     tx_version tx \<noteq> 0 \<or> tx_locktime tx \<noteq> 0 \<or> tx_inputs tx \<noteq> [] \<or> tx_outputs tx \<noteq> []"

definition tx_from_data :: "bool \<Rightarrow> transaction reader" where
  "tx_from_data wire =
     (if wire then
        rbind (read_little_endian 4) (\<lambda>version.
        rbind (read_collection (input_from_data wire)) (\<lambda>ins.
        rbind (read_collection (chain_output_from_data wire)) (\<lambda>outs.
        rbind (read_little_endian 4) (\<lambda>locktime.
          rreturn \<lparr>tx_version = version, tx_locktime = locktime, tx_inputs = ins, tx_outputs = outs\<rparr>))))
      else
        rbind (read_collection (chain_output_from_data wire)) (\<lambda>outs.
        rbind (read_collection (input_from_data wire)) (\<lambda>ins.
        rbind read_variable_little_endian (\<lambda>locktime.
        rbind read_variable_little_endian (\<lambda>version.
          if unat locktime > max_uint32 \<or> unat version > max_uint32
          then rfail (Serial_error err_invalid_size)
          else rreturn \<lparr>tx_version = ucast version, tx_locktime = ucast locktime, tx_inputs = ins,
            tx_outputs = outs\<rparr>)))))"

definition tx_to_data :: "bool \<Rightarrow> transaction \<Rightarrow> bytes" where
  "tx_to_data wire tx =
     (if wire then
        write_4_bytes_little_endian (tx_version tx) @
        write_collection (input_to_data wire) (tx_inputs tx) @
        write_collection (chain_output_to_data wire) (tx_outputs tx) @
        write_4_bytes_little_endian (tx_locktime tx)
      else
        write_collection (chain_output_to_data wire) (tx_outputs tx) @
        write_collection (input_to_data wire) (tx_inputs tx) @
        write_variable_little_endian (ucast (tx_locktime tx)) @
        write_variable_little_endian (ucast (tx_version tx)))"

definition tx_serialized_size :: "bool \<Rightarrow> transaction \<Rightarrow> nat" where
  "tx_serialized_size wire tx =
     (if wire then 4 else variable_uint_size (ucast (tx_version tx))) +
     (if wire then 4 else variable_uint_size (ucast (tx_locktime tx))) +
     variable_uint_size (of_nat (length (tx_inputs tx))) +
     variable_uint_size (of_nat (length (tx_outputs tx))) +
     sum_list (map (input_serialized_size wire) (tx_inputs tx)) +
     sum_list (map (chain_output_serialized_size wire) (tx_outputs tx))"

section \<open>Context free validation\<close>

abbreviation min_coinbase_size :: nat where "min_coinbase_size \<equiv> 2"
abbreviation max_coinbase_size :: nat where "max_coinbase_size \<equiv> 100"
abbreviation locktime_threshold :: nat where "locktime_threshold \<equiv> 500000000"
abbreviation recursive_money :: nat where "recursive_money \<equiv> 9999999989"

definition subsidy_interval :: "bool \<Rightarrow> nat" where
  "subsidy_interval retarget = (if retarget then 210000 else 150)"

definition max_money :: "bool \<Rightarrow> nat" where
  "max_money retarget = recursive_money * subsidy_interval retarget"

definition is_coinbase :: "transaction \<Rightarrow> bool" where
  "is_coinbase tx \<longleftrightarrow> length (tx_inputs tx) = 1 \<and> point_is_null (in_prevout (hd (tx_inputs tx)))"

definition is_oversized_coinbase :: "transaction \<Rightarrow> bool" where
  "is_oversized_coinbase tx \<longleftrightarrow>
     (if \<not> is_coinbase tx then False
      else
        let script_size = script_serialized_size (in_script (hd (tx_inputs tx))) False
        in script_size < min_coinbase_size \<or> script_size > max_coinbase_size)"

definition is_null_non_coinbase :: "transaction \<Rightarrow> bool" where
  "is_null_non_coinbase tx \<longleftrightarrow>
     (if is_coinbase tx then False else list_ex (\<lambda>i. point_is_null (in_prevout i)) (tx_inputs tx))"

definition all_inputs_final :: "transaction \<Rightarrow> bool" where
  "all_inputs_final tx \<longleftrightarrow> list_all input_is_final (tx_inputs tx)"

text \<open>\<open>safe_unsigned<uint32_t>(block_height)\<close> has a value for heights below \<open>2 ^ 32\<close>, which all are.\<close>

definition tx_is_final :: "transaction \<Rightarrow> nat \<Rightarrow> u32 \<Rightarrow> bool" where
  "tx_is_final tx block_height block_time \<longleftrightarrow>
     tx_locktime tx = 0 \<or>
     tx_locktime tx <
       (if unat (tx_locktime tx) < locktime_threshold then of_nat block_height else block_time) \<or>
     all_inputs_final tx"

definition tx_is_locked :: "transaction \<Rightarrow> nat \<Rightarrow> u32 \<Rightarrow> bool" where
  "tx_is_locked tx block_height median_time_past \<longleftrightarrow>
     (if tx_version tx < 2 \<or> is_coinbase tx then False
      else list_ex (\<lambda>i. input_is_locked i block_height median_time_past) (tx_inputs tx))"

definition is_locktime_conflict :: "transaction \<Rightarrow> bool" where
  "is_locktime_conflict tx \<longleftrightarrow> tx_locktime tx \<noteq> 0 \<and> all_inputs_final tx"

definition input_is_missing :: "tx_input \<Rightarrow> bool" where
  "input_is_missing i \<longleftrightarrow>
     \<not> output_is_valid (pv_cache (validation (in_prevout i))) \<and> \<not> point_is_null (in_prevout i)"

definition is_missing_previous_outputs :: "transaction \<Rightarrow> bool" where
  "is_missing_previous_outputs tx \<longleftrightarrow> list_ex input_is_missing (tx_inputs tx)"

definition previous_outputs :: "transaction \<Rightarrow> output_point list" where
  "previous_outputs tx = map in_prevout (tx_inputs tx)"

definition missing_previous_outputs :: "transaction \<Rightarrow> output_point list" where
  "missing_previous_outputs tx = map in_prevout (filter input_is_missing (tx_inputs tx))"

text \<open>\<open>operator<\<close> on points: by index, then by hash (lexicographically, byte by byte).\<close>

definition point_key :: "'a point_scheme \<Rightarrow> u32 \<times> bytes" where
  "point_key p = (point_index p, point_hash p)"

definition is_internal_double_spend :: "transaction \<Rightarrow> bool" where
  "is_internal_double_spend tx \<longleftrightarrow>
     (let prevouts = sort (map point_key (previous_outputs tx))
      in length (remdups_adj prevouts) \<noteq> length prevouts)"

definition is_double_spend :: "transaction \<Rightarrow> bool \<Rightarrow> bool" where
  "is_double_spend tx include_unconfirmed \<longleftrightarrow>
     list_ex (\<lambda>i. let prevout = validation (in_prevout i)
       in pv_spent prevout \<and> (include_unconfirmed \<or> pv_confirmed prevout)) (tx_inputs tx)"

definition tx_is_mature :: "transaction \<Rightarrow> nat \<Rightarrow> bool" where
  "tx_is_mature tx height \<longleftrightarrow> list_all (\<lambda>i. output_point_is_mature (in_prevout i) height) (tx_inputs tx)"

definition ceiling_add :: "nat \<Rightarrow> nat \<Rightarrow> nat" where
  "ceiling_add left right =
     (if left > max_uint64 - right then max_uint64 else left + right)"

definition total_input_value :: "transaction \<Rightarrow> nat" where
  "total_input_value tx =
     fold (\<lambda>i sum.
         let prevout = pv_cache (validation (in_prevout i)); missing = \<not> output_is_valid prevout
         in ceiling_add sum (if missing then 0 else unat (out_value prevout)))
       (tx_inputs tx) 0"

definition total_output_value :: "transaction \<Rightarrow> nat" where
  "total_output_value tx = fold (\<lambda>out sum. ceiling_add sum (unat (out_value out))) (tx_outputs tx) 0"

definition fees :: "transaction \<Rightarrow> nat" where
  "fees tx = floor_subtract (total_input_value tx) (total_output_value tx)"

definition is_overspent :: "transaction \<Rightarrow> bool" where
  "is_overspent tx \<longleftrightarrow> \<not> is_coinbase tx \<and> total_output_value tx > total_input_value tx"

definition tx_check :: "transaction \<Rightarrow> nat \<Rightarrow> nat \<Rightarrow> bool \<Rightarrow> bool \<Rightarrow> error_code" where
  "tx_check tx total_output max_block_size transaction_pool retarget =
     (if tx_inputs tx = [] \<or> tx_outputs tx = [] then Tx_error err_empty_transaction
      else if is_null_non_coinbase tx then Tx_error err_previous_output_null
      else if total_output > max_money retarget then Tx_error err_spend_overflow
      else if \<not> transaction_pool \<and> is_oversized_coinbase tx then Tx_error err_invalid_coinbase_script_size
      else if transaction_pool \<and> is_coinbase tx then Tx_error err_coinbase_transaction
      else if transaction_pool \<and> is_internal_double_spend tx
        then Tx_error err_transaction_internal_double_spend
      else if transaction_pool \<and> tx_serialized_size True tx \<ge> max_block_size
        then Tx_error err_transaction_size_limit
      else success)"

section \<open>Hashes\<close>

type_synonym hash_function = "bytes \<Rightarrow> bytes"

definition to_outputs :: "hash_function \<Rightarrow> transaction \<Rightarrow> bytes" where
  "to_outputs bitcoin_hash tx = bitcoin_hash (concat (map output_to_data (tx_outputs tx)))"

definition to_inpoints :: "hash_function \<Rightarrow> transaction \<Rightarrow> bytes" where
  "to_inpoints bitcoin_hash tx =
     bitcoin_hash (concat (map (\<lambda>i. point_to_data True (in_prevout i)) (tx_inputs tx)))"

definition to_sequences :: "hash_function \<Rightarrow> transaction \<Rightarrow> bytes" where
  "to_sequences bitcoin_hash tx =
     bitcoin_hash (concat (map (\<lambda>i. write_4_bytes_little_endian (in_sequence i)) (tx_inputs tx)))"

definition to_utxos :: "hash_function \<Rightarrow> transaction \<Rightarrow> bytes" where
  "to_utxos bitcoin_hash tx =
     bitcoin_hash (concat (map (\<lambda>i.
       let prevout = pv_cache (validation (in_prevout i))
       in if \<not> output_is_valid prevout then [] else output_to_data prevout) (tx_inputs tx)))"

definition tx_hash :: "hash_function \<Rightarrow> transaction \<Rightarrow> bytes" where
  "tx_hash bitcoin_hash tx = bitcoin_hash (tx_to_data True tx)"


section \<open>The caches\<close>

record tx_cache =
  cached_value :: transaction
  cached_hash :: "bytes option"
  cached_outputs_hash :: "bytes option"
  cached_inpoints_hash :: "bytes option"
  cached_sequences_hash :: "bytes option"
  cached_utxos_hash :: "bytes option"
  cached_total_input :: "nat option"
  cached_total_output :: "nat option"

text \<open>The constructors, copying and moving ones included, start with empty caches.\<close>

definition tx_new :: "transaction \<Rightarrow> tx_cache" where
  "tx_new tx = \<lparr>cached_value = tx, cached_hash = None, cached_outputs_hash = None,
     cached_inpoints_hash = None, cached_sequences_hash = None, cached_utxos_hash = None,
     cached_total_input = None, cached_total_output = None\<rparr>"

text \<open>\<open>operator=\<close>: the value is replaced, the caches are not touched.\<close>

definition tx_assign :: "tx_cache \<Rightarrow> tx_cache \<Rightarrow> tx_cache" where
  "tx_assign this x = this\<lparr>cached_value := cached_value x\<rparr>"

definition invalidate_cache :: "tx_cache \<Rightarrow> tx_cache" where
  "invalidate_cache c = c\<lparr>cached_hash := None\<rparr>"

definition set_version :: "tx_cache \<Rightarrow> u32 \<Rightarrow> tx_cache" where
  "set_version c v = invalidate_cache (c\<lparr>cached_value := (cached_value c)\<lparr>tx_version := v\<rparr>\<rparr>)"

definition set_locktime :: "tx_cache \<Rightarrow> u32 \<Rightarrow> tx_cache" where
  "set_locktime c v = invalidate_cache (c\<lparr>cached_value := (cached_value c)\<lparr>tx_locktime := v\<rparr>\<rparr>)"

definition set_inputs :: "tx_cache \<Rightarrow> tx_input list \<Rightarrow> tx_cache" where
  "set_inputs c ins =
     (invalidate_cache (c\<lparr>cached_value := (cached_value c)\<lparr>tx_inputs := ins\<rparr>\<rparr>))
       \<lparr>cached_inpoints_hash := None, cached_sequences_hash := None, cached_total_input := None\<rparr>"

definition set_inputs_move :: "tx_cache \<Rightarrow> tx_input list \<Rightarrow> tx_cache" where
  "set_inputs_move c ins =
     (invalidate_cache (c\<lparr>cached_value := (cached_value c)\<lparr>tx_inputs := ins\<rparr>\<rparr>))
       \<lparr>cached_total_input := None\<rparr>"

definition set_outputs :: "tx_cache \<Rightarrow> tx_output list \<Rightarrow> tx_cache" where
  "set_outputs c outs =
     (invalidate_cache (c\<lparr>cached_value := (cached_value c)\<lparr>tx_outputs := outs\<rparr>\<rparr>))
       \<lparr>cached_outputs_hash := None, cached_total_output := None\<rparr>"

definition set_outputs_move :: "tx_cache \<Rightarrow> tx_output list \<Rightarrow> tx_cache" where
  "set_outputs_move c outs =
     (invalidate_cache (c\<lparr>cached_value := (cached_value c)\<lparr>tx_outputs := outs\<rparr>\<rparr>))
       \<lparr>cached_total_output := None\<rparr>"

definition get_hash :: "hash_function \<Rightarrow> tx_cache \<Rightarrow> bytes \<times> tx_cache" where
  "get_hash bitcoin_hash c =
     (case cached_hash c of Some h \<Rightarrow> (h, c)
      | None \<Rightarrow> let h = tx_hash bitcoin_hash (cached_value c) in (h, c\<lparr>cached_hash := Some h\<rparr>))"

definition get_outputs_hash :: "hash_function \<Rightarrow> tx_cache \<Rightarrow> bytes \<times> tx_cache" where
  "get_outputs_hash bitcoin_hash c =
     (case cached_outputs_hash c of Some h \<Rightarrow> (h, c)
      | None \<Rightarrow> let h = to_outputs bitcoin_hash (cached_value c)
          in (h, c\<lparr>cached_outputs_hash := Some h\<rparr>))"

definition get_inpoints_hash :: "hash_function \<Rightarrow> tx_cache \<Rightarrow> bytes \<times> tx_cache" where
  "get_inpoints_hash bitcoin_hash c =
     (case cached_inpoints_hash c of Some h \<Rightarrow> (h, c)
      | None \<Rightarrow> let h = to_inpoints bitcoin_hash (cached_value c)
          in (h, c\<lparr>cached_inpoints_hash := Some h\<rparr>))"

definition get_sequences_hash :: "hash_function \<Rightarrow> tx_cache \<Rightarrow> bytes \<times> tx_cache" where
  "get_sequences_hash bitcoin_hash c =
     (case cached_sequences_hash c of Some h \<Rightarrow> (h, c)
      | None \<Rightarrow> let h = to_sequences bitcoin_hash (cached_value c)
          in (h, c\<lparr>cached_sequences_hash := Some h\<rparr>))"

definition get_utxos_hash :: "hash_function \<Rightarrow> tx_cache \<Rightarrow> bytes \<times> tx_cache" where
  "get_utxos_hash bitcoin_hash c =
     (case cached_utxos_hash c of Some h \<Rightarrow> (h, c)
      | None \<Rightarrow> let h = to_utxos bitcoin_hash (cached_value c)
          in (h, c\<lparr>cached_utxos_hash := Some h\<rparr>))"

definition get_total_input_value :: "tx_cache \<Rightarrow> nat \<times> tx_cache" where
  "get_total_input_value c =
     (case cached_total_input c of Some v \<Rightarrow> (v, c)
      | None \<Rightarrow> let v = total_input_value (cached_value c) in (v, c\<lparr>cached_total_input := Some v\<rparr>))"

definition get_total_output_value :: "tx_cache \<Rightarrow> nat \<times> tx_cache" where
  "get_total_output_value c =
     (case cached_total_output c of Some v \<Rightarrow> (v, c)
      | None \<Rightarrow> let v = total_output_value (cached_value c) in (v, c\<lparr>cached_total_output := Some v\<rparr>))"

definition recompute_hash :: "hash_function \<Rightarrow> tx_cache \<Rightarrow> tx_cache" where
  "recompute_hash bitcoin_hash c = snd (get_hash bitcoin_hash (c\<lparr>cached_hash := None\<rparr>))"

text \<open>A filled cache holds what would be computed from the value.\<close>

definition coherent :: "hash_function \<Rightarrow> tx_cache \<Rightarrow> bool" where
  "coherent H c \<longleftrightarrow>
     cached_hash c \<in> {None, Some (tx_hash H (cached_value c))} \<and>
     cached_outputs_hash c \<in> {None, Some (to_outputs H (cached_value c))} \<and>
     cached_inpoints_hash c \<in> {None, Some (to_inpoints H (cached_value c))} \<and>
     cached_sequences_hash c \<in> {None, Some (to_sequences H (cached_value c))} \<and>
     cached_utxos_hash c \<in> {None, Some (to_utxos H (cached_value c))} \<and>
     cached_total_input c \<in> {None, Some (total_input_value (cached_value c))} \<and>
     cached_total_output c \<in> {None, Some (total_output_value (cached_value c))}"

lemmas cache_defs = tx_new_def set_version_def set_locktime_def set_inputs_def set_outputs_def
  invalidate_cache_def get_hash_def get_outputs_hash_def get_inpoints_hash_def get_sequences_hash_def
  get_utxos_hash_def get_total_input_value_def get_total_output_value_def recompute_hash_def

lemma value_only [simp]:
  "to_outputs H (tx\<lparr>tx_version := v\<rparr>) = to_outputs H tx"
  "to_inpoints H (tx\<lparr>tx_version := v\<rparr>) = to_inpoints H tx"
  "to_sequences H (tx\<lparr>tx_version := v\<rparr>) = to_sequences H tx"
  "to_utxos H (tx\<lparr>tx_version := v\<rparr>) = to_utxos H tx"
  "total_input_value (tx\<lparr>tx_version := v\<rparr>) = total_input_value tx"
  "total_output_value (tx\<lparr>tx_version := v\<rparr>) = total_output_value tx"
  "to_outputs H (tx\<lparr>tx_locktime := v\<rparr>) = to_outputs H tx"
  "to_inpoints H (tx\<lparr>tx_locktime := v\<rparr>) = to_inpoints H tx"
  "to_sequences H (tx\<lparr>tx_locktime := v\<rparr>) = to_sequences H tx"
  "to_utxos H (tx\<lparr>tx_locktime := v\<rparr>) = to_utxos H tx"
  "total_input_value (tx\<lparr>tx_locktime := v\<rparr>) = total_input_value tx"
  "total_output_value (tx\<lparr>tx_locktime := v\<rparr>) = total_output_value tx"
  "to_inpoints H (tx\<lparr>tx_outputs := outs\<rparr>) = to_inpoints H tx"
  "to_sequences H (tx\<lparr>tx_outputs := outs\<rparr>) = to_sequences H tx"
  "to_utxos H (tx\<lparr>tx_outputs := outs\<rparr>) = to_utxos H tx"
  "total_input_value (tx\<lparr>tx_outputs := outs\<rparr>) = total_input_value tx"
  "to_outputs H (tx\<lparr>tx_inputs := ins\<rparr>) = to_outputs H tx"
  "total_output_value (tx\<lparr>tx_inputs := ins\<rparr>) = total_output_value tx"
  by (simp_all add: to_outputs_def to_inpoints_def to_sequences_def to_utxos_def total_input_value_def
      total_output_value_def)

lemma coherent_new: "coherent H (tx_new tx)"
  by (simp add: coherent_def tx_new_def)

lemma coherent_setters:
  assumes "coherent H c"
  shows "coherent H (set_version c v)" "coherent H (set_locktime c v)" "coherent H (set_outputs c outs)"
    and "cached_utxos_hash c = None \<Longrightarrow> coherent H (set_inputs c ins)"
  using assms
  by (simp_all add: coherent_def set_version_def set_locktime_def set_inputs_def set_outputs_def
      invalidate_cache_def)

lemma coherent_get_hash:
  "coherent H c \<Longrightarrow> fst (get_hash H c) = tx_hash H (cached_value c) \<and> coherent H (snd (get_hash H c))"
  by (cases "cached_hash c") (simp_all add: coherent_def get_hash_def Let_def)

lemma coherent_get_outputs_hash:
  "coherent H c \<Longrightarrow> fst (get_outputs_hash H c) = to_outputs H (cached_value c) \<and> coherent H (snd (get_outputs_hash H c))"
  by (cases "cached_outputs_hash c") (simp_all add: coherent_def get_outputs_hash_def Let_def)

lemma coherent_get_inpoints_hash:
  "coherent H c \<Longrightarrow> fst (get_inpoints_hash H c) = to_inpoints H (cached_value c) \<and> coherent H (snd (get_inpoints_hash H c))"
  by (cases "cached_inpoints_hash c") (simp_all add: coherent_def get_inpoints_hash_def Let_def)

lemma coherent_get_sequences_hash:
  "coherent H c \<Longrightarrow> fst (get_sequences_hash H c) = to_sequences H (cached_value c) \<and> coherent H (snd (get_sequences_hash H c))"
  by (cases "cached_sequences_hash c") (simp_all add: coherent_def get_sequences_hash_def Let_def)

lemma coherent_get_utxos_hash:
  "coherent H c \<Longrightarrow> fst (get_utxos_hash H c) = to_utxos H (cached_value c) \<and> coherent H (snd (get_utxos_hash H c))"
  by (cases "cached_utxos_hash c") (simp_all add: coherent_def get_utxos_hash_def Let_def)

lemma coherent_get_total_input_value:
  "coherent H c \<Longrightarrow> fst (get_total_input_value c) = total_input_value (cached_value c) \<and> coherent H (snd (get_total_input_value c))"
  by (cases "cached_total_input c") (simp_all add: coherent_def get_total_input_value_def Let_def)

lemma coherent_get_total_output_value:
  "coherent H c \<Longrightarrow> fst (get_total_output_value c) = total_output_value (cached_value c) \<and> coherent H (snd (get_total_output_value c))"
  by (cases "cached_total_output c") (simp_all add: coherent_def get_total_output_value_def Let_def)

lemma coherent_recompute_hash: "coherent H c \<Longrightarrow> coherent H (recompute_hash H c)"
  by (simp add: coherent_def recompute_hash_def get_hash_def Let_def)

lemmas coherent_getters = coherent_get_hash coherent_get_outputs_hash coherent_get_inpoints_hash
  coherent_get_sequences_hash coherent_get_utxos_hash coherent_get_total_input_value
  coherent_get_total_output_value

section \<open>Transactions are codecs\<close>

definition wf_tx :: "bool \<Rightarrow> transaction \<Rightarrow> bool" where
  "wf_tx wire tx \<longleftrightarrow>
     list_all (wf_input wire) (tx_inputs tx) \<and> list_all wf_output (tx_outputs tx) \<and>
     length (tx_inputs tx) \<le> static_absolute_max_block_size \<and>
     length (tx_outputs tx) \<le> static_absolute_max_block_size"

interpretation outputs_wire: codec "write_collection (chain_output_to_data True)"
  "read_collection (chain_output_from_data True)"
  "\<lambda>xs. list_all wf_output xs \<and> length xs \<le> static_absolute_max_block_size"
  by (rule output_wire.codec_collection)

interpretation outputs_store: codec "write_collection (chain_output_to_data False)"
  "read_collection (chain_output_from_data False)"
  "\<lambda>xs. list_all wf_output xs \<and> length xs \<le> static_absolute_max_block_size"
  by (rule output_store.codec_collection)

interpretation inputs_wire: codec "write_collection (input_to_data True)"
  "read_collection (input_from_data True)"
  "\<lambda>xs. list_all (wf_input True) xs \<and> length xs \<le> static_absolute_max_block_size"
  by (rule input_wire.codec_collection)

interpretation inputs_store: codec "write_collection (input_to_data False)"
  "read_collection (input_from_data False)"
  "\<lambda>xs. list_all (wf_input False) xs \<and> length xs \<le> static_absolute_max_block_size"
  by (rule input_store.codec_collection)

interpretation tx_wire: codec "tx_to_data True" "tx_from_data True" "wf_tx True"
proof unfold_locales
  fix tx pre post
  assume "fits (pre @ tx_to_data True tx @ post)" "wf_tx True tx"
  moreover have "\<lparr>tx_version = tx_version tx, tx_locktime = tx_locktime tx, tx_inputs = tx_inputs tx,
      tx_outputs = tx_outputs tx\<rparr> = tx" by (cases tx) simp
  ultimately show "tx_from_data True (reader_at pre (tx_to_data True tx @ post)) =
      Got tx (reader_at (pre @ tx_to_data True tx) post)"
    by (simp add: tx_from_data_def tx_to_data_def codec_simps wf_tx_def)
qed

lemma ucast_u64_u32: "ucast (ucast (v :: u32) :: u64) = v" "unat (ucast (v :: u32) :: u64) = unat v"
  using order_less_trans [OF unat_u32_less [of v], of "2 ^ 64"]
  by (simp_all add: unsigned_ucast_eq take_bit_nat_eq_self take_bit_word_eq_self)

interpretation tx_store: codec "tx_to_data False" "tx_from_data False" "wf_tx False"
proof unfold_locales
  fix tx pre post
  assume "fits (pre @ tx_to_data False tx @ post)" "wf_tx False tx"
  moreover have "\<lparr>tx_version = tx_version tx, tx_locktime = tx_locktime tx, tx_inputs = tx_inputs tx,
      tx_outputs = tx_outputs tx\<rparr> = tx" by (cases tx) simp
  moreover have "\<not> max_uint32 < unat (tx_version tx)" "\<not> max_uint32 < unat (tx_locktime tx)"
    using unat_u32_less [of "tx_version tx"] unat_u32_less [of "tx_locktime tx"] by linarith+
  ultimately show "tx_from_data False (reader_at pre (tx_to_data False tx @ post)) =
      Got tx (reader_at (pre @ tx_to_data False tx) post)"
    by (simp add: tx_from_data_def tx_to_data_def codec_simps wf_tx_def ucast_u64_u32)
qed


section \<open>Sizes\<close>

lemma length_write_collection:
  "length (write_collection enc xs) =
     variable_uint_size (of_nat (length xs)) + sum_list (map (\<lambda>x. length (enc x)) xs)"
  by (simp add: write_collection_def length_write_size length_concat comp_def)

text \<open>With a token, the announced size counts the length prefix of the script alone.\<close>

lemma output_size_gap:
  "length (output_to_data out) +
     (if out_token out = None then 0 else variable_uint_size (of_nat (length (script_bytes (out_script out))))) =
   output_serialized_size out +
     (if out_token out = None then 0 else variable_uint_size
        (of_nat (token_opt_size (out_token out) + length (script_bytes (out_script out)) + 1)))"
proof (cases "out_token out")
  case None
  then show ?thesis by (simp add: length_output_to_data)
next
  case (Some t)
  then show ?thesis
    by (simp add: output_to_data_def output_serialized_size_def token_opt_size_def length_token_to_data
        script_to_data_parts script_serialized_size_def Let_def)
qed

lemma length_tx_to_data:
  assumes "\<forall>i \<in> set (tx_inputs tx). length (point_hash (in_prevout i)) = hash_size"
    and "\<forall>out \<in> set (tx_outputs tx). out_token out = None"
  shows "length (tx_to_data wire tx) = tx_serialized_size wire tx"
proof -
  have "map (\<lambda>i. length (input_to_data wire i)) (tx_inputs tx) = map (input_serialized_size wire) (tx_inputs tx)"
    using assms(1) by (simp add: length_input_to_data)
  moreover have "map (\<lambda>out. length (chain_output_to_data wire out)) (tx_outputs tx) =
      map (chain_output_serialized_size wire) (tx_outputs tx)"
    using assms(2) by (simp add: length_output_to_data chain_output_to_data_def stored_output_to_data_def
        chain_output_serialized_size_def)
  ultimately show ?thesis
    unfolding tx_to_data_def tx_serialized_size_def
    by (cases wire) (simp_all add: length_write_collection del: map_eq_conv)
qed

section \<open>Totals and double spends\<close>

lemma ceiling_add_min:
  "a \<le> max_uint64 \<Longrightarrow> b \<le> max_uint64 \<Longrightarrow> ceiling_add a b = min max_uint64 (a + b)"
  by (auto simp: ceiling_add_def)

lemma fold_ceiling_add:
  assumes "\<And>x. x \<in> set xs \<Longrightarrow> f x \<le> max_uint64" "a \<le> max_uint64"
  shows "fold (\<lambda>x sum. ceiling_add sum (f x)) xs a = min max_uint64 (a + sum_list (map f xs))"
  using assms
proof (induction xs arbitrary: a)
  case (Cons x xs)
  then have "ceiling_add a (f x) = min max_uint64 (a + f x)" by (intro ceiling_add_min) auto
  with Cons show ?case by simp
qed simp

lemma unat_u64_le: "unat (v :: u64) \<le> max_uint64"
  using unat_u64_less [of v] by linarith

lemma total_output_value_min:
  "total_output_value tx = min max_uint64 (sum_list (map (\<lambda>out. unat (out_value out)) (tx_outputs tx)))"
  using fold_ceiling_add [of "tx_outputs tx" "\<lambda>out. unat (out_value out)" 0] unat_u64_le
  by (simp add: total_output_value_def)

definition input_value :: "tx_input \<Rightarrow> nat" where
  "input_value i =
     (let prevout = pv_cache (validation (in_prevout i))
      in if \<not> output_is_valid prevout then 0 else unat (out_value prevout))"

lemma total_input_value_min:
  "total_input_value tx = min max_uint64 (sum_list (map input_value (tx_inputs tx)))"
proof -
  have "input_value i \<le> max_uint64" for i using unat_u64_le by (simp add: input_value_def Let_def)
  then show ?thesis using fold_ceiling_add [of "tx_inputs tx" input_value 0]
    by (simp add: total_input_value_def input_value_def Let_def)
qed

lemma sorted_distinct_adj: "sorted xs \<Longrightarrow> distinct_adj xs \<longleftrightarrow> distinct xs"
proof (induction xs)
  case (Cons x xs)
  have "x \<in> set xs \<Longrightarrow> xs \<noteq> [] \<and> x = hd xs"
    using Cons.prems by (cases xs) (auto intro: order.antisym)
  with Cons show ?case by (cases xs) (auto simp: distinct_adj_Cons)
qed simp

lemma remdups_adj_sorted_distinct:
  "length (remdups_adj (sort xs)) = length (sort xs) \<longleftrightarrow> distinct xs"
  by (simp only: distinct_adj_conv_length_remdups_adj [symmetric] sorted_distinct_adj [OF sorted_sort]
      distinct_sort)


section \<open>Readers that go wrong\<close>

lemma max_word_bytes: "to_little_endian 8 (0xffffffffffffffff :: u64) = replicate 8 0xff"
  by code_simp

lemma max_size_bytes: "write_size_little_endian max_uint64 = 0xff # replicate 8 0xff"
  using max_word_bytes
  by (simp add: write_size_little_endian_def write_variable_little_endian_def write_8_bytes_little_endian_def)

lemma replicate_9: "replicate 9 (0xff :: u8) = 0xff # replicate 8 0xff"
  by (simp add: numeral_eq_Suc)

lemma token_commitment_size_wraps:
  assumes "length tid = hash_size" "fits (pre @ tid @ [0x60] @ replicate 9 0xff @ post)"
  shows "token_from_data (reader_at pre (tid @ [0x60] @ replicate 9 0xff @ post)) = Undef"
proof -
  let ?n = "write_size_little_endian max_uint64"
  have n: "replicate 9 0xff = ?n" by (simp only: max_size_bytes replicate_9)
  have b: "is_valid_bitfield 0x60" "has_nft 0x60" "\<not> has_amount 0x60" "has_commitment 0x60"
    by (simp_all add: is_valid_bitfield_def has_nft_def has_amount_def has_commitment_def Let_def)
  have "read_bytes max_uint64 (reader_at ((pre @ tid @ [0x60]) @ ?n) post) = Undef"
    using assms unfolding n by (intro read_bytes_wraps) simp_all
  moreover have "rbind read_size_little_endian read_bytes (reader_at (pre @ tid @ [0x60]) (?n @ post)) =
      read_bytes max_uint64 (reader_at ((pre @ tid @ [0x60]) @ ?n) post)"
    using assms unfolding n by (intro size_prefix.rbind_enc) simp_all
  ultimately have "rbind (commitment_from_data True) f (reader_at (pre @ tid @ [0x60]) (?n @ post)) = Undef"
    for f :: "bytes \<Rightarrow> token_data reader"
    by (simp add: commitment_from_data_def rbind_def [of _ f])
  with assms b show ?thesis
    unfolding n by (simp add: token_from_data_def codec_simps rbind_def [of read_byte] read_byte_at)
qed

lemma output_prefix_at:
  assumes "n < size_t_range"
    and "fits (pre @ write_8_bytes_little_endian v @ write_size_little_endian n @ PREFIX_BYTE # post)"
  shows "output_from_data (reader_at pre
      (write_8_bytes_little_endian v @ write_size_little_endian n @ PREFIX_BYTE # post)) =
    rbind token_from_data (\<lambda>t. rbind (script_from_data_with_size
        (size_sub (size_sub n (token_serialized_size t)) 1)) (\<lambda>s.
      rreturn \<lparr>out_value = v, out_script = s, out_token = Some t\<rparr>))
      (reader_at (pre @ write_8_bytes_little_endian v @ write_size_little_endian n @ [PREFIX_BYTE]) post)"
proof -
  let ?h = "pre @ write_8_bytes_little_endian v @ write_size_little_endian n"
  have "skip (length [PREFIX_BYTE]) (reader_at ?h ([PREFIX_BYTE] @ post)) = Got () (reader_at (?h @ [PREFIX_BYTE]) post)"
    using assms by (intro skip_at) simp
  with assms show ?thesis by (simp add: output_from_data_def codec_simps peek_at)
qed

section \<open>Properties\<close>

text \<open>C36: A transaction is read back from its serialisation, in the protocol's and in the database's
  format and inside any surrounding bytes, if its points are well-formed and no output without a
  token has an empty script or one that begins with the token prefix.\<close>

theorem tx_round_trip:
  assumes "wf_tx wire tx" "fits (pre @ tx_to_data wire tx @ post)"
  shows "tx_from_data wire (reader_at pre (tx_to_data wire tx @ post)) =
    Got tx (reader_at (pre @ tx_to_data wire tx) post)"
  using assms tx_wire.dec_enc [of pre tx post] tx_store.dec_enc [of pre tx post] by (cases wire) auto

definition example_tx :: transaction where
  "example_tx = \<lparr>tx_version = 2, tx_locktime = 7,
     tx_inputs = [\<lparr>in_prevout = output_point_of (make_point null_hash 3),
       in_script = script_of_bytes [0x51], in_sequence = 1\<rparr>],
     tx_outputs = [\<lparr>out_value = 5, out_script = script_of_bytes [0x52],
       out_token = Some \<lparr>token_id = null_hash, token_kind = both_kinds 300 cap_mut [1, 2]\<rparr>\<rparr>]\<rparr>"

lemma wf_example_tx: "wf_tx wire example_tx"
  by (simp add: wf_tx_def example_tx_def wf_input_def wf_output_def output_point_of_def make_point_def
      point.extend_def point.truncate_def null_hash_def script_of_bytes_def)

theorem tx_round_trip_witness:
  "tx_from_data True (reader_at [] (tx_to_data True example_tx @ [])) =
     Got example_tx (reader_at ([] @ tx_to_data True example_tx) [])"
proof (rule tx_round_trip [OF wf_example_tx])
  show "fits ([] @ tx_to_data True example_tx @ [])"
    by (simp add: example_tx_def tx_to_data_def write_collection_def input_to_data_def output_to_data_def chain_output_to_data_def
        length_write_size length_script_to_data length_token_to_data token_serialized_size_def
        script_serialized_size_def script_of_bytes_def point_to_data_def output_point_of_def make_point_def
        point.extend_def null_hash_def commitment_size_def variable_uint_size_def)
qed

text \<open>An output with an empty script and no token cannot be read back when the byte that follows
  its serialisation happens to be the token prefix: the reader takes the following bytes for a token
  and never returns the output that was written.\<close>

theorem empty_script_output_misread:
  assumes "out_token out = None" "script_bytes (out_script out) = []"
    and "fits (pre @ output_to_data out @ PREFIX_BYTE # post)"
  shows "output_from_data (reader_at pre (output_to_data out @ PREFIX_BYTE # post)) \<noteq> Got out r"
proof -
  have e: "output_to_data out = write_8_bytes_little_endian (out_value out) @ write_size_little_endian 0"
    using assms by (simp add: output_to_data_def script_to_data_parts)
  show ?thesis
    using output_prefix_at [of 0 pre "out_value out" post] assms
    by (auto simp: e rbind_Got_iff dest: arg_cong [of _ _ out_token])
qed

theorem empty_script_output_misread_witness:
  "output_from_data (reader_at [] (output_to_data
     \<lparr>out_value = 1, out_script = script_of_bytes [], out_token = None\<rparr> @ PREFIX_BYTE # [0, 0, 0])) \<noteq>
   Got \<lparr>out_value = 1, out_script = script_of_bytes [], out_token = None\<rparr> (reader_at [] [])"
  by (rule empty_script_output_misread)
    (simp_all add: script_of_bytes_def output_to_data_def length_script_to_data script_serialized_size_def
      variable_uint_size_def)

text \<open>Undefined behaviour on bytes from the network: an output whose token announces a commitment of
  \<open>2 ^ 64 - 1\<close> bytes passes the bounds check of \<open>read_bytes\<close>, whose sum wraps, and a span
  outside the buffer is taken.\<close>

theorem token_commitment_out_of_bounds:
  assumes "n < size_t_range" "length tid = hash_size"
    and "fits (pre @ write_8_bytes_little_endian v @ write_size_little_endian n @
      PREFIX_BYTE # tid @ [0x60] @ replicate 9 0xff @ post)"
  shows "output_from_data (reader_at pre (write_8_bytes_little_endian v @ write_size_little_endian n @
      PREFIX_BYTE # tid @ [0x60] @ replicate 9 0xff @ post)) = Undef"
proof -
  let ?h = "pre @ write_8_bytes_little_endian v @ write_size_little_endian n @ [PREFIX_BYTE]"
  have "token_from_data (reader_at ?h (tid @ [0x60] @ replicate 9 0xff @ post)) = Undef"
    using assms by (intro token_commitment_size_wraps) auto
  then show ?thesis using assms by (subst output_prefix_at) (auto simp: rbind_def)
qed

theorem token_commitment_out_of_bounds_witness:
  "output_from_data (reader_at [] (write_8_bytes_little_endian 1 @ write_size_little_endian 43 @
     PREFIX_BYTE # replicate 32 7 @ [0x60] @ replicate 9 0xff @ [])) = Undef"
  by (rule token_commitment_out_of_bounds) (simp_all add: length_write_size variable_uint_size_def)

text \<open>\<open>serialized_size\<close> is the length of the serialisation for transactions without tokens; an output
  with a token is longer than announced by the difference of two length prefixes, since the prefix
  counts the token too but the size function takes it for the script alone.\<close>

theorem serialized_sizes:
  "((\<forall>i \<in> set (tx_inputs tx). length (point_hash (in_prevout i)) = hash_size) \<and>
    (\<forall>out \<in> set (tx_outputs tx). out_token out = None) \<longrightarrow>
      length (tx_to_data wire tx) = tx_serialized_size wire tx) \<and>
   (out_token out = Some t \<longrightarrow>
      length (output_to_data out) + variable_uint_size (of_nat (length (script_bytes (out_script out)))) =
      output_serialized_size out +
        variable_uint_size (of_nat (token_serialized_size t + length (script_bytes (out_script out)) + 1)))"
  using length_tx_to_data output_size_gap [of out] by (auto simp: token_opt_size_def)

theorem serialized_sizes_witness:
  "length (output_to_data \<lparr>out_value = 1, out_script = script_of_bytes (replicate 240 0),
      out_token = Some \<lparr>token_id = replicate 32 0, token_kind = fungible 1\<rparr>\<rparr>) =
   output_serialized_size \<lparr>out_value = 1, out_script = script_of_bytes (replicate 240 0),
      out_token = Some \<lparr>token_id = replicate 32 0, token_kind = fungible 1\<rparr>\<rparr> + 2"
  using serialized_sizes [of "tx" wire "\<lparr>out_value = 1, out_script = script_of_bytes (replicate 240 0),
      out_token = Some \<lparr>token_id = replicate 32 0, token_kind = fungible 1\<rparr>\<rparr>"
      "\<lparr>token_id = replicate 32 0, token_kind = fungible 1\<rparr>"]
  by (simp add: script_of_bytes_def token_serialized_size_def variable_uint_size_def)

text \<open>Sorting and comparing neighbours detects a double spend inside a transaction exactly when two
  inputs spend the same point, and the totals saturate at \<open>2 ^ 64 - 1\<close> instead of wrapping, so
  \<open>is_overspent\<close> compares the true sums whenever the inputs' sum is representable.\<close>

theorem double_spend_and_totals:
  "(is_internal_double_spend tx \<longleftrightarrow> \<not> distinct (map point_key (previous_outputs tx))) \<and>
   total_output_value tx = min max_uint64 (sum_list (map (\<lambda>out. unat (out_value out)) (tx_outputs tx))) \<and>
   (sum_list (map input_value (tx_inputs tx)) < max_uint64 \<longrightarrow>
     (is_overspent tx \<longleftrightarrow> \<not> is_coinbase tx \<and>
       sum_list (map (\<lambda>out. unat (out_value out)) (tx_outputs tx)) >
       sum_list (map input_value (tx_inputs tx))))"
  using remdups_adj_sorted_distinct [of "map point_key (previous_outputs tx)"]
  by (auto simp: is_internal_double_spend_def Let_def is_overspent_def total_output_value_min
      total_input_value_min)

theorem double_spend_and_totals_witness:
  "\<not> is_internal_double_spend example_tx \<and> is_overspent example_tx"
  using double_spend_and_totals [of example_tx]
  by (simp add: example_tx_def previous_outputs_def input_value_def output_point_of_def make_point_def
      point.extend_def prevout_default_def output_default_def output_is_valid_def is_coinbase_def
      point_is_null_def)

text \<open>The caches of hashes and totals are coherent in a new transaction, stay so under reading them
  and under the setters of the version, the locktime and the outputs; the hash, the hash of the outputs
  and their total value are then what the value determines. Assignment is the exception: it replaces the value and keeps the caches,
  so a hash read before the assignment is returned after it.\<close>

theorem tx_cache_coherence:
  "coherent H (tx_new tx) \<and>
   (coherent H c \<longrightarrow>
      coherent H (set_version c v) \<and> coherent H (set_locktime c v) \<and> coherent H (set_outputs c outs) \<and>
      fst (get_hash H c) = tx_hash H (cached_value c) \<and> coherent H (snd (get_hash H c)) \<and>
      fst (get_outputs_hash H c) = to_outputs H (cached_value c) \<and> coherent H (snd (get_outputs_hash H c)) \<and>
      fst (get_total_output_value c) = total_output_value (cached_value c) \<and>
      coherent H (snd (get_total_output_value c))) \<and>
   (cached_hash c = Some h \<longrightarrow>
      cached_value (tx_assign c x) = cached_value x \<and> fst (get_hash H (tx_assign c x)) = h)"
  using coherent_new coherent_setters coherent_get_hash coherent_get_outputs_hash
    coherent_get_total_output_value
  by (auto simp: tx_assign_def get_hash_def)

theorem tx_cache_coherence_witness:
  "fst (get_hash rev (tx_assign (snd (get_hash rev (tx_new example_tx))) (tx_new (example_tx\<lparr>tx_version := 1\<rparr>)))) =
     tx_hash rev example_tx \<and>
   fst (get_hash rev (set_version (tx_new example_tx) 1)) = tx_hash rev (example_tx\<lparr>tx_version := 1\<rparr>)"
  using tx_cache_coherence [of rev example_tx "snd (get_hash rev (tx_new example_tx))" 1 "[]"
      "tx_hash rev example_tx" "tx_new (example_tx\<lparr>tx_version := 1\<rparr>)"]
  by (simp add: get_hash_def tx_new_def set_version_def invalidate_cache_def Let_def)

end
