(* ===== verification/Sighash.thy ===== *)
theory Sighash
  imports Transaction
begin

text \<open>
  Signature hashes and signature checking: \<open>domain/src/chain/script_basis.cpp\<close>
  (\<open>generate_version_0_signature_hash\<close>), \<open>script.cpp\<close> (\<open>check_signature\<close>),
  \<open>infrastructure/machine/sighash_algorithm.hpp\<close> and \<open>infrastructure/src/math/elliptic_curve.cpp\<close>
  (\<open>parse_endorsement\<close>, \<open>parse_signature\<close>).

  The hash functions and the elliptic curve operations are those of third-party code (the vendored
  hash implementations and secp256k1); they are the fields of a record \<open>crypto\<close> that every definition
  using them takes. \<open>crypto_ok\<close> states the lengths of the digests.
\<close>

record crypto =
  ripemd160_hash :: "bytes \<Rightarrow> bytes"
  sha1_hash :: "bytes \<Rightarrow> bytes"
  sha256_hash :: "bytes \<Rightarrow> bytes"
  der_parse :: "bool \<Rightarrow> bytes \<Rightarrow> bytes option"
  ecdsa_verify :: "bytes \<Rightarrow> bytes \<Rightarrow> bytes \<Rightarrow> bool"

definition crypto_ok :: "crypto \<Rightarrow> bool" where
  "crypto_ok c \<longleftrightarrow>
     (\<forall>m. length (ripemd160_hash c m) = 20 \<and> length (sha1_hash c m) = 20 \<and> length (sha256_hash c m) = 32)"

definition bitcoin_hash :: "crypto \<Rightarrow> bytes \<Rightarrow> bytes" where
  "bitcoin_hash c m = sha256_hash c (sha256_hash c m)"

section \<open>Hash types\<close>

abbreviation (input) sighash_all :: u8 where "sighash_all \<equiv> 0x01"
abbreviation (input) sighash_none :: u8 where "sighash_none \<equiv> 0x02"
abbreviation (input) sighash_single :: u8 where "sighash_single \<equiv> 0x03"
abbreviation (input) sighash_utxos :: u8 where "sighash_utxos \<equiv> 0x20"
abbreviation (input) sighash_forkid :: u8 where "sighash_forkid \<equiv> 0x40"
abbreviation (input) sighash_anyone_can_pay :: u8 where "sighash_anyone_can_pay \<equiv> 0x80"
abbreviation (input) sighash_mask :: u8 where "sighash_mask \<equiv> 0x1f"

definition to_sighash_enum :: "u8 \<Rightarrow> u8" where
  "to_sighash_enum sighash_type =
     (let masked = sighash_type AND sighash_mask in
      if masked = sighash_single then sighash_single
      else if masked = sighash_none then sighash_none
      else sighash_all)"

section \<open>The signature hash\<close>

text \<open>
  The message that is signed. \<open>None\<close> is an input index out of range, which only an assertion guards.
  The hashes of the transaction's parts are what its caches hold when they are coherent.
\<close>

definition signature_preimage ::
  "crypto \<Rightarrow> transaction \<Rightarrow> u32 \<Rightarrow> script \<Rightarrow> u64 \<Rightarrow> u8 \<Rightarrow> forks \<Rightarrow> bytes option" where
  "signature_preimage c tx input_index script_code val sighash_type active_forks =
     (if unat input_index \<ge> length (tx_inputs tx) then None
      else
        let input = tx_inputs tx ! unat input_index;
            prevout = pv_cache (validation (in_prevout input));
            H = bitcoin_hash c;
            sighash = to_sighash_enum sighash_type;
            any = sighash_type AND sighash_anyone_can_pay \<noteq> 0;
            single = (sighash = sighash_single \<or> sighash = sighash_forkid OR sighash_single \<or>
              sighash = sighash_utxos OR sighash_single);
            all = (sighash = sighash_all \<or> sighash = sighash_forkid OR sighash_all \<or>
              sighash = sighash_utxos OR sighash_all);
            utxos = sighash_type AND sighash_utxos \<noteq> 0
        in Some (
          write_4_bytes_little_endian (tx_version tx) @
          (if \<not> any then to_inpoints H tx else null_hash) @
          (if is_enabled active_forks bch_descartes \<and> utxos then to_utxos H tx else []) @
          (if \<not> any \<and> all then to_sequences H tx else null_hash) @
          point_to_data True (in_prevout input) @
          (case out_token prevout of
             Some t \<Rightarrow> if is_enabled active_forks bch_descartes
               then [PREFIX_BYTE] @ token_to_data t else []
           | None \<Rightarrow> []) @
          script_to_data True script_code @
          write_8_bytes_little_endian val @
          write_4_bytes_little_endian (in_sequence input) @
          (if all then to_outputs H tx
           else if single \<and> unat input_index < length (tx_outputs tx)
             then H (output_to_data (tx_outputs tx ! unat input_index))
           else null_hash) @
          write_4_bytes_little_endian (tx_locktime tx) @
          write_4_bytes_little_endian (ucast sighash_type)))"

definition generate_signature_hash ::
  "crypto \<Rightarrow> transaction \<Rightarrow> u32 \<Rightarrow> script \<Rightarrow> u64 \<Rightarrow> u8 \<Rightarrow> forks \<Rightarrow> (bytes \<times> nat) option" where
  "generate_signature_hash c tx input_index script_code val sighash_type active_forks =
     map_option (\<lambda>data. (bitcoin_hash c data, length data))
       (signature_preimage c tx input_index script_code val sighash_type active_forks)"

text \<open>\<open>preimage_size\<close>, what the size of the preimage is asserted to be.\<close>

definition preimage_size :: "nat \<Rightarrow> nat" where
  "preimage_size script_size =
     4 + hash_size + hash_size + point_serialized_size True + script_size + 8 + 4 + hash_size + 4 + 4"

section \<open>Endorsements and signatures\<close>

definition parse_endorsement :: "bytes \<Rightarrow> (u8 \<times> bytes) option" where
  "parse_endorsement endorsement =
     (if endorsement = [] then None else Some (last endorsement, butlast endorsement))"

definition parse_signature :: "crypto \<Rightarrow> bytes \<Rightarrow> bool \<Rightarrow> bytes option" where
  "parse_signature c der strict = (if der = [] then None else der_parse c strict der)"

text \<open>The verdict and the number of hashed bytes; \<open>None\<close> as in \<open>signature_preimage\<close>.\<close>

definition check_signature ::
  "crypto \<Rightarrow> bytes \<Rightarrow> u8 \<Rightarrow> bytes \<Rightarrow> script \<Rightarrow> transaction \<Rightarrow> u32 \<Rightarrow> forks \<Rightarrow> u64 \<Rightarrow> (bool \<times> nat) option" where
  "check_signature c signature sighash_type public_key script_code tx input_index active_forks val =
     (if public_key = [] then Some (False, 0)
      else do {
        (sighash, sz) \<leftarrow> generate_signature_hash c tx input_index script_code val sighash_type active_forks;
        Some (ecdsa_verify c public_key sighash signature, sz) })"

section \<open>Lemmas\<close>

lemma to_sighash_enum_cases:
  "to_sighash_enum t \<in> {sighash_all, sighash_none, sighash_single}"
  by (simp add: to_sighash_enum_def Let_def)

lemma signature_preimage_Some:
  "signature_preimage c tx i s v t f \<noteq> None \<longleftrightarrow> unat i < length (tx_inputs tx)"
  by (simp add: signature_preimage_def Let_def)

lemma check_signature_Some:
  "unat i < length (tx_inputs tx) \<Longrightarrow> check_signature c sig t key s tx i f v \<noteq> None"
  using signature_preimage_Some [of c tx i s v t f]
  by (auto simp: check_signature_def generate_signature_hash_def)

lemma length_bitcoin_hash: "crypto_ok c \<Longrightarrow> length (bitcoin_hash c m) = hash_size"
  by (simp add: crypto_ok_def bitcoin_hash_def)

lemma length_tx_hashes:
  "crypto_ok c \<Longrightarrow> length (to_inpoints (bitcoin_hash c) tx) = hash_size"
  "crypto_ok c \<Longrightarrow> length (to_outputs (bitcoin_hash c) tx) = hash_size"
  "crypto_ok c \<Longrightarrow> length (to_sequences (bitcoin_hash c) tx) = hash_size"
  "crypto_ok c \<Longrightarrow> length (to_utxos (bitcoin_hash c) tx) = hash_size"
  by (simp_all add: to_inpoints_def to_outputs_def to_sequences_def to_utxos_def length_bitcoin_hash)

lemma length_preimage:
  assumes "crypto_ok c" "signature_preimage c tx i s v t f = Some data"
    and "length (point_hash (in_prevout (tx_inputs tx ! unat i))) = hash_size"
  shows "length data =
    preimage_size (script_serialized_size s True) +
    (if is_enabled f bch_descartes \<and> t AND sighash_utxos \<noteq> 0 then hash_size else 0) +
    (case out_token (pv_cache (validation (in_prevout (tx_inputs tx ! unat i)))) of
       Some tok \<Rightarrow> if is_enabled f bch_descartes then 1 + token_serialized_size tok else 0 | None \<Rightarrow> 0)"
  using assms(2)
  by (auto simp: signature_preimage_def Let_def preimage_size_def length_tx_hashes [OF assms(1)]
      length_bitcoin_hash [OF assms(1)] length_script_to_data length_token_to_data
      length_point_to_data [OF assms(3)] null_hash_def split: if_splits option.splits)

text \<open>Which parts of a transaction a hash type leaves out of the message.\<close>

lemma preimage_none_ignores_outputs:
  assumes "to_sighash_enum t = sighash_none"
  shows "signature_preimage c (tx\<lparr>tx_outputs := outs\<rparr>) i s v t f = signature_preimage c tx i s v t f"
  using assms by (simp add: signature_preimage_def Let_def)


section \<open>Properties\<close>

lemma le32_inj: "write_4_bytes_little_endian a = write_4_bytes_little_endian b \<Longrightarrow> a = b"
  by (rule le32.enc_inj) simp_all

lemma le64_inj: "write_8_bytes_little_endian a = write_8_bytes_little_endian b \<Longrightarrow> a = b"
  by (rule le64.enc_inj) simp_all

lemma ucast_u8_u32_inj: "(ucast (a :: u8) :: u32) = ucast b \<Longrightarrow> a = b"
  using order_less_trans [OF unat_u8_less [of a], of "2 ^ 32"] order_less_trans [OF unat_u8_less [of b], of "2 ^ 32"]
  by (simp add: word_unat_eq_iff unsigned_ucast_eq take_bit_nat_eq_self)

lemma append_parts:
  "length a = length b \<Longrightarrow> a @ xs = b @ ys \<Longrightarrow> a = b \<and> xs = ys"
  by simp

text \<open>The token of the output that an input spends, and the token prefix of the message.\<close>

definition spent_token :: "transaction \<Rightarrow> u32 \<Rightarrow> token_data option" where
  "spent_token tx i = out_token (pv_cache (validation (in_prevout (tx_inputs tx ! unat i))))"

definition token_prefix :: "forks \<Rightarrow> token_data option \<Rightarrow> bytes" where
  "token_prefix f token =
     (case token of Some t \<Rightarrow> if is_enabled f bch_descartes then PREFIX_BYTE # token_to_data t else [] | None \<Rightarrow> [])"

definition common_preimage ::
  "bytes \<Rightarrow> bytes \<Rightarrow> bytes \<Rightarrow> bytes \<Rightarrow> bytes \<Rightarrow> transaction \<Rightarrow> u32 \<Rightarrow> u64 \<Rightarrow> u8 \<Rightarrow> bytes" where
  "common_preimage ins seqs outs pt code tx i v t =
     write_4_bytes_little_endian (tx_version tx) @ ins @ seqs @ pt @ code @
     write_8_bytes_little_endian v @ write_4_bytes_little_endian (in_sequence (tx_inputs tx ! unat i)) @
     outs @ write_4_bytes_little_endian (tx_locktime tx) @ write_4_bytes_little_endian (ucast t)"

lemma preimage_shape:
  assumes "crypto_ok c" "signature_preimage c tx i s v t f = Some d"
  obtains ins seqs outs where
    "d = common_preimage ins seqs outs (point_to_data True (in_prevout (tx_inputs tx ! unat i)))
       (token_prefix f (spent_token tx i) @ script_to_data True s) tx i v t"
    "length ins = (if is_enabled f bch_descartes \<and> t AND sighash_utxos \<noteq> 0 then 2 else 1) * hash_size"
    "length seqs = hash_size" "length outs = hash_size"
proof -
  let ?any = "t AND sighash_anyone_can_pay \<noteq> 0" and ?all = "to_sighash_enum t = sighash_all"
  let ?H = "bitcoin_hash c"
  let ?ins = "(if \<not> ?any then to_inpoints ?H tx else null_hash) @
    (if is_enabled f bch_descartes \<and> t AND sighash_utxos \<noteq> 0 then to_utxos ?H tx else [])"
  let ?seqs = "if \<not> ?any \<and> ?all then to_sequences ?H tx else null_hash"
  let ?outs = "if ?all then to_outputs ?H tx
    else if to_sighash_enum t = sighash_single \<and> unat i < length (tx_outputs tx)
      then ?H (output_to_data (tx_outputs tx ! unat i)) else null_hash"
  have "d = common_preimage ?ins ?seqs ?outs (point_to_data True (in_prevout (tx_inputs tx ! unat i)))
      (token_prefix f (spent_token tx i) @ script_to_data True s) tx i v t"
    using assms(2) to_sighash_enum_cases [of t]
    by (auto simp: signature_preimage_def common_preimage_def token_prefix_def spent_token_def Let_def
        split: if_splits option.splits)
  moreover have
    "length ?ins = (if is_enabled f bch_descartes \<and> t AND sighash_utxos \<noteq> 0 then 2 else 1) * hash_size"
    "length ?seqs = hash_size" "length ?outs = hash_size"
    by (simp_all add: length_tx_hashes [OF assms(1)] length_bitcoin_hash [OF assms(1)] null_hash_def)
  ultimately show thesis by (rule that)
qed

text \<open>The message is read from both ends; what is left is the prefix of the token with the script.\<close>

lemma append_parts_end: "length b = length b' \<Longrightarrow> a @ b = a' @ b' \<Longrightarrow> a = a' \<and> b = b'"
  by simp

lemma common_preimage_ends:
  assumes "common_preimage ins seqs outs pt code tx i v t = common_preimage ins' seqs' outs' pt' code' tx' i' v' t'"
    and "length outs = length outs'"
  shows "t = t'" "tx_locktime tx = tx_locktime tx'" "v = v'"
    "in_sequence (tx_inputs tx ! unat i) = in_sequence (tx_inputs tx' ! unat i')"
    "write_4_bytes_little_endian (tx_version tx) @ ins @ seqs @ pt @ code =
     write_4_bytes_little_endian (tx_version tx') @ ins' @ seqs' @ pt' @ code'"
proof -
  let ?head = "\<lambda>tx ins seqs pt code. write_4_bytes_little_endian (tx_version tx) @ ins @ seqs @ pt @ code"
  let ?tail = "\<lambda>tx i outs v t. write_8_bytes_little_endian v @
    write_4_bytes_little_endian (in_sequence (tx_inputs tx ! unat i)) @ outs @
    write_4_bytes_little_endian (tx_locktime tx) @ write_4_bytes_little_endian (ucast t)"
  have "?head tx ins seqs pt code @ ?tail tx i outs v t = ?head tx' ins' seqs' pt' code' @ ?tail tx' i' outs' v' t'"
    using assms(1) by (simp add: common_preimage_def)
  moreover have "length (?tail tx i outs v t) = length (?tail tx' i' outs' v' t')" using assms(2) by simp
  ultimately have both: "?head tx ins seqs pt code = ?head tx' ins' seqs' pt' code' \<and>
      ?tail tx i outs v t = ?tail tx' i' outs' v' t'" by (rule append_parts_end [rotated])
  then show "?head tx ins seqs pt code = ?head tx' ins' seqs' pt' code'" by (rule conjunct1)
  note tail = conjunct2 [OF both]
  show "t = t'" "tx_locktime tx = tx_locktime tx'" "v = v'"
    "in_sequence (tx_inputs tx ! unat i) = in_sequence (tx_inputs tx' ! unat i')"
    using tail assms(2) by (auto dest: le32_inj le64_inj ucast_u8_u32_inj)
qed

text \<open>A script is taken for one with a token prefix only when its size is the byte of the prefix.\<close>

lemma script_prefix_byte:
  assumes "script_to_data True s = PREFIX_BYTE # rest" "length (script_bytes s) \<le> static_absolute_max_block_size"
  shows "script_serialized_size s False = 239"
proof -
  let ?n = "of_nat (length (script_bytes s)) :: u64"
  have n: "unat ?n = length (script_bytes s)"
    using assms(2) by (simp add: unat_of_nat)
  have "unat ?n < 0xfd \<and> (ucast ?n :: u8) = PREFIX_BYTE"
    using assms(1)
    by (auto simp: script_to_data_def script_serialized_size_def write_variable_little_endian_def split: if_splits)
  then have "ucast (PREFIX_BYTE :: u8) = ?n" using ucast_ucast_u64(1) [of ?n] by auto
  then have "unat ?n = 239" by (auto dest: sym)
  then show ?thesis using n by (simp add: script_serialized_size_def)
qed

lemma token_and_script:
  assumes "plain_script s" "plain_script s'" "\<forall>a. token = Some a \<longrightarrow> wf_token a" "\<forall>a. token' = Some a \<longrightarrow> wf_token a"
    and "fits (token_prefix f token @ script_to_data True s)"
    and "token_prefix f token @ script_to_data True s = token_prefix f token' @ script_to_data True s'"
  shows "s = s' \<and> (is_enabled f bch_descartes \<longrightarrow> token = token') \<or>
    is_enabled f bch_descartes \<and>
    (token = None \<and> token' \<noteq> None \<and> script_serialized_size s False = 239 \<or>
     token' = None \<and> token \<noteq> None \<and> script_serialized_size s' False = 239)"
proof (cases "is_enabled f bch_descartes")
  case False
  then have "token_prefix f token = []" "token_prefix f token' = []"
    by (simp_all add: token_prefix_def split: option.splits)
  with False script_codec.enc_inj [OF assms(1,2)] assms(5,6) show ?thesis by simp
next
  case on: True
  show ?thesis
  proof (cases token; cases token')
    assume "token = None" "token' = None"
    with script_codec.enc_inj [OF assms(1,2)] assms(5,6) show ?thesis by (simp add: token_prefix_def)
  next
    fix a assume "token = None" "token' = Some a"
    with script_prefix_byte [of s] assms(1) [THEN conjunct2] assms(6) on show ?thesis by (simp add: token_prefix_def)
  next
    fix a assume "token = Some a" "token' = None"
    then have "script_to_data True s' = PREFIX_BYTE # token_to_data a @ script_to_data True s"
      using assms(6) on by (simp add: token_prefix_def)
    from script_prefix_byte [OF this assms(2) [THEN conjunct2]] \<open>token = Some a\<close> \<open>token' = None\<close> on
    show ?thesis by simp
  next
    fix a b assume some: "token = Some a" "token' = Some b"
    then have "fits (token_to_data a @ script_to_data True s)" using assms(5) on by (simp add: token_prefix_def)
    moreover have "token_to_data a @ script_to_data True s = token_to_data b @ script_to_data True s'"
      using assms(6) on some by (simp add: token_prefix_def)
    ultimately have both: "a = b \<and> script_to_data True s = script_to_data True s'"
      using token_codec.enc_prefix_free [of a b] assms(3,4) some by blast
    have "fits (script_to_data True s)" using assms(5) by simp
    from script_codec.enc_inj [OF assms(1,2) this] both some show ?thesis by simp
  qed
qed


definition example_crypto :: crypto where
  "example_crypto = \<lparr>ripemd160_hash = (\<lambda>m. replicate 20 (of_nat (length m))),
     sha1_hash = (\<lambda>m. replicate 20 (of_nat (length m))),
     sha256_hash = (\<lambda>m. replicate 32 (of_nat (length m))),
     der_parse = (\<lambda>strict der. Some der), ecdsa_verify = (\<lambda>key hash sig. key = sig)\<rparr>"

lemma example_crypto_ok: "crypto_ok example_crypto"
  by (simp add: crypto_ok_def example_crypto_def)


end
