(* ===== verification/Chain_State.thy ===== *)
theory Chain_State
  imports Work_Required Sighash
begin

text \<open>
  The chain state (domain/src/chain/chain_state.cpp): what is queried to build it, its construction, its promotion
  from the state of the pool, its limits, and the acceptance of a header (header_basis.cpp) under it.
\<close>

unbundle bit_operations_syntax

section \<open>What is queried\<close>

abbreviation (input) unrequested :: nat where "unrequested \<equiv> max_uint64"

definition bits_count :: "nat \<Rightarrow> forks \<Rightarrow> nat" where
  "bits_count height forks =
     (let testnet = is_enabled forks easy_blocks;
          retarget = is_enabled forks retarget;
          easy_work = testnet \<and> retarget \<and> \<not> is_retarget_height height
      in if easy_work then min height retargeting_interval else min height 147)"

definition version_count :: "nat \<Rightarrow> forks \<Rightarrow> network \<Rightarrow> nat" where
  "version_count height forks network =
     (if is_enabled forks bip90_rule \<or> \<not> is_enabled forks bip34_activations then 0
      else min height (version_sample_size network))"

definition timestamp_count :: "nat \<Rightarrow> nat" where
  "timestamp_count height = min height 147"

definition retarget_height :: "nat \<Rightarrow> forks \<Rightarrow> nat" where
  "retarget_height height forks =
     (if \<not> is_enabled forks retarget then unrequested
      else size_diff height (if is_retarget_height height then retargeting_interval else retarget_distance height))"

definition collision_height :: "nat \<Rightarrow> network \<Rightarrow> nat" where
  "collision_height height network =
     (let bip34_height = network_map network
            (map_option cp_height mainnet_bip34_active_checkpoint)
            (map_option cp_height testnet_bip34_active_checkpoint)
            (map_option cp_height regtest_bip34_active_checkpoint)
            (map_option cp_height testnet4_bip34_active_checkpoint)
            (map_option cp_height scalenet_bip34_active_checkpoint)
            (map_option cp_height chipnet_bip34_active_checkpoint)
      in case bip34_height of
           None \<Rightarrow> unrequested
         | Some h \<Rightarrow> if height > h then h else unrequested)"

record height_range =
  range_count :: nat
  range_high :: nat

record chain_map =
  map_bits :: height_range
  map_bits_self :: nat
  map_version :: height_range
  map_version_self :: nat
  map_timestamp :: height_range
  map_timestamp_self :: nat
  map_timestamp_retarget :: nat
  map_allow_collisions_height :: nat

definition get_map :: "nat \<Rightarrow> forks \<Rightarrow> network \<Rightarrow> chain_map" where
  "get_map height forks network =
     (if height = 0
      then \<lparr>map_bits = \<lparr>range_count = 0, range_high = 0\<rparr>, map_bits_self = 0,
            map_version = \<lparr>range_count = 0, range_high = 0\<rparr>, map_version_self = 0,
            map_timestamp = \<lparr>range_count = 0, range_high = 0\<rparr>, map_timestamp_self = 0,
            map_timestamp_retarget = 0, map_allow_collisions_height = 0\<rparr>
      else \<lparr>map_bits = \<lparr>range_count = bits_count height forks, range_high = height - 1\<rparr>,
            map_bits_self = height,
            map_version = \<lparr>range_count = version_count height forks network, range_high = height - 1\<rparr>,
            map_version_self = height,
            map_timestamp = \<lparr>range_count = timestamp_count height, range_high = height - 1\<rparr>,
            map_timestamp_self = height,
            map_timestamp_retarget = retarget_height height forks,
            map_allow_collisions_height = collision_height height network\<rparr>)"

section \<open>The state\<close>

record chain_state =
  cs_data :: chain_data
  cs_anchor :: asert_anchor
  cs_forks :: forks
  cs_checkpoints :: "checkpoint list"
  cs_network :: network
  cs_active :: activations
  cs_median_time_past :: u32
  cs_work_required :: u32
  cs_half_life :: u32
  cs_abla_config :: abla_config
  cs_leibniz :: u64
  cs_cantor :: u64

text \<open>The constructor; \<open>None\<close> where the work required is undefined.\<close>

definition chain_state_of ::
  "chain_data \<Rightarrow> forks \<Rightarrow> checkpoint list \<Rightarrow> network \<Rightarrow> asert_anchor \<Rightarrow> u32 \<Rightarrow> abla_config \<Rightarrow> u64 \<Rightarrow> u64 \<Rightarrow>
   chain_state option" where
  "chain_state_of values forks checkpoints network anchor half_life config leibniz cantor =
     (let forks = forks OR allow_collisions
      in do {
        work \<leftarrow> work_required values network forks anchor half_life;
        Some \<lparr>cs_data = values, cs_anchor = anchor, cs_forks = forks, cs_checkpoints = checkpoints,
          cs_network = network, cs_active = activation values forks network leibniz cantor,
          cs_median_time_past = median_time_past values median_time_past_interval,
          cs_work_required = work, cs_half_life = half_life, cs_abla_config = config,
          cs_leibniz = leibniz, cs_cantor = cantor\<rparr> })"

definition header_hash :: "crypto \<Rightarrow> validated_header \<Rightarrow> bytes" where
  "header_hash c h = bitcoin_hash c (header_to_data True h)"

definition to_block :: "crypto \<Rightarrow> chain_state \<Rightarrow> validated_header \<Rightarrow> chain_data" where
  "to_block c pool header =
     (let hash = header_hash c header;
          values = (cs_data pool)\<lparr>cd_hash := hash, bits_self := hd_bits header,
            version_self := hd_version header, timestamp_self := hd_timestamp header\<rparr>
      in if allow_collisions_at_height (cd_height values) (cs_network pool)
         then values\<lparr>allow_collisions_hash := hash\<rparr> else values)"

definition from_pool_ptr :: "crypto \<Rightarrow> chain_state \<Rightarrow> validated_header \<Rightarrow> chain_state option" where
  "from_pool_ptr c pool header =
     chain_state_of (to_block c pool header) (cs_forks pool) (cs_checkpoints pool) (cs_network pool)
       (cs_anchor pool) (cs_half_life pool) (cs_abla_config pool) (cs_leibniz pool) (cs_cantor pool)"

definition state_is_enabled :: "chain_state \<Rightarrow> forks \<Rightarrow> bool" where
  "state_is_enabled s fork = is_enabled (act_forks (cs_active s)) fork"

definition minimum_version :: "chain_state \<Rightarrow> nat" where
  "minimum_version s = act_minimum_version (cs_active s)"

definition state_height :: "chain_state \<Rightarrow> nat" where
  "state_height s = cd_height (cs_data s)"

definition is_checkpoint_conflict :: "chain_state \<Rightarrow> bytes \<Rightarrow> bool" where
  "is_checkpoint_conflict s hash \<longleftrightarrow> \<not> checkpoint_validate hash (state_height s) (cs_checkpoints s)"

definition is_under_checkpoint :: "chain_state \<Rightarrow> bool" where
  "is_under_checkpoint s \<longleftrightarrow> covered (state_height s) (cs_checkpoints s)"

definition get_next_work_required :: "chain_state \<Rightarrow> u32 \<Rightarrow> u32 option" where
  "get_next_work_required s time_now =
     work_required ((cs_data s)\<lparr>timestamp_self := time_now\<rparr>) (cs_network s) (act_forks (cs_active s))
       (cs_anchor s) (cs_half_life s)"

section \<open>Limits\<close>

definition static_max_block_size :: "network \<Rightarrow> nat" where
  "static_max_block_size network =
     (if network = testnet4 then 2000000 else if network = scalenet then 256000000
      else if network = chipnet then 2000000 else 32000000)"

definition static_max_block_sigops :: "network \<Rightarrow> nat" where
  "static_max_block_sigops network =
     (if network = testnet4 then 2000000 div 50 else if network = scalenet then 256000000 div 50
      else if network = chipnet then 2000000 div 50 else 32000000 div 50)"

definition static_absolute_max_block_size :: nat where
  "static_absolute_max_block_size = 2000000000"

definition get_allowed_sigops :: "nat \<Rightarrow> nat" where
  "get_allowed_sigops blk_size = ((1 + size_diff blk_size 1 div 1000000) * 20000) mod size_t_range"

definition state_euclid_enabled :: "chain_state \<Rightarrow> bool" where
  "state_euclid_enabled s = is_euclid_enabled (state_height s) (cs_network s)"

definition state_pythagoras_enabled :: "chain_state \<Rightarrow> bool" where
  "state_pythagoras_enabled s = is_pythagoras_enabled (state_height s) (cs_network s)"

definition state_fermat_enabled :: "chain_state \<Rightarrow> bool" where
  "state_fermat_enabled s = is_fermat_enabled (state_height s) (cs_network s)"

definition state_descartes_enabled :: "chain_state \<Rightarrow> bool" where
  "state_descartes_enabled s = is_descartes_enabled (state_height s) (cs_network s)"

definition state_lobachevski_enabled :: "chain_state \<Rightarrow> bool" where
  "state_lobachevski_enabled s = is_lobachevski_enabled (state_height s) (cs_network s)"

definition state_leibniz_enabled :: "chain_state \<Rightarrow> bool" where
  "state_leibniz_enabled s = is_mtp_activated (cs_median_time_past s) (ucast (cs_leibniz s))"

definition state_cantor_enabled :: "chain_state \<Rightarrow> bool" where
  "state_cantor_enabled s = is_mtp_activated (cs_median_time_past s) (ucast (cs_cantor s))"

definition dynamic_max_block_size :: "chain_state \<Rightarrow> nat" where
  "dynamic_max_block_size s =
     (let static_size = static_max_block_size (cs_network s)
      in if \<not> state_lobachevski_enabled s then static_size
         else let dynamic_size = unat (block_size_limit (cd_abla_state (cs_data s)))
           in max static_size dynamic_size)"

definition dynamic_max_block_sigops :: "chain_state \<Rightarrow> nat" where
  "dynamic_max_block_sigops s = dynamic_max_block_size s div 50"

definition dynamic_max_block_sigchecks :: "chain_state \<Rightarrow> nat" where
  "dynamic_max_block_sigchecks s = dynamic_max_block_size s div 141"

section \<open>Accepting a header\<close>

definition header_accept :: "chain_state \<Rightarrow> 'a header_scheme \<Rightarrow> bytes \<Rightarrow> error_code" where
  "header_accept s h hash =
     (if hd_bits h \<noteq> cs_work_required s then Block_error err_incorrect_proof_of_work
      else if is_checkpoint_conflict s hash then Block_error err_checkpoints_failed
      else if is_under_checkpoint s then success
      else if unat (hd_version h) < minimum_version s then Block_error err_old_version_block
      else if hd_timestamp h \<le> cs_median_time_past s then Block_error err_timestamp_too_early
      else success)"

section \<open>The anchor\<close>

definition get_assert_anchor_block :: "network \<Rightarrow> asert_anchor" where
  "get_assert_anchor_block network =
     \<lparr>anchor_height = network_map network 661647 1421481 0 16844 16868 16844,
      ancestor_timestamp = of_nat (network_map network 1605447844 1605445400 0 1605451779 1605448590 1605451779),
      anchor_bits = of_nat (network_map network 0x1804dafe 0x1d00ffff 0 0x1d00ffff 0x1d00ffff 0x1d00ffff)\<rparr>"


section \<open>Lemmas\<close>

lemma anchor_target:
  assumes "network \<noteq> regtest"
  shows "unat (big (compact_of_bits (anchor_bits (get_assert_anchor_block network)))) \<in>
    {0x04dafe * 256 ^ 21, 0xffff * 256 ^ 26}"
proof -
  have l: "byte_length 0x04dafe = 3" by (simp add: byte_length_eq)
  have "from_compact 0x1804dafe = Some (of_nat (0x04dafe * 256 ^ 21))"
    using from_compact_assemble [of 24 "0x04dafe"] by (simp add: assemble_def compact_value_def l)
  then have "unat (big (compact_of_bits 0x1804dafe)) = 0x04dafe * 256 ^ 21"
    by (simp add: compact_of_bits_def unat_of_nat Let_def)
  moreover have "unat (big (compact_of_bits 0x1d00ffff)) = 0xffff * 256 ^ 26"
    using unat_pow_limit by (simp add: pow_limit_def)
  ultimately show ?thesis
    using assms by (cases network) (simp_all add: get_assert_anchor_block_def)
qed

lemma asert_range:
  assumes "0 \<le> x" "x < 2 ^ 32" "0 \<le> y" "y < 2 ^ 31" "- (2 ^ 21) \<le> h" "h < 2 ^ 32" "half_life \<noteq> 0"
  shows "asert_in_range (x - y) h 600 half_life"
  using assms by (simp add: asert_in_range_def int64_range_def)

lemma asert_defined:
  assumes "network \<noteq> regtest" "timestamp_ordered values \<noteq> []" "cd_height values < 2 ^ 32" "half_life \<noteq> 0"
  shows "\<exists>b. daa_aserti3_2d values (get_assert_anchor_block network) half_life = Some b \<and> within_limit b"
proof -
  let ?a = "get_assert_anchor_block network"
  let ?high = "last (timestamp_ordered values)"
  let ?t = "sint (ucast ?high - ancestor_timestamp ?a)"
  let ?h = "sint ((of_nat (cd_height values) :: u64) - of_nat (anchor_height ?a))"
  let ?x = "big (compact_of_bits (anchor_bits ?a))"
  have a: "uint (ancestor_timestamp ?a) < 2 ^ 31" "anchor_height ?a < 2 ^ 21"
    by (cases network; simp add: get_assert_anchor_block_def)+
  have high: "uint ?high < 2 ^ 32" using unsigned_less [of ?high, where ?'a = int] by simp
  then have uh: "uint (ucast ?high :: u64) = uint ?high"
    by (simp add: unsigned_ucast_eq take_bit_eq_mod)
  have t: "?t = uint ?high - uint (ancestor_timestamp ?a)"
    using sint_sub_u64 [of "ucast ?high" "ancestor_timestamp ?a"] a high unfolding uh by simp
  have "uint (of_nat (cd_height values) :: u64) = int (cd_height values)"
    "uint (of_nat (anchor_height ?a) :: u64) = int (anchor_height ?a)"
    using assms(3) a(2) by (simp_all add: unsigned_of_nat take_bit_nat_eq_self_iff)
  then have h: "?h = int (cd_height values) - int (anchor_height ?a)"
    using sint_sub_u64 [of "of_nat (cd_height values)" "of_nat (anchor_height ?a)"] assms(3) a(2) by simp
  have r: "asert_in_range ?t ?h 600 half_life"
    unfolding t h
    by (rule asert_range [OF uint_ge_0 high uint_ge_0 a(1)]) (use a(2) assms(3,4) in simp_all)
  have "unat ?x \<noteq> 0" "unat ?x < 2 ^ 239" using anchor_target [OF assms(1)] by auto
  moreover from this have "?x \<noteq> 0" by (metis unsigned_0)
  moreover have "pow_limit \<noteq> 0" using unat_pow_limit by (metis mult_is_0 power_not_zero unsigned_0 zero_neq_numeral)
  ultimately obtain r where r: "aserti3_2d ?x 600 ?t ?h pow_limit half_life = Some r"
    "unat r = asert_spec (unat ?x) (unat pow_limit) (asert_exponent ?t ?h 600 half_life)"
    using aserti3_2d_eq [OF r, of ?x pow_limit] by blast
  have "unat r \<le> unat pow_limit" unfolding r(2) asert_spec_def using unat_pow_limit by simp
  then have "within_limit (normal (compact_of_big r))" by (intro within_limit_normal) (simp add: word_le_nat_alt)
  moreover have "daa_aserti3_2d values ?a half_life = Some (normal (compact_of_big r))"
    using assms(2) r(1) by (simp add: daa_aserti3_2d_def timestamp_high_def deque_back_def Let_def)
  ultimately show ?thesis by blast
qed


lemma cw144_defined:
  assumes "length (timestamp_ordered values) = 147" "147 \<le> length (bits_ordered values)"
    "length (bits_ordered values) < 2 ^ 32" "\<forall>b \<in> set (bits_ordered values). workable b"
  shows "\<exists>b. daa_cw144 values = Some b \<and> within_limit b"
  using daa_cw144_eq [OF assms] within_limit_clamped by metis

lemma cw144_height: "network \<noteq> regtest \<Longrightarrow> is_daa_cw144_enabled h network \<Longrightarrow> 3001 \<le> h"
  by (cases network) (simp_all add: is_daa_cw144_enabled_def daa_cw144_heights_def is_rule_enabled.simps)

lemma euler_cw144: "is_euler_enabled h network \<Longrightarrow> is_daa_cw144_enabled h network"
  by (cases network)
    (simp_all add: is_daa_cw144_enabled_def daa_cw144_heights_def is_euler_enabled_def euler_heights_def is_rule_enabled.simps)

text \<open>The lists have the lengths that the map asks for.\<close>

definition fetched :: "chain_data \<Rightarrow> forks \<Rightarrow> network \<Rightarrow> bool" where
  "fetched values forks network \<longleftrightarrow>
     (let m = get_map (cd_height values) forks network
      in length (bits_ordered values) = range_count (map_bits m) \<and>
         length (version_ordered values) = range_count (map_version m) \<and>
         length (timestamp_ordered values) = range_count (map_timestamp m))"

lemma fetched_lengths:
  assumes "fetched values forks network" "0 < cd_height values"
  shows "bits_ordered values \<noteq> []" "timestamp_ordered values \<noteq> []" "length (bits_ordered values) < 2 ^ 32"
    "147 \<le> cd_height values \<Longrightarrow> 147 \<le> length (bits_ordered values) \<and> length (timestamp_ordered values) = 147"
proof -
  have l: "length (bits_ordered values) = bits_count (cd_height values) forks"
    "length (timestamp_ordered values) = min (cd_height values) 147"
    using assms by (simp_all add: fetched_def get_map_def timestamp_count_def)
  have b: "1 \<le> bits_count (cd_height values) forks" "bits_count (cd_height values) forks \<le> 2016"
    "min (cd_height values) 147 \<le> bits_count (cd_height values) forks"
    using assms(2) by (auto simp: bits_count_def min_def Let_def)
  show "bits_ordered values \<noteq> []" "timestamp_ordered values \<noteq> []" "length (bits_ordered values) < 2 ^ 32"
    using l b assms(2) by (auto simp flip: length_0_conv)
  show "147 \<le> length (bits_ordered values) \<and> length (timestamp_ordered values) = 147" if "147 \<le> cd_height values"
    using l b that by simp
qed

lemma easy_defined:
  assumes "bits_ordered values \<noteq> []" "timestamp_ordered values \<noteq> []" "\<forall>b \<in> set (bits_ordered values). within_limit b"
    "asert \<Longrightarrow> \<exists>b. daa_aserti3_2d values a half_life = Some b \<and> within_limit b"
    "cw144 \<Longrightarrow> \<exists>b. daa_cw144 values = Some b \<and> within_limit b"
  shows "\<exists>b. easy_work_required values cw144 asert a half_life = Some b \<and> within_limit b"
proof -
  have "within_limit (easy_bits (cd_height values) (rev (bits_ordered values)))"
    using easy_bits_in assms(3) within_limit_limit by (metis set_rev)
  then show ?thesis
    using assms(2,4,5)
    by (auto simp: easy_work_required_def easy_time_limit_def timestamp_high_def deque_back_def)
qed

lemma work_required_total:
  assumes "fetched values forks network" "0 < cd_height values" "cd_height values < 2 ^ 32"
    "network \<noteq> regtest" "half_life \<noteq> 0" "\<forall>b \<in> set (bits_ordered values). workable b"
  shows "\<exists>b. work_required values network forks (get_assert_anchor_block network) half_life = Some b \<and>
    \<not> overflowed (compact_of_bits b) \<and> big (compact_of_bits b) \<le> pow_limit"
proof -
  note l = fetched_lengths [OF assms(1,2)]
  have w: "\<forall>b \<in> set (bits_ordered values). within_limit b" using assms(6) by (simp add: workable_def)
  have last: "within_limit (last (bits_ordered values))" using w l(1) by simp
  have asert: "\<exists>b. daa_aserti3_2d values (get_assert_anchor_block network) half_life = Some b \<and> within_limit b"
    by (rule asert_defined [OF assms(4) l(2) assms(3,5)])
  have cw144: "\<exists>b. daa_cw144 values = Some b \<and> within_limit b"
    if "is_daa_cw144_enabled (cd_height values) network"
    using cw144_defined l(3,4) cw144_height [OF assms(4) that] assms(6) by simp
  have easy: "\<exists>b. easy_work_required values (is_daa_cw144_enabled (cd_height values) network)
      (is_euler_enabled (cd_height values) network) (get_assert_anchor_block network) half_life = Some b \<and> within_limit b"
    using l(1,2) w asert cw144 by (intro easy_defined)
  have high: "bits_high values = Some (last (bits_ordered values))"
    using l(1) by (simp add: bits_high_def deque_back_def)
  have retarget: "\<exists>b. work_required_retarget values = Some b \<and> within_limit b"
    using work_required_retarget_eq [OF l(2,1) last] within_limit_clamped by metis
  have cash: "\<exists>b. work_required_adjust_cash values = Some b \<and> within_limit b"
    by (simp add: work_required_adjust_cash_def high Let_def)
  have "\<exists>b. work_required values network forks (get_assert_anchor_block network) half_life = Some b \<and> within_limit b"
    using assms(2) asert cw144 easy high retarget cash last by (simp add: work_required_def Let_def)
  then show ?thesis by (simp add: within_limit_def)
qed

section \<open>Properties\<close>

text \<open>C20: The required work is defined for a configured half life other than 0: from the values that the map asks for, on
  every network but regtest, at a height above 0 and below 2^32, whatever rules are configured, no access is outside a
  list, no division is by zero and no signed number overflows, provided the targets of the headers below are between 2^32
  and the limit (the difficulty is below 2^192); and the result stands for a target within the limit again. (The half
  life is configurable; 0, or a multiple of 2^32, which is cut to 0, makes the code divide by zero.)\<close>

theorem work_required_defined:
  assumes "fetched values forks network" "0 < cd_height values" "cd_height values < 2 ^ 32"
    "network \<noteq> regtest" "half_life \<noteq> 0" "\<forall>b \<in> set (bits_ordered values). workable b"
  shows "\<exists>b. work_required values network forks (get_assert_anchor_block network) half_life = Some b \<and>
    \<not> overflowed (compact_of_bits b) \<and> big (compact_of_bits b) \<le> pow_limit"
  by (rule work_required_total [OF assms])

theorem work_required_defined_witness:
  "\<exists>b. work_required (example_data 700000) mainnet 0x40000040 (get_assert_anchor_block mainnet) 172800 = Some b \<and>
     big (compact_of_bits b) \<le> pow_limit"
proof -
  have "fetched (example_data 700000) 0x40000040 mainnet"
    by (simp add: fetched_def get_map_def bits_count_def version_count_def timestamp_count_def is_enabled_def
        is_retarget_height_def retarget_distance_def example_data_def Let_def)
  moreover have "0 < cd_height (example_data 700000)" "cd_height (example_data 700000) < 2 ^ 32"
    "\<forall>b \<in> set (bits_ordered (example_data 700000)). workable b"
    using workable_limit by (simp_all add: example_data_def)
  ultimately show ?thesis
    using work_required_defined [of "example_data 700000" "0x40000040" mainnet 172800] by auto
qed

lemma active_configuration:
  "is_enabled (act_forks (activation values forks network l c)) retarget = is_enabled forks retarget"
  "is_enabled (act_forks (activation values forks network l c)) easy_blocks = is_enabled forks easy_blocks"
proof -
  have "\<exists>(a, r) \<in> set (rule_conditions values forks network l c). a \<and> bit r n" if "n = 30 \<or> n = 0" for n
    using that by (elim disjE) (simp_all add: rule_conditions_def Let_def)
  then show "is_enabled (act_forks (activation values forks network l c)) retarget = is_enabled forks retarget"
    "is_enabled (act_forks (activation values forks network l c)) easy_blocks = is_enabled forks easy_blocks"
    using is_enabled_activation [of 30 "values" forks network l c] is_enabled_activation [of 0 "values" forks network l c]
    by simp_all
qed

text \<open>C26: The work that mining asks for is the work that validation requires: with the time of the block as the
  time now, it is that of the chain state, although one is computed with the active and the other with
  the configured rules.\<close>

theorem mining_and_validation_agree:
  assumes "chain_state_of values forks checkpoints network a half_life config l c = Some s"
  shows "get_next_work_required s (timestamp_self values) = Some (cs_work_required s)"
proof -
  have same: "values\<lparr>timestamp_self := timestamp_self values\<rparr> = values" by simp
  show ?thesis
    using assms
    by (auto simp: chain_state_of_def get_next_work_required_def work_required_def active_configuration same Let_def
        split: bind_splits)
qed

text \<open>A header is accepted exactly when it has the required bits and no conflict with a checkpoint and, above
  the last checkpoint, a version that is not outdated and a time after the median time past.\<close>

theorem header_accept_iff:
  "header_accept s h hash = success \<longleftrightarrow>
     hd_bits h = cs_work_required s \<and>
     (\<forall>cp \<in> set (cs_checkpoints s). cp_height cp = state_height s \<longrightarrow> hash = cp_hash cp) \<and>
     (cs_checkpoints s \<noteq> [] \<and> state_height s \<le> cp_height (last (cs_checkpoints s)) \<or>
      minimum_version s \<le> unat (hd_version h) \<and> cs_median_time_past s < hd_timestamp h)"
  by (auto simp: header_accept_def is_checkpoint_conflict_def checkpoint_validate_def is_under_checkpoint_def
      covered_def find_None_iff)

text \<open>Promoting the state of the pool to a block at its height changes what depends on the block and nothing
  else: in particular the state of the adaptive block size is that of the pool, whatever the size of the block.\<close>

theorem promotion_keeps_block_size_state:
  assumes "from_pool_ptr c pool header = Some s"
  shows "cd_abla_state (cs_data s) = cd_abla_state (cs_data pool) \<and>
    state_height s = state_height pool \<and> cs_network s = cs_network pool \<and>
    dynamic_max_block_size s = dynamic_max_block_size pool"
  using assms
  by (auto simp: from_pool_ptr_def chain_state_of_def to_block_def state_height_def dynamic_max_block_size_def
      state_lobachevski_enabled_def Let_def split: bind_splits if_splits)

section \<open>Witnesses\<close>

lemma example_state:
  "\<exists>s. chain_state_of (example_data 100) 0 [] mainnet (get_assert_anchor_block mainnet) 172800 config 0 0 = Some s \<and>
     cs_forks s = 0x80 \<and> cs_data s = example_data 100"
proof -
  have "bits_high (example_data 100) = Some 0x1d00ffff"
    by (simp add: bits_high_def deque_back_def example_data_def)
  then show ?thesis
    by (simp add: chain_state_of_def work_required_def is_enabled_def Let_def)
qed

theorem mining_and_validation_agree_witness:
  "\<exists>s. chain_state_of (example_data 100) 0 [] mainnet (get_assert_anchor_block mainnet) 172800 (default_config 32000000 False) 0 0
       = Some s \<and> get_next_work_required s 2000 = Some (cs_work_required s)"
proof -
  have "timestamp_self (example_data 100) = 2000" by (simp add: example_data_def)
  then show ?thesis using mining_and_validation_agree example_state by metis
qed

definition constant_crypto :: crypto where
  "constant_crypto = \<lparr>ripemd160_hash = \<lambda>_. replicate 20 0, sha1_hash = \<lambda>_. replicate 20 0,
     sha256_hash = \<lambda>_. replicate 32 0, der_parse = \<lambda>_ _. None, ecdsa_verify = \<lambda>_ _ _. False\<rparr>"

theorem promotion_keeps_block_size_state_witness:
  "\<exists>pool s. from_pool_ptr constant_crypto pool genesis_like = Some s \<and> cd_abla_state (cs_data s) =
     \<lparr>block_size = 0, control_block_size = 16000000, elastic_buffer_size = 16000000\<rparr>"
proof -
  obtain pool :: chain_state where pool: "cs_forks pool = 0x80" "cs_data pool = example_data 100"
    using example_state [of "default_config 32000000 False"] by blast
  have "bits_high (to_block constant_crypto pool genesis_like) = Some 0x1d00ffff"
    "cd_height (to_block constant_crypto pool genesis_like) = 100"
    by (simp_all add: to_block_def pool bits_high_def deque_back_def example_data_def Let_def)
  then obtain s where s: "from_pool_ptr constant_crypto pool genesis_like = Some s"
    by (auto simp: from_pool_ptr_def chain_state_of_def work_required_def pool is_enabled_def Let_def)
  from promotion_keeps_block_size_state [OF s] have "cd_abla_state (cs_data s) = cd_abla_state (example_data 100)"
    by (simp add: pool)
  with s show ?thesis by (auto simp: example_data_def)
qed

end
