(* ===== verification/Program.thy ===== *)
theory Program
  imports Sighash
begin

text \<open>
  The registers and stacks of a running script: \<open>domain/include/kth/domain/machine/program.hpp\<close>,
  \<open>impl/machine/program.ipp\<close> and \<open>src/machine/program.cpp\<close>, with the metrics of
  \<open>machine/metrics.hpp\<close> and \<open>machine/script_limits.hpp\<close>.

  The stacks are lists with the top first. \<open>prog_ops\<close> is what \<open>script_.operations()\<close> returns;
  \<open>prog_jump\<close> is the distance of the iterator \<open>jump_\<close> from \<open>begin()\<close>. An access that only an
  assertion guards is an \<open>option\<close> whose \<open>None\<close> is the undefined behaviour.
\<close>

section \<open>Limits and metrics\<close>

abbreviation may2025_max_push_data_size :: nat where "may2025_max_push_data_size \<equiv> 10000"
abbreviation max_conditional_stack_depth :: nat where "max_conditional_stack_depth \<equiv> 100"
abbreviation opcode_cost :: nat where "opcode_cost \<equiv> 100"
abbreviation sig_check_cost_factor :: u64 where "sig_check_cost_factor \<equiv> 26000"
abbreviation max_counted_ops :: nat where "max_counted_ops \<equiv> 201"
abbreviation max_stack_size :: nat where "max_stack_size \<equiv> 1000"
abbreviation max_script_public_keys :: nat where "max_script_public_keys \<equiv> 20"
abbreviation hash_block_size :: nat where "hash_block_size \<equiv> 64"
abbreviation input_script_fixed_credit :: u64 where "input_script_fixed_credit \<equiv> 41"

definition calculate_input_hash_iters_limit :: "bool \<Rightarrow> u64 \<Rightarrow> u64" where
  "calculate_input_hash_iters_limit standard script_sig_size =
     ((script_sig_size + input_script_fixed_credit) * (if standard then 1 else 7)) div 2"

definition calculate_input_op_cost_limit :: "u64 \<Rightarrow> u64" where
  "calculate_input_op_cost_limit script_sig_size = (script_sig_size + input_script_fixed_credit) * 800"

definition hash_iter_op_cost_factor :: "bool \<Rightarrow> u64" where
  "hash_iter_op_cost_factor standard = (if standard then 64 * 3 else 64)"

definition calculate_hash_iters :: "u32 \<Rightarrow> bool \<Rightarrow> u64" where
  "calculate_hash_iters message_length is_two_round_hash =
     of_bool is_two_round_hash + 1 + (ucast message_length + 8) div of_nat hash_block_size"

record script_limits =
  op_cost_limit :: u64
  hash_iters_limit :: u64

definition make_script_limits :: "bool \<Rightarrow> u64 \<Rightarrow> script_limits" where
  "make_script_limits standard script_sig_size =
     \<lparr>op_cost_limit = calculate_input_op_cost_limit script_sig_size,
      hash_iters_limit = calculate_input_hash_iters_limit standard script_sig_size\<rparr>"

record metrics =
  sig_checks :: u32
  op_cost :: u64
  hash_digest_iterations :: u64
  limits :: "script_limits option"

definition metrics_default :: metrics where
  "metrics_default = \<lparr>sig_checks = 0, op_cost = 0, hash_digest_iterations = 0, limits = None\<rparr>"

definition is_vm_limits_standard :: "u32 \<Rightarrow> bool" where
  "is_vm_limits_standard script_flags \<longleftrightarrow> script_flags AND push_bit 29 1 \<noteq> 0"

text \<open>The \<open>size_t\<close> arguments are converted to \<open>uint32_t\<close>.\<close>

definition add_op_cost :: "nat \<Rightarrow> metrics \<Rightarrow> metrics" where
  "add_op_cost cost m = m\<lparr>op_cost := op_cost m + ucast (of_nat cost :: u32)\<rparr>"

definition add_hash_iterations :: "nat \<Rightarrow> bool \<Rightarrow> metrics \<Rightarrow> metrics" where
  "add_hash_iterations message_length is_two_round_hash m =
     m\<lparr>hash_digest_iterations :=
       hash_digest_iterations m + calculate_hash_iters (of_nat message_length) is_two_round_hash\<rparr>"

definition add_sig_checks :: "u32 \<Rightarrow> metrics \<Rightarrow> metrics" where
  "add_sig_checks n_checks m = m\<lparr>sig_checks := sig_checks m + n_checks\<rparr>"

definition set_script_limits :: "u32 \<Rightarrow> u64 \<Rightarrow> metrics \<Rightarrow> metrics" where
  "set_script_limits script_flags script_sig_size m =
     m\<lparr>limits := Some (make_script_limits (is_vm_limits_standard script_flags) script_sig_size)\<rparr>"

definition composite_op_cost :: "u32 \<Rightarrow> metrics \<Rightarrow> u64" where
  "composite_op_cost script_flags m =
     op_cost m +
     hash_digest_iterations m * hash_iter_op_cost_factor (is_vm_limits_standard script_flags) +
     ucast (sig_checks m) * sig_check_cost_factor"

definition is_over_op_cost_limit :: "u32 \<Rightarrow> metrics \<Rightarrow> bool" where
  "is_over_op_cost_limit script_flags m \<longleftrightarrow>
     (case limits m of None \<Rightarrow> False | Some l \<Rightarrow> composite_op_cost script_flags m > op_cost_limit l)"

definition is_over_hash_iters_limit :: "metrics \<Rightarrow> bool" where
  "is_over_hash_iters_limit m \<longleftrightarrow>
     (case limits m of None \<Rightarrow> False | Some l \<Rightarrow> hash_digest_iterations m > hash_iters_limit l)"

section \<open>The program\<close>

record program =
  prog_script :: script
  prog_ops :: "operation list"
  prog_tx :: transaction
  prog_input_index :: u32
  prog_forks :: forks
  prog_value :: u64
  negative_count :: u64
  operation_count :: nat
  prog_jump :: nat
  primary :: "bytes list"
  alternate :: "bytes list"
  condition :: "bool list"
  prog_metrics :: metrics

definition tx_default :: transaction where
  "tx_default = \<lparr>tx_version = 0, tx_locktime = 0, tx_inputs = [], tx_outputs = []\<rparr>"

text \<open>What every constructor initialises alike.\<close>

definition make_program :: "script \<Rightarrow> transaction \<Rightarrow> u32 \<Rightarrow> forks \<Rightarrow> bytes list \<Rightarrow> u64 \<Rightarrow> program option" where
  "make_program script tx input_index forks stack val =
     map_option (\<lambda>ops.
       \<lparr>prog_script = script, prog_ops = ops, prog_tx = tx, prog_input_index = input_index,
        prog_forks = forks, prog_value = val, negative_count = 0, operation_count = 0, prog_jump = 0,
        primary = stack, alternate = [], condition = [], prog_metrics = metrics_default\<rparr>)
       (script_operations script)"

definition program_of_script :: "script \<Rightarrow> program option" where
  "program_of_script script = make_program script tx_default 0 0 [] 0"

definition input_program :: "script \<Rightarrow> transaction \<Rightarrow> u32 \<Rightarrow> forks \<Rightarrow> program option" where
  "input_program script tx input_index forks =
     make_program script tx input_index forks [] (of_nat max_uint64)"

definition stack_program ::
  "script \<Rightarrow> transaction \<Rightarrow> u32 \<Rightarrow> forks \<Rightarrow> bytes list \<Rightarrow> u64 \<Rightarrow> program option" where
  "stack_program script tx input_index forks stack val =
     make_program script tx input_index forks stack val"

definition prevout_program :: "script \<Rightarrow> program \<Rightarrow> program option" where
  "prevout_program script x =
     make_program script (prog_tx x) (prog_input_index x) (prog_forks x) (primary x) (prog_value x)"

definition embedded_program :: "script \<Rightarrow> program \<Rightarrow> program option" where
  "embedded_program script x =
     make_program script (prog_tx x) (prog_input_index x) (prog_forks x) (primary x) (prog_value x)"

definition program_is_valid :: "program \<Rightarrow> bool" where
  "program_is_valid p \<longleftrightarrow>
     is_valid_operations (prog_ops p) \<and> \<not> is_unspendable (prog_script p) (prog_ops p)"

definition max_script_element_size :: "program \<Rightarrow> nat" where
  "max_script_element_size p =
     (if is_enabled (prog_forks p) bch_galois then may2025_max_push_data_size
      else max_push_data_size_legacy)"

definition max_integer_size_legacy :: "program \<Rightarrow> nat" where
  "max_integer_size_legacy p = (if is_enabled (prog_forks p) bch_gauss then 8 else 4)"

definition is_chip_vm_limits_enabled :: "program \<Rightarrow> bool" where
  "is_chip_vm_limits_enabled p \<longleftrightarrow> is_enabled (prog_forks p) bch_galois"

section \<open>Instructions\<close>

definition operation_overflow :: "nat \<Rightarrow> bool" where
  "operation_overflow count \<longleftrightarrow> count > max_counted_ops"

definition increment_operation_count :: "operation \<Rightarrow> program \<Rightarrow> bool \<times> program" where
  "increment_operation_count op p =
     (let p = (if op_is_counted (op_code op)
               then p\<lparr>operation_count := operation_count p + 1\<rparr> else p)
      in (\<not> operation_overflow (operation_count p), p))"

definition increment_public_key_count :: "int \<Rightarrow> program \<Rightarrow> bool \<times> program" where
  "increment_public_key_count public_keys p =
     (if public_keys < 0 \<or> public_keys > int max_script_public_keys then (False, p)
      else
        let p = p\<lparr>operation_count := operation_count p + nat public_keys\<rparr>
        in (\<not> operation_overflow (operation_count p), p))"

text \<open>
  The operation is found by its address. \<open>at\<close> is its position when it is an element of the script's
  operations, and \<open>None\<close> when it is a copy of one, which \<open>find_if\<close> does not find.
\<close>

definition set_jump_register :: "nat option \<Rightarrow> program \<Rightarrow> bool \<times> program" where
  "set_jump_register at p =
     (if prog_ops p = [] then (False, p)
      else case at of
        Some i \<Rightarrow> if i < length (prog_ops p) then (True, p\<lparr>prog_jump := i + 1\<rparr>)
          else (False, p\<lparr>prog_jump := length (prog_ops p)\<rparr>)
      | None \<Rightarrow> (False, p\<lparr>prog_jump := length (prog_ops p)\<rparr>))"

definition subscript :: "program \<Rightarrow> operation list" where
  "subscript p = drop (prog_jump p) (prog_ops p)"

section \<open>The primary stack\<close>

definition push_move :: "bytes \<Rightarrow> program \<Rightarrow> program" where
  "push_move item p = p\<lparr>primary := item # primary p\<rparr>"

definition bool_item :: "bool \<Rightarrow> bytes" where
  "bool_item v = (if v then [positive_1] else [])"

definition push :: "bool \<Rightarrow> program \<Rightarrow> program" where
  "push v p = push_move (bool_item v) p"

definition pop :: "program \<Rightarrow> (bytes \<times> program) option" where
  "pop p = (case primary p of [] \<Rightarrow> None | x # xs \<Rightarrow> Some (x, p\<lparr>primary := xs\<rparr>))"

text \<open>The item is popped before it is decoded, so it is gone when decoding fails.\<close>

definition pop_number :: "nat \<Rightarrow> program \<Rightarrow> int option \<times> program" where
  "pop_number maximum_size p =
     (case primary p of
        [] \<Rightarrow> (None, p)
      | x # xs \<Rightarrow> (set_data x maximum_size, p\<lparr>primary := xs\<rparr>))"

definition pop_int32 :: "program \<Rightarrow> int option \<times> program" where
  "pop_int32 p =
     (case pop_number (max_integer_size_legacy p) p of (v, p') \<Rightarrow> (map_option int32 v, p'))"

definition pop_int64 :: "program \<Rightarrow> int option \<times> program" where
  "pop_int64 p = pop_number (max_integer_size_legacy p) p"

definition pop_binary :: "program \<Rightarrow> (int \<times> int) option \<times> program" where
  "pop_binary p =
     (case pop_number (max_integer_size_legacy p) p of
        (None, p') \<Rightarrow> (None, p')
      | (Some first, p') \<Rightarrow>
          (case pop_number (max_integer_size_legacy p') p' of
             (None, p'') \<Rightarrow> (None, p'')
           | (Some second, p'') \<Rightarrow> (Some (first, second), p'')))"

definition pop_ternary :: "program \<Rightarrow> (int \<times> int \<times> int) option \<times> program" where
  "pop_ternary p =
     (case pop_binary p of
        (None, p') \<Rightarrow> (None, p')
      | (Some (first, second), p') \<Rightarrow>
          (case pop_number (max_integer_size_legacy p') p' of
             (None, p'') \<Rightarrow> (None, p'')
           | (Some third, p'') \<Rightarrow> (Some (first, second, third), p'')))"

text \<open>The position of a stack item as its distance from the top.\<close>

definition pop_position :: "program \<Rightarrow> nat option \<times> program" where
  "pop_position p =
     (case pop_int32 p of
        (None, p') \<Rightarrow> (None, p')
      | (Some signed_index, p') \<Rightarrow>
          if signed_index < 0 then (None, p')
          else if nat signed_index \<ge> length (primary p') then (None, p')
          else (Some (nat signed_index), p'))"

definition pop_section :: "nat \<Rightarrow> program \<Rightarrow> bytes list option \<times> program" where
  "pop_section count p =
     (if length (primary p) < count then (None, p)
      else (Some (take count (primary p)), p\<lparr>primary := drop count (primary p)\<rparr>))"

definition item :: "nat \<Rightarrow> program \<Rightarrow> bytes option" where
  "item index p = (if index < length (primary p) then Some (primary p ! index) else None)"

definition set_item :: "nat \<Rightarrow> bytes \<Rightarrow> program \<Rightarrow> program" where
  "set_item index v p = p\<lparr>primary := (primary p)[index := v]\<rparr>"

definition top :: "program \<Rightarrow> bytes option" where
  "top p = (case primary p of [] \<Rightarrow> None | x # _ \<Rightarrow> Some x)"

definition top_number :: "nat \<Rightarrow> program \<Rightarrow> int option" where
  "top_number maximum_size p =
     (case primary p of [] \<Rightarrow> None | x # _ \<Rightarrow> set_data x maximum_size)"

definition duplicate :: "nat \<Rightarrow> program \<Rightarrow> program option" where
  "duplicate index p = map_option (\<lambda>x. push_move x p) (item index p)"

definition swap_items :: "nat \<Rightarrow> nat \<Rightarrow> program \<Rightarrow> program option" where
  "swap_items index_left index_right p = do {
     l \<leftarrow> item index_left p;
     r \<leftarrow> item index_right p;
     Some (set_item index_right l (set_item index_left r p)) }"

text \<open>\<open>erase(first, last)\<close> removes from \<open>first\<close> up to before \<open>last\<close>, towards the top.\<close>

definition erase :: "nat \<Rightarrow> program \<Rightarrow> program" where
  "erase pos p = p\<lparr>primary := take pos (primary p) @ drop (pos + 1) (primary p)\<rparr>"

definition erase_range :: "nat \<Rightarrow> nat \<Rightarrow> program \<Rightarrow> program" where
  "erase_range first_pos end_pos p =
     p\<lparr>primary := take (end_pos + 1) (primary p) @ drop (first_pos + 1) (primary p)\<rparr>"

fun item_is_true :: "bytes \<Rightarrow> bool" where
  "item_is_true [] = False"
| "item_is_true (b # bs) = (if b \<noteq> 0 then \<not> (bs = [] \<and> b = negative_0) else item_is_true bs)"

definition stack_to_bool :: "bool \<Rightarrow> program \<Rightarrow> bool option" where
  "stack_to_bool clean p =
     (if clean \<and> length (primary p) \<noteq> 1 then Some False
      else case primary p of [] \<Rightarrow> None | back # _ \<Rightarrow> Some (item_is_true back))"

definition stack_true :: "bool \<Rightarrow> program \<Rightarrow> bool option" where
  "stack_true clean p = (if primary p = [] then None else stack_to_bool clean p)"

definition stack_result :: "bool \<Rightarrow> program \<Rightarrow> bool" where
  "stack_result clean p \<longleftrightarrow> primary p \<noteq> [] \<and> stack_true clean p = Some True"

definition is_stack_overflow :: "program \<Rightarrow> bool" where
  "is_stack_overflow p \<longleftrightarrow> length (primary p) + length (alternate p) > max_stack_size"

section \<open>The alternate stack\<close>

definition push_alternate :: "bytes \<Rightarrow> program \<Rightarrow> program" where
  "push_alternate v p = p\<lparr>alternate := v # alternate p\<rparr>"

definition pop_alternate :: "program \<Rightarrow> (bytes \<times> program) option" where
  "pop_alternate p =
     (case alternate p of [] \<Rightarrow> None | x # xs \<Rightarrow> Some (x, p\<lparr>alternate := xs\<rparr>))"

section \<open>The conditional stack\<close>

text \<open>\<open>negative_count_\<close> is a \<open>size_t\<close>, to which \<open>-1\<close> is added with wrap-around.\<close>

definition open_condition :: "bool \<Rightarrow> program \<Rightarrow> program" where
  "open_condition v p =
     p\<lparr>negative_count := negative_count p + (if v then 0 else 1), condition := v # condition p\<rparr>"

definition negate_condition :: "program \<Rightarrow> program option" where
  "negate_condition p =
     (case condition p of
        [] \<Rightarrow> None
      | v # vs \<Rightarrow> Some (p\<lparr>negative_count := negative_count p + (if v then 1 else - 1),
          condition := (\<not> v) # vs\<rparr>))"

definition close_condition :: "program \<Rightarrow> program option" where
  "close_condition p =
     (case condition p of
        [] \<Rightarrow> None
      | v # vs \<Rightarrow> Some (p\<lparr>negative_count := negative_count p + (if v then 0 else - 1),
          condition := vs\<rparr>))"

definition closed :: "program \<Rightarrow> bool" where
  "closed p \<longleftrightarrow> condition p = []"

definition succeeded :: "program \<Rightarrow> bool" where
  "succeeded p \<longleftrightarrow> negative_count p = 0"

definition prog_if :: "operation \<Rightarrow> program \<Rightarrow> bool" where
  "prog_if op p \<longleftrightarrow> op_is_conditional (op_code op) \<or> succeeded p"

end
