(* ===== verification/Stack_Ops.thy ===== *)
theory Stack_Ops
  imports Program
begin

text \<open>
  The script operations that push, branch, move stack items and splice byte strings: the functions
  \<open>interpreter::op_*\<close> of \<open>domain/include/kth/domain/impl/machine/interpreter.ipp\<close>, in its order.

  An operation returns its error code and the program it leaves behind, also when it fails. \<open>None\<close> is
  undefined behaviour: an access to an item that is not there.
\<close>

type_synonym op_result = "(error_code \<times> program) option"

definition ok :: "program \<Rightarrow> op_result" where
  "ok p = Some (success, p)"

definition failed :: "error_code \<Rightarrow> program \<Rightarrow> op_result" where
  "failed e p = Some (e, p)"

definition tally :: "nat \<Rightarrow> program \<Rightarrow> program" where
  "tally cost p = p\<lparr>prog_metrics := add_op_cost cost (prog_metrics p)\<rparr>"

definition tally_top :: "program \<Rightarrow> program option" where
  "tally_top p = map_option (\<lambda>x. tally (length x) p) (top p)"

definition tally_hash :: "nat \<Rightarrow> bool \<Rightarrow> program \<Rightarrow> program" where
  "tally_hash sz two_rounds p =
     p\<lparr>prog_metrics := add_hash_iterations sz two_rounds (prog_metrics p)\<rparr>"

section \<open>Pushing\<close>

definition op_nop :: "program \<Rightarrow> op_result" where
  "op_nop p = ok p"

definition op_disabled :: "program \<Rightarrow> op_result" where
  "op_disabled p = failed (Flow_error err_op_disabled) p"

definition op_reserved :: "program \<Rightarrow> op_result" where
  "op_reserved p = failed (Flow_error err_op_reserved) p"

definition op_push_number :: "u8 \<Rightarrow> program \<Rightarrow> op_result" where
  "op_push_number v p = do { p \<leftarrow> tally_top (push_move [v] p); ok p }"

definition op_push_size :: "operation \<Rightarrow> program \<Rightarrow> op_result" where
  "op_push_size op p =
     (if length (op_data op) > 75 then failed (Flow_error err_op_push_size) p
      else do { p \<leftarrow> tally_top (push_move (op_data op) p); ok p })"

definition op_push_data :: "bytes \<Rightarrow> nat \<Rightarrow> program \<Rightarrow> op_result" where
  "op_push_data data size_limit p =
     (if length data > size_limit then failed (Flow_error err_op_push_data) p
      else do { p \<leftarrow> tally_top (push_move data p); ok p })"

section \<open>Control\<close>

definition op_if :: "program \<Rightarrow> op_result" where
  "op_if p =
     (if succeeded p then
        if primary p = [] then failed (Flow_error err_op_if) p
        else do { v \<leftarrow> stack_true False p; (_, p) \<leftarrow> pop p; ok (open_condition v p) }
      else ok (open_condition False p))"

definition op_notif :: "program \<Rightarrow> op_result" where
  "op_notif p =
     (if succeeded p then
        if primary p = [] then failed (Flow_error err_op_notif) p
        else do { v \<leftarrow> stack_true False p; (_, p) \<leftarrow> pop p; ok (open_condition (\<not> v) p) }
      else ok (open_condition False p))"

definition op_else :: "program \<Rightarrow> op_result" where
  "op_else p =
     (if closed p then failed (Flow_error err_op_else) p
      else do { p \<leftarrow> negate_condition p; ok p })"

definition op_endif :: "program \<Rightarrow> op_result" where
  "op_endif p =
     (if closed p then failed (Flow_error err_op_endif) p
      else do { p \<leftarrow> close_condition p; ok p })"

definition op_verify :: "program \<Rightarrow> op_result" where
  "op_verify p =
     (if primary p = [] then failed (Flow_error err_op_verify1) p
      else do {
        v \<leftarrow> stack_true False p;
        if \<not> v then failed (Flow_error err_op_verify2) p
        else do { (_, p) \<leftarrow> pop p; ok p } })"

definition op_return :: "program \<Rightarrow> op_result" where
  "op_return p = failed (Flow_error err_op_return) p"

section \<open>The stacks\<close>

definition op_to_alt_stack :: "program \<Rightarrow> op_result" where
  "op_to_alt_stack p =
     (if primary p = [] then failed (Flow_error err_op_to_alt_stack) p
      else do { (x, p) \<leftarrow> pop p; ok (push_alternate x p) })"

definition op_from_alt_stack :: "program \<Rightarrow> op_result" where
  "op_from_alt_stack p =
     (if alternate p = [] then failed (Flow_error err_op_from_alt_stack) p
      else do { (x, p) \<leftarrow> pop_alternate p; p \<leftarrow> tally_top (push_move x p); ok p })"

definition op_drop2 :: "program \<Rightarrow> op_result" where
  "op_drop2 p =
     (if length (primary p) < 2 then failed (Flow_error err_op_drop2) p
      else do { (_, p) \<leftarrow> pop p; (_, p) \<leftarrow> pop p; ok p })"

definition op_dup2 :: "program \<Rightarrow> op_result" where
  "op_dup2 p =
     (if length (primary p) < 2 then failed (Flow_error err_op_dup2) p
      else do {
        item1 \<leftarrow> item 1 p;
        item0 \<leftarrow> item 0 p;
        p \<leftarrow> tally_top (push_move item1 p);
        p \<leftarrow> tally_top (push_move item0 p);
        ok p })"

definition op_dup3 :: "program \<Rightarrow> op_result" where
  "op_dup3 p =
     (if length (primary p) < 3 then failed (Flow_error err_op_dup3) p
      else do {
        item2 \<leftarrow> item 2 p;
        item1 \<leftarrow> item 1 p;
        item0 \<leftarrow> item 0 p;
        p \<leftarrow> tally_top (push_move item2 p);
        p \<leftarrow> tally_top (push_move item1 p);
        p \<leftarrow> tally_top (push_move item0 p);
        ok p })"

definition op_over2 :: "program \<Rightarrow> op_result" where
  "op_over2 p =
     (if length (primary p) < 4 then failed (Flow_error err_op_over2) p
      else do {
        item3 \<leftarrow> item 3 p;
        item2 \<leftarrow> item 2 p;
        p \<leftarrow> tally_top (push_move item3 p);
        p \<leftarrow> tally_top (push_move item2 p);
        ok p })"

definition op_rot2 :: "program \<Rightarrow> op_result" where
  "op_rot2 p =
     (if length (primary p) < 6 then failed (Flow_error err_op_rot2) p
      else do {
        copy_5 \<leftarrow> item 5 p;
        copy_4 \<leftarrow> item 4 p;
        p \<leftarrow> tally_top (push_move copy_5 (erase_range 5 3 p));
        p \<leftarrow> tally_top (push_move copy_4 p);
        ok p })"

definition op_swap2 :: "program \<Rightarrow> op_result" where
  "op_swap2 p =
     (if length (primary p) < 4 then failed (Flow_error err_op_swap2) p
      else do { p \<leftarrow> swap_items 3 1 p; p \<leftarrow> swap_items 2 0 p; ok p })"

definition op_if_dup :: "program \<Rightarrow> op_result" where
  "op_if_dup p =
     (if primary p = [] then failed (Flow_error err_op_if_dup) p
      else do {
        v \<leftarrow> stack_true False p;
        if v then do { p \<leftarrow> duplicate 0 p; p \<leftarrow> tally_top p; ok p } else ok p })"

definition op_depth :: "program \<Rightarrow> op_result" where
  "op_depth p = do {
     d \<leftarrow> number_data (int (length (primary p)));
     p \<leftarrow> tally_top (push_move d p);
     ok p }"

definition op_drop :: "program \<Rightarrow> op_result" where
  "op_drop p =
     (if primary p = [] then failed (Flow_error err_op_drop) p
      else do { (_, p) \<leftarrow> pop p; ok p })"

definition op_dup :: "program \<Rightarrow> op_result" where
  "op_dup p =
     (if primary p = [] then failed (Flow_error err_op_dup) p
      else do { p \<leftarrow> duplicate 0 p; p \<leftarrow> tally_top p; ok p })"

definition op_nip :: "program \<Rightarrow> op_result" where
  "op_nip p =
     (if length (primary p) < 2 then failed (Flow_error err_op_nip) p
      else ok (erase 1 p))"

definition op_over :: "program \<Rightarrow> op_result" where
  "op_over p =
     (if length (primary p) < 2 then failed (Flow_error err_op_over) p
      else do { p \<leftarrow> duplicate 1 p; p \<leftarrow> tally_top p; ok p })"

definition op_pick :: "program \<Rightarrow> op_result" where
  "op_pick p =
     (case pop_position p of
        (None, p) \<Rightarrow> failed (Flow_error err_op_pick) p
      | (Some pos, p) \<Rightarrow> do {
          x \<leftarrow> item pos p;
          p \<leftarrow> tally_top (push_move x p);
          ok p })"

text \<open>\<open>program.erase(position)\<close> invalidates the iterator that \<open>program.index(position)\<close> then subtracts from, so with a
  position the operation is undefined.\<close>

definition op_roll :: "program \<Rightarrow> op_result" where
  "op_roll p =
     (case pop_position p of
        (None, p) \<Rightarrow> failed (Flow_error err_op_roll) p
      | (Some pos, p) \<Rightarrow> None)"

definition op_rot :: "program \<Rightarrow> op_result" where
  "op_rot p =
     (if length (primary p) < 3 then failed (Flow_error err_op_rot) p
      else do { p \<leftarrow> swap_items 2 1 p; p \<leftarrow> swap_items 1 0 p; ok p })"

definition op_swap :: "program \<Rightarrow> op_result" where
  "op_swap p =
     (if length (primary p) < 2 then failed (Flow_error err_op_swap) p
      else do { p \<leftarrow> swap_items 1 0 p; ok p })"

definition op_tuck :: "program \<Rightarrow> op_result" where
  "op_tuck p =
     (if length (primary p) < 2 then failed (Flow_error err_op_tuck) p
      else do {
        (first, p) \<leftarrow> pop p;
        (second, p) \<leftarrow> pop p;
        ok (push_move first (push_move second (push_move first (tally (length first) p)))) })"

section \<open>Byte strings\<close>

definition op_cat :: "program \<Rightarrow> op_result" where
  "op_cat p =
     (if length (primary p) < 2 then failed (Splice_error err_op_cat) p
      else do {
        (last_item, p) \<leftarrow> pop p;
        but_last \<leftarrow> top p;
        if length but_last + length last_item > max_script_element_size p
        then failed (Connect_error err_invalid_push_data_size) p
        else ok (tally (length (but_last @ last_item)) (set_item 0 (but_last @ last_item) p)) })"

definition op_split :: "program \<Rightarrow> op_result" where
  "op_split p =
     (if length (primary p) < 2 then failed (Splice_error err_op_split) p
      else do {
        pos \<leftarrow> item 0 p;
        data \<leftarrow> item 1 p;
        case set_data pos (max_integer_size_legacy p) of
          None \<Rightarrow> failed (Splice_error err_op_split) p
        | Some pos64 \<Rightarrow>
            if pos64 < 0 \<or> nat pos64 > length data then failed (Splice_error err_op_split) p
            else
              let n1 = take (nat pos64) data; n2 = drop (nat pos64) data in
              ok (tally (length n1 + length n2) (set_item 0 n2 (set_item 1 n1 p))) })"

definition op_reverse_bytes :: "program \<Rightarrow> op_result" where
  "op_reverse_bytes p = failed (Splice_error err_op_reverse_bytes) p"

text \<open>The size is read but stays on the stack; \<open>item(1)\<close> is replaced in place.\<close>

definition op_num2bin :: "program \<Rightarrow> op_result" where
  "op_num2bin p =
     (if length (primary p) < 2 then failed (Splice_error err_op_num2bin) p
      else case top_number (max_integer_size_legacy p) p of
        None \<Rightarrow> failed (Splice_error err_op_num2bin_invalid_size) p
      | Some size64 \<Rightarrow>
          if size64 < 0 \<or> nat size64 > max_script_element_size p
          then failed (Splice_error err_op_num2bin_size_exceeded) p
          else do {
            rawnum \<leftarrow> item 1 p;
            let rawnum = snd (minimally_encode rawnum);
                p = set_item 1 rawnum p
            in
              if length rawnum > nat size64
              then failed (Splice_error err_op_num2bin_impossible_encoding) p
              else if length rawnum = nat size64 then ok (tally (length rawnum) p)
              else
                let negative = rawnum \<noteq> [] \<and> last rawnum AND 0x80 \<noteq> 0;
                    signbit = (if negative then 0x80 else 0);
                    rawnum = (if negative then butlast rawnum @ [last rawnum AND 0x7f] else rawnum);
                    rawnum = rawnum @ replicate (nat size64 - 1 - length rawnum) 0;
                    rawnum = rawnum @ [signbit]
                in ok (tally (length rawnum) (set_item 1 rawnum p)) })"

definition op_bin2num :: "program \<Rightarrow> op_result" where
  "op_bin2num p =
     (if primary p = [] then failed (Splice_error err_op_bin2num) p
      else do {
        n \<leftarrow> top p;
        let n = snd (minimally_encode n);
            p = tally (length n) (set_item 0 n p)
        in if \<not> is_minimally_encoded n (max_integer_size_legacy p)
           then failed (Splice_error err_op_bin2num_invalid_number_range) p
           else ok p })"

definition op_size :: "program \<Rightarrow> op_result" where
  "op_size p =
     (if primary p = [] then failed (Splice_error err_op_size) p
      else do {
        (x, p) \<leftarrow> pop p;
        d \<leftarrow> number_data (int (length x));
        ok (tally (length x) (push_move d (push_move x p))) })"

definition bitwise_operation_generic ::
  "error_code \<Rightarrow> (u8 \<Rightarrow> u8 \<Rightarrow> u8) \<Rightarrow> program \<Rightarrow> op_result" where
  "bitwise_operation_generic error op p =
     (if length (primary p) < 2 then failed error p
      else do {
        vch1 \<leftarrow> item 1 p;
        vch2 \<leftarrow> item 0 p;
        if length vch1 \<noteq> length vch2 then failed error p
        else do {
          (_, p) \<leftarrow> pop (set_item 1 (map2 op vch1 vch2) p);
          ok (tally (length vch1) p) } })"

definition op_and :: "program \<Rightarrow> op_result" where
  "op_and p = bitwise_operation_generic (Splice_error err_op_and) (AND) p"

definition op_or :: "program \<Rightarrow> op_result" where
  "op_or p = bitwise_operation_generic (Splice_error err_op_or) (OR) p"

definition op_xor :: "program \<Rightarrow> op_result" where
  "op_xor p = bitwise_operation_generic (Splice_error err_op_xor) (XOR) p"

definition op_equal :: "program \<Rightarrow> op_result" where
  "op_equal p =
     (if length (primary p) < 2 then failed (Splice_error err_op_equal) p
      else do {
        (x, p) \<leftarrow> pop p;
        (y, p) \<leftarrow> pop p;
        p \<leftarrow> tally_top (push (x = y) p);
        ok p })"

definition op_equal_verify :: "program \<Rightarrow> op_result" where
  "op_equal_verify p =
     (if length (primary p) < 2 then failed (Splice_error err_op_equal_verify1) p
      else do {
        (x, p) \<leftarrow> pop p;
        (y, p) \<leftarrow> pop p;
        let p = tally (if x = y then 1 else 0) p
        in if x = y then ok p else failed (Splice_error err_op_equal_verify2) p })"

end
