(* ===== verification/Numeric_Ops.thy ===== *)
theory Numeric_Ops
  imports Stack_Ops
begin

text \<open>
  The numeric operations of \<open>interpreter.ipp\<close>, \<open>op_add1\<close> to \<open>op_within\<close>. The operands are popped before
  anything is checked, the first being the top of the stack. \<open>None\<close> is what \<open>number::data()\<close> and the
  unchecked operators leave undefined.
\<close>

abbreviation (input) push_cost_factor :: nat where "push_cost_factor \<equiv> 2"

text \<open>The endings the operations share.\<close>

definition push_number_result :: "int \<Rightarrow> program \<Rightarrow> op_result" where
  "push_number_result v p = do {
     d \<leftarrow> number_data v;
     ok (push_move d (tally (length d * push_cost_factor) p)) }"

definition push_bool_result :: "bool \<Rightarrow> program \<Rightarrow> op_result" where
  "push_bool_result v p = do { p \<leftarrow> tally_top (push v p); ok p }"

section \<open>One operand\<close>

definition op_add1 :: "program \<Rightarrow> op_result" where
  "op_add1 p =
     (case pop_number (max_integer_size_legacy p) p of
        (None, p) \<Rightarrow> failed (Numeric_error err_op_add1) p
      | (Some n, p) \<Rightarrow> 
          (case safe_add n 1 of
             None \<Rightarrow> failed (Numeric_error err_op_add_overflow) p
           | Some r \<Rightarrow> push_number_result r p))"

definition op_sub1 :: "program \<Rightarrow> op_result" where
  "op_sub1 p =
     (case pop_number (max_integer_size_legacy p) p of
        (None, p) \<Rightarrow> failed (Numeric_error err_op_sub1) p
      | (Some n, p) \<Rightarrow> 
          (case safe_sub n 1 of
             None \<Rightarrow> failed (Numeric_error err_op_sub_underflow) p
           | Some r \<Rightarrow> push_number_result r p))"

definition op_negate :: "program \<Rightarrow> op_result" where
  "op_negate p =
     (case pop_number (max_integer_size_legacy p) p of
        (None, p) \<Rightarrow> failed (Numeric_error err_op_negate) p
      | (Some n, p) \<Rightarrow> do { n \<leftarrow> number_neg n; push_number_result n p })"

definition op_abs :: "program \<Rightarrow> op_result" where
  "op_abs p =
     (case pop_number (max_integer_size_legacy p) p of
        (None, p) \<Rightarrow> failed (Numeric_error err_op_abs) p
      | (Some n, p) \<Rightarrow> do { n \<leftarrow> (if n < 0 then number_neg n else Some n); push_number_result n p })"

definition op_not :: "program \<Rightarrow> op_result" where
  "op_not p =
     (case pop_number (max_integer_size_legacy p) p of
        (None, p) \<Rightarrow> failed (Numeric_error err_op_not) p
      | (Some n, p) \<Rightarrow> push_bool_result (\<not> number_is_true n) p)"

definition op_nonzero :: "program \<Rightarrow> op_result" where
  "op_nonzero p =
     (case pop_number (max_integer_size_legacy p) p of
        (None, p) \<Rightarrow> failed (Numeric_error err_op_nonzero) p
      | (Some n, p) \<Rightarrow> push_bool_result (number_is_true n) p)"

section \<open>Arithmetic\<close>

definition op_add :: "program \<Rightarrow> op_result" where
  "op_add p =
     (case pop_binary p of
        (None, p) \<Rightarrow> failed (Numeric_error err_op_add) p
      | (Some (first, second), p) \<Rightarrow> 
          (case safe_add first second of
             None \<Rightarrow> failed (Numeric_error err_op_add_overflow) p
           | Some r \<Rightarrow> push_number_result r p))"

definition op_sub :: "program \<Rightarrow> op_result" where
  "op_sub p =
     (case pop_binary p of
        (None, p) \<Rightarrow> failed (Numeric_error err_op_sub) p
      | (Some (first, second), p) \<Rightarrow> 
          (case safe_sub second first of
             None \<Rightarrow> failed (Numeric_error err_op_sub_underflow) p
           | Some r \<Rightarrow> push_number_result r p))"

text \<open>\<open>quadratic_op_cost\<close> is the product of the lengths of the operands' encodings.\<close>

definition tally_quadratic :: "int \<Rightarrow> int \<Rightarrow> program \<Rightarrow> program option" where
  "tally_quadratic first second p = do {
     d1 \<leftarrow> number_data first;
     d2 \<leftarrow> number_data second;
     Some (tally (length d1 * length d2) p) }"

definition op_mul :: "program \<Rightarrow> op_result" where
  "op_mul p =
     (case pop_binary p of
        (None, p) \<Rightarrow> failed (Numeric_error err_op_mul) p
      | (Some (first, second), p) \<Rightarrow> 
          (case safe_mul first second of
             None \<Rightarrow> failed (Numeric_error err_op_mul_overflow) p
           | Some r \<Rightarrow> do { p \<leftarrow> tally_quadratic first second p; push_number_result r p }))"

definition op_div :: "program \<Rightarrow> op_result" where
  "op_div p =
     (case pop_binary p of
        (None, p) \<Rightarrow> failed (Numeric_error err_op_div) p
      | (Some (first, second), p) \<Rightarrow> 
          if first = 0 then failed (Numeric_error err_op_div_by_zero) p
          else do {
            r \<leftarrow> number_div second first;
            p \<leftarrow> tally_quadratic first second p;
            push_number_result r p })"

definition op_mod :: "program \<Rightarrow> op_result" where
  "op_mod p =
     (case pop_binary p of
        (None, p) \<Rightarrow> failed (Numeric_error err_op_mod) p
      | (Some (first, second), p) \<Rightarrow> 
          if first = 0 then failed (Numeric_error err_op_mod_by_zero) p
          else do {
            r \<leftarrow> number_mod second first;
            p \<leftarrow> tally_quadratic first second p;
            push_number_result r p })"

section \<open>Tests\<close>

definition op_bool_and :: "program \<Rightarrow> op_result" where
  "op_bool_and p =
     (case pop_binary p of
        (None, p) \<Rightarrow> failed (Numeric_error err_op_bool_and) p
      | (Some (first, second), p) \<Rightarrow> push_bool_result (number_is_true first \<and> number_is_true second) p)"

definition op_bool_or :: "program \<Rightarrow> op_result" where
  "op_bool_or p =
     (case pop_binary p of
        (None, p) \<Rightarrow> failed (Numeric_error err_op_bool_or) p
      | (Some (first, second), p) \<Rightarrow> push_bool_result (number_is_true first \<or> number_is_true second) p)"

definition op_num_equal :: "program \<Rightarrow> op_result" where
  "op_num_equal p =
     (case pop_binary p of
        (None, p) \<Rightarrow> failed (Numeric_error err_op_num_equal) p
      | (Some (first, second), p) \<Rightarrow> push_bool_result (first = second) p)"

definition op_num_equal_verify :: "program \<Rightarrow> op_result" where
  "op_num_equal_verify p =
     (case pop_binary p of
        (None, p) \<Rightarrow> failed (Numeric_error err_op_num_equal_verify1) p
      | (Some (first, second), p) \<Rightarrow> 
          let p = tally 1 p
          in if first = second then ok p else failed (Numeric_error err_op_num_equal_verify2) p)"

definition op_num_not_equal :: "program \<Rightarrow> op_result" where
  "op_num_not_equal p =
     (case pop_binary p of
        (None, p) \<Rightarrow> failed (Numeric_error err_op_num_not_equal) p
      | (Some (first, second), p) \<Rightarrow> push_bool_result (first \<noteq> second) p)"

definition op_less_than :: "program \<Rightarrow> op_result" where
  "op_less_than p =
     (case pop_binary p of
        (None, p) \<Rightarrow> failed (Numeric_error err_op_less_than) p
      | (Some (first, second), p) \<Rightarrow> push_bool_result (second < first) p)"

definition op_greater_than :: "program \<Rightarrow> op_result" where
  "op_greater_than p =
     (case pop_binary p of
        (None, p) \<Rightarrow> failed (Numeric_error err_op_greater_than) p
      | (Some (first, second), p) \<Rightarrow> push_bool_result (second > first) p)"

definition op_less_than_or_equal :: "program \<Rightarrow> op_result" where
  "op_less_than_or_equal p =
     (case pop_binary p of
        (None, p) \<Rightarrow> failed (Numeric_error err_op_less_than_or_equal) p
      | (Some (first, second), p) \<Rightarrow> push_bool_result (second \<le> first) p)"

definition op_greater_than_or_equal :: "program \<Rightarrow> op_result" where
  "op_greater_than_or_equal p =
     (case pop_binary p of
        (None, p) \<Rightarrow> failed (Numeric_error err_op_greater_than_or_equal) p
      | (Some (first, second), p) \<Rightarrow> push_bool_result (second \<ge> first) p)"

definition op_min :: "program \<Rightarrow> op_result" where
  "op_min p =
     (case pop_binary p of
        (None, p) \<Rightarrow> failed (Numeric_error err_op_min) p
      | (Some (first, second), p) \<Rightarrow> push_number_result (if second < first then second else first) p)"

definition op_max :: "program \<Rightarrow> op_result" where
  "op_max p =
     (case pop_binary p of
        (None, p) \<Rightarrow> failed (Numeric_error err_op_max) p
      | (Some (first, second), p) \<Rightarrow> push_number_result (if second > first then second else first) p)"

definition op_within :: "program \<Rightarrow> op_result" where
  "op_within p =
     (case pop_ternary p of
        (None, p) \<Rightarrow> failed (Numeric_error err_op_within) p
      | (Some (first, second, third), p) \<Rightarrow> push_bool_result (second \<le> third \<and> third < first) p)"

end
