(* ===== verification/Crypto_Ops.thy ===== *)
theory Crypto_Ops
  imports Numeric_Ops
begin

text \<open>
  The operations of \<open>interpreter.ipp\<close> that hash, check signatures and check locks. The loop over the
  keys in \<open>op_check_multisig_verify\<close> leaves the current key in place when it matches a signature, so the
  next signature is tried against the same key first.
\<close>

section \<open>Hashes\<close>

definition op_ripemd160 :: "crypto \<Rightarrow> program \<Rightarrow> op_result" where
  "op_ripemd160 c p =
     (if primary p = [] then failed (Crypto_error err_op_ripemd160) p
      else do {
        t \<leftarrow> top p;
        (x, p) \<leftarrow> pop (tally_hash (length t) False p);
        p \<leftarrow> tally_top (push_move (ripemd160_hash c x) p);
        ok p })"

definition op_sha1 :: "crypto \<Rightarrow> program \<Rightarrow> op_result" where
  "op_sha1 c p =
     (if primary p = [] then failed (Crypto_error err_op_sha1) p
      else do {
        t \<leftarrow> top p;
        (x, p) \<leftarrow> pop (tally_hash (length t) False p);
        p \<leftarrow> tally_top (push_move (sha1_hash c x) p);
        ok p })"

definition op_sha256 :: "crypto \<Rightarrow> program \<Rightarrow> op_result" where
  "op_sha256 c p =
     (if primary p = [] then failed (Crypto_error err_op_sha256) p
      else do {
        t \<leftarrow> top p;
        (x, p) \<leftarrow> pop (tally_hash (length t) False p);
        p \<leftarrow> tally_top (push_move (sha256_hash c x) p);
        ok p })"

definition op_hash160 :: "crypto \<Rightarrow> program \<Rightarrow> op_result" where
  "op_hash160 c p =
     (if primary p = [] then failed (Crypto_error err_op_hash160) p
      else do {
        t \<leftarrow> top p;
        (x, p) \<leftarrow> pop (tally_hash (length t) True p);
        p \<leftarrow> tally_top (push_move (ripemd160_hash c (sha256_hash c x)) p);
        ok p })"

definition op_hash256 :: "crypto \<Rightarrow> program \<Rightarrow> op_result" where
  "op_hash256 c p =
     (if primary p = [] then failed (Crypto_error err_op_hash256) p
      else do {
        t \<leftarrow> top p;
        (x, p) \<leftarrow> pop (tally_hash (length t) True p);
        p \<leftarrow> tally_top (push_move (sha256_hash c (sha256_hash c x)) p);
        ok p })"

section \<open>Signatures\<close>

definition op_codeseparator :: "nat option \<Rightarrow> program \<Rightarrow> op_result" where
  "op_codeseparator at p =
     (case set_jump_register at p of
        (True, p) \<Rightarrow> ok p
      | (False, p) \<Rightarrow> failed (Crypto_error err_op_code_seperator) p)"

definition encoding_error :: "bool \<Rightarrow> error_code" where
  "encoding_error bip66 =
     Connect_error (if bip66 then err_invalid_signature_lax_encoding else err_invalid_signature_encoding)"

definition check_program_signature ::
  "crypto \<Rightarrow> program \<Rightarrow> bytes \<Rightarrow> u8 \<Rightarrow> bytes \<Rightarrow> script \<Rightarrow> (bool \<times> nat) option" where
  "check_program_signature c p signature sighash public_key script_code =
     check_signature c signature sighash public_key script_code (prog_tx p) (prog_input_index p)
       (prog_forks p) (prog_value p)"

definition op_check_sig_common :: "crypto \<Rightarrow> error_code \<Rightarrow> program \<Rightarrow> (error_code \<times> nat \<times> program) option" where
  "op_check_sig_common c err p =
     (if length (primary p) < 2 then Some (err, 0, p)
      else let bip66 = is_enabled (prog_forks p) bip66_rule in do {
        (public_key, p) \<leftarrow> pop p;
        (endorsement, p) \<leftarrow> pop p;
        let script_code = script_from_operations (subscript p) in
        case parse_endorsement endorsement of
          None \<Rightarrow> Some (Connect_error err_invalid_signature_encoding, 0, p)
        | Some (sighash, distinguished) \<Rightarrow>
            (case parse_signature c distinguished bip66 of
               None \<Rightarrow> Some (encoding_error bip66, 0, p)
             | Some signature \<Rightarrow> do {
                 (res, sz) \<leftarrow> check_program_signature c p signature sighash public_key script_code;
                 Some (if res then success else Connect_error err_incorrect_signature, sz, p) }) })"

definition tally_sig_check :: "nat \<Rightarrow> program \<Rightarrow> program" where
  "tally_sig_check sz p =
     p\<lparr>prog_metrics := add_hash_iterations sz True (add_sig_checks 1 (prog_metrics p))\<rparr>"

definition op_check_sig :: "crypto \<Rightarrow> program \<Rightarrow> op_result" where
  "op_check_sig c p = do {
     (verified, sz, p) \<leftarrow> op_check_sig_common c (Crypto_error err_op_check_sig) p;
     if verified = Connect_error err_invalid_signature_lax_encoding
     then failed (Crypto_error err_op_check_sig) p
     else
       let p = push (verified = success) p
       in if verified = success then do { p \<leftarrow> tally_top p; ok (tally_sig_check sz p) } else ok p }"

text \<open>\<open>top()\<close> is read after both arguments were popped; on an empty stack that is undefined.\<close>

definition op_check_sig_verify :: "crypto \<Rightarrow> program \<Rightarrow> op_result" where
  "op_check_sig_verify c p = do {
     (verified, sz, p) \<leftarrow> op_check_sig_common c (Crypto_error err_op_check_sig_verify1) p;
     p \<leftarrow> tally_top p;
     Some (verified, tally_sig_check sz p) }"

definition op_check_data_sig :: "program \<Rightarrow> op_result" where
  "op_check_data_sig p = failed (Crypto_error err_op_check_data_sig) p"

definition op_check_data_sig_verify :: "program \<Rightarrow> op_result" where
  "op_check_data_sig_verify p = failed (Crypto_error err_op_check_data_sig_verify) p"

text \<open>
  The \<open>while (true)\<close> over the keys for one signature: what is left of the keys, beginning with the one
  that matched; \<open>Some None\<close> when they are exhausted. Reading a key when there is none is undefined.
\<close>

fun match_key :: "(bytes \<Rightarrow> bool option) \<Rightarrow> bytes list \<Rightarrow> bytes list option option" where
  "match_key check [] = None"
| "match_key check (key # keys) =
     (case check key of
        None \<Rightarrow> None
      | Some True \<Rightarrow> Some (Some (key # keys))
      | Some False \<Rightarrow> if keys = [] then Some None else match_key check keys)"

fun multisig_loop ::
  "crypto \<Rightarrow> program \<Rightarrow> script \<Rightarrow> bool \<Rightarrow> bytes list \<Rightarrow> bytes list \<Rightarrow> error_code option" where
  "multisig_loop c p script_code bip66 [] keys = Some success"
| "multisig_loop c p script_code bip66 (endorsement # endorsements) keys =
     (case parse_endorsement endorsement of
        None \<Rightarrow> Some (Connect_error err_invalid_signature_encoding)
      | Some (sighash, distinguished) \<Rightarrow>
          (case parse_signature c distinguished bip66 of
             None \<Rightarrow> Some (encoding_error bip66)
           | Some signature \<Rightarrow>
               (case match_key (\<lambda>key. map_option fst
                   (check_program_signature c p signature sighash key script_code)) keys of
                  None \<Rightarrow> None
                | Some None \<Rightarrow> Some (Connect_error err_incorrect_signature)
                | Some (Some keys') \<Rightarrow> multisig_loop c p script_code bip66 endorsements keys')))"

definition op_check_multisig_verify :: "crypto \<Rightarrow> program \<Rightarrow> op_result" where
  "op_check_multisig_verify c p =
     (case pop_int32 p of
        (None, p) \<Rightarrow> failed (Crypto_error err_op_check_multisig_verify1) p
      | (Some key_count, p) \<Rightarrow>
     (case increment_public_key_count key_count p of
        (False, p) \<Rightarrow> failed (Crypto_error err_op_check_multisig_verify2) p
      | (True, p) \<Rightarrow>
     (case pop_section (nat key_count) p of
        (None, p) \<Rightarrow> failed (Crypto_error err_op_check_multisig_verify3) p
      | (Some public_keys, p) \<Rightarrow>
     (case pop_int32 p of
        (None, p) \<Rightarrow> failed (Crypto_error err_op_check_multisig_verify4) p
      | (Some signature_count, p) \<Rightarrow>
     (if signature_count < 0 \<or> signature_count > key_count
      then failed (Crypto_error err_op_check_multisig_verify5) p
      else
     (case pop_section (nat signature_count) p of
        (None, p) \<Rightarrow> failed (Crypto_error err_op_check_multisig_verify6) p
      | (Some endorsements, p) \<Rightarrow>
     (if primary p = [] then failed (Crypto_error err_op_check_multisig_verify7) p
      else do {
        (dummy, p) \<leftarrow> pop p;
        if dummy \<noteq> [] then failed (Crypto_error err_op_check_multisig_verify8) p
        else do {
          verified \<leftarrow> multisig_loop c p (script_from_operations (subscript p))
            (is_enabled (prog_forks p) bip66_rule) endorsements public_keys;
          Some (verified, p) } })))))))"

definition op_check_multisig :: "crypto \<Rightarrow> program \<Rightarrow> op_result" where
  "op_check_multisig c p = do {
     (verified, p) \<leftarrow> op_check_multisig_verify c p;
     if verified = Connect_error err_invalid_signature_lax_encoding
     then failed (Crypto_error err_op_check_multisig) p
     else ok (push (verified = success) p) }"

section \<open>Locks\<close>

abbreviation max_check_locktime_verify_number_size :: nat where
  "max_check_locktime_verify_number_size \<equiv> 5"
abbreviation max_check_sequence_verify_number_size :: nat where
  "max_check_sequence_verify_number_size \<equiv> 5"
abbreviation relative_locktime_min_version :: u32 where "relative_locktime_min_version \<equiv> 2"

definition op_check_locktime_verify :: "program \<Rightarrow> op_result" where
  "op_check_locktime_verify p =
     (if \<not> is_enabled (prog_forks p) bip65_rule then op_nop p
      else
        let tx = prog_tx p; input_index = unat (prog_input_index p) in
        if input_index \<ge> length (tx_inputs tx)
        then failed (Crypto_error err_op_check_locktime_verify1) p
        else if in_sequence (tx_inputs tx ! input_index) = max_input_sequence
        then failed (Crypto_error err_op_check_locktime_verify2) p
        else case top_number max_check_locktime_verify_number_size p of
          None \<Rightarrow> failed (Crypto_error err_op_check_locktime_verify3) p
        | Some stack \<Rightarrow>
            if stack < 0 then failed (Crypto_error err_op_check_locktime_verify4) p
            else
              let locktime = nat stack in
              if (locktime < locktime_threshold) \<noteq> (unat (tx_locktime tx) < locktime_threshold)
              then failed (Crypto_error err_op_check_locktime_verify5) p
              else if locktime > unat (tx_locktime tx)
              then failed (Crypto_error err_op_check_locktime_verify6) p
              else ok p)"

definition op_check_sequence_verify :: "program \<Rightarrow> op_result" where
  "op_check_sequence_verify p =
     (if \<not> is_enabled (prog_forks p) bip112_rule then op_nop p
      else
        let tx = prog_tx p; input_index = unat (prog_input_index p) in
        if input_index \<ge> length (tx_inputs tx)
        then failed (Crypto_error err_op_check_sequence_verify1) p
        else case top_number max_check_sequence_verify_number_size p of
          None \<Rightarrow> failed (Crypto_error err_op_check_sequence_verify2) p
        | Some stack \<Rightarrow>
            if stack < 0 then failed (Crypto_error err_op_check_sequence_verify3) p
            else
              let sequence = (of_int stack :: u64) in
              if sequence AND ucast relative_locktime_disabled \<noteq> 0 then op_nop p
              else if tx_version tx < relative_locktime_min_version
              then failed (Crypto_error err_op_check_sequence_verify4) p
              else
                let tx_sequence = in_sequence (tx_inputs tx ! input_index) in
                if tx_sequence AND relative_locktime_disabled \<noteq> 0
                then failed (Crypto_error err_op_check_sequence_verify5) p
                else if sequence AND ucast relative_locktime_time_locked \<noteq>
                  ucast (tx_sequence AND relative_locktime_time_locked)
                then failed (Crypto_error err_op_check_sequence_verify6) p
                else if sequence AND ucast relative_locktime_mask >
                  ucast (tx_sequence AND relative_locktime_mask)
                then failed (Crypto_error err_op_check_sequence_verify7) p
                else ok p)"

end
