(* ===== verification/Interpreter.thy ===== *)
theory Interpreter
  imports Crypto_Ops
begin

text \<open>
  The interpreter: \<open>run_op\<close> of \<open>interpreter.ipp\<close>, the loop and the debugging steps of
  \<open>domain/src/machine/interpreter.cpp\<close>. The \<open>switch\<close> is a list of pairs, one part of it after the other;
  \<open>at\<close> is the position of the operation in the script, or \<open>None\<close> for a copy of one.
\<close>

section \<open>The switch\<close>

type_synonym op_cases = "(opcode \<times> (program \<Rightarrow> op_result)) list"

definition push_cases :: "operation \<Rightarrow> op_cases" where
  "push_cases op =
     [(opcode_push_one_size, op_push_data (op_data op) max_uint8),
      (opcode_push_two_size, op_push_data (op_data op) max_uint16),
      (opcode_push_four_size, op_push_data (op_data op) max_uint32),
      (opcode_reserved_80, op_reserved),
      (opcode_push_negative_1, op_push_number negative_1)] @
     map (\<lambda>n. (opcode_push_positive_1 + of_nat n, op_push_number (positive_1 + of_nat n))) [0..<16]"

definition control_cases :: "op_cases" where
  "control_cases =
     [(opcode_nop, op_nop),
      (opcode_reserved_98, op_reserved),
      (opcode_if, op_if),
      (opcode_notif, op_notif),
      (opcode_disabled_verif, op_disabled),
      (opcode_disabled_vernotif, op_disabled),
      (opcode_else, op_else),
      (opcode_endif, op_endif),
      (opcode_verify, op_verify),
      (opcode_return, op_return)]"

definition stack_cases :: "op_cases" where
  "stack_cases =
     [(opcode_toaltstack, op_to_alt_stack),
      (opcode_fromaltstack, op_from_alt_stack),
      (opcode_drop2, op_drop2),
      (opcode_dup2, op_dup2),
      (opcode_dup3, op_dup3),
      (opcode_over2, op_over2),
      (opcode_rot2, op_rot2),
      (opcode_swap2, op_swap2),
      (opcode_ifdup, op_if_dup),
      (opcode_depth, op_depth),
      (opcode_drop, op_drop),
      (opcode_dup, op_dup),
      (opcode_nip, op_nip),
      (opcode_over, op_over),
      (opcode_pick, op_pick),
      (opcode_roll, op_roll),
      (opcode_rot, op_rot),
      (opcode_swap, op_swap),
      (opcode_tuck, op_tuck)]"

definition splice_cases :: "op_cases" where
  "splice_cases =
     [(opcode_cat, op_cat),
      (opcode_split, op_split),
      (opcode_reverse_bytes, op_reverse_bytes),
      (opcode_num2bin, op_num2bin),
      (opcode_bin2num, op_bin2num),
      (opcode_size, op_size)]"

text \<open>The introspection operations all return their error; \<open>output_token_amount\<close> has no case.\<close>

definition op_introspection :: "introspection_error \<Rightarrow> program \<Rightarrow> op_result" where
  "op_introspection e p = failed (Introspection_error e) p"

definition introspection_cases :: "op_cases" where
  "introspection_cases =
     [(opcode_input_index, op_introspection err_op_input_index),
      (opcode_active_bytecode, op_introspection err_op_active_bytecode),
      (opcode_tx_version, op_introspection err_op_tx_version),
      (opcode_tx_input_count, op_introspection err_op_tx_input_count),
      (opcode_tx_output_count, op_introspection err_op_tx_output_count),
      (opcode_tx_locktime, op_introspection err_op_tx_locktime),
      (opcode_utxo_token_category, op_introspection err_op_utxo_token_category),
      (opcode_utxo_token_commitment, op_introspection err_op_utxo_token_commitment),
      (opcode_utxo_token_amount, op_introspection err_op_utxo_token_amount),
      (opcode_output_token_category, op_introspection err_op_output_token_category),
      (opcode_output_token_commitment, op_introspection err_op_output_token_commitment),
      (opcode_utxo_value, op_introspection err_op_utxo_value),
      (opcode_utxo_bytecode, op_introspection err_op_utxo_bytecode),
      (opcode_outpoint_tx_hash, op_introspection err_op_outpoint_tx_hash),
      (opcode_outpoint_index, op_introspection err_op_outpoint_index),
      (opcode_input_bytecode, op_introspection err_op_input_bytecode),
      (opcode_input_sequence_number, op_introspection err_op_input_sequence_number),
      (opcode_output_value, op_introspection err_op_output_value),
      (opcode_output_bytecode, op_introspection err_op_output_bytecode)]"

definition bit_cases :: "op_cases" where
  "bit_cases =
     [(opcode_disabled_invert, op_disabled),
      (opcode_and, op_and),
      (opcode_or, op_or),
      (opcode_xor, op_xor),
      (opcode_equal, op_equal),
      (opcode_equalverify, op_equal_verify),
      (opcode_reserved_137, op_reserved),
      (opcode_reserved_138, op_reserved)]"

definition numeric_cases :: "op_cases" where
  "numeric_cases =
     [(opcode_add1, op_add1),
      (opcode_sub1, op_sub1),
      (opcode_disabled_mul2, op_disabled),
      (opcode_disabled_div2, op_disabled),
      (opcode_negate, op_negate),
      (opcode_abs, op_abs),
      (opcode_not, op_not),
      (opcode_nonzero, op_nonzero),
      (opcode_add, op_add),
      (opcode_sub, op_sub),
      (opcode_mul, op_mul),
      (opcode_div, op_div),
      (opcode_mod, op_mod),
      (opcode_disabled_lshift, op_disabled),
      (opcode_disabled_rshift, op_disabled),
      (opcode_booland, op_bool_and),
      (opcode_boolor, op_bool_or),
      (opcode_numequal, op_num_equal),
      (opcode_numequalverify, op_num_equal_verify),
      (opcode_numnotequal, op_num_not_equal),
      (opcode_lessthan, op_less_than),
      (opcode_greaterthan, op_greater_than),
      (opcode_lessthanorequal, op_less_than_or_equal),
      (opcode_greaterthanorequal, op_greater_than_or_equal),
      (opcode_min, op_min),
      (opcode_max, op_max),
      (opcode_within, op_within)]"

definition crypto_cases :: "crypto \<Rightarrow> nat option \<Rightarrow> op_cases" where
  "crypto_cases c at =
     [(opcode_ripemd160, op_ripemd160 c),
      (opcode_sha1, op_sha1 c),
      (opcode_sha256, op_sha256 c),
      (opcode_hash160, op_hash160 c),
      (opcode_hash256, op_hash256 c),
      (opcode_codeseparator, op_codeseparator at),
      (opcode_checksig, op_check_sig c),
      (opcode_checksigverify, op_check_sig_verify c),
      (opcode_checkdatasig, op_check_data_sig),
      (opcode_checkdatasigverify, op_check_data_sig_verify),
      (opcode_checkmultisig, op_check_multisig c),
      (opcode_checkmultisigverify, op_check_multisig_verify c)]"

definition expansion_cases :: "op_cases" where
  "expansion_cases =
     [(opcode_nop1, op_nop),
      (opcode_checklocktimeverify, op_check_locktime_verify),
      (opcode_checksequenceverify, op_check_sequence_verify),
      (opcode_nop4, op_nop),
      (opcode_nop5, op_nop),
      (opcode_nop6, op_nop),
      (opcode_nop7, op_nop),
      (opcode_nop8, op_nop),
      (opcode_nop9, op_nop),
      (opcode_nop10, op_nop)]"

definition run_op :: "crypto \<Rightarrow> nat option \<Rightarrow> operation \<Rightarrow> program \<Rightarrow> op_result" where
  "run_op c at op p =
     (let p = tally opcode_cost p in
      if op_code op \<le> opcode_push_size_75 then op_push_size op p
      else case map_of (push_cases op @ control_cases @ stack_cases @ splice_cases @
          introspection_cases @ bit_cases @ numeric_cases @ crypto_cases c at @ expansion_cases)
          (op_code op) of
        Some f \<Rightarrow> f p
      | None \<Rightarrow> op_reserved p)"

section \<open>Running a program\<close>

text \<open>The body of the loop. Success means that the loop goes on.\<close>

definition run_step :: "crypto \<Rightarrow> nat option \<Rightarrow> operation \<Rightarrow> program \<Rightarrow> op_result" where
  "run_step c at op p =
     (if is_oversized op (max_script_element_size p)
      then failed (Connect_error err_invalid_push_data_size) p
      else if op_is_disabled (op_code op) (prog_forks p) then failed (Flow_error err_op_disabled) p
      else case increment_operation_count op p of
        (False, p) \<Rightarrow> failed (Connect_error err_invalid_operation_count) p
      | (True, p) \<Rightarrow>
          if prog_if op p then do {
            (ec, p) \<leftarrow> run_op c at op p;
            if ec \<noteq> success then failed ec p
            else if is_stack_overflow p then failed (Connect_error err_invalid_stack_size) p
            else if is_chip_vm_limits_enabled p then
              if is_over_hash_iters_limit (prog_metrics p)
              then failed (Connect_error err_too_many_hash_iters) p
              else if length (condition p) > max_conditional_stack_depth
              then failed (Connect_error err_conditional_stack_depth) p
              else ok p
            else ok p }
          else ok p)"

fun run_loop :: "crypto \<Rightarrow> nat \<Rightarrow> operation list \<Rightarrow> program \<Rightarrow> op_result" where
  "run_loop c i [] p =
     (if closed p then ok p else failed (Connect_error err_invalid_stack_scope) p)"
| "run_loop c i (op # ops) p = do {
     (ec, p) \<leftarrow> run_step c (Some i) op p;
     if ec \<noteq> success then failed ec p else run_loop c (Suc i) ops p }"

definition run :: "crypto \<Rightarrow> program \<Rightarrow> op_result" where
  "run c p =
     (if \<not> program_is_valid p then failed (Connect_error err_invalid_script) p
      else run_loop c 0 (prog_ops p) p)"

section \<open>Debugging\<close>

definition debug_start :: "program \<Rightarrow> error_code \<times> nat" where
  "debug_start p =
     (if \<not> program_is_valid p then (Connect_error err_invalid_script, 0) else (success, 0))"

definition debug_steps_available :: "program \<Rightarrow> nat \<Rightarrow> bool" where
  "debug_steps_available p step \<longleftrightarrow> step < length (prog_ops p)"

text \<open>The operation is copied before it runs.\<close>

definition debug_step :: "crypto \<Rightarrow> program \<Rightarrow> nat \<Rightarrow> (error_code \<times> nat \<times> program) option" where
  "debug_step c p step =
     (if step \<ge> length (prog_ops p)
      then Some (Connect_error err_invalid_operation_count, step, p)
      else do {
        (ec, p) \<leftarrow> run_step c None (prog_ops p ! step) p;
        Some (ec, if ec = success then step + 1 else step, p) })"

definition debug_end :: "program \<Rightarrow> error_code" where
  "debug_end p = (if closed p then success else Connect_error err_invalid_stack_scope)"

section \<open>Verifying an input\<close>

definition verify_scripts ::
  "crypto \<Rightarrow> transaction \<Rightarrow> u32 \<Rightarrow> forks \<Rightarrow> script \<Rightarrow> script \<Rightarrow> u64 \<Rightarrow> error_code option" where
  "verify_scripts c tx input_index forks input_script prevout_script val = do {
     input \<leftarrow> input_program input_script tx input_index forks;
     (ec, input) \<leftarrow> run c input;
     if ec \<noteq> success then Some ec
     else do {
       prevout \<leftarrow> prevout_program prevout_script input;
       (ec, prevout) \<leftarrow> run c prevout;
       if ec \<noteq> success then Some ec
       else if \<not> stack_result False prevout then Some (Connect_error err_stack_false)
       else do {
         ops \<leftarrow> script_operations prevout_script;
         if is_pay_to_script_hash ops forks \<or> is_pay_to_script_hash_32 ops forks then do {
           input_ops \<leftarrow> script_operations input_script;
           if \<not> is_relaxed_push input_ops then Some (Connect_error err_invalid_script_embed)
           else do {
             (serialized, input) \<leftarrow> pop input;
             embedded \<leftarrow> embedded_program (script_of_bytes serialized) input;
             (ec, embedded) \<leftarrow> run c embedded;
             if ec \<noteq> success then Some ec
             else if \<not> stack_result False embedded then Some (Connect_error err_stack_false)
             else Some success } }
         else Some success } } }"

definition verify :: "crypto \<Rightarrow> transaction \<Rightarrow> u32 \<Rightarrow> forks \<Rightarrow> error_code option" where
  "verify c tx input forks =
     (if unat input \<ge> length (tx_inputs tx) then Some (Connect_error err_operation_failed)
      else
        let inp = tx_inputs tx ! unat input; prevout = pv_cache (validation (in_prevout inp))
        in verify_scripts c tx input forks (in_script inp) (out_script prevout) (out_value prevout))"

end
