(* ===== verification/Program_Invariant.thy ===== *)
theory Program_Invariant
  imports Interpreter
begin

text \<open>
  What every operation keeps of a program: its constant registers, the agreement of
  \<open>negative_count_\<close> with the conditional stack, and the bound on the size of stack items.
\<close>

section \<open>Numbers on the stack\<close>

lemma sm_value_range:
  assumes "length data \<le> 8"
  shows "min_int64 < sm_value data \<and> sm_value data \<le> max_int64"
proof (cases data rule: rev_cases)
  case (snoc bs b)
  have "\<not> bit (take_bit 7 b) 7" by (simp add: bit_simps)
  from le_nat_top [OF this, of bs] show ?thesis
    using assms by (auto simp: snoc sm_value_snoc Let_def)
qed (simp add: sm_value_def)

lemma max_integer_size_le: "max_integer_size_legacy p \<le> 8"
  by (simp add: max_integer_size_legacy_def)

lemma set_data_range:
  assumes "set_data x n = Some v" "n \<le> 8" shows "min_int64 < v \<and> v \<le> max_int64"
  using assms sm_value_range [of x] by (auto simp: set_data_value split: if_splits)

lemma number_data_length:
  assumes "number_data v = Some d" "int64_range v" shows "length d \<le> 9"
proof -
  have "nat \<bar>v\<bar> < 256 ^ 8" using assms(2) by (auto simp: int64_range_def)
  then have "length (absolute_bytes (nat \<bar>v\<bar>)) \<le> 8" by (rule absolute_bytes_length)
  with assms(1) show ?thesis by (auto simp: number_data_def Let_def split: if_splits)
qed

lemma number_data_None: "number_data v = None \<longleftrightarrow> v = min_int64"
  by (auto simp: number_data_def Let_def)

lemma smod_between:
  "(0 \<le> x \<longrightarrow> 0 \<le> x smod y \<and> x smod y \<le> x) \<and> (x \<le> 0 \<longrightarrow> x \<le> x smod y \<and> x smod y \<le> 0)" for x y :: int
proof -
  have "\<bar>x\<bar> mod \<bar>y\<bar> \<le> \<bar>x\<bar>" by (cases "y = 0") (simp_all add: zmod_le_nonneg_dividend)
  moreover have "0 \<le> \<bar>x\<bar> mod \<bar>y\<bar>" by (cases "y = 0") simp_all
  ultimately show ?thesis by (auto simp: signed_modulo_int_def sgn_if)
qed

lemma sdiv_le: "\<bar>x sdiv y\<bar> \<le> \<bar>x\<bar>" for x y :: int
proof -
  have "\<bar>x\<bar> div \<bar>y\<bar> \<le> \<bar>x\<bar>" 
    using zdiv_mono2 [of "\<bar>x\<bar>" 1 "\<bar>y\<bar>"] by (cases "y = 0") simp_all
  moreover have "0 \<le> \<bar>x\<bar> div \<bar>y\<bar>" by (simp add: div_int_pos_iff)
  ultimately show ?thesis by (auto simp: signed_divide_int_def abs_mult sgn_if)
qed
lemma safe_range:
  "safe_add x y = Some r \<Longrightarrow> int64_range r" "safe_sub x y = Some r \<Longrightarrow> int64_range r"
  "safe_mul x y = Some r \<Longrightarrow> int64_range r" "number_neg x = Some r \<Longrightarrow> int64_range r"
  "number_div x y = Some r \<Longrightarrow> int64_range r"
  by (auto simp: safe_add_def safe_sub_def safe_mul_def number_neg_def number_div_def checked_int64_def
      split: if_splits)

lemma number_mod_range: "number_mod x y = Some r \<Longrightarrow> int64_range x \<Longrightarrow> int64_range r"
  using smod_between [of x y] by (auto simp: number_mod_def int64_range_def split: if_splits)

lemma set_data_int64: "set_data x (max_integer_size_legacy p) = Some v \<Longrightarrow> int64_range v"
  using set_data_range [OF _ max_integer_size_le] by (fastforce simp: int64_range_def)

section \<open>Small items\<close>

definition small :: "nat \<Rightarrow> bytes list \<Rightarrow> bool" where
  "small m xs \<longleftrightarrow> list_all (\<lambda>x. length x \<le> m) xs"

lemma small_simps [simp]:
  "small m []"
  "small m (x # xs) \<longleftrightarrow> length x \<le> m \<and> small m xs"
  "small m (xs @ ys) \<longleftrightarrow> small m xs \<and> small m ys"
  by (simp_all add: small_def)

lemma small_sub [simp]:
  assumes "small m xs"
  shows "small m (take k xs)" "small m (drop k xs)"
    "i < length xs \<Longrightarrow> length (xs ! i) \<le> m" "length x \<le> m \<Longrightarrow> small m (xs[i := x])"
  using assms set_update_subset_insert [of xs i x]
  by (auto simp: small_def list_all_iff dest: in_set_takeD in_set_dropD)

section \<open>The invariant\<close>

definition program_ok :: "program \<Rightarrow> bool" where
  "program_ok p \<longleftrightarrow>
     negative_count p = of_nat (count_list (condition p) False) \<and>
     small (max_script_element_size p) (primary p) \<and> small (max_script_element_size p) (alternate p)"

definition same_registers :: "program \<Rightarrow> program \<Rightarrow> bool" where
  "same_registers p p' \<longleftrightarrow>
     prog_script p' = prog_script p \<and> prog_ops p' = prog_ops p \<and> prog_tx p' = prog_tx p \<and>
     prog_input_index p' = prog_input_index p \<and> prog_forks p' = prog_forks p \<and>
     prog_value p' = prog_value p \<and> limits (prog_metrics p') = limits (prog_metrics p)"

definition stack_depth :: "program \<Rightarrow> nat" where
  "stack_depth p = length (primary p) + length (alternate p)"

definition grows :: "program \<Rightarrow> program \<Rightarrow> bool" where
  "grows p p' \<longleftrightarrow>
     stack_depth p' \<le> stack_depth p + 3 \<and> length (condition p') \<le> length (condition p) + 1 \<and>
     operation_count p \<le> operation_count p' \<and>
     operation_count p' \<le> operation_count p + max_script_public_keys"

text \<open>
  \<open>wp b m Q\<close>: the postcondition \<open>Q\<close> holds of the result of \<open>m\<close>; \<open>b\<close> says what becomes of undefined
  behaviour, true for partial correctness and false for total correctness.
\<close>

definition wp :: "bool \<Rightarrow> 'a option \<Rightarrow> ('a \<Rightarrow> bool) \<Rightarrow> bool" where
  "wp b m Q \<longleftrightarrow> (case m of None \<Rightarrow> b | Some x \<Rightarrow> Q x)"

lemma wp_simps [simp]:
  "wp b None Q = b"
  "wp b (Some x) Q = Q x"
  "wp b (if t then m else m') Q = (if t then wp b m Q else wp b m' Q)"
  by (simp_all add: wp_def)

lemma wp_case_bool [simp]:
  "wp b (case t of True \<Rightarrow> m | False \<Rightarrow> m') Q = (if t then wp b m Q else wp b m' Q)"
  by simp

lemma wp_bind [simp]: "wp b (m \<bind> f) Q = wp b m (\<lambda>x. wp b (f x) Q)"
  by (cases m) simp_all

lemma wp_map_option [simp]: "wp b (map_option f m) Q = wp b m (\<lambda>x. Q (f x))"
  by (cases m) simp_all

lemma wp_case_prod [simp]: "wp b (case xy of (x, y) \<Rightarrow> h x y) Q = (case xy of (x, y) \<Rightarrow> wp b (h x y) Q)"
  by (simp split: prod.split)

lemma wp_case_option [simp]:
  "wp b (case z of None \<Rightarrow> m | Some v \<Rightarrow> f v) Q = (case z of None \<Rightarrow> wp b m Q | Some v \<Rightarrow> wp b (f v) Q)"
  by (simp split: option.split)

lemma wp_case_list [simp]:
  "wp b (case l of [] \<Rightarrow> m | a # r \<Rightarrow> f a r) Q = (case l of [] \<Rightarrow> wp b m Q | a # r \<Rightarrow> wp b (f a r) Q)"
  by (simp split: list.split)

definition keeps :: "(program \<Rightarrow> op_result) \<Rightarrow> bool" where
  "keeps f \<longleftrightarrow>
     (\<forall>p. wp True (f p) (\<lambda>(e, p'). same_registers p p' \<and> grows p p' \<and>
       (program_ok p \<longrightarrow> stack_depth p \<le> max_stack_size \<longrightarrow> program_ok p')))"

lemmas primitive_defs =
  Let_def ok_def failed_def tally_def tally_top_def tally_hash_def tally_sig_check_def push_def push_move_def pop_def item_def
  set_item_def top_def top_number_def duplicate_def swap_items_def erase_def erase_range_def
  stack_true_def stack_to_bool_def push_alternate_def pop_alternate_def open_condition_def
  negate_condition_def close_condition_def closed_def add_op_cost_def add_hash_iterations_def add_sig_checks_def
  pop_number_def pop_int32_def pop_binary_def pop_ternary_def pop_position_def pop_section_def

lemmas invariant_defs = same_registers_def grows_def stack_depth_def program_ok_def

lemma limits_update [simp]:
  "max_script_element_size (p\<lparr>primary := v_primary\<rparr>) = max_script_element_size p"
  "max_integer_size_legacy (p\<lparr>primary := v_primary\<rparr>) = max_integer_size_legacy p"
  "max_script_element_size (p\<lparr>alternate := v_alternate\<rparr>) = max_script_element_size p"
  "max_integer_size_legacy (p\<lparr>alternate := v_alternate\<rparr>) = max_integer_size_legacy p"
  "max_script_element_size (p\<lparr>condition := v_condition\<rparr>) = max_script_element_size p"
  "max_integer_size_legacy (p\<lparr>condition := v_condition\<rparr>) = max_integer_size_legacy p"
  "max_script_element_size (p\<lparr>negative_count := v_negative_count\<rparr>) = max_script_element_size p"
  "max_integer_size_legacy (p\<lparr>negative_count := v_negative_count\<rparr>) = max_integer_size_legacy p"
  "max_script_element_size (p\<lparr>operation_count := v_operation_count\<rparr>) = max_script_element_size p"
  "max_integer_size_legacy (p\<lparr>operation_count := v_operation_count\<rparr>) = max_integer_size_legacy p"
  "max_script_element_size (p\<lparr>prog_jump := v_prog_jump\<rparr>) = max_script_element_size p"
  "max_integer_size_legacy (p\<lparr>prog_jump := v_prog_jump\<rparr>) = max_integer_size_legacy p"
  "max_script_element_size (p\<lparr>prog_metrics := v_prog_metrics\<rparr>) = max_script_element_size p"
  "max_integer_size_legacy (p\<lparr>prog_metrics := v_prog_metrics\<rparr>) = max_integer_size_legacy p"
  by (simp_all add: max_script_element_size_def max_integer_size_legacy_def)

lemma max_script_element_size_ge [simp]: "n \<le> 520 \<Longrightarrow> n \<le> max_script_element_size p"
  by (simp add: max_script_element_size_def)

lemma max_script_element_size_le: "max_script_element_size p \<le> 10000"
  by (simp add: max_script_element_size_def)

lemma number_data_small: "number_data v = Some d \<Longrightarrow> int64_range v \<Longrightarrow> length d \<le> max_script_element_size p"
  using number_data_length by force

lemma number_data_nat:
  "number_data (int n) = Some d \<Longrightarrow> n \<le> 10000 \<Longrightarrow> length d \<le> max_script_element_size p"
  using number_data_small [of "int n" d p] by (simp add: int64_range_def)

lemma minimally_encode_small [simp]:
  "length x \<le> m \<Longrightarrow> length (snd (minimally_encode x)) \<le> m"
  using minimally_encode_length [of x] by simp

lemma small_part [simp]: "small m xs \<Longrightarrow> i < length xs \<Longrightarrow> length (xs ! i) - k \<le> m"
  using small_sub(3) [of m xs i] by linarith

lemma wp_opaque [simp]:
  "wp b (number_data v) Q = (case number_data v of None \<Rightarrow> b | Some d \<Rightarrow> Q d)"
  "wp b (number_neg v) R = (case number_neg v of None \<Rightarrow> b | Some d \<Rightarrow> R d)"
  "wp b (number_div v w) R = (case number_div v w of None \<Rightarrow> b | Some d \<Rightarrow> R d)"
  "wp b (check_program_signature c p sig t key s) R' =
     (case check_program_signature c p sig t key s of None \<Rightarrow> b | Some d \<Rightarrow> R' d)"
  "wp b (number_mod v w) R = (case number_mod v w of None \<Rightarrow> b | Some d \<Rightarrow> R d)"
  by (simp_all add: wp_def)

lemma keeps_op_nop: "keeps op_nop"
  by (auto simp: keeps_def op_nop_def primitive_defs invariant_defs bool_item_def split: list.split option.split)

lemma keeps_op_disabled: "keeps op_disabled"
  by (auto simp: keeps_def op_disabled_def primitive_defs invariant_defs bool_item_def split: list.split option.split)

lemma keeps_op_reserved: "keeps op_reserved"
  by (auto simp: keeps_def op_reserved_def primitive_defs invariant_defs bool_item_def split: list.split option.split)

lemma keeps_op_if: "keeps op_if"
  by (auto simp: keeps_def op_if_def primitive_defs invariant_defs bool_item_def split: list.split option.split)

lemma keeps_op_notif: "keeps op_notif"
  by (auto simp: keeps_def op_notif_def primitive_defs invariant_defs bool_item_def split: list.split option.split)

lemma keeps_op_else: "keeps op_else"
  by (auto simp: keeps_def op_else_def primitive_defs invariant_defs bool_item_def split: list.split option.split)

lemma keeps_op_endif: "keeps op_endif"
  by (auto simp: keeps_def op_endif_def primitive_defs invariant_defs bool_item_def split: list.split option.split)

lemma keeps_op_verify: "keeps op_verify"
  by (auto simp: keeps_def op_verify_def primitive_defs invariant_defs bool_item_def split: list.split option.split)

lemma keeps_op_return: "keeps op_return"
  by (auto simp: keeps_def op_return_def primitive_defs invariant_defs bool_item_def split: list.split option.split)

lemma keeps_op_to_alt_stack: "keeps op_to_alt_stack"
  by (auto simp: keeps_def op_to_alt_stack_def primitive_defs invariant_defs bool_item_def split: list.split option.split)

lemma keeps_op_from_alt_stack: "keeps op_from_alt_stack"
  by (auto simp: keeps_def op_from_alt_stack_def primitive_defs invariant_defs bool_item_def split: list.split option.split)

lemma keeps_op_drop2: "keeps op_drop2"
  by (auto simp: keeps_def op_drop2_def primitive_defs invariant_defs bool_item_def split: list.split option.split)

lemma keeps_op_dup2: "keeps op_dup2"
  by (auto simp: keeps_def op_dup2_def primitive_defs invariant_defs bool_item_def split: list.split option.split)

lemma keeps_op_dup3: "keeps op_dup3"
  by (auto simp: keeps_def op_dup3_def primitive_defs invariant_defs bool_item_def split: list.split option.split)

lemma keeps_op_over2: "keeps op_over2"
  by (auto simp: keeps_def op_over2_def primitive_defs invariant_defs bool_item_def split: list.split option.split)

lemma keeps_op_rot2: "keeps op_rot2"
  by (auto simp: keeps_def op_rot2_def primitive_defs invariant_defs bool_item_def split: list.split option.split)

lemma keeps_op_swap2: "keeps op_swap2"
  by (auto simp: keeps_def op_swap2_def primitive_defs invariant_defs bool_item_def split: list.split option.split)

lemma keeps_op_if_dup: "keeps op_if_dup"
  by (auto simp: keeps_def op_if_dup_def primitive_defs invariant_defs bool_item_def split: list.split option.split)

lemma keeps_op_drop: "keeps op_drop"
  by (auto simp: keeps_def op_drop_def primitive_defs invariant_defs bool_item_def split: list.split option.split)

lemma keeps_op_dup: "keeps op_dup"
  by (auto simp: keeps_def op_dup_def primitive_defs invariant_defs bool_item_def split: list.split option.split)

lemma keeps_op_nip: "keeps op_nip"
  by (auto simp: keeps_def op_nip_def primitive_defs invariant_defs bool_item_def split: list.split option.split)

lemma keeps_op_over: "keeps op_over"
  by (auto simp: keeps_def op_over_def primitive_defs invariant_defs bool_item_def split: list.split option.split)

lemma keeps_op_pick: "keeps op_pick"
  by (auto simp: keeps_def op_pick_def primitive_defs invariant_defs bool_item_def split: list.split option.split)

lemma keeps_op_roll: "keeps op_roll"
  by (auto simp: keeps_def op_roll_def primitive_defs invariant_defs bool_item_def split: list.split option.split)

lemma keeps_op_rot: "keeps op_rot"
  by (auto simp: keeps_def op_rot_def primitive_defs invariant_defs bool_item_def split: list.split option.split)

lemma keeps_op_swap: "keeps op_swap"
  by (auto simp: keeps_def op_swap_def primitive_defs invariant_defs bool_item_def split: list.split option.split)

lemma keeps_op_tuck: "keeps op_tuck"
  by (auto simp: keeps_def op_tuck_def primitive_defs invariant_defs bool_item_def split: list.split option.split)

lemma keeps_op_cat: "keeps op_cat"
  by (auto simp: keeps_def op_cat_def primitive_defs invariant_defs bool_item_def split: list.split option.split)

text \<open>An operation on two items is checked on a stack of that form.\<close>

lemma keeps_two_items:
  assumes "\<And>p. length (primary p) < 2 \<Longrightarrow> f p = failed e p"
    and "\<And>p a b xs. primary p = a # b # xs \<Longrightarrow>
      wp True (f p) (\<lambda>(e, p'). same_registers p p' \<and> grows p p' \<and>
       (program_ok p \<longrightarrow> stack_depth p \<le> max_stack_size \<longrightarrow> program_ok p'))"
  shows "keeps f"
  unfolding keeps_def
proof
  fix p
  show "wp True (f p) (\<lambda>(e, p'). same_registers p p' \<and> grows p p' \<and>
       (program_ok p \<longrightarrow> stack_depth p \<le> max_stack_size \<longrightarrow> program_ok p'))"
  proof (cases "length (primary p) < 2")
    case True
    with assms(1) show ?thesis by (simp add: failed_def same_registers_def grows_def)
  next
    case False
    then obtain a b xs where "primary p = a # b # xs" by (meson length_ge_2E not_less)
    with assms(2) show ?thesis by blast
  qed
qed

lemma keeps_op_split: "keeps op_split"
  by (rule keeps_two_items)
    (auto simp: op_split_def primitive_defs invariant_defs split: option.split)

lemma keeps_op_num2bin: "keeps op_num2bin"
  by (rule keeps_two_items)
    (auto simp: op_num2bin_def primitive_defs invariant_defs split: option.split prod.split)

lemma keeps_bitwise: "keeps (bitwise_operation_generic e op)"
  by (rule keeps_two_items)
    (auto simp: bitwise_operation_generic_def primitive_defs invariant_defs)

lemma keeps_op_bin2num: "keeps op_bin2num"
  by (auto simp: keeps_def op_bin2num_def primitive_defs invariant_defs split: list.split)

lemma keeps_op_reverse_bytes: "keeps op_reverse_bytes"
  by (auto simp: keeps_def op_reverse_bytes_def primitive_defs invariant_defs bool_item_def split: list.split option.split)

lemma keeps_op_equal: "keeps op_equal"
  by (auto simp: keeps_def op_equal_def primitive_defs invariant_defs bool_item_def split: list.split option.split)

lemma keeps_op_equal_verify: "keeps op_equal_verify"
  by (auto simp: keeps_def op_equal_verify_def primitive_defs invariant_defs bool_item_def split: list.split option.split)

lemmas number_small = number_data_small safe_range number_mod_range set_data_int64

lemma keeps_op_add1: "keeps op_add1"
  by (auto simp: keeps_def op_add1_def push_number_result_def push_bool_result_def tally_quadratic_def primitive_defs invariant_defs bool_item_def split: list.split option.split
      intro: number_small)

lemma keeps_op_sub1: "keeps op_sub1"
  by (auto simp: keeps_def op_sub1_def push_number_result_def push_bool_result_def tally_quadratic_def primitive_defs invariant_defs bool_item_def split: list.split option.split
      intro: number_small)

lemma keeps_op_negate: "keeps op_negate"
  by (auto simp: keeps_def op_negate_def push_number_result_def push_bool_result_def tally_quadratic_def primitive_defs invariant_defs bool_item_def split: list.split option.split
      intro: number_small)

lemma keeps_op_abs: "keeps op_abs"
  by (auto simp: keeps_def op_abs_def push_number_result_def push_bool_result_def tally_quadratic_def primitive_defs invariant_defs bool_item_def split: list.split option.split
      intro: number_small)

lemma keeps_op_not: "keeps op_not"
  by (auto simp: keeps_def op_not_def push_number_result_def push_bool_result_def tally_quadratic_def primitive_defs invariant_defs bool_item_def split: list.split option.split
      intro: number_small)

lemma keeps_op_nonzero: "keeps op_nonzero"
  by (auto simp: keeps_def op_nonzero_def push_number_result_def push_bool_result_def tally_quadratic_def primitive_defs invariant_defs bool_item_def split: list.split option.split
      intro: number_small)

lemma keeps_op_add: "keeps op_add"
  by (auto simp: keeps_def op_add_def push_number_result_def push_bool_result_def tally_quadratic_def primitive_defs invariant_defs bool_item_def split: list.split option.split
      intro: number_small)

lemma keeps_op_sub: "keeps op_sub"
  by (auto simp: keeps_def op_sub_def push_number_result_def push_bool_result_def tally_quadratic_def primitive_defs invariant_defs bool_item_def split: list.split option.split
      intro: number_small)

lemma keeps_op_mul: "keeps op_mul"
  by (auto simp: keeps_def op_mul_def push_number_result_def push_bool_result_def tally_quadratic_def primitive_defs invariant_defs bool_item_def split: list.split option.split
      intro: number_small)

lemma keeps_op_div: "keeps op_div"
  by (auto simp: keeps_def op_div_def push_number_result_def push_bool_result_def tally_quadratic_def primitive_defs invariant_defs bool_item_def split: list.split option.split
      intro: number_small)

lemma keeps_op_mod: "keeps op_mod"
  by (auto simp: keeps_def op_mod_def push_number_result_def push_bool_result_def tally_quadratic_def primitive_defs invariant_defs bool_item_def split: list.split option.split
      intro: number_small)

lemma keeps_op_bool_and: "keeps op_bool_and"
  by (auto simp: keeps_def op_bool_and_def push_number_result_def push_bool_result_def tally_quadratic_def primitive_defs invariant_defs bool_item_def split: list.split option.split
      intro: number_small)

lemma keeps_op_bool_or: "keeps op_bool_or"
  by (auto simp: keeps_def op_bool_or_def push_number_result_def push_bool_result_def tally_quadratic_def primitive_defs invariant_defs bool_item_def split: list.split option.split
      intro: number_small)

lemma keeps_op_num_equal: "keeps op_num_equal"
  by (auto simp: keeps_def op_num_equal_def push_number_result_def push_bool_result_def tally_quadratic_def primitive_defs invariant_defs bool_item_def split: list.split option.split
      intro: number_small)

lemma keeps_op_num_equal_verify: "keeps op_num_equal_verify"
  by (auto simp: keeps_def op_num_equal_verify_def push_number_result_def push_bool_result_def tally_quadratic_def primitive_defs invariant_defs bool_item_def split: list.split option.split
      intro: number_small)

lemma keeps_op_num_not_equal: "keeps op_num_not_equal"
  by (auto simp: keeps_def op_num_not_equal_def push_number_result_def push_bool_result_def tally_quadratic_def primitive_defs invariant_defs bool_item_def split: list.split option.split
      intro: number_small)

lemma keeps_op_less_than: "keeps op_less_than"
  by (auto simp: keeps_def op_less_than_def push_number_result_def push_bool_result_def tally_quadratic_def primitive_defs invariant_defs bool_item_def split: list.split option.split
      intro: number_small)

lemma keeps_op_greater_than: "keeps op_greater_than"
  by (auto simp: keeps_def op_greater_than_def push_number_result_def push_bool_result_def tally_quadratic_def primitive_defs invariant_defs bool_item_def split: list.split option.split
      intro: number_small)

lemma keeps_op_less_than_or_equal: "keeps op_less_than_or_equal"
  by (auto simp: keeps_def op_less_than_or_equal_def push_number_result_def push_bool_result_def tally_quadratic_def primitive_defs invariant_defs bool_item_def split: list.split option.split
      intro: number_small)

lemma keeps_op_greater_than_or_equal: "keeps op_greater_than_or_equal"
  by (auto simp: keeps_def op_greater_than_or_equal_def push_number_result_def push_bool_result_def tally_quadratic_def primitive_defs invariant_defs bool_item_def split: list.split option.split
      intro: number_small)

lemma keeps_op_min: "keeps op_min"
  by (auto simp: keeps_def op_min_def push_number_result_def push_bool_result_def tally_quadratic_def primitive_defs invariant_defs bool_item_def split: list.split option.split
      intro: number_small)

lemma keeps_op_max: "keeps op_max"
  by (auto simp: keeps_def op_max_def push_number_result_def push_bool_result_def tally_quadratic_def primitive_defs invariant_defs bool_item_def split: list.split option.split
      intro: number_small)

lemma keeps_op_within: "keeps op_within"
  by (auto simp: keeps_def op_within_def push_number_result_def push_bool_result_def tally_quadratic_def primitive_defs invariant_defs bool_item_def split: list.split option.split
      intro: number_small)

lemma keeps_op_push_number: "keeps (op_push_number v)"
  by (auto simp: keeps_def op_push_number_def  primitive_defs invariant_defs bool_item_def split: list.split option.split)

lemma keeps_op_push_size: "keeps (op_push_size op)"
  by (auto simp: keeps_def op_push_size_def  primitive_defs invariant_defs bool_item_def split: list.split option.split)

lemma keeps_op_depth: "keeps (op_depth)"
  by (auto simp: keeps_def op_depth_def primitive_defs invariant_defs split: option.split
      intro: number_data_nat)

lemma keeps_op_size: "keeps (op_size)"
  by (auto simp: keeps_def op_size_def primitive_defs invariant_defs split: list.split option.split
      intro: number_data_nat order_trans [OF _ max_script_element_size_le])

lemma keeps_op_ripemd160: "crypto_ok c \<Longrightarrow> keeps (op_ripemd160 c)"
  by (auto simp: keeps_def op_ripemd160_def crypto_ok_def primitive_defs invariant_defs bool_item_def split: list.split option.split)

lemma keeps_op_sha1: "crypto_ok c \<Longrightarrow> keeps (op_sha1 c)"
  by (auto simp: keeps_def op_sha1_def crypto_ok_def primitive_defs invariant_defs bool_item_def split: list.split option.split)

lemma keeps_op_sha256: "crypto_ok c \<Longrightarrow> keeps (op_sha256 c)"
  by (auto simp: keeps_def op_sha256_def crypto_ok_def primitive_defs invariant_defs bool_item_def split: list.split option.split)

lemma keeps_op_hash160: "crypto_ok c \<Longrightarrow> keeps (op_hash160 c)"
  by (auto simp: keeps_def op_hash160_def crypto_ok_def primitive_defs invariant_defs bool_item_def split: list.split option.split)

lemma keeps_op_hash256: "crypto_ok c \<Longrightarrow> keeps (op_hash256 c)"
  by (auto simp: keeps_def op_hash256_def crypto_ok_def primitive_defs invariant_defs bool_item_def split: list.split option.split)

lemma keeps_op_codeseparator: "keeps (op_codeseparator at)"
  by (auto simp: keeps_def op_codeseparator_def set_jump_register_def primitive_defs invariant_defs bool_item_def split: list.split option.split)

lemma keeps_op_check_data_sig: "keeps (op_check_data_sig)"
  by (auto simp: keeps_def op_check_data_sig_def  primitive_defs invariant_defs bool_item_def split: list.split option.split)

lemma keeps_op_check_data_sig_verify: "keeps (op_check_data_sig_verify)"
  by (auto simp: keeps_def op_check_data_sig_verify_def  primitive_defs invariant_defs bool_item_def split: list.split option.split)

lemma keeps_op_check_locktime_verify: "keeps (op_check_locktime_verify)"
  by (auto simp: keeps_def op_check_locktime_verify_def op_nop_def primitive_defs invariant_defs bool_item_def split: list.split option.split)

lemma keeps_op_check_sequence_verify: "keeps (op_check_sequence_verify)"
  by (auto simp: keeps_def op_check_sequence_verify_def op_nop_def primitive_defs invariant_defs bool_item_def split: list.split option.split)

lemma keeps_op_introspection: "keeps (op_introspection e)"
  by (auto simp: keeps_def op_introspection_def  primitive_defs invariant_defs bool_item_def split: list.split option.split)

lemma keeps_op_push_data:
  "wp True (op_push_data (op_data op) n p) (\<lambda>(e, p'). same_registers p p' \<and> grows p p' \<and>
     (length (op_data op) \<le> max_script_element_size p \<longrightarrow> program_ok p \<longrightarrow>
       stack_depth p \<le> max_stack_size \<longrightarrow> program_ok p'))"
  by (auto simp: op_push_data_def primitive_defs invariant_defs)

lemma keeps_op_check_sig: "keeps (op_check_sig c)"
  by (auto simp: keeps_def op_check_sig_def op_check_sig_common_def primitive_defs invariant_defs
      bool_item_def split: list.split option.split)

lemma keeps_op_check_sig_verify: "keeps (op_check_sig_verify c)"
  by (auto simp: keeps_def op_check_sig_verify_def op_check_sig_common_def primitive_defs invariant_defs
      bool_item_def split: list.split option.split)

lemma wp_multisig [simp]:
  "wp b (multisig_loop c p s bip66 es ks) Q =
     (case multisig_loop c p s bip66 es ks of None \<Rightarrow> b | Some r \<Rightarrow> Q r)"
  by (simp add: wp_def)

definition consumes :: "nat \<Rightarrow> program \<Rightarrow> program \<Rightarrow> bool" where
  "consumes n p p' \<longleftrightarrow> same_registers p p' \<and> (program_ok p \<longrightarrow> program_ok p') \<and>
     stack_depth p' \<le> stack_depth p \<and> condition p' = condition p \<and>
     operation_count p \<le> operation_count p' \<and> operation_count p' \<le> operation_count p + n"

lemma consumes_primitives:
  "pop_int32 p = (v, p') \<Longrightarrow> consumes 0 p p'"
  "pop_section k p = (vs, p') \<Longrightarrow> consumes 0 p p'"
  "pop p = Some (x, p') \<Longrightarrow> consumes 0 p p'"
  "increment_public_key_count i p = (t, p') \<Longrightarrow> consumes max_script_public_keys p p'"
  by (auto simp: consumes_def pop_int32_def pop_number_def pop_section_def pop_def
      increment_public_key_count_def invariant_defs Let_def split: list.splits if_splits)

lemma consumes_multisig:
  assumes "op_check_multisig_verify c p = Some (e, p')"
  shows "consumes max_script_public_keys p p'"
proof -
  show ?thesis
    using assms unfolding op_check_multisig_verify_def
    by (auto simp: failed_def bind_eq_Some_conv split: prod.splits option.splits bool.splits if_splits
        dest!: consumes_primitives) (auto simp: consumes_def same_registers_def)
qed

lemma keeps_op_check_multisig_verify: "keeps (op_check_multisig_verify c)"
  using consumes_multisig unfolding keeps_def wp_def
  by (fastforce simp: consumes_def grows_def split: option.split)

lemma wp_mono: "wp b m P \<Longrightarrow> (\<And>x. P x \<Longrightarrow> Q x) \<Longrightarrow> wp b m Q"
  by (cases m) simp_all

lemma keeps_op_check_multisig: "keeps (op_check_multisig c)"
proof -
  have "wp True (op_check_multisig_verify c p) (\<lambda>(e, q). consumes max_script_public_keys p q)" for p
    using consumes_multisig by (auto simp: wp_def split: option.split)
  from wp_mono [OF this] show ?thesis
    unfolding keeps_def op_check_multisig_def wp_bind
    by (rule allI) (auto simp: primitive_defs bool_item_def consumes_def invariant_defs)
qed

end
