(* ===== verification/Interpreter_Switch.thy ===== *)
theory Interpreter_Switch
  imports Interpreter
begin

text \<open>
  The \<open>switch\<close> of \<open>run_op\<close> as a table: its labels are distinct, so \<open>run_op\<close> on an operation with a
  label runs the case of that label. \<open>run_op_dispatch\<close> collects one equation per label.
\<close>

lemmas switch_defs =
  push_cases_def control_cases_def stack_cases_def splice_cases_def introspection_cases_def
  bit_cases_def numeric_cases_def crypto_cases_def expansion_cases_def

text \<open>The labels of the switch are distinct, so a label selects its case.\<close>

lemma distinct_u8: "distinct ns \<Longrightarrow> list_all (\<lambda>n. n < 256) ns \<Longrightarrow> distinct (map (of_nat :: nat \<Rightarrow> u8) ns)"
  by (auto simp: distinct_map list_all_iff word_of_nat_eq_iff take_bit_nat_eq_self intro!: inj_onI)

lemma switch_labels:
  "map fst (push_cases op @ control_cases @ stack_cases @ splice_cases @
     introspection_cases @ bit_cases @ numeric_cases @ crypto_cases c at @ expansion_cases) =
   map of_nat
      [76, 77, 78, 80, 79, 81, 82, 83, 84, 85, 86, 87, 88, 89, 90, 91, 92, 93, 94, 95, 96,
       97, 98, 99, 100, 101, 102, 103, 104, 105, 106, 107, 108, 109, 110, 111, 112, 113,
       114, 115, 116, 117, 118, 119, 120, 121, 122, 123, 124, 125, 126, 127, 188, 128, 129,
       130, 192, 193, 194, 195, 196, 197, 206, 207, 208, 209, 210, 198, 199, 200, 201, 202,
       203, 204, 205, 131, 132, 133, 134, 135, 136, 137, 138, 139, 140, 141, 142, 143, 144,
       145, 146, 147, 148, 149, 150, 151, 152, 153, 154, 155, 156, 157, 158, 159, 160, 161,
       162, 163, 164, 165, 166, 167, 168, 169, 170, 171, 172, 173, 186, 187, 174, 175, 176,
       177, 178, 179, 180, 181, 182, 183, 184, 185]"
  by (simp add: switch_defs upt_rec)

lemma switch_distinct:
  "distinct (map fst (push_cases op @ control_cases @ stack_cases @ splice_cases @
     introspection_cases @ bit_cases @ numeric_cases @ crypto_cases c at @ expansion_cases))"
  unfolding switch_labels by (rule distinct_u8) simp_all

lemma run_op_case:
  assumes "(op_code op, f) \<in> set (control_cases @ stack_cases @ splice_cases @
      introspection_cases @ bit_cases @ numeric_cases @ crypto_cases c at @ expansion_cases)"
    and "\<not> op_code op \<le> opcode_push_size_75"
  shows "run_op c at op p = f (tally opcode_cost p)"
proof -
  have "map_of (push_cases op @ control_cases @ stack_cases @ splice_cases @ introspection_cases @
      bit_cases @ numeric_cases @ crypto_cases c at @ expansion_cases) (op_code op) = Some f"
    by (rule map_of_is_SomeI [OF switch_distinct]) (use assms(1) in auto)
  with assms(2) show ?thesis by (simp add: run_op_def Let_def del: map_of_append)
qed

lemma run_op_control:
  "op_code op = opcode_nop \<Longrightarrow> run_op c at op p = op_nop (tally opcode_cost p)"
  "op_code op = opcode_reserved_98 \<Longrightarrow> run_op c at op p = op_reserved (tally opcode_cost p)"
  "op_code op = opcode_if \<Longrightarrow> run_op c at op p = op_if (tally opcode_cost p)"
  "op_code op = opcode_notif \<Longrightarrow> run_op c at op p = op_notif (tally opcode_cost p)"
  "op_code op = opcode_disabled_verif \<Longrightarrow> run_op c at op p = op_disabled (tally opcode_cost p)"
  "op_code op = opcode_disabled_vernotif \<Longrightarrow> run_op c at op p = op_disabled (tally opcode_cost p)"
  "op_code op = opcode_else \<Longrightarrow> run_op c at op p = op_else (tally opcode_cost p)"
  "op_code op = opcode_endif \<Longrightarrow> run_op c at op p = op_endif (tally opcode_cost p)"
  "op_code op = opcode_verify \<Longrightarrow> run_op c at op p = op_verify (tally opcode_cost p)"
  "op_code op = opcode_return \<Longrightarrow> run_op c at op p = op_return (tally opcode_cost p)"
  by (rule run_op_case; simp add: control_cases_def)+

lemma run_op_stack:
  "op_code op = opcode_toaltstack \<Longrightarrow> run_op c at op p = op_to_alt_stack (tally opcode_cost p)"
  "op_code op = opcode_fromaltstack \<Longrightarrow> run_op c at op p = op_from_alt_stack (tally opcode_cost p)"
  "op_code op = opcode_drop2 \<Longrightarrow> run_op c at op p = op_drop2 (tally opcode_cost p)"
  "op_code op = opcode_dup2 \<Longrightarrow> run_op c at op p = op_dup2 (tally opcode_cost p)"
  "op_code op = opcode_dup3 \<Longrightarrow> run_op c at op p = op_dup3 (tally opcode_cost p)"
  "op_code op = opcode_over2 \<Longrightarrow> run_op c at op p = op_over2 (tally opcode_cost p)"
  "op_code op = opcode_rot2 \<Longrightarrow> run_op c at op p = op_rot2 (tally opcode_cost p)"
  "op_code op = opcode_swap2 \<Longrightarrow> run_op c at op p = op_swap2 (tally opcode_cost p)"
  "op_code op = opcode_ifdup \<Longrightarrow> run_op c at op p = op_if_dup (tally opcode_cost p)"
  "op_code op = opcode_depth \<Longrightarrow> run_op c at op p = op_depth (tally opcode_cost p)"
  "op_code op = opcode_drop \<Longrightarrow> run_op c at op p = op_drop (tally opcode_cost p)"
  "op_code op = opcode_dup \<Longrightarrow> run_op c at op p = op_dup (tally opcode_cost p)"
  "op_code op = opcode_nip \<Longrightarrow> run_op c at op p = op_nip (tally opcode_cost p)"
  "op_code op = opcode_over \<Longrightarrow> run_op c at op p = op_over (tally opcode_cost p)"
  "op_code op = opcode_pick \<Longrightarrow> run_op c at op p = op_pick (tally opcode_cost p)"
  "op_code op = opcode_roll \<Longrightarrow> run_op c at op p = op_roll (tally opcode_cost p)"
  "op_code op = opcode_rot \<Longrightarrow> run_op c at op p = op_rot (tally opcode_cost p)"
  "op_code op = opcode_swap \<Longrightarrow> run_op c at op p = op_swap (tally opcode_cost p)"
  "op_code op = opcode_tuck \<Longrightarrow> run_op c at op p = op_tuck (tally opcode_cost p)"
  by (rule run_op_case; simp add: stack_cases_def)+

lemma run_op_splice:
  "op_code op = opcode_cat \<Longrightarrow> run_op c at op p = op_cat (tally opcode_cost p)"
  "op_code op = opcode_split \<Longrightarrow> run_op c at op p = op_split (tally opcode_cost p)"
  "op_code op = opcode_reverse_bytes \<Longrightarrow> run_op c at op p = op_reverse_bytes (tally opcode_cost p)"
  "op_code op = opcode_num2bin \<Longrightarrow> run_op c at op p = op_num2bin (tally opcode_cost p)"
  "op_code op = opcode_bin2num \<Longrightarrow> run_op c at op p = op_bin2num (tally opcode_cost p)"
  "op_code op = opcode_size \<Longrightarrow> run_op c at op p = op_size (tally opcode_cost p)"
  by (rule run_op_case; simp add: splice_cases_def)+

lemma run_op_bit:
  "op_code op = opcode_disabled_invert \<Longrightarrow> run_op c at op p = op_disabled (tally opcode_cost p)"
  "op_code op = opcode_and \<Longrightarrow> run_op c at op p = op_and (tally opcode_cost p)"
  "op_code op = opcode_or \<Longrightarrow> run_op c at op p = op_or (tally opcode_cost p)"
  "op_code op = opcode_xor \<Longrightarrow> run_op c at op p = op_xor (tally opcode_cost p)"
  "op_code op = opcode_equal \<Longrightarrow> run_op c at op p = op_equal (tally opcode_cost p)"
  "op_code op = opcode_equalverify \<Longrightarrow> run_op c at op p = op_equal_verify (tally opcode_cost p)"
  "op_code op = opcode_reserved_137 \<Longrightarrow> run_op c at op p = op_reserved (tally opcode_cost p)"
  "op_code op = opcode_reserved_138 \<Longrightarrow> run_op c at op p = op_reserved (tally opcode_cost p)"
  by (rule run_op_case; simp add: bit_cases_def)+

lemma run_op_numeric:
  "op_code op = opcode_add1 \<Longrightarrow> run_op c at op p = op_add1 (tally opcode_cost p)"
  "op_code op = opcode_sub1 \<Longrightarrow> run_op c at op p = op_sub1 (tally opcode_cost p)"
  "op_code op = opcode_disabled_mul2 \<Longrightarrow> run_op c at op p = op_disabled (tally opcode_cost p)"
  "op_code op = opcode_disabled_div2 \<Longrightarrow> run_op c at op p = op_disabled (tally opcode_cost p)"
  "op_code op = opcode_negate \<Longrightarrow> run_op c at op p = op_negate (tally opcode_cost p)"
  "op_code op = opcode_abs \<Longrightarrow> run_op c at op p = op_abs (tally opcode_cost p)"
  "op_code op = opcode_not \<Longrightarrow> run_op c at op p = op_not (tally opcode_cost p)"
  "op_code op = opcode_nonzero \<Longrightarrow> run_op c at op p = op_nonzero (tally opcode_cost p)"
  "op_code op = opcode_add \<Longrightarrow> run_op c at op p = op_add (tally opcode_cost p)"
  "op_code op = opcode_sub \<Longrightarrow> run_op c at op p = op_sub (tally opcode_cost p)"
  "op_code op = opcode_mul \<Longrightarrow> run_op c at op p = op_mul (tally opcode_cost p)"
  "op_code op = opcode_div \<Longrightarrow> run_op c at op p = op_div (tally opcode_cost p)"
  "op_code op = opcode_mod \<Longrightarrow> run_op c at op p = op_mod (tally opcode_cost p)"
  "op_code op = opcode_disabled_lshift \<Longrightarrow> run_op c at op p = op_disabled (tally opcode_cost p)"
  "op_code op = opcode_disabled_rshift \<Longrightarrow> run_op c at op p = op_disabled (tally opcode_cost p)"
  "op_code op = opcode_booland \<Longrightarrow> run_op c at op p = op_bool_and (tally opcode_cost p)"
  "op_code op = opcode_boolor \<Longrightarrow> run_op c at op p = op_bool_or (tally opcode_cost p)"
  "op_code op = opcode_numequal \<Longrightarrow> run_op c at op p = op_num_equal (tally opcode_cost p)"
  "op_code op = opcode_numequalverify \<Longrightarrow> run_op c at op p = op_num_equal_verify (tally opcode_cost p)"
  "op_code op = opcode_numnotequal \<Longrightarrow> run_op c at op p = op_num_not_equal (tally opcode_cost p)"
  "op_code op = opcode_lessthan \<Longrightarrow> run_op c at op p = op_less_than (tally opcode_cost p)"
  "op_code op = opcode_greaterthan \<Longrightarrow> run_op c at op p = op_greater_than (tally opcode_cost p)"
  "op_code op = opcode_lessthanorequal \<Longrightarrow> run_op c at op p = op_less_than_or_equal (tally opcode_cost p)"
  "op_code op = opcode_greaterthanorequal \<Longrightarrow> run_op c at op p = op_greater_than_or_equal (tally opcode_cost p)"
  "op_code op = opcode_min \<Longrightarrow> run_op c at op p = op_min (tally opcode_cost p)"
  "op_code op = opcode_max \<Longrightarrow> run_op c at op p = op_max (tally opcode_cost p)"
  "op_code op = opcode_within \<Longrightarrow> run_op c at op p = op_within (tally opcode_cost p)"
  by (rule run_op_case; simp add: numeric_cases_def)+

lemma run_op_crypto:
  "op_code op = opcode_ripemd160 \<Longrightarrow> run_op c at op p = op_ripemd160 c (tally opcode_cost p)"
  "op_code op = opcode_sha1 \<Longrightarrow> run_op c at op p = op_sha1 c (tally opcode_cost p)"
  "op_code op = opcode_sha256 \<Longrightarrow> run_op c at op p = op_sha256 c (tally opcode_cost p)"
  "op_code op = opcode_hash160 \<Longrightarrow> run_op c at op p = op_hash160 c (tally opcode_cost p)"
  "op_code op = opcode_hash256 \<Longrightarrow> run_op c at op p = op_hash256 c (tally opcode_cost p)"
  "op_code op = opcode_codeseparator \<Longrightarrow> run_op c at op p = op_codeseparator at (tally opcode_cost p)"
  "op_code op = opcode_checksig \<Longrightarrow> run_op c at op p = op_check_sig c (tally opcode_cost p)"
  "op_code op = opcode_checksigverify \<Longrightarrow> run_op c at op p = op_check_sig_verify c (tally opcode_cost p)"
  "op_code op = opcode_checkdatasig \<Longrightarrow> run_op c at op p = op_check_data_sig (tally opcode_cost p)"
  "op_code op = opcode_checkdatasigverify \<Longrightarrow> run_op c at op p = op_check_data_sig_verify (tally opcode_cost p)"
  "op_code op = opcode_checkmultisig \<Longrightarrow> run_op c at op p = op_check_multisig c (tally opcode_cost p)"
  "op_code op = opcode_checkmultisigverify \<Longrightarrow> run_op c at op p = op_check_multisig_verify c (tally opcode_cost p)"
  by (rule run_op_case; simp add: crypto_cases_def)+

lemma run_op_expansion:
  "op_code op = opcode_nop1 \<Longrightarrow> run_op c at op p = op_nop (tally opcode_cost p)"
  "op_code op = opcode_checklocktimeverify \<Longrightarrow> run_op c at op p = op_check_locktime_verify (tally opcode_cost p)"
  "op_code op = opcode_checksequenceverify \<Longrightarrow> run_op c at op p = op_check_sequence_verify (tally opcode_cost p)"
  "op_code op = opcode_nop4 \<Longrightarrow> run_op c at op p = op_nop (tally opcode_cost p)"
  "op_code op = opcode_nop5 \<Longrightarrow> run_op c at op p = op_nop (tally opcode_cost p)"
  "op_code op = opcode_nop6 \<Longrightarrow> run_op c at op p = op_nop (tally opcode_cost p)"
  "op_code op = opcode_nop7 \<Longrightarrow> run_op c at op p = op_nop (tally opcode_cost p)"
  "op_code op = opcode_nop8 \<Longrightarrow> run_op c at op p = op_nop (tally opcode_cost p)"
  "op_code op = opcode_nop9 \<Longrightarrow> run_op c at op p = op_nop (tally opcode_cost p)"
  "op_code op = opcode_nop10 \<Longrightarrow> run_op c at op p = op_nop (tally opcode_cost p)"
  by (rule run_op_case; simp add: expansion_cases_def)+

lemmas run_op_dispatch =
  run_op_control run_op_stack run_op_splice run_op_bit run_op_numeric run_op_crypto run_op_expansion

end
