(* ===== verification/Interpreter_Safety.thy ===== *)
theory Interpreter_Safety
  imports Program_Invariant Interpreter_Switch
begin

text \<open>
  What the interpreter guarantees whatever script it runs: the invariant of the program, the bounds
  that hold after a successful run, and where undefined behaviour can be reached.
\<close>

section \<open>One operation\<close>

definition kept :: "program \<Rightarrow> op_result \<Rightarrow> bool" where
  "kept p m \<longleftrightarrow> wp True m (\<lambda>(e, p'). same_registers p p' \<and> grows p p' \<and>
     (program_ok p \<longrightarrow> stack_depth p \<le> max_stack_size \<longrightarrow> program_ok p'))"

lemma keepsD: "keeps f \<Longrightarrow> kept p (f p)"
  by (simp add: keeps_def kept_def)

lemmas keeps_ops =
  keeps_op_nop keeps_op_disabled keeps_op_reserved keeps_op_push_number keeps_op_push_size
  keeps_op_if keeps_op_notif keeps_op_else keeps_op_endif keeps_op_verify keeps_op_return
  keeps_op_to_alt_stack keeps_op_from_alt_stack keeps_op_drop2 keeps_op_dup2 keeps_op_dup3
  keeps_op_over2 keeps_op_rot2 keeps_op_swap2 keeps_op_if_dup keeps_op_depth keeps_op_drop
  keeps_op_dup keeps_op_nip keeps_op_over keeps_op_pick keeps_op_roll keeps_op_rot keeps_op_swap
  keeps_op_tuck keeps_op_cat keeps_op_split keeps_op_reverse_bytes keeps_op_num2bin
  keeps_op_bin2num keeps_op_size keeps_op_equal keeps_op_equal_verify keeps_bitwise
  keeps_op_add1 keeps_op_sub1 keeps_op_negate keeps_op_abs keeps_op_not keeps_op_nonzero
  keeps_op_add keeps_op_sub keeps_op_mul keeps_op_div keeps_op_mod keeps_op_bool_and
  keeps_op_bool_or keeps_op_num_equal keeps_op_num_equal_verify keeps_op_num_not_equal
  keeps_op_less_than keeps_op_greater_than keeps_op_less_than_or_equal
  keeps_op_greater_than_or_equal keeps_op_min keeps_op_max keeps_op_within keeps_op_codeseparator
  keeps_op_check_data_sig keeps_op_check_data_sig_verify keeps_op_check_locktime_verify
  keeps_op_check_sequence_verify keeps_op_introspection keeps_op_check_sig
  keeps_op_check_sig_verify keeps_op_check_multisig keeps_op_check_multisig_verify

lemmas keeps_hashes =
  keeps_op_ripemd160 keeps_op_sha1 keeps_op_sha256 keeps_op_hash160 keeps_op_hash256

lemma keeps_bit_ops: "keeps op_and" "keeps op_or" "keeps op_xor"
  using keeps_bitwise by (simp_all add: keeps_def op_and_def op_or_def op_xor_def)

lemma keeps_tables:
  "list_all (keeps \<circ> snd) control_cases"
  "list_all (keeps \<circ> snd) stack_cases"
  "list_all (keeps \<circ> snd) splice_cases"
  "list_all (keeps \<circ> snd) introspection_cases"
  "list_all (keeps \<circ> snd) bit_cases"
  "list_all (keeps \<circ> snd) numeric_cases"
  "crypto_ok c \<Longrightarrow> list_all (keeps \<circ> snd) (crypto_cases c at)"
  "list_all (keeps \<circ> snd) expansion_cases"
  by (simp_all add: control_cases_def stack_cases_def splice_cases_def introspection_cases_def
      bit_cases_def numeric_cases_def crypto_cases_def expansion_cases_def keeps_ops keeps_bit_ops
      keeps_hashes)

lemma kept_tally: "kept (tally n p) m \<Longrightarrow> kept p m"
  unfolding kept_def
  by (erule wp_mono) (auto simp: tally_def add_op_cost_def invariant_defs)

lemma kept_push_cases:
  assumes "map_of (push_cases op) code = Some f" "length (op_data op) \<le> max_script_element_size p"
  shows "kept p (f p)"
proof -
  have "list_all (\<lambda>(_, f). kept p (f p)) (push_cases op)"
    using assms(2) keeps_op_push_data [of op _ p]
    by (auto simp: push_cases_def list_all_iff kept_def keepsD [unfolded kept_def] keeps_ops elim: wp_mono)
  with assms(1) show ?thesis by (auto simp: list_all_iff dest!: map_of_SomeD)
qed

lemma kept_table:
  assumes "list_all (keeps \<circ> snd) t" "map_of (u @ t) code = Some f"
    and "map_of u code = Some f \<Longrightarrow> kept p (f p)"
  shows "kept p (f p)"
proof -
  from assms(2) have "map_of u code = Some f \<or> map_of t code = Some f" by auto
  then show ?thesis
  proof
    assume "map_of t code = Some f"
    then have "(code, f) \<in> set t" by (rule map_of_SomeD)
    with assms(1) have "keeps f" by (auto simp: list_all_iff)
    then show ?thesis by (rule keepsD)
  qed (rule assms(3))
qed

lemma kept_run_op:
  assumes "crypto_ok c" "length (op_data op) \<le> max_script_element_size p"
  shows "kept p (run_op c at op p)"
proof -
  let ?p = "tally opcode_cost p"
  have len: "length (op_data op) \<le> max_script_element_size ?p" using assms(2) by (simp add: tally_def)
  have tables: "list_all (keeps \<circ> snd) (control_cases @ stack_cases @ splice_cases @
      introspection_cases @ bit_cases @ numeric_cases @ crypto_cases c at @ expansion_cases)" (is "list_all _ ?t")
    using keeps_tables assms(1) by simp
  have "kept ?p (run_op c at op p)"
  proof (cases "op_code op \<le> opcode_push_size_75")
    case True
    then show ?thesis using keepsD [OF keeps_op_push_size] by (simp add: run_op_def)
  next
    case False
    show ?thesis
    proof (cases "map_of (push_cases op @ ?t) (op_code op)")
      case None
      with False show ?thesis using keepsD [OF keeps_op_reserved] by (simp add: run_op_def Let_def del: map_of_append)
    next
      case (Some f)
      then have "kept ?p (f ?p)"
        by (rule kept_table [OF tables _ kept_push_cases [OF _ len]])
      with False Some show ?thesis by (simp add: run_op_def Let_def del: map_of_append)
    qed
  qed
  then show ?thesis by (rule kept_tally)
qed


section \<open>The loop\<close>

text \<open>What a step of the loop leaves behind when the loop goes on.\<close>

definition within_limits :: "program \<Rightarrow> bool" where
  "within_limits p \<longleftrightarrow> program_ok p \<and> stack_depth p \<le> max_stack_size \<and>
     operation_count p \<le> max_counted_ops + max_script_public_keys"

lemma run_step_keeps:
  assumes "crypto_ok c" "run_step c at op p = Some (e, p')" "within_limits p"
  shows "same_registers p p' \<and> program_ok p' \<and> (e = success \<longrightarrow> within_limits p')"
proof (cases "is_oversized op (max_script_element_size p) \<or> op_is_disabled (op_code op) (prog_forks p)")
  case True
  with assms show ?thesis
    by (auto simp: run_step_def failed_def within_limits_def same_registers_def split: if_splits)
next
  case False
  obtain t q where q: "increment_operation_count op p = (t, q)" by fastforce
  then have sq: "same_registers p q" "program_ok q" "stack_depth q = stack_depth p"
    "t \<longleftrightarrow> operation_count q \<le> max_counted_ops"
    using assms(3) by (auto simp: increment_operation_count_def Let_def within_limits_def invariant_defs
        operation_overflow_def split: if_splits)
  show ?thesis
  proof (cases "t \<and> prog_if op q")
    case False
    with assms \<open>\<not> (is_oversized _ _ \<or> _)\<close> q sq show ?thesis
      by (auto simp: run_step_def failed_def ok_def within_limits_def)
  next
    case True
    have "length (op_data op) \<le> max_script_element_size q"
      using False sq(1) by (simp add: is_oversized_def same_registers_def max_script_element_size_def)
    from kept_run_op [OF assms(1) this, of at] have k: "kept q (run_op c at op q)" .
    from assms(2) False q True obtain e' r where r: "run_op c at op q = Some (e', r)" "p' = r"
      and c: "e = success \<longrightarrow> e' = success \<and> \<not> is_stack_overflow r"
      by (auto simp: run_step_def failed_def ok_def bind_eq_Some_conv split: if_splits)
    with k sq assms(3) True show ?thesis
      by (auto simp: kept_def within_limits_def same_registers_def grows_def is_stack_overflow_def
          stack_depth_def)
  qed
qed

lemma run_loop_keeps:
  assumes "crypto_ok c" "run_loop c i ops p = Some (e, p')" "within_limits p"
  shows "same_registers p p' \<and> program_ok p' \<and> (e = success \<longrightarrow> within_limits p' \<and> condition p' = [])"
  using assms(2,3)
proof (induction ops arbitrary: i p)
  case Nil
  then show ?case
    by (auto simp: closed_def ok_def failed_def within_limits_def same_registers_def split: if_splits)
next
  case (Cons op ops)
  then obtain e' q where q: "run_step c (Some i) op p = Some (e', q)"
    and rest: "if e' = success then run_loop c (Suc i) ops q = Some (e, p') else e = e' \<and> p' = q"
    by (auto simp: bind_eq_Some_conv failed_def split: if_splits)
  from run_step_keeps [OF assms(1) q Cons.prems(2)] rest Cons.IH [of "Suc i" q] show ?case
    by (auto simp: same_registers_def split: if_splits)
qed

lemmas run_defs =
  run_def program_is_valid_def is_valid_operations_def is_unspendable_def script_serialized_size_def
  run_step_def is_oversized_def op_is_disabled_def is_enabled_def increment_operation_count_def
  operation_overflow_def op_is_counted_def prog_if_def op_is_conditional_def succeeded_def
  is_stack_overflow_def is_chip_vm_limits_enabled_def is_over_hash_iters_limit_def metrics_default_def
  make_program_def script_operations_def script_from_operations_def

section \<open>Undefined behaviour\<close>

definition defined :: "(program \<Rightarrow> op_result) \<Rightarrow> bool" where
  "defined f \<longleftrightarrow> (\<forall>p. unat (prog_input_index p) < length (tx_inputs (prog_tx p)) \<longrightarrow> wp False (f p) (\<lambda>_. True))"

lemma wp_defined: "m = None \<longleftrightarrow> \<not> wp False m (\<lambda>_. True)"
  by (cases m) simp_all

lemma defined_iff:
  "defined f \<longleftrightarrow> (\<forall>p. unat (prog_input_index p) < length (tx_inputs (prog_tx p)) \<longrightarrow> f p \<noteq> None)"
  by (simp add: defined_def wp_defined del: not_None_eq)

lemma number_data_defined [simp]: "number_data (int n) \<noteq> None" "number_data v = None \<longleftrightarrow> v = min_int64"
  by (simp_all add: number_data_None)

lemma set_data_not_min:
  "set_data x (max_integer_size_legacy p) = Some v \<Longrightarrow> min_int64 < v \<and> v \<le> max_int64"
  using set_data_range [OF _ max_integer_size_le] by blast

lemma div_mod_defined:
  assumes "min_int64 < x" "x \<le> max_int64" "y \<noteq> 0"
  shows "number_div x y = Some (x sdiv y)" "number_mod x y = Some (x smod y)"
    "x sdiv y \<noteq> min_int64" "x smod y \<noteq> min_int64"
  using assms sdiv_le [of x y] smod_between [of x y]
  by (auto simp: number_div_def number_mod_def checked_int64_def int64_range_def)

lemma number_neg_defined: "min_int64 < v \<Longrightarrow> v \<le> max_int64 \<Longrightarrow> number_neg v = Some (- v)"
  by (simp add: number_neg_def checked_int64_def int64_range_def)

lemma safe_add_1_defined: "safe_add v 1 = Some r \<Longrightarrow> min_int64 < v \<Longrightarrow> r \<noteq> min_int64"
  by (auto simp: safe_add_def split: if_splits)

lemma defined_op_nop: "defined op_nop"
  by (auto simp: defined_def op_nop_def primitive_defs split: list.split option.split)

lemma defined_op_disabled: "defined op_disabled"
  by (auto simp: defined_def op_disabled_def primitive_defs split: list.split option.split)

lemma defined_op_reserved: "defined op_reserved"
  by (auto simp: defined_def op_reserved_def primitive_defs split: list.split option.split)

lemma defined_op_if: "defined op_if"
  by (auto simp: defined_def op_if_def primitive_defs split: list.split option.split)

lemma defined_op_notif: "defined op_notif"
  by (auto simp: defined_def op_notif_def primitive_defs split: list.split option.split)

lemma defined_op_else: "defined op_else"
  by (auto simp: defined_def op_else_def primitive_defs split: list.split option.split)

lemma defined_op_endif: "defined op_endif"
  by (auto simp: defined_def op_endif_def primitive_defs split: list.split option.split)

lemma defined_op_verify: "defined op_verify"
  by (auto simp: defined_def op_verify_def primitive_defs split: list.split option.split)

lemma defined_op_return: "defined op_return"
  by (auto simp: defined_def op_return_def primitive_defs split: list.split option.split)

lemma defined_op_to_alt_stack: "defined op_to_alt_stack"
  by (auto simp: defined_def op_to_alt_stack_def primitive_defs split: list.split option.split)

lemma defined_op_from_alt_stack: "defined op_from_alt_stack"
  by (auto simp: defined_def op_from_alt_stack_def primitive_defs split: list.split option.split)

lemma defined_op_drop2: "defined op_drop2"
  by (auto simp: defined_def op_drop2_def primitive_defs split: list.split option.split)

lemma defined_op_dup2: "defined op_dup2"
  by (auto simp: defined_def op_dup2_def primitive_defs split: list.split option.split)

lemma defined_op_dup3: "defined op_dup3"
  by (auto simp: defined_def op_dup3_def primitive_defs split: list.split option.split)

lemma defined_op_over2: "defined op_over2"
  by (auto simp: defined_def op_over2_def primitive_defs split: list.split option.split)

lemma defined_op_rot2: "defined op_rot2"
  by (auto simp: defined_def op_rot2_def primitive_defs split: list.split option.split)

lemma defined_op_swap2: "defined op_swap2"
  by (auto simp: defined_def op_swap2_def primitive_defs split: list.split option.split)

lemma defined_op_if_dup: "defined op_if_dup"
  by (auto simp: defined_def op_if_dup_def primitive_defs split: list.split option.split)

lemma defined_op_drop: "defined op_drop"
  by (auto simp: defined_def op_drop_def primitive_defs split: list.split option.split)

lemma defined_op_dup: "defined op_dup"
  by (auto simp: defined_def op_dup_def primitive_defs split: list.split option.split)

lemma defined_op_nip: "defined op_nip"
  by (auto simp: defined_def op_nip_def primitive_defs split: list.split option.split)

lemma defined_op_over: "defined op_over"
  by (auto simp: defined_def op_over_def primitive_defs split: list.split option.split)

lemma defined_op_pick: "defined op_pick"
  by (auto simp: defined_def op_pick_def primitive_defs split: list.split option.split)

lemma defined_op_rot: "defined op_rot"
  by (auto simp: defined_def op_rot_def primitive_defs split: list.split option.split)

lemma defined_op_swap: "defined op_swap"
  by (auto simp: defined_def op_swap_def primitive_defs split: list.split option.split)

lemma defined_op_tuck: "defined op_tuck"
  by (auto simp: defined_def op_tuck_def primitive_defs split: list.split option.split)

lemma defined_op_cat: "defined op_cat"
  by (auto simp: defined_def op_cat_def primitive_defs split: list.split option.split)

lemma defined_op_split: "defined op_split"
  by (auto simp: defined_def op_split_def primitive_defs split: list.split option.split)

lemma defined_op_reverse_bytes: "defined op_reverse_bytes"
  by (auto simp: defined_def op_reverse_bytes_def primitive_defs split: list.split option.split)

lemma defined_op_equal: "defined op_equal"
  by (auto simp: defined_def op_equal_def primitive_defs split: list.split option.split)

lemma defined_op_equal_verify: "defined op_equal_verify"
  by (auto simp: defined_def op_equal_verify_def primitive_defs split: list.split option.split)

lemma defined_op_num2bin: "defined op_num2bin"
  by (auto simp: defined_def op_num2bin_def primitive_defs split: list.split option.split)

lemma defined_op_bin2num: "defined op_bin2num"
  by (auto simp: defined_def op_bin2num_def primitive_defs split: list.split option.split)

lemma defined_op_size: "defined op_size"
  by (auto simp: defined_def op_size_def primitive_defs split: list.split option.split)

lemma defined_op_depth: "defined op_depth"
  by (auto simp: defined_def op_depth_def primitive_defs split: list.split option.split)

lemma defined_op_add1: "defined op_add1"
  by (auto simp: defined_def op_add1_def push_number_result_def push_bool_result_def tally_quadratic_def primitive_defs split: list.split option.split
      dest!: set_data_not_min
      dest: safe_add_1_defined simp: div_mod_defined number_neg_defined)

lemma defined_op_negate: "defined op_negate"
  by (auto simp: defined_def op_negate_def push_number_result_def push_bool_result_def tally_quadratic_def primitive_defs split: list.split option.split
      dest!: set_data_not_min
      dest: safe_add_1_defined simp: div_mod_defined number_neg_defined)

lemma defined_op_abs: "defined op_abs"
  by (auto simp: defined_def op_abs_def push_number_result_def push_bool_result_def tally_quadratic_def primitive_defs split: list.split option.split
      dest!: set_data_not_min
      dest: safe_add_1_defined simp: div_mod_defined number_neg_defined)

lemma defined_op_not: "defined op_not"
  by (auto simp: defined_def op_not_def push_number_result_def push_bool_result_def tally_quadratic_def primitive_defs split: list.split option.split
      dest!: set_data_not_min
      dest: safe_add_1_defined simp: div_mod_defined number_neg_defined)

lemma defined_op_nonzero: "defined op_nonzero"
  by (auto simp: defined_def op_nonzero_def push_number_result_def push_bool_result_def tally_quadratic_def primitive_defs split: list.split option.split
      dest!: set_data_not_min
      dest: safe_add_1_defined simp: div_mod_defined number_neg_defined)

lemma defined_op_div: "defined op_div"
  by (auto simp: defined_def op_div_def push_number_result_def push_bool_result_def tally_quadratic_def primitive_defs split: list.split option.split
      dest!: set_data_not_min
      dest: safe_add_1_defined simp: div_mod_defined number_neg_defined)

lemma defined_op_mod: "defined op_mod"
  by (auto simp: defined_def op_mod_def push_number_result_def push_bool_result_def tally_quadratic_def primitive_defs split: list.split option.split
      dest!: set_data_not_min
      dest: safe_add_1_defined simp: div_mod_defined number_neg_defined)

lemma defined_op_bool_and: "defined op_bool_and"
  by (auto simp: defined_def op_bool_and_def push_number_result_def push_bool_result_def tally_quadratic_def primitive_defs split: list.split option.split
      dest!: set_data_not_min
      dest: safe_add_1_defined simp: div_mod_defined number_neg_defined)

lemma defined_op_bool_or: "defined op_bool_or"
  by (auto simp: defined_def op_bool_or_def push_number_result_def push_bool_result_def tally_quadratic_def primitive_defs split: list.split option.split
      dest!: set_data_not_min
      dest: safe_add_1_defined simp: div_mod_defined number_neg_defined)

lemma defined_op_num_equal: "defined op_num_equal"
  by (auto simp: defined_def op_num_equal_def push_number_result_def push_bool_result_def tally_quadratic_def primitive_defs split: list.split option.split
      dest!: set_data_not_min
      dest: safe_add_1_defined simp: div_mod_defined number_neg_defined)

lemma defined_op_num_equal_verify: "defined op_num_equal_verify"
  by (auto simp: defined_def op_num_equal_verify_def push_number_result_def push_bool_result_def tally_quadratic_def primitive_defs split: list.split option.split
      dest!: set_data_not_min
      dest: safe_add_1_defined simp: div_mod_defined number_neg_defined)

lemma defined_op_num_not_equal: "defined op_num_not_equal"
  by (auto simp: defined_def op_num_not_equal_def push_number_result_def push_bool_result_def tally_quadratic_def primitive_defs split: list.split option.split
      dest!: set_data_not_min
      dest: safe_add_1_defined simp: div_mod_defined number_neg_defined)

lemma defined_op_less_than: "defined op_less_than"
  by (auto simp: defined_def op_less_than_def push_number_result_def push_bool_result_def tally_quadratic_def primitive_defs split: list.split option.split
      dest!: set_data_not_min
      dest: safe_add_1_defined simp: div_mod_defined number_neg_defined)

lemma defined_op_greater_than: "defined op_greater_than"
  by (auto simp: defined_def op_greater_than_def push_number_result_def push_bool_result_def tally_quadratic_def primitive_defs split: list.split option.split
      dest!: set_data_not_min
      dest: safe_add_1_defined simp: div_mod_defined number_neg_defined)

lemma defined_op_less_than_or_equal: "defined op_less_than_or_equal"
  by (auto simp: defined_def op_less_than_or_equal_def push_number_result_def push_bool_result_def tally_quadratic_def primitive_defs split: list.split option.split
      dest!: set_data_not_min
      dest: safe_add_1_defined simp: div_mod_defined number_neg_defined)

lemma defined_op_greater_than_or_equal: "defined op_greater_than_or_equal"
  by (auto simp: defined_def op_greater_than_or_equal_def push_number_result_def push_bool_result_def tally_quadratic_def primitive_defs split: list.split option.split
      dest!: set_data_not_min
      dest: safe_add_1_defined simp: div_mod_defined number_neg_defined)

lemma defined_op_min: "defined op_min"
  by (auto simp: defined_def op_min_def push_number_result_def push_bool_result_def tally_quadratic_def primitive_defs split: list.split option.split
      dest!: set_data_not_min
      dest: safe_add_1_defined simp: div_mod_defined number_neg_defined)

lemma defined_op_max: "defined op_max"
  by (auto simp: defined_def op_max_def push_number_result_def push_bool_result_def tally_quadratic_def primitive_defs split: list.split option.split
      dest!: set_data_not_min
      dest: safe_add_1_defined simp: div_mod_defined number_neg_defined)

lemma defined_op_within: "defined op_within"
  by (auto simp: defined_def op_within_def push_number_result_def push_bool_result_def tally_quadratic_def primitive_defs split: list.split option.split
      dest!: set_data_not_min
      dest: safe_add_1_defined simp: div_mod_defined number_neg_defined)

lemma defined_op_push_number: "defined (op_push_number v)"
  by (auto simp: defined_def op_push_number_def  primitive_defs split: list.split option.split)

lemma defined_op_push_size: "defined (op_push_size op)"
  by (auto simp: defined_def op_push_size_def  primitive_defs split: list.split option.split)

lemma defined_op_push_data: "defined (op_push_data d n)"
  by (auto simp: defined_def op_push_data_def  primitive_defs split: list.split option.split)

lemma defined_op_ripemd160: "defined (op_ripemd160 c)"
  by (auto simp: defined_def op_ripemd160_def  primitive_defs split: list.split option.split)

lemma defined_op_sha1: "defined (op_sha1 c)"
  by (auto simp: defined_def op_sha1_def  primitive_defs split: list.split option.split)

lemma defined_op_sha256: "defined (op_sha256 c)"
  by (auto simp: defined_def op_sha256_def  primitive_defs split: list.split option.split)

lemma defined_op_hash160: "defined (op_hash160 c)"
  by (auto simp: defined_def op_hash160_def  primitive_defs split: list.split option.split)

lemma defined_op_hash256: "defined (op_hash256 c)"
  by (auto simp: defined_def op_hash256_def  primitive_defs split: list.split option.split)

lemma defined_op_codeseparator: "defined (op_codeseparator at)"
  by (auto simp: defined_def op_codeseparator_def set_jump_register_def primitive_defs split: list.split option.split)

lemma defined_op_check_data_sig: "defined (op_check_data_sig)"
  by (auto simp: defined_def op_check_data_sig_def  primitive_defs split: list.split option.split)

lemma defined_op_check_data_sig_verify: "defined (op_check_data_sig_verify)"
  by (auto simp: defined_def op_check_data_sig_verify_def  primitive_defs split: list.split option.split)

lemma defined_op_check_locktime_verify: "defined (op_check_locktime_verify)"
  by (auto simp: defined_def op_check_locktime_verify_def op_nop_def primitive_defs split: list.split option.split)

lemma defined_op_check_sequence_verify: "defined (op_check_sequence_verify)"
  by (auto simp: defined_def op_check_sequence_verify_def op_nop_def primitive_defs split: list.split option.split)

lemma defined_op_introspection: "defined (op_introspection e)"
  by (auto simp: defined_def op_introspection_def  primitive_defs split: list.split option.split)

lemma defined_bitwise: "defined (bitwise_operation_generic e op)"
  unfolding defined_def
proof (intro allI impI)
  fix p
  show "wp False (bitwise_operation_generic e op p) (\<lambda>_. True)"
  proof (cases "length (primary p) < 2")
    case False
    then obtain a b xs where "primary p = a # b # xs" by (meson length_ge_2E not_less)
    then show ?thesis by (simp add: bitwise_operation_generic_def primitive_defs)
  qed (simp add: bitwise_operation_generic_def failed_def)
qed

lemma defined_bit_ops: "defined op_and" "defined op_or" "defined op_xor"
  using defined_bitwise by (simp_all add: defined_def op_and_def op_or_def op_xor_def)

lemma check_program_signature_defined:
  "unat (prog_input_index p) < length (tx_inputs (prog_tx p)) \<Longrightarrow>
     check_program_signature c p sig t key s = None \<longleftrightarrow> False"
  using check_signature_Some by (auto simp: check_program_signature_def)

lemma defined_op_check_sig: "defined (op_check_sig c)"
  by (auto simp: defined_def op_check_sig_def op_check_sig_common_def primitive_defs
      check_program_signature_defined split: list.split option.split)

lemma op_check_sig_verify_None:
  assumes "unat (prog_input_index p) < length (tx_inputs (prog_tx p))"
  shows "op_check_sig_verify c p = None \<longleftrightarrow> length (primary p) = 0 \<or> length (primary p) = 2"
proof -
  have "wp False (op_check_sig_verify c p) (\<lambda>_. True) \<longleftrightarrow> \<not> (length (primary p) = 0 \<or> length (primary p) = 2)"
    using assms
    by (auto simp: op_check_sig_verify_def op_check_sig_common_def primitive_defs
        check_program_signature_defined split: list.split option.split)
  then show ?thesis by (cases "op_check_sig_verify c p") auto
qed

lemma match_key_defined:
  assumes "keys \<noteq> []" "\<And>key. check key \<noteq> None"
  obtains "match_key check keys = Some None"
  | keys' where "match_key check keys = Some (Some keys')" "keys' \<noteq> []"
  using assms(1)
proof (induction keys arbitrary: thesis)
  case (Cons key keys)
  obtain r where r: "check key = Some r" using assms(2) by blast
  show ?case
  proof (cases "r \<or> keys = []")
    case True
    with r Cons.prems show ?thesis by (cases r) auto
  next
    case False
    show ?thesis
      by (rule Cons.IH) (use False r Cons.prems in auto)
  qed
qed simp

lemma multisig_loop_defined:
  assumes "unat (prog_input_index p) < length (tx_inputs (prog_tx p))" "es = [] \<or> keys \<noteq> []"
  shows "multisig_loop c p s bip66 es keys = None \<longleftrightarrow> False"
  using assms(2)
proof (induction es arbitrary: keys)
  case (Cons e es)
  show ?case
  proof (cases "parse_endorsement e")
    case (Some x)
    obtain t d where x: "x = (t, d)" by fastforce
    show ?thesis
    proof (cases "parse_signature c d bip66")
      case sig: (Some sig)
      show ?thesis
        by (rule match_key_defined [of keys "\<lambda>key. map_option fst (check_program_signature c p sig t key s)"])
          (use Cons Some x sig check_program_signature_defined [OF assms(1)] in auto)
    qed (simp add: Some x)
  qed simp
qed simp

lemma multisig_loop_None:
  assumes "multisig_loop c p s bip66 es keys = None"
    and "unat (prog_input_index p) < length (tx_inputs (prog_tx p))"
  shows "es \<noteq> [] \<and> keys = []"
  using assms multisig_loop_defined by blast

lemma consumes_same: "consumes n p q \<Longrightarrow> prog_input_index q = prog_input_index p \<and> prog_tx q = prog_tx p"
  by (simp add: consumes_def same_registers_def)

lemma op_check_multisig_verify_defined:
  assumes "unat (prog_input_index p) < length (tx_inputs (prog_tx p))"
  shows "op_check_multisig_verify c p \<noteq> None"
proof
  assume "op_check_multisig_verify c p = None"
  then show False
    using assms unfolding op_check_multisig_verify_def
    by (auto simp: failed_def bind_eq_None_conv pop_def pop_section_def
        split: prod.splits option.splits bool.splits if_splits list.splits
        dest!: consumes_primitives consumes_same multisig_loop_None)
qed


text \<open>The numeric operation whose result is the least \<open>int64_t\<close>, which \<open>number::data()\<close> cannot encode.\<close>

definition least_result :: "opcode \<Rightarrow> program \<Rightarrow> bool" where
  "least_result code p \<longleftrightarrow>
     (case fst (pop_number (max_integer_size_legacy p) p) of
        Some n \<Rightarrow> code = opcode_sub1 \<and> n - 1 = min_int64 | None \<Rightarrow> False) \<or>
     (case fst (pop_binary p) of
        Some (first, second) \<Rightarrow>
          (code = opcode_add \<and> first + second = min_int64) \<or>
          (code = opcode_sub \<and> second - first = min_int64) \<or>
          (code = opcode_mul \<and> first * second = min_int64)
      | None \<Rightarrow> False)"

lemma number_data_not_min: "number_data v = Some d \<Longrightarrow> v \<noteq> min_int64"
  by (auto simp: number_data_def)

lemma least_result_ops:
  "op_sub1 p = None \<longleftrightarrow> least_result opcode_sub1 p"
  "op_add p = None \<longleftrightarrow> least_result opcode_add p"
  "op_sub p = None \<longleftrightarrow> least_result opcode_sub p"
  "op_mul p = None \<longleftrightarrow> least_result opcode_mul p"
  unfolding wp_defined
  by (auto simp: least_result_def op_sub1_def op_add_def op_sub_def op_mul_def
      push_number_result_def tally_quadratic_def primitive_defs safe_add_def safe_sub_def safe_mul_def
      int64_range_def split: list.split option.split dest!: set_data_not_min number_data_not_min)

lemma op_roll_None: "op_roll p = None \<longleftrightarrow> fst (pop_position p) \<noteq> None"
  by (auto simp: op_roll_def failed_def split: prod.splits option.splits)

lemma pop_position_tally [simp]: "fst (pop_position (tally n p)) = fst (pop_position p)"
  by (simp add: tally_def primitive_defs split: list.split option.split)

lemma least_result_codes:
  "least_result code p \<Longrightarrow> code \<in> {opcode_sub1, opcode_add, opcode_sub, opcode_mul}"
  by (auto simp: least_result_def split: option.splits)

lemma least_result_tally [simp]: "least_result code (tally n p) = least_result code p"
  by (simp add: least_result_def tally_def primitive_defs split: list.split option.split)

lemma defined_op_check_multisig_verify: "defined (op_check_multisig_verify c)"
  unfolding defined_iff using op_check_multisig_verify_defined by blast

lemma defined_op_check_multisig: "defined (op_check_multisig c)"
  unfolding defined_iff op_check_multisig_def
  using op_check_multisig_verify_defined
  by (simp add: bind_eq_None_conv ok_def failed_def split: prod.split del: not_None_eq)

lemmas defined_ops =
  defined_op_nop defined_op_disabled defined_op_reserved defined_op_push_number
  defined_op_push_size defined_op_push_data defined_op_if defined_op_notif defined_op_else
  defined_op_endif defined_op_verify defined_op_return defined_op_to_alt_stack
  defined_op_from_alt_stack defined_op_drop2 defined_op_dup2 defined_op_dup3 defined_op_over2
  defined_op_rot2 defined_op_swap2 defined_op_if_dup defined_op_depth defined_op_drop
  defined_op_dup defined_op_nip defined_op_over defined_op_pick defined_op_rot
  defined_op_swap defined_op_tuck defined_op_cat defined_op_split defined_op_reverse_bytes
  defined_op_num2bin defined_op_bin2num defined_op_size defined_op_equal defined_op_equal_verify
  defined_op_add1 defined_op_negate defined_op_abs defined_op_not defined_op_nonzero
  defined_op_div defined_op_mod defined_op_bool_and defined_op_bool_or defined_op_num_equal
  defined_op_num_equal_verify defined_op_num_not_equal defined_op_less_than
  defined_op_greater_than defined_op_less_than_or_equal defined_op_greater_than_or_equal
  defined_op_min defined_op_max defined_op_within defined_op_ripemd160 defined_op_sha1
  defined_op_sha256 defined_op_hash160 defined_op_hash256 defined_op_codeseparator
  defined_op_check_data_sig defined_op_check_data_sig_verify defined_op_check_locktime_verify
  defined_op_check_sequence_verify defined_op_introspection defined_op_check_sig
  defined_op_check_multisig defined_op_check_multisig_verify

text \<open>The operations with a case that is undefined.\<close>

definition partial_codes :: "opcode list" where
  "partial_codes = [opcode_roll, opcode_sub1, opcode_add, opcode_sub, opcode_mul, opcode_checksigverify]"

definition defined_case :: "opcode \<times> (program \<Rightarrow> op_result) \<Rightarrow> bool" where
  "defined_case kf \<longleftrightarrow> fst kf \<in> set partial_codes \<or> defined (snd kf)"

lemma defined_tables:
  "list_all defined_case (push_cases op)"
  "list_all defined_case control_cases"
  "list_all defined_case stack_cases"
  "list_all defined_case splice_cases"
  "list_all defined_case introspection_cases"
  "list_all defined_case bit_cases"
  "list_all defined_case numeric_cases"
  "list_all defined_case (crypto_cases c at)"
  "list_all defined_case expansion_cases"
  by (simp_all add: push_cases_def control_cases_def stack_cases_def splice_cases_def
      introspection_cases_def bit_cases_def numeric_cases_def crypto_cases_def expansion_cases_def
      list_all_iff defined_case_def defined_ops defined_bit_ops partial_codes_def)

lemma run_op_defined:
  assumes "op_code op \<notin> set partial_codes" "unat (prog_input_index p) < length (tx_inputs (prog_tx p))"
  shows "run_op c at op p \<noteq> None"
proof -
  let ?t = "push_cases op @ control_cases @ stack_cases @ splice_cases @ introspection_cases @
    bit_cases @ numeric_cases @ crypto_cases c at @ expansion_cases" and ?p = "tally opcode_cost p"
  have t: "list_all defined_case ?t" using defined_tables by simp
  have p: "unat (prog_input_index ?p) < length (tx_inputs (prog_tx ?p))" using assms(2) by (simp add: tally_def)
  have d: "f ?p \<noteq> None" if "defined f" for f
    using that p unfolding defined_iff by blast
  show ?thesis
  proof (cases "map_of ?t (op_code op)")
    case None
    with d [OF defined_op_push_size] d [OF defined_op_reserved] show ?thesis
      by (simp add: run_op_def Let_def del: map_of_append)
  next
    case (Some f)
    then have "(op_code op, f) \<in> set ?t" by (rule map_of_SomeD)
    with t assms(1) have "defined f" unfolding list_all_iff defined_case_def by fastforce
    with Some d [OF defined_op_push_size] d [of f] show ?thesis
      by (simp add: run_op_def Let_def del: map_of_append)
  qed
qed

section \<open>Properties\<close>

lemma make_program_within:
  assumes "make_program s tx i f stack v = Some p" "length stack \<le> max_stack_size"
    and "small (max_script_element_size p) stack"
  shows "within_limits p"
  using assms by (auto simp: make_program_def within_limits_def program_ok_def stack_depth_def)

text \<open>C14: The limits of the machine. A program that starts with a stack within the limits and runs to
  success has an empty conditional stack, at most 1000 items on its stacks, none of them longer than
  the limit its forks set, at most 201 counted operations (221 when \<open>CHECKMULTISIG\<close> reports the excess
  as a failed check), and its script, transaction, input index, forks and value are unchanged.\<close>

theorem run_within_limits:
  assumes "crypto_ok c" "make_program s tx i f stack v = Some p" "length stack \<le> max_stack_size"
    and "small (max_script_element_size p) stack" "run c p = Some (success, p')"
  shows "condition p' = [] \<and> succeeded p' \<and> stack_depth p' \<le> max_stack_size \<and>
    small (max_script_element_size p) (primary p' @ alternate p') \<and>
    operation_count p' \<le> max_counted_ops + max_script_public_keys \<and> same_registers p p'"
proof -
  have "run_loop c 0 (prog_ops p) p = Some (success, p')"
    using assms(5) by (auto simp: run_def failed_def split: if_splits)
  from run_loop_keeps [OF assms(1) this make_program_within [OF assms(2-4)]] show ?thesis
    by (auto simp: within_limits_def program_ok_def same_registers_def succeeded_def
        max_script_element_size_def)
qed

definition example_ops :: "operation list" where
  "example_ops = [operation_of_data [5] True, operation_of_opcode opcode_dup, operation_of_opcode opcode_add]"

lemma example_run:
  "map_option (\<lambda>(e, p). (e, primary p))
     (Option.bind (make_program (script_from_operations example_ops) example_tx 0 0 [] 0)
       (run example_crypto)) = Some (success, [[10]])"
  by (simp add: run_defs example_ops_def operation_of_opcode_def operation_of_data_def
      opcode_from_data_def minimal_opcode_from_data_def
      opcode_from_positive_def op_is_payload_def run_op_def switch_defs upt_rec primitive_defs
       max_script_element_size_def operations_to_data_def operation_to_data_def op_dup_def op_add_def
      op_push_number_def
      set_data_value max_integer_size_legacy_def sm_value_def safe_add_def int64_range_def
      push_number_result_def number_data_def absolute_bytes.simps is_negative_def)

theorem run_within_limits_witness:
  "\<exists>p p'. make_program (script_from_operations example_ops) example_tx 0 0 [] 0 = Some p \<and>
     run example_crypto p = Some (success, p') \<and> primary p' = [[10]] \<and> stack_depth p' \<le> max_stack_size"
proof -
  let ?s = "script_from_operations example_ops"
  obtain p p' where p: "make_program ?s example_tx 0 0 [] 0 = Some p"
    and p': "run example_crypto p = Some (success, p')" "primary p' = [[10]]"
    using example_run by (auto simp: bind_eq_Some_conv)
  from run_within_limits [OF example_crypto_ok p _ _ p'(1)] p p' show ?thesis by auto
qed

text \<open>C15: Where an operation is undefined. Evaluating an operation for an input of the transaction is
  undefined in exactly three cases: ROLL with a position on the stack, since the position is used again after its item
  was erased; CHECKSIGVERIFY on an empty stack or on one with only its two arguments; and SUB1, ADD, SUB or MUL whose
  result is the least int64. Every other operation on every stack returns.\<close>

theorem run_op_undefined_iff:
  assumes "unat (prog_input_index p) < length (tx_inputs (prog_tx p))"
  shows "run_op c at op p = None \<longleftrightarrow>
    (op_code op = opcode_roll \<and> fst (pop_position p) \<noteq> None) \<or>
    (op_code op = opcode_checksigverify \<and> (length (primary p) = 0 \<or> length (primary p) = 2)) \<or>
    least_result (op_code op) p"
proof (cases "op_code op \<in> set partial_codes")
  case False
  then have "\<not> least_result (op_code op) p" "op_code op \<noteq> opcode_checksigverify" "op_code op \<noteq> opcode_roll"
    using least_result_codes [of "op_code op" p] by (auto simp: partial_codes_def)
  with run_op_defined [OF False assms] show ?thesis by blast
next
  case True
  have "op_check_sig_verify c (tally opcode_cost p) = None \<longleftrightarrow> length (primary p) = 0 \<or> length (primary p) = 2"
    using op_check_sig_verify_None [of "tally opcode_cost p"] assms by (simp add: tally_def)
  moreover have "op_roll (tally opcode_cost p) = None \<longleftrightarrow> fst (pop_position p) \<noteq> None"
    using op_roll_None [of "tally opcode_cost p"] by simp
  ultimately show ?thesis
    using True least_result_codes [of opcode_checksigverify p] least_result_codes [of opcode_roll p]
    by (auto simp: partial_codes_def run_op_dispatch least_result_ops)
qed

definition example_program :: "bytes list \<Rightarrow> forks \<Rightarrow> program" where
  "example_program stack forks =
     \<lparr>prog_script = script_default, prog_ops = [], prog_tx = example_tx, prog_input_index = 0,
      prog_forks = forks, prog_value = 0, negative_count = 0, operation_count = 0, prog_jump = 0,
      primary = stack, alternate = [], condition = [], prog_metrics = metrics_default\<rparr>"

theorem run_op_undefined_iff_witness:
  "run_op example_crypto None (operation_of_opcode opcode_checksigverify)
     (example_program [[2], [1]] 0) = None \<and>
   run_op example_crypto None (operation_of_opcode opcode_roll) (example_program [[1], [2], [3]] 0) = None \<and>
   run_op example_crypto None (operation_of_opcode opcode_add) (example_program [[2], [1]] 0) \<noteq> None"
proof -
  have idx: "unat (prog_input_index (example_program stack 0)) < length (tx_inputs (prog_tx (example_program stack 0)))"
    for stack by (simp add: example_program_def example_tx_def)
  show ?thesis
    unfolding run_op_undefined_iff [OF idx]
    by (simp add: operation_of_opcode_def least_result_def example_program_def primitive_defs
        max_integer_size_legacy_def is_enabled_def set_data_value sm_value_def int32_def)
qed

end
