(* ===== verification/Interpreter_Spec.thy ===== *)
theory Interpreter_Spec
  imports Interpreter_Safety
begin

text \<open>
  What the operations compute, against specifications that do not mention programs: the effect of a
  stack operation on a list of items, the result of a numeric operation on two integers, the keys
  that satisfy a multisignature check, the conditions of the two lock operations, and the blocks of
  operations that a false branch skips.
\<close>

section \<open>Stack operations\<close>

text \<open>The number on top of a stack, as an index into the items below it.\<close>

definition index_spec :: "nat \<Rightarrow> bytes list \<Rightarrow> (nat \<times> bytes list) option" where
  "index_spec width s =
     (case s of
        [] \<Rightarrow> None
      | x # s \<Rightarrow>
          if length x \<le> width \<and> 0 \<le> sm_value x \<and> sm_value x < int (length s)
          then Some (nat (sm_value x), s) else None)"

definition stack_spec :: "nat \<Rightarrow> opcode \<Rightarrow> bytes list \<Rightarrow> bytes list option" where
  "stack_spec width code s =
     (if code = opcode_drop2 then (case s of a # b # s \<Rightarrow> Some s | _ \<Rightarrow> None)
      else if code = opcode_dup2 then (case s of a # b # s \<Rightarrow> Some (a # b # a # b # s) | _ \<Rightarrow> None)
      else if code = opcode_dup3
        then (case s of a # b # d # s \<Rightarrow> Some (a # b # d # a # b # d # s) | _ \<Rightarrow> None)
      else if code = opcode_over2
        then (case s of a # b # d # e # s \<Rightarrow> Some (d # e # a # b # d # e # s) | _ \<Rightarrow> None)
      else if code = opcode_rot2
        then (case s of a # b # d # e # f # g # s \<Rightarrow> Some (f # g # a # b # d # e # s) | _ \<Rightarrow> None)
      else if code = opcode_swap2
        then (case s of a # b # d # e # s \<Rightarrow> Some (d # e # a # b # s) | _ \<Rightarrow> None)
      else if code = opcode_drop then (case s of a # s \<Rightarrow> Some s | _ \<Rightarrow> None)
      else if code = opcode_dup then (case s of a # s \<Rightarrow> Some (a # a # s) | _ \<Rightarrow> None)
      else if code = opcode_nip then (case s of a # b # s \<Rightarrow> Some (a # s) | _ \<Rightarrow> None)
      else if code = opcode_over then (case s of a # b # s \<Rightarrow> Some (b # a # b # s) | _ \<Rightarrow> None)
      else if code = opcode_rot
        then (case s of a # b # d # s \<Rightarrow> Some (d # a # b # s) | _ \<Rightarrow> None)
      else if code = opcode_swap then (case s of a # b # s \<Rightarrow> Some (b # a # s) | _ \<Rightarrow> None)
      else if code = opcode_tuck then (case s of a # b # s \<Rightarrow> Some (a # b # a # s) | _ \<Rightarrow> None)
      else if code = opcode_ifdup
        then (case s of a # s \<Rightarrow> Some (if item_is_true a then a # a # s else a # s) | _ \<Rightarrow> None)
      else if code = opcode_pick then map_option (\<lambda>(n, s). s ! n # s) (index_spec width s)
      else None)"

definition stack_codes :: "opcode list" where
  "stack_codes = [opcode_drop2, opcode_dup2, opcode_dup3, opcode_over2, opcode_rot2, opcode_swap2,
     opcode_drop, opcode_dup, opcode_nip, opcode_over, opcode_rot, opcode_swap, opcode_tuck,
     opcode_ifdup, opcode_pick]"

definition meets :: "nat \<Rightarrow> opcode \<Rightarrow> program \<Rightarrow> op_result \<Rightarrow> bool" where
  "meets width code p m \<longleftrightarrow> wp False m (\<lambda>(e, p').
     (case stack_spec width code (primary p) of
        Some s \<Rightarrow> e = success \<and> primary p' = s
      | None \<Rightarrow> e \<noteq> success) \<and>
     alternate p' = alternate p \<and> condition p' = condition p \<and> same_registers p p')"

text \<open>Stacks by the number of their items, as far as the operations look.\<close>

lemma stack_upto_6:
  obtains "s = []" | a where "s = [a]" | a b where "s = [a, b]" | a b d where "s = [a, b, d]"
  | a b d e where "s = [a, b, d, e]" | a b d e f where "s = [a, b, d, e, f]"
  | a b d e f g s' where "s = a # b # d # e # f # g # s'"
  by (metis list.exhaust)

lemmas spec_defs = meets_def stack_spec_def primitive_defs same_registers_def

lemma meets_op_drop2: "meets w opcode_drop2 p (op_drop2 p)"
  by (cases "primary p" rule: stack_upto_6) (simp_all add: op_drop2_def spec_defs)

lemma meets_op_dup2: "meets w opcode_dup2 p (op_dup2 p)"
  by (cases "primary p" rule: stack_upto_6) (simp_all add: op_dup2_def spec_defs)

lemma meets_op_dup3: "meets w opcode_dup3 p (op_dup3 p)"
  by (cases "primary p" rule: stack_upto_6) (simp_all add: op_dup3_def spec_defs)

lemma meets_op_over2: "meets w opcode_over2 p (op_over2 p)"
  by (cases "primary p" rule: stack_upto_6) (simp_all add: op_over2_def spec_defs)

lemma meets_op_rot2: "meets w opcode_rot2 p (op_rot2 p)"
  by (cases "primary p" rule: stack_upto_6) (simp_all add: op_rot2_def spec_defs)

lemma meets_op_swap2: "meets w opcode_swap2 p (op_swap2 p)"
  by (cases "primary p" rule: stack_upto_6) (simp_all add: op_swap2_def spec_defs)

lemma meets_op_drop: "meets w opcode_drop p (op_drop p)"
  by (cases "primary p" rule: stack_upto_6) (simp_all add: op_drop_def spec_defs)

lemma meets_op_dup: "meets w opcode_dup p (op_dup p)"
  by (cases "primary p" rule: stack_upto_6) (simp_all add: op_dup_def spec_defs)

lemma meets_op_nip: "meets w opcode_nip p (op_nip p)"
  by (cases "primary p" rule: stack_upto_6) (simp_all add: op_nip_def spec_defs)

lemma meets_op_over: "meets w opcode_over p (op_over p)"
  by (cases "primary p" rule: stack_upto_6) (simp_all add: op_over_def spec_defs)

lemma meets_op_rot: "meets w opcode_rot p (op_rot p)"
  by (cases "primary p" rule: stack_upto_6) (simp_all add: op_rot_def spec_defs)

lemma meets_op_swap: "meets w opcode_swap p (op_swap p)"
  by (cases "primary p" rule: stack_upto_6) (simp_all add: op_swap_def spec_defs)

lemma meets_op_tuck: "meets w opcode_tuck p (op_tuck p)"
  by (cases "primary p" rule: stack_upto_6) (simp_all add: op_tuck_def spec_defs)

lemma meets_op_if_dup: "meets w opcode_ifdup p (op_if_dup p)"
  by (cases "primary p" rule: stack_upto_6) (simp_all add: op_if_dup_def spec_defs)

lemma pop_position_spec:
  assumes "length (primary p) \<le> max_stack_size"
  shows "pop_position p = (case index_spec (max_integer_size_legacy p) (primary p) of
     Some (n, s) \<Rightarrow> (Some n, p\<lparr>primary := s\<rparr>)
   | None \<Rightarrow> (None, p\<lparr>primary := tl (primary p)\<rparr>))"
  using assms max_integer_size_le [of p]
  by (auto simp: index_spec_def primitive_defs set_data_value int32_def split: list.split)

lemma index_spec_less: "index_spec w s = Some (n, s') \<Longrightarrow> n < length s'"
  by (auto simp: index_spec_def split: list.splits if_splits)

lemma meets_op_pick:
  "length (primary p) \<le> max_stack_size \<Longrightarrow> meets (max_integer_size_legacy p) opcode_pick p (op_pick p)"
  by (auto simp: op_pick_def pop_position_spec meets_def stack_spec_def same_registers_def ok_def failed_def
      item_def tally_top_def top_def tally_def push_move_def add_op_cost_def index_spec_less
      split: option.split)

lemmas meets_ops =
  meets_op_drop2 meets_op_dup2 meets_op_dup3 meets_op_over2 meets_op_rot2 meets_op_swap2 meets_op_drop
  meets_op_dup meets_op_nip meets_op_over meets_op_rot meets_op_swap meets_op_tuck meets_op_if_dup
  meets_op_pick

lemma run_op_stack_meets:
  assumes "length (primary p) \<le> max_stack_size" "op_code op \<in> set stack_codes"
  shows "meets (max_integer_size_legacy p) (op_code op) (tally opcode_cost p) (run_op c at op p)"
proof -
  let ?p = "tally opcode_cost p"
  have p: "length (primary ?p) \<le> max_stack_size" "max_integer_size_legacy ?p = max_integer_size_legacy p"
    using assms(1) by (simp_all add: tally_def)
  from assms(2) show ?thesis
    using meets_ops [where p = ?p] p
    by (auto simp: stack_codes_def run_op_dispatch)
qed

text \<open>Both stacks: the operations that move an item to the other stack and back, and the one that pushes the number of items.\<close>

definition stacks_spec :: "nat \<Rightarrow> opcode \<Rightarrow> bytes list \<times> bytes list \<Rightarrow> (bytes list \<times> bytes list) option" where
  "stacks_spec width code = (\<lambda>(s, a).
     if code = opcode_toaltstack then (case s of x # s \<Rightarrow> Some (s, x # a) | [] \<Rightarrow> None)
     else if code = opcode_fromaltstack then (case a of x # a \<Rightarrow> Some (x # s, a) | [] \<Rightarrow> None)
     else if code = opcode_depth then Some (the (number_data (int (length s))) # s, a)
     else map_option (\<lambda>s. (s, a)) (stack_spec width code s))"

definition stacks_codes :: "opcode list" where
  "stacks_codes = [opcode_toaltstack, opcode_fromaltstack, opcode_depth] @ stack_codes"

definition meets_both :: "nat \<Rightarrow> opcode \<Rightarrow> program \<Rightarrow> op_result \<Rightarrow> bool" where
  "meets_both width code p m \<longleftrightarrow> wp False m (\<lambda>(e, p').
     (case stacks_spec width code (primary p, alternate p) of
        Some (s, a) \<Rightarrow> e = success \<and> primary p' = s \<and> alternate p' = a
      | None \<Rightarrow> e \<noteq> success \<and> alternate p' = alternate p) \<and>
     condition p' = condition p \<and> same_registers p p')"

lemmas both_defs = meets_both_def stacks_spec_def primitive_defs same_registers_def

lemma meets_op_to_alt_stack: "meets_both w opcode_toaltstack p (op_to_alt_stack p)"
  by (cases "primary p") (simp_all add: op_to_alt_stack_def both_defs)

lemma meets_op_from_alt_stack: "meets_both w opcode_fromaltstack p (op_from_alt_stack p)"
  by (cases "alternate p") (simp_all add: op_from_alt_stack_def both_defs)

lemma meets_op_depth: "meets_both w opcode_depth p (op_depth p)"
  by (auto simp: op_depth_def both_defs split: option.split)

lemma meets_both_of_meets:
  assumes "meets w code p m" "code \<in> set stack_codes"
  shows "meets_both w code p m"
proof -
  have "stacks_spec w code (primary p, alternate p) = map_option (\<lambda>s. (s, alternate p)) (stack_spec w code (primary p))"
    using assms(2) by (auto simp: stacks_spec_def stack_codes_def)
  with assms(1) show ?thesis
    by (cases "stack_spec w code (primary p)") (auto simp: meets_def meets_both_def)
qed

lemma run_op_stacks_meets:
  assumes "length (primary p) \<le> max_stack_size" "op_code op \<in> set stacks_codes"
  shows "meets_both (max_integer_size_legacy p) (op_code op) (tally opcode_cost p) (run_op c at op p)"
proof (cases "op_code op \<in> set stack_codes")
  case True
  with run_op_stack_meets [OF assms(1)] meets_both_of_meets show ?thesis by blast
next
  case False
  with assms(2) show ?thesis
    using meets_op_to_alt_stack meets_op_from_alt_stack meets_op_depth
    by (auto simp: stacks_codes_def run_op_dispatch)
qed

text \<open>C16: Every operation that rearranges the stack or moves items between the two stacks, and the one that pushes the number
  of items, does to the two stacks what its specification on lists says, as long as the stack is within its limit of items,
  and fails exactly where that is undefined; the conditions and the registers stay. ROLL is not among them, since its
  success is undefined.\<close>

theorem stack_operations_refine:
  assumes "length (primary p) \<le> max_stack_size" "op_code op \<in> set stacks_codes"
  shows "\<exists>e p'. run_op c at op p = Some (e, p') \<and>
    (case stacks_spec (max_integer_size_legacy p) (op_code op) (primary p, alternate p) of
       Some (s, a) \<Rightarrow> e = success \<and> primary p' = s \<and> alternate p' = a
     | None \<Rightarrow> e \<noteq> success \<and> alternate p' = alternate p) \<and>
    condition p' = condition p \<and> same_registers p p'"
proof -
  from run_op_stacks_meets [OF assms, of c at] show ?thesis
    by (cases "run_op c at op p") (auto simp: meets_both_def tally_def same_registers_def add_op_cost_def split: option.splits)
qed

theorem stack_operations_refine_witness:
  "\<exists>p'. run_op example_crypto None (operation_of_opcode opcode_toaltstack) (example_program [[1], [2], [3]] 0) =
     Some (success, p') \<and> primary p' = [[2], [3]] \<and> alternate p' = [[1]]"
  using stack_operations_refine [of "example_program [[1], [2], [3]] 0" "operation_of_opcode opcode_toaltstack"
      example_crypto None]
  by (auto simp: example_program_def operation_of_opcode_def stacks_codes_def stacks_spec_def)

section \<open>Numeric operations\<close>

text \<open>The operands in the order in which they were pushed; \<open>None\<close> is an operation that fails.\<close>

definition unary_spec :: "opcode \<Rightarrow> int \<Rightarrow> int option" where
  "unary_spec code x =
     (if code = opcode_add1 then Some (x + 1)
      else if code = opcode_sub1 then Some (x - 1)
      else if code = opcode_negate then Some (- x)
      else if code = opcode_abs then Some (\<bar>x\<bar>)
      else if code = opcode_not then Some (of_bool (x = 0))
      else if code = opcode_nonzero then Some (of_bool (x \<noteq> 0))
      else None)"

definition binary_spec :: "opcode \<Rightarrow> int \<Rightarrow> int \<Rightarrow> int option" where
  "binary_spec code x y =
     (if code = opcode_add then Some (x + y)
      else if code = opcode_sub then Some (x - y)
      else if code = opcode_mul then Some (x * y)
      else if code = opcode_booland then Some (of_bool (x \<noteq> 0 \<and> y \<noteq> 0))
      else if code = opcode_boolor then Some (of_bool (x \<noteq> 0 \<or> y \<noteq> 0))
      else if code = opcode_numequal then Some (of_bool (x = y))
      else if code = opcode_numnotequal then Some (of_bool (x \<noteq> y))
      else if code = opcode_lessthan then Some (of_bool (x < y))
      else if code = opcode_greaterthan then Some (of_bool (x > y))
      else if code = opcode_lessthanorequal then Some (of_bool (x \<le> y))
      else if code = opcode_greaterthanorequal then Some (of_bool (x \<ge> y))
      else if code = opcode_min then Some (min x y)
      else if code = opcode_max then Some (max x y)
      else if code = opcode_div then (if y = 0 then None else Some (x sdiv y))
      else if code = opcode_mod then (if y = 0 then None else Some (x smod y))
      else None)"

fun numeric_spec :: "opcode \<Rightarrow> int list \<Rightarrow> int option" where
  "numeric_spec code [x] = unary_spec code x"
| "numeric_spec code [x, y] = binary_spec code x y"
| "numeric_spec code [x, y, z] =
     (if code = opcode_within then Some (of_bool (y \<le> x \<and> x < z)) else None)"
| "numeric_spec code xs = None"

definition unary_codes :: "opcode list" where
  "unary_codes = [opcode_add1, opcode_sub1, opcode_negate, opcode_abs, opcode_not, opcode_nonzero]"

definition binary_codes :: "opcode list" where
  "binary_codes = [opcode_add, opcode_sub, opcode_mul, opcode_booland, opcode_boolor,
     opcode_numequal, opcode_numnotequal, opcode_lessthan, opcode_greaterthan,
     opcode_lessthanorequal, opcode_greaterthanorequal, opcode_min, opcode_max, opcode_div, opcode_mod]"

definition numeric_arity :: "opcode \<Rightarrow> nat" where
  "numeric_arity code =
     (if code \<in> set unary_codes then 1 else if code \<in> set binary_codes then 2
      else if code = opcode_within then 3 else 0)"

text \<open>How a result is put on the stack.\<close>

definition pushes :: "int option \<Rightarrow> bytes list \<Rightarrow> op_result \<Rightarrow> bool" where
  "pushes r s m \<longleftrightarrow> wp False m (\<lambda>(e, p').
     case r of
       Some v \<Rightarrow> if int64_range v then e = success \<and> primary p' = the (number_data v) # s
         else e \<noteq> success
     | None \<Rightarrow> e \<noteq> success)"

lemma bool_item_number: "the (number_data (of_bool t)) = bool_item t"
  by (simp add: number_data_def bool_item_def absolute_bytes.simps is_negative_def)

lemma int64_range_of_bool [simp]: "int64_range (of_bool t)" "of_bool t \<noteq> min_int64"
  by (simp_all add: int64_range_def)

lemma pushes_bool: "pushes (Some (of_bool t)) s (push_bool_result t (p\<lparr>primary := s\<rparr>))"
  by (simp add: pushes_def push_bool_result_def bool_item_number primitive_defs)

lemmas pushes_bools = pushes_bool pushes_bool [of True, simplified] pushes_bool [of False, simplified]

lemma pushes_number:
  assumes "int64_range v" "v \<noteq> min_int64" "primary p = s"
  shows "pushes (Some v) s (push_number_result v p)"
proof -
  obtain d where "number_data v = Some d" using assms(2) by (cases "number_data v") auto
  with assms show ?thesis by (simp add: pushes_def push_number_result_def primitive_defs)
qed

lemma pushes_failed:
  "e \<noteq> success \<Longrightarrow> pushes None s (failed e p)"
  "e \<noteq> success \<Longrightarrow> \<not> int64_range v \<Longrightarrow> pushes (Some v) s (failed e p)"
  by (simp_all add: pushes_def failed_def)

lemma operand_range:
  "length x \<le> max_integer_size_legacy p \<Longrightarrow> min_int64 < sm_value x \<and> sm_value x \<le> max_int64"
  by (rule sm_value_range) (use max_integer_size_le order_trans in blast)

lemma set_data_operand:
  "length x \<le> max_integer_size_legacy p \<Longrightarrow> set_data x (max_integer_size_legacy p) = Some (sm_value x)"
  by (simp add: set_data_value max_integer_size_le)

lemma pushes_op_add1:
  assumes "primary p = x # s" "length x \<le> max_integer_size_legacy p"
    and "unary_spec opcode_add1 (sm_value x) \<noteq> Some min_int64"
  shows "pushes (unary_spec opcode_add1 (sm_value x)) s (op_add1 p)"
  using assms operand_range [OF assms(2)]
  by (auto simp: op_add1_def unary_spec_def pop_number_def set_data_operand safe_add_def safe_sub_def
      number_neg_defined number_is_true_def int64_range_def
      intro!: pushes_number pushes_bools pushes_failed)

lemma pushes_op_sub1:
  assumes "primary p = x # s" "length x \<le> max_integer_size_legacy p"
    and "unary_spec opcode_sub1 (sm_value x) \<noteq> Some min_int64"
  shows "pushes (unary_spec opcode_sub1 (sm_value x)) s (op_sub1 p)"
  using assms operand_range [OF assms(2)]
  by (auto simp: op_sub1_def unary_spec_def pop_number_def set_data_operand safe_add_def safe_sub_def
      number_neg_defined number_is_true_def int64_range_def
      intro!: pushes_number pushes_bools pushes_failed)

lemma pushes_op_negate:
  assumes "primary p = x # s" "length x \<le> max_integer_size_legacy p"
    and "unary_spec opcode_negate (sm_value x) \<noteq> Some min_int64"
  shows "pushes (unary_spec opcode_negate (sm_value x)) s (op_negate p)"
  using assms operand_range [OF assms(2)]
  by (auto simp: op_negate_def unary_spec_def pop_number_def set_data_operand safe_add_def safe_sub_def
      number_neg_defined number_is_true_def int64_range_def
      intro!: pushes_number pushes_bools pushes_failed)

lemma pushes_op_abs:
  assumes "primary p = x # s" "length x \<le> max_integer_size_legacy p"
    and "unary_spec opcode_abs (sm_value x) \<noteq> Some min_int64"
  shows "pushes (unary_spec opcode_abs (sm_value x)) s (op_abs p)"
  using assms operand_range [OF assms(2)]
  by (auto simp: op_abs_def unary_spec_def pop_number_def set_data_operand safe_add_def safe_sub_def
      number_neg_defined number_is_true_def int64_range_def
      intro!: pushes_number pushes_bools pushes_failed)

lemma pushes_op_not:
  assumes "primary p = x # s" "length x \<le> max_integer_size_legacy p"
    and "unary_spec opcode_not (sm_value x) \<noteq> Some min_int64"
  shows "pushes (unary_spec opcode_not (sm_value x)) s (op_not p)"
  using assms operand_range [OF assms(2)]
  by (auto simp: op_not_def unary_spec_def pop_number_def set_data_operand safe_add_def safe_sub_def
      number_neg_defined number_is_true_def int64_range_def
      intro!: pushes_number pushes_bools pushes_failed)

lemma pushes_op_nonzero:
  assumes "primary p = x # s" "length x \<le> max_integer_size_legacy p"
    and "unary_spec opcode_nonzero (sm_value x) \<noteq> Some min_int64"
  shows "pushes (unary_spec opcode_nonzero (sm_value x)) s (op_nonzero p)"
  using assms operand_range [OF assms(2)]
  by (auto simp: op_nonzero_def unary_spec_def pop_number_def set_data_operand safe_add_def safe_sub_def
      number_neg_defined number_is_true_def int64_range_def
      intro!: pushes_number pushes_bools pushes_failed)

lemma pop_binary_operands:
  assumes "primary p = y # x # s" "length x \<le> max_integer_size_legacy p"
    "length y \<le> max_integer_size_legacy p"
  shows "pop_binary p = (Some (sm_value y, sm_value x), p\<lparr>primary := s\<rparr>)"
  using assms by (simp add: pop_binary_def pop_number_def set_data_operand)

lemma tally_quadratic_defined:
  assumes "v \<noteq> min_int64" "w \<noteq> min_int64"
  obtains n where "tally_quadratic v w p = Some (tally n p)"
proof -
  obtain d e where "number_data v = Some d" "number_data w = Some e"
    using assms by (cases "number_data v"; cases "number_data w") auto
  then show thesis using that by (simp add: tally_quadratic_def)
qed

lemma pushes_number_tally:
  "int64_range v \<Longrightarrow> v \<noteq> min_int64 \<Longrightarrow> pushes (Some v) s (push_number_result v (tally n (p\<lparr>primary := s\<rparr>)))"
  by (rule pushes_number) (simp_all add: tally_def)

lemma pushes_op_add:
  assumes "primary p = y # x # s" "length x \<le> max_integer_size_legacy p"
    "length y \<le> max_integer_size_legacy p"
    "binary_spec opcode_add (sm_value x) (sm_value y) \<noteq> Some min_int64"
  shows "pushes (binary_spec opcode_add (sm_value x) (sm_value y)) s (op_add p)"
  using assms operand_range [OF assms(2)] operand_range [OF assms(3)]
  by (auto simp: op_add_def binary_spec_def pop_binary_operands add.commute [of "sm_value y"] safe_add_def safe_sub_def
      number_is_true_def int64_range_def min_def max_def
      intro!: pushes_number pushes_bools pushes_failed)

lemma pushes_op_sub:
  assumes "primary p = y # x # s" "length x \<le> max_integer_size_legacy p"
    "length y \<le> max_integer_size_legacy p"
    "binary_spec opcode_sub (sm_value x) (sm_value y) \<noteq> Some min_int64"
  shows "pushes (binary_spec opcode_sub (sm_value x) (sm_value y)) s (op_sub p)"
  using assms operand_range [OF assms(2)] operand_range [OF assms(3)]
  by (auto simp: op_sub_def binary_spec_def pop_binary_operands safe_add_def safe_sub_def
      number_is_true_def int64_range_def min_def max_def
      intro!: pushes_number pushes_bools pushes_failed)

lemma pushes_op_bool_and:
  assumes "primary p = y # x # s" "length x \<le> max_integer_size_legacy p"
    "length y \<le> max_integer_size_legacy p"
    "binary_spec opcode_booland (sm_value x) (sm_value y) \<noteq> Some min_int64"
  shows "pushes (binary_spec opcode_booland (sm_value x) (sm_value y)) s (op_bool_and p)"
  using assms operand_range [OF assms(2)] operand_range [OF assms(3)]
  by (auto simp: op_bool_and_def binary_spec_def pop_binary_operands safe_add_def safe_sub_def
      number_is_true_def int64_range_def min_def max_def
      intro!: pushes_number pushes_bools pushes_failed)

lemma pushes_op_bool_or:
  assumes "primary p = y # x # s" "length x \<le> max_integer_size_legacy p"
    "length y \<le> max_integer_size_legacy p"
    "binary_spec opcode_boolor (sm_value x) (sm_value y) \<noteq> Some min_int64"
  shows "pushes (binary_spec opcode_boolor (sm_value x) (sm_value y)) s (op_bool_or p)"
  using assms operand_range [OF assms(2)] operand_range [OF assms(3)]
  by (auto simp: op_bool_or_def binary_spec_def pop_binary_operands safe_add_def safe_sub_def
      number_is_true_def int64_range_def min_def max_def
      intro!: pushes_number pushes_bools pushes_failed)

lemma pushes_op_num_equal:
  assumes "primary p = y # x # s" "length x \<le> max_integer_size_legacy p"
    "length y \<le> max_integer_size_legacy p"
    "binary_spec opcode_numequal (sm_value x) (sm_value y) \<noteq> Some min_int64"
  shows "pushes (binary_spec opcode_numequal (sm_value x) (sm_value y)) s (op_num_equal p)"
  using assms operand_range [OF assms(2)] operand_range [OF assms(3)]
  by (auto simp: op_num_equal_def binary_spec_def pop_binary_operands safe_add_def safe_sub_def
      number_is_true_def int64_range_def min_def max_def
      intro!: pushes_number pushes_bools pushes_failed)

lemma pushes_op_num_not_equal:
  assumes "primary p = y # x # s" "length x \<le> max_integer_size_legacy p"
    "length y \<le> max_integer_size_legacy p"
    "binary_spec opcode_numnotequal (sm_value x) (sm_value y) \<noteq> Some min_int64"
  shows "pushes (binary_spec opcode_numnotequal (sm_value x) (sm_value y)) s (op_num_not_equal p)"
  using assms operand_range [OF assms(2)] operand_range [OF assms(3)]
  by (auto simp: op_num_not_equal_def binary_spec_def pop_binary_operands safe_add_def safe_sub_def
      number_is_true_def int64_range_def min_def max_def
      intro!: pushes_number pushes_bools pushes_failed)

lemma pushes_op_less_than:
  assumes "primary p = y # x # s" "length x \<le> max_integer_size_legacy p"
    "length y \<le> max_integer_size_legacy p"
    "binary_spec opcode_lessthan (sm_value x) (sm_value y) \<noteq> Some min_int64"
  shows "pushes (binary_spec opcode_lessthan (sm_value x) (sm_value y)) s (op_less_than p)"
  using assms operand_range [OF assms(2)] operand_range [OF assms(3)]
  by (auto simp: op_less_than_def binary_spec_def pop_binary_operands safe_add_def safe_sub_def
      number_is_true_def int64_range_def min_def max_def
      intro!: pushes_number pushes_bools pushes_failed)

lemma pushes_op_greater_than:
  assumes "primary p = y # x # s" "length x \<le> max_integer_size_legacy p"
    "length y \<le> max_integer_size_legacy p"
    "binary_spec opcode_greaterthan (sm_value x) (sm_value y) \<noteq> Some min_int64"
  shows "pushes (binary_spec opcode_greaterthan (sm_value x) (sm_value y)) s (op_greater_than p)"
  using assms operand_range [OF assms(2)] operand_range [OF assms(3)]
  by (auto simp: op_greater_than_def binary_spec_def pop_binary_operands safe_add_def safe_sub_def
      number_is_true_def int64_range_def min_def max_def
      intro!: pushes_number pushes_bools pushes_failed)

lemma pushes_op_less_than_or_equal:
  assumes "primary p = y # x # s" "length x \<le> max_integer_size_legacy p"
    "length y \<le> max_integer_size_legacy p"
    "binary_spec opcode_lessthanorequal (sm_value x) (sm_value y) \<noteq> Some min_int64"
  shows "pushes (binary_spec opcode_lessthanorequal (sm_value x) (sm_value y)) s (op_less_than_or_equal p)"
  using assms operand_range [OF assms(2)] operand_range [OF assms(3)]
  by (auto simp: op_less_than_or_equal_def binary_spec_def pop_binary_operands safe_add_def safe_sub_def
      number_is_true_def int64_range_def min_def max_def
      intro!: pushes_number pushes_bools pushes_failed)

lemma pushes_op_greater_than_or_equal:
  assumes "primary p = y # x # s" "length x \<le> max_integer_size_legacy p"
    "length y \<le> max_integer_size_legacy p"
    "binary_spec opcode_greaterthanorequal (sm_value x) (sm_value y) \<noteq> Some min_int64"
  shows "pushes (binary_spec opcode_greaterthanorequal (sm_value x) (sm_value y)) s (op_greater_than_or_equal p)"
  using assms operand_range [OF assms(2)] operand_range [OF assms(3)]
  by (auto simp: op_greater_than_or_equal_def binary_spec_def pop_binary_operands safe_add_def safe_sub_def
      number_is_true_def int64_range_def min_def max_def
      intro!: pushes_number pushes_bools pushes_failed)

lemma pushes_op_min:
  assumes "primary p = y # x # s" "length x \<le> max_integer_size_legacy p"
    "length y \<le> max_integer_size_legacy p"
    "binary_spec opcode_min (sm_value x) (sm_value y) \<noteq> Some min_int64"
  shows "pushes (binary_spec opcode_min (sm_value x) (sm_value y)) s (op_min p)"
  using assms operand_range [OF assms(2)] operand_range [OF assms(3)]
  by (auto simp: op_min_def binary_spec_def pop_binary_operands safe_add_def safe_sub_def
      number_is_true_def int64_range_def min_def max_def
      intro!: pushes_number pushes_bools pushes_failed)

lemma pushes_op_max:
  assumes "primary p = y # x # s" "length x \<le> max_integer_size_legacy p"
    "length y \<le> max_integer_size_legacy p"
    "binary_spec opcode_max (sm_value x) (sm_value y) \<noteq> Some min_int64"
  shows "pushes (binary_spec opcode_max (sm_value x) (sm_value y)) s (op_max p)"
  using assms operand_range [OF assms(2)] operand_range [OF assms(3)]
  by (auto simp: op_max_def binary_spec_def pop_binary_operands safe_add_def safe_sub_def
      number_is_true_def int64_range_def min_def max_def
      intro!: pushes_number pushes_bools pushes_failed)

lemma pushes_op_mul:
  assumes "primary p = y # x # s" "length x \<le> max_integer_size_legacy p"
    "length y \<le> max_integer_size_legacy p"
    "binary_spec opcode_mul (sm_value x) (sm_value y) \<noteq> Some min_int64"
  shows "pushes (binary_spec opcode_mul (sm_value x) (sm_value y)) s (op_mul p)"
proof -
  obtain n where "tally_quadratic (sm_value y) (sm_value x) (p\<lparr>primary := s\<rparr>) =
      Some (tally n (p\<lparr>primary := s\<rparr>))"
    by (rule tally_quadratic_defined [of "sm_value y" "sm_value x" "p\<lparr>primary := s\<rparr>"])
      (use operand_range [OF assms(2)] operand_range [OF assms(3)] in auto)
  then show ?thesis
    using assms operand_range [OF assms(2)] operand_range [OF assms(3)]
      sdiv_le [of "sm_value x" "sm_value y"] smod_between [of "sm_value x" "sm_value y"]
    by (auto simp: op_mul_def binary_spec_def pop_binary_operands mult.commute [of "sm_value y"] safe_mul_def div_mod_defined int64_range_def
        intro!: pushes_number_tally pushes_failed)
qed

lemma pushes_op_div:
  assumes "primary p = y # x # s" "length x \<le> max_integer_size_legacy p"
    "length y \<le> max_integer_size_legacy p"
    "binary_spec opcode_div (sm_value x) (sm_value y) \<noteq> Some min_int64"
  shows "pushes (binary_spec opcode_div (sm_value x) (sm_value y)) s (op_div p)"
proof -
  obtain n where "tally_quadratic (sm_value y) (sm_value x) (p\<lparr>primary := s\<rparr>) =
      Some (tally n (p\<lparr>primary := s\<rparr>))"
    by (rule tally_quadratic_defined [of "sm_value y" "sm_value x" "p\<lparr>primary := s\<rparr>"])
      (use operand_range [OF assms(2)] operand_range [OF assms(3)] in auto)
  then show ?thesis
    using assms operand_range [OF assms(2)] operand_range [OF assms(3)]
      sdiv_le [of "sm_value x" "sm_value y"] smod_between [of "sm_value x" "sm_value y"]
    by (auto simp: op_div_def binary_spec_def pop_binary_operands safe_mul_def div_mod_defined int64_range_def
        intro!: pushes_number_tally pushes_failed)
qed

lemma pushes_op_mod:
  assumes "primary p = y # x # s" "length x \<le> max_integer_size_legacy p"
    "length y \<le> max_integer_size_legacy p"
    "binary_spec opcode_mod (sm_value x) (sm_value y) \<noteq> Some min_int64"
  shows "pushes (binary_spec opcode_mod (sm_value x) (sm_value y)) s (op_mod p)"
proof -
  obtain n where "tally_quadratic (sm_value y) (sm_value x) (p\<lparr>primary := s\<rparr>) =
      Some (tally n (p\<lparr>primary := s\<rparr>))"
    by (rule tally_quadratic_defined [of "sm_value y" "sm_value x" "p\<lparr>primary := s\<rparr>"])
      (use operand_range [OF assms(2)] operand_range [OF assms(3)] in auto)
  then show ?thesis
    using assms operand_range [OF assms(2)] operand_range [OF assms(3)]
      sdiv_le [of "sm_value x" "sm_value y"] smod_between [of "sm_value x" "sm_value y"]
    by (auto simp: op_mod_def binary_spec_def pop_binary_operands safe_mul_def div_mod_defined int64_range_def
        intro!: pushes_number_tally pushes_failed)
qed

lemma pushes_op_within:
  assumes "primary p = z # y # x # s"
    and "length x \<le> max_integer_size_legacy p" "length y \<le> max_integer_size_legacy p"
    "length z \<le> max_integer_size_legacy p"
  shows "pushes (Some (of_bool (sm_value y \<le> sm_value x \<and> sm_value x < sm_value z))) s (op_within p)"
  using assms pushes_bool
  by (simp add: op_within_def pop_ternary_def pop_binary_operands pop_number_def set_data_operand)

lemmas pushes_ops =
  pushes_op_add1 pushes_op_sub1 pushes_op_negate pushes_op_abs pushes_op_not pushes_op_nonzero
  pushes_op_add pushes_op_sub pushes_op_bool_and pushes_op_bool_or pushes_op_num_equal
  pushes_op_num_not_equal pushes_op_less_than pushes_op_greater_than pushes_op_less_than_or_equal
  pushes_op_greater_than_or_equal pushes_op_min pushes_op_max pushes_op_mul pushes_op_div pushes_op_mod

lemma tally_same [simp]:
  "primary (tally n p) = primary p" "max_integer_size_legacy (tally n p) = max_integer_size_legacy p"
  by (simp_all add: tally_def)

lemma pushes_unary:
  assumes "op_code op \<in> set unary_codes" "primary p = x # s" "length x \<le> max_integer_size_legacy p"
    "unary_spec (op_code op) (sm_value x) \<noteq> Some min_int64"
  shows "pushes (unary_spec (op_code op) (sm_value x)) s (run_op c at op p)"
  using assms pushes_ops(1-6) [where p = "tally opcode_cost p" and x = x and s = s]
  by (auto simp: unary_codes_def run_op_dispatch)

lemma pushes_binary:
  assumes "op_code op \<in> set binary_codes" "primary p = y # x # s" "length x \<le> max_integer_size_legacy p"
    "length y \<le> max_integer_size_legacy p"
    "binary_spec (op_code op) (sm_value x) (sm_value y) \<noteq> Some min_int64"
  shows "pushes (binary_spec (op_code op) (sm_value x) (sm_value y)) s (run_op c at op p)"
  using assms pushes_ops(7-) [where p = "tally opcode_cost p" and x = x and y = y and s = s]
  by (auto simp: binary_codes_def run_op_dispatch)

lemma run_op_numeric_meets:
  assumes "primary p = rev args @ s" "length args = numeric_arity (op_code op)" "args \<noteq> []"
    and "\<forall>x \<in> set args. length x \<le> max_integer_size_legacy p"
    and "numeric_spec (op_code op) (map sm_value args) \<noteq> Some min_int64"
  shows "pushes (numeric_spec (op_code op) (map sm_value args)) s (run_op c at op p)"
proof -
  consider "op_code op \<in> set unary_codes" | "op_code op \<in> set binary_codes" "op_code op \<notin> set unary_codes"
    | "op_code op = opcode_within" "op_code op \<notin> set unary_codes" "op_code op \<notin> set binary_codes"
    using assms(2,3) by (auto simp: numeric_arity_def split: if_splits)
  then show ?thesis
  proof cases
    case 1
    then obtain x where "args = [x]" using assms(2) by (auto simp: numeric_arity_def length_Suc_conv)
    with 1 assms show ?thesis by (auto intro: pushes_unary)
  next
    case 2
    then obtain x y where "args = [x, y]"
      using assms(2) by (auto simp: numeric_arity_def length_Suc_conv numeral_2_eq_2)
    with 2 assms show ?thesis by (auto intro: pushes_binary)
  next
    case 3
    then obtain x y z where "args = [x, y, z]"
      using assms(2) by (auto simp: numeric_arity_def length_Suc_conv numeral_3_eq_3)
    moreover have "run_op c at op p = op_within (tally opcode_cost p)"
      using 3(1) by (simp add: run_op_dispatch)
    ultimately show ?thesis
      using 3(1) assms(1,4) pushes_op_within [of "tally opcode_cost p" z y x s] by simp
  qed
qed

text \<open>C17: Arithmetic on the stack is arithmetic on integers. A numeric operation that finds its operands on top of the
  stack, none wider than the numbers of the script may be, and whose result is not the least int64, pushes the minimal
  encoding of the result that its specification gives for their values, in place of them; it fails when the result is
  outside int64 or the divisor is zero. (A result of -2^63 is excluded: its encoding overflows, so the operation is
  undefined there.)\<close>

theorem numeric_operations_compute:
  assumes "primary p = rev args @ s" "length args = numeric_arity (op_code op)" "args \<noteq> []"
    and "\<forall>x \<in> set args. length x \<le> max_integer_size_legacy p"
    and "numeric_spec (op_code op) (map sm_value args) \<noteq> Some min_int64"
  shows "\<exists>e p'. run_op c at op p = Some (e, p') \<and>
    (case numeric_spec (op_code op) (map sm_value args) of
       Some v \<Rightarrow> if int64_range v then e = success \<and> primary p' = the (number_data v) # s
         else e \<noteq> success
     | None \<Rightarrow> e \<noteq> success)"
proof -
  from run_op_numeric_meets [OF assms, of c at] obtain e p' where r: "run_op c at op p = Some (e, p')"
    by (cases "run_op c at op p") (auto simp: pushes_def)
  with run_op_numeric_meets [OF assms, of c at] show ?thesis
    by (cases "numeric_spec (op_code op) (map sm_value args)") (simp_all add: pushes_def)
qed

theorem numeric_operations_compute_witness:
  "\<exists>e p'. run_op example_crypto None (operation_of_opcode opcode_sub) (example_program [[3], [0x81]] 0) =
     Some (e, p') \<and> e = success \<and> primary p' = [[0x84]]"
  using numeric_operations_compute [of "example_program [[3], [0x81]] 0" "[[0x81], [3]]" "[]"
      "operation_of_opcode opcode_sub" example_crypto None]
  by (simp add: example_program_def operation_of_opcode_def numeric_arity_def unary_codes_def
      binary_codes_def binary_spec_def max_integer_size_legacy_def is_enabled_def sm_value_def
      number_data_def absolute_bytes.simps is_negative_def int64_range_def)

end
