(* ===== verification/Signature_Spec.thy ===== *)
theory Signature_Spec
  imports Interpreter_Spec
begin

text \<open>
  What the signature and lock operations accept: a multisignature check against an assignment of keys
  to signatures, and the conditions of CHECKLOCKTIMEVERIFY and CHECKSEQUENCEVERIFY.
\<close>

section \<open>Multisignature checks\<close>

definition verifies :: "crypto \<Rightarrow> program \<Rightarrow> bytes \<Rightarrow> bytes \<Rightarrow> bool" where
  "verifies c p endorsement key \<longleftrightarrow>
     (case parse_endorsement endorsement of
        None \<Rightarrow> False
      | Some (sighash, distinguished) \<Rightarrow>
          (case parse_signature c distinguished (is_enabled (prog_forks p) bip66_rule) of
             None \<Rightarrow> False
           | Some signature \<Rightarrow>
               map_option fst (check_program_signature c p signature sighash key
                 (script_from_operations (subscript p))) = Some True))"

text \<open>Keys for the signatures, in their order; one key may serve several signatures.\<close>

definition key_assignment :: "crypto \<Rightarrow> program \<Rightarrow> bytes list \<Rightarrow> bytes list \<Rightarrow> nat list \<Rightarrow> bool" where
  "key_assignment c p es keys js \<longleftrightarrow> length js = length es \<and> sorted js \<and>
     (\<forall>i < length es. js ! i < length keys \<and> verifies c p (es ! i) (keys ! (js ! i)))"

lemma match_key_first:
  assumes "keys \<noteq> []" "\<And>key. check key \<noteq> None"
  shows "match_key check keys =
    (if \<exists>n < length keys. check (keys ! n) = Some True
     then Some (Some (drop (LEAST n. check (keys ! n) = Some True) keys)) else Some None)"
  using assms(1)
proof (induction keys)
  case (Cons key keys)
  obtain r where r: "check key = Some r" using assms(2) by blast
  show ?case
  proof (cases r)
    case True
    then have "(LEAST n. check ((key # keys) ! n) = Some True) = 0" by (intro Least_equality) (simp_all add: r)
    with True r show ?thesis by auto
  next
    case False
    have ex: "(\<exists>n < length (key # keys). check ((key # keys) ! n) = Some True) \<longleftrightarrow>
        (\<exists>n < length keys. check (keys ! n) = Some True)"
      using False r by (auto simp: less_Suc_eq_0_disj)
    show ?thesis
    proof (cases "keys = []")
      case True
      with False r show ?thesis by auto
    next
      case ne: False
      have "(LEAST n. check ((key # keys) ! n) = Some True) = Suc (LEAST n. check (keys ! n) = Some True)"
        if "n < length keys" "check (keys ! n) = Some True" for n
        using that False r by (subst Least_Suc [of _ "Suc n"]) auto
      with ne False r Cons.IH [OF ne] ex show ?thesis by auto
    qed
  qed
qed simp

lemma key_assignment_Cons:
  assumes "n < length keys" "verifies c p e (keys ! n)" "\<And>m. m < n \<Longrightarrow> \<not> verifies c p e (keys ! m)"
  shows "(\<exists>js. key_assignment c p (e # es) keys js) \<longleftrightarrow> (\<exists>js. key_assignment c p es (drop n keys) js)"
proof
  assume "\<exists>js. key_assignment c p (e # es) keys js"
  then obtain j js where js: "key_assignment c p (e # es) keys (j # js)"
    by (metis key_assignment_def length_Suc_conv length_Cons)
  then have "n \<le> j" using assms(3) [of j] by (force simp: key_assignment_def not_less)
  moreover have "\<forall>i \<in> set js. j \<le> i" "sorted js" using js by (auto simp: key_assignment_def)
  ultimately have le: "\<forall>i \<in> set js. n \<le> i" and "sorted (map (\<lambda>i. i - n) js)"
    by (auto simp: sorted_map intro: sorted_wrt_mono_rel [rotated])
  moreover have "js ! i < length keys \<and> verifies c p (es ! i) (keys ! (js ! i))" if "i < length es" for i
    using js that by (force simp: key_assignment_def)
  moreover have "length js = length es" using js by (simp add: key_assignment_def)
  ultimately have "key_assignment c p es (drop n keys) (map (\<lambda>i. i - n) js)"
    using assms(1) by (auto simp: key_assignment_def less_diff_conv)
  then show "\<exists>js. key_assignment c p es (drop n keys) js" ..
next
  assume "\<exists>js. key_assignment c p es (drop n keys) js"
  then obtain js where "key_assignment c p es (drop n keys) js" ..
  then have "key_assignment c p (e # es) keys (n # map (\<lambda>i. i + n) js)"
    using assms(1,2)
    by (auto simp: key_assignment_def sorted_iff_nth_mono less_Suc_eq_0_disj nth_Cons add.commute split: nat.split)
  then show "\<exists>js. key_assignment c p (e # es) keys js" ..
qed

lemma multisig_loop_iff:
  assumes "unat (prog_input_index p) < length (tx_inputs (prog_tx p))" "es = [] \<or> keys \<noteq> []"
  shows "multisig_loop c p (script_from_operations (subscript p)) (is_enabled (prog_forks p) bip66_rule)
      es keys = Some success \<longleftrightarrow> (\<exists>js. key_assignment c p es keys js)"
  using assms(2)
proof (induction es arbitrary: keys)
  case Nil
  have "key_assignment c p [] keys []" by (simp add: key_assignment_def)
  then show ?case by auto
next
  case (Cons e es)
  have fails: "\<not> (\<exists>js. key_assignment c p (e # es) keys js)" if "\<forall>n < length keys. \<not> verifies c p e (keys ! n)"
  proof
    assume "\<exists>js. key_assignment c p (e # es) keys js"
    then obtain js where "\<forall>i < length (e # es). js ! i < length keys \<and>
        verifies c p ((e # es) ! i) (keys ! (js ! i))" unfolding key_assignment_def by blast
    then have "js ! 0 < length keys \<and> verifies c p e (keys ! (js ! 0))" by force
    with that show False by blast
  qed
  show ?case
  proof (cases "parse_endorsement e")
    case None
    with fails show ?thesis by (simp add: verifies_def)
  next
    case (Some x)
    obtain t d where x: "x = (t, d)" by fastforce
    show ?thesis
    proof (cases "parse_signature c d (is_enabled (prog_forks p) bip66_rule)")
      case None
      with Some x fails show ?thesis by (simp add: verifies_def encoding_error_def)
    next
      case sig: (Some sig)
      let ?check = "\<lambda>key. map_option fst (check_program_signature c p sig t key
          (script_from_operations (subscript p)))"
      have ver: "?check key = Some True \<longleftrightarrow> verifies c p e key" for key
        by (simp add: verifies_def Some x sig)
      have m: "match_key ?check keys = (if \<exists>n < length keys. verifies c p e (keys ! n)
          then Some (Some (drop (LEAST n. verifies c p e (keys ! n)) keys)) else Some None)"
        by (rule match_key_first [of keys ?check, unfolded ver])
          (use Cons.prems check_program_signature_defined [OF assms(1)] in auto)
      show ?thesis
      proof (cases "\<exists>n < length keys. verifies c p e (keys ! n)")
        case False
        with fails m show ?thesis by (simp add: Some x sig)
      next
        case True
        let ?n = "LEAST n. verifies c p e (keys ! n)"
        from True obtain k where k: "k < length keys" "verifies c p e (keys ! k)" by blast
        from k(2) have "verifies c p e (keys ! ?n)" "?n \<le> k" by (rule LeastI, rule Least_le)
        with k(1) have n: "?n < length keys" "verifies c p e (keys ! ?n)"
          "\<And>m. m < ?n \<Longrightarrow> \<not> verifies c p e (keys ! m)"
          by (simp, simp) (rule not_less_Least)
        have "match_key ?check keys = Some (Some (drop ?n keys))"
          unfolding m using True by (rule if_P)
        then have "multisig_loop c p (script_from_operations (subscript p))
            (is_enabled (prog_forks p) bip66_rule) (e # es) keys =
          multisig_loop c p (script_from_operations (subscript p)) (is_enabled (prog_forks p) bip66_rule)
            es (drop ?n keys)" by (simp add: Some x sig)
        with Cons.IH [of "drop ?n keys"] key_assignment_Cons [OF n, of es] n(1) show ?thesis by simp
      qed
    qed
  qed
qed

text \<open>The arguments of a multisignature check on the stack.\<close>

definition multisig_arguments :: "program \<Rightarrow> bytes list \<Rightarrow> bytes list \<Rightarrow> bytes list \<Rightarrow> bool" where
  "multisig_arguments p keys es rest \<longleftrightarrow>
     (\<exists>n m. primary p = n # keys @ [m] @ es @ [[]] @ rest \<and>
       length n \<le> max_integer_size_legacy p \<and> sm_value n = int (length keys) \<and>
       length m \<le> max_integer_size_legacy p \<and> sm_value m = int (length es)) \<and>
     length es \<le> length keys \<and> length keys \<le> max_script_public_keys \<and>
     operation_count p + length keys \<le> max_counted_ops"

lemma verifies_registers:
  assumes "same_registers p p'" "prog_jump p' = prog_jump p"
  shows "verifies c p' = verifies c p"
proof -
  have "subscript p' = subscript p" "check_program_signature c p' = check_program_signature c p"
    "prog_forks p' = prog_forks p"
    using assms by (auto simp: same_registers_def check_program_signature_def subscript_def fun_eq_iff)
  note eqs = this
  show ?thesis unfolding verifies_def [abs_def] eqs by (rule refl)
qed

lemma multisig_verify_arguments:
  assumes "unat (prog_input_index p) < length (tx_inputs (prog_tx p))"
    and "multisig_arguments p keys es rest"
  obtains e where "op_check_multisig_verify c p =
      Some (e, p\<lparr>operation_count := operation_count p + length keys, primary := rest\<rparr>)"
    "e = success \<longleftrightarrow> (\<exists>js. key_assignment c p es keys js)"
proof -
  let ?q = "p\<lparr>operation_count := operation_count p + length keys, primary := rest\<rparr>"
  obtain n m where nm: "primary p = n # keys @ [m] @ es @ [[]] @ rest"
    "length n \<le> max_integer_size_legacy p" "sm_value n = int (length keys)"
    "length m \<le> max_integer_size_legacy p" "sm_value m = int (length es)"
    and len: "length es \<le> length keys" "length keys \<le> max_script_public_keys"
      "operation_count p + length keys \<le> max_counted_ops"
    using assms(2) unfolding multisig_arguments_def by blast
  have small: "\<not> int (length keys) < min_int32" "\<not> max_int32 < int (length keys)"
    "\<not> int (length es) < min_int32" "\<not> max_int32 < int (length es)" using len by auto
  obtain e where e: "multisig_loop c ?q (script_from_operations (subscript ?q))
      (is_enabled (prog_forks ?q) bip66_rule) es keys = Some e"
    using multisig_loop_defined [of ?q es keys c] assms(1) len(1) by fastforce
  then have "op_check_multisig_verify c p = Some (e, ?q)"
    using nm len small
    by (simp add: op_check_multisig_verify_def pop_int32_def pop_number_def set_data_operand int32_def
        increment_public_key_count_def operation_overflow_def pop_section_def pop_def Let_def)
  moreover have "e = success \<longleftrightarrow> (\<exists>js. key_assignment c ?q es keys js)"
    using multisig_loop_iff [of ?q es keys c] e assms(1) len(1) by fastforce
  moreover have "key_assignment c ?q = key_assignment c p"
    using verifies_registers [of p ?q c] by (simp add: key_assignment_def fun_eq_iff same_registers_def)
  ultimately show thesis using that by simp
qed

section \<open>Locks\<close>

text \<open>The number of at most five bytes on top of the stack.\<close>

definition lock_operand :: "program \<Rightarrow> int option" where
  "lock_operand p =
     (case primary p of [] \<Rightarrow> None
      | x # s \<Rightarrow> if length x \<le> 5 \<and> 0 \<le> sm_value x then Some (sm_value x) else None)"

lemma top_number_lock:
  "lock_operand p = (case top_number 5 p of None \<Rightarrow> None | Some v \<Rightarrow> if v < 0 then None else Some v)"
  by (auto simp: lock_operand_def top_number_def set_data_value split: list.split)

lemma bit_31: "(w AND 0x80000000 :: 'a::len word) \<noteq> 0 \<longleftrightarrow> bit w 31"
  using and_exp_eq_0_iff_not_bit [of w 31] by simp

lemma bit_22: "(w AND 0x00400000 :: 'a::len word) \<noteq> 0 \<longleftrightarrow> bit w 22"
  using and_exp_eq_0_iff_not_bit [of w 22] by simp

lemma and_single_bit: "(v :: 'a::len word) AND push_bit n 1 = (if bit v n then push_bit n 1 else 0)"
  by (rule bit_word_eqI) (auto simp: bit_simps)

lemma single_bit_eq: "(v :: u64) AND 0x400000 = ucast (w AND (0x400000 :: u32)) \<longleftrightarrow> (bit v 22 \<longleftrightarrow> bit w 22)"
  using and_single_bit [of v 22] and_single_bit [of w 22] by simp

lemma low_bits_less:
  "(v :: u64) AND 0xffff > ucast (w AND (0xffff :: u32)) \<longleftrightarrow> take_bit 16 (uint w) < take_bit 16 (uint v)"
proof -
  have m: "(0xffff :: u64) = mask 16" "(0xffff :: u32) = mask 16" by (simp_all add: mask_eq_decr_exp)
  show ?thesis unfolding m
    by (simp add: take_bit_eq_mask [symmetric] word_less_def unsigned_take_bit_eq unsigned_ucast_eq)
qed

lemma lock_operand_tally [simp]: "lock_operand (tally n p) = lock_operand p"
  by (simp add: lock_operand_def)

lemma tally_registers [simp]:
  "prog_forks (tally n p) = prog_forks p" "prog_tx (tally n p) = prog_tx p"
  "prog_input_index (tally n p) = prog_input_index p" "operation_count (tally n p) = operation_count p"
  "prog_jump (tally n p) = prog_jump p" "same_registers p (tally n p)"
  by (simp_all add: tally_def same_registers_def add_op_cost_def)

lemma op_check_locktime_verify_iff:
  assumes "is_enabled (prog_forks p) bip65_rule" "unat (prog_input_index p) < length (tx_inputs (prog_tx p))"
  shows "op_check_locktime_verify p = Some (success, p) \<longleftrightarrow>
    in_sequence (tx_inputs (prog_tx p) ! unat (prog_input_index p)) \<noteq> max_input_sequence \<and>
    (\<exists>v. lock_operand p = Some v \<and>
      (nat v < locktime_threshold \<longleftrightarrow> unat (tx_locktime (prog_tx p)) < locktime_threshold) \<and>
      nat v \<le> unat (tx_locktime (prog_tx p)))"
proof (cases "in_sequence (tx_inputs (prog_tx p) ! unat (prog_input_index p)) = max_input_sequence")
  case True
  with assms show ?thesis by (simp add: op_check_locktime_verify_def Let_def failed_def)
next
  case False
  with assms show ?thesis
    by (cases "top_number 5 p")
      (simp_all add: op_check_locktime_verify_def top_number_lock Let_def ok_def failed_def not_less,
        auto simp: not_le)
qed

lemma op_check_sequence_verify_iff:
  assumes "is_enabled (prog_forks p) bip112_rule" "unat (prog_input_index p) < length (tx_inputs (prog_tx p))"
  shows "op_check_sequence_verify p = Some (success, p) \<longleftrightarrow>
    (\<exists>v. lock_operand p = Some v \<and>
      (bit v 31 \<or>
       (let q = in_sequence (tx_inputs (prog_tx p) ! unat (prog_input_index p)) in
        2 \<le> tx_version (prog_tx p) \<and> \<not> bit q 31 \<and> (bit v 22 \<longleftrightarrow> bit q 22) \<and>
        take_bit 16 v \<le> take_bit 16 (uint q))))"
  using assms
  by (auto simp: op_check_sequence_verify_def op_nop_def top_number_lock Let_def ok_def failed_def
      bit_31 single_bit_eq low_bits_less not_less not_le bit_simps unsigned_of_int split: option.splits)

section \<open>Properties\<close>

lemma multisig_arguments_tally: "multisig_arguments (tally n p) keys es rest = multisig_arguments p keys es rest"
  by (simp add: multisig_arguments_def)

text \<open>C18: An m-of-n check. With its arguments on the stack, CHECKMULTISIGVERIFY succeeds exactly when the
  signatures can be assigned, in order, to keys that verify them, in the keys' order but not to
  different keys; the arguments are consumed whatever the outcome.\<close>

theorem multisig_accepts_iff:
  assumes "unat (prog_input_index p) < length (tx_inputs (prog_tx p))"
    and "multisig_arguments p keys es rest" "op_code op = opcode_checkmultisigverify"
  shows "\<exists>e p'. run_op c at op p = Some (e, p') \<and> primary p' = rest \<and>
    (e = success \<longleftrightarrow>
      (\<exists>js. length js = length es \<and> sorted js \<and>
        (\<forall>i < length es. js ! i < length keys \<and> verifies c p (es ! i) (keys ! (js ! i)))))"
proof -
  have v: "verifies c (tally opcode_cost p) = verifies c p" by (rule verifies_registers) simp_all
  show ?thesis
    by (rule multisig_verify_arguments [of "tally opcode_cost p" keys es rest c])
      (use assms v in \<open>auto simp: multisig_arguments_tally run_op_dispatch key_assignment_def\<close>)
qed

text \<open>C19: One signature can stand for all. Since a key that matched is tried again for the next
  signature, m copies of one valid signature pass an m-of-n check.\<close>

theorem one_signature_satisfies_multisig:
  assumes "unat (prog_input_index p) < length (tx_inputs (prog_tx p))"
    and "multisig_arguments p keys (replicate m e) rest" "op_code op = opcode_checkmultisigverify"
    and "key \<in> set keys" "verifies c p e key"
  shows "\<exists>p'. run_op c at op p = Some (success, p') \<and> primary p' = rest"
proof -
  have v: "verifies c (tally opcode_cost p) = verifies c p" by (rule verifies_registers) simp_all
  from assms(4) obtain j where j: "j < length keys" "keys ! j = key" by (meson in_set_conv_nth)
  then have k: "key_assignment c (tally opcode_cost p) (replicate m e) keys (replicate m j)"
    using assms(5) v by (simp add: key_assignment_def sorted_replicate)
  obtain e' where "op_check_multisig_verify c (tally opcode_cost p) = Some (e',
      (tally opcode_cost p)\<lparr>operation_count := operation_count (tally opcode_cost p) + length keys,
        primary := rest\<rparr>)"
    and "e' = success \<longleftrightarrow> (\<exists>js. key_assignment c (tally opcode_cost p) (replicate m e) keys js)"
    by (rule multisig_verify_arguments [of "tally opcode_cost p" keys "replicate m e" rest c])
      (use assms(1,2) in \<open>auto simp: multisig_arguments_tally\<close>)
  with k assms(3) show ?thesis by (auto simp: run_op_dispatch)
qed

text \<open>CHECKLOCKTIMEVERIFY. When it is active it succeeds, and changes nothing but the cost, exactly
  when the input is not final and the operand is a lock time of the transaction's kind that is not
  above the transaction's.\<close>

theorem locktime_verify_iff:
  assumes "is_enabled (prog_forks p) bip65_rule" "op_code op = opcode_checklocktimeverify"
    and "unat (prog_input_index p) < length (tx_inputs (prog_tx p))"
  shows "run_op c at op p = Some (success, tally opcode_cost p) \<longleftrightarrow>
    in_sequence (tx_inputs (prog_tx p) ! unat (prog_input_index p)) \<noteq> max_input_sequence \<and>
    (\<exists>v. lock_operand p = Some v \<and>
      (nat v < locktime_threshold \<longleftrightarrow> unat (tx_locktime (prog_tx p)) < locktime_threshold) \<and>
      nat v \<le> unat (tx_locktime (prog_tx p)))"
  using op_check_locktime_verify_iff [of "tally opcode_cost p"] assms by (simp add: run_op_dispatch)

text \<open>CHECKSEQUENCEVERIFY. When it is active it succeeds exactly when the operand has its disable bit
  set, or the transaction's version is at least 2, the input's sequence has its disable bit clear and
  is of the operand's kind, and its 16 bit value is not below the operand's.\<close>

theorem sequence_verify_iff:
  assumes "is_enabled (prog_forks p) bip112_rule" "op_code op = opcode_checksequenceverify"
    and "unat (prog_input_index p) < length (tx_inputs (prog_tx p))"
  shows "run_op c at op p = Some (success, tally opcode_cost p) \<longleftrightarrow>
    (\<exists>v. lock_operand p = Some v \<and>
      (bit v 31 \<or>
       (let q = in_sequence (tx_inputs (prog_tx p) ! unat (prog_input_index p)) in
        2 \<le> tx_version (prog_tx p) \<and> \<not> bit q 31 \<and> (bit v 22 \<longleftrightarrow> bit q 22) \<and>
        take_bit 16 v \<le> take_bit 16 (uint q))))"
  using op_check_sequence_verify_iff [of "tally opcode_cost p"] assms by (simp add: run_op_dispatch)

text \<open>A crypto that verifies a signature that equals the key.\<close>

lemma example_verifies:
  "unat (prog_input_index p) < length (tx_inputs (prog_tx p)) \<Longrightarrow> k \<noteq> [] \<Longrightarrow>
     verifies example_crypto p (k @ [t]) key \<longleftrightarrow> key = k"
  using signature_preimage_Some [of example_crypto "prog_tx p" "prog_input_index p"]
  by (auto simp: verifies_def parse_endorsement_def parse_signature_def example_crypto_def
      check_program_signature_def check_signature_def generate_signature_hash_def bind_eq_Some_conv)

abbreviation multisig_stack :: "bytes list" where
  "multisig_stack \<equiv> [[2], [7], [8], [2], [8, 0x41], [8, 0x41], []]"

lemma replicate_2: "replicate 2 x = [x, x]"
  by (simp add: numeral_2_eq_2)

lemma example_multisig:
  "multisig_arguments (example_program multisig_stack 0) [[7], [8]] (replicate 2 [8, 0x41]) []"
  "unat (prog_input_index (example_program s f)) < length (tx_inputs (prog_tx (example_program s f)))"
  by (auto simp: multisig_arguments_def example_program_def max_integer_size_legacy_def is_enabled_def
      sm_value_def replicate_2 example_tx_def)

theorem multisig_accepts_iff_witness:
  "\<exists>e p'. run_op example_crypto None (operation_of_opcode opcode_checkmultisigverify)
     (example_program multisig_stack 0) = Some (e, p') \<and> e = success \<and> primary p' = []"
proof -
  let ?p = "example_program multisig_stack 0"
  have "verifies example_crypto ?p [8, 0x41] [8]"
    using example_verifies [OF example_multisig(2), of "[8]" multisig_stack 0 "0x41" "[8]"] by simp
  then have "\<exists>js. length js = length (replicate 2 [8, 0x41 :: u8]) \<and> sorted js \<and>
      (\<forall>i < length (replicate 2 [8, 0x41 :: u8]). js ! i < length [[7 :: u8], [8]] \<and>
        verifies example_crypto ?p (replicate 2 [8, 0x41] ! i) ([[7], [8]] ! (js ! i)))"
    by (intro exI [of _ "[1, 1]"]) (auto simp: less_Suc_eq replicate_2)
  with multisig_accepts_iff [OF example_multisig(2) example_multisig(1),
      of "operation_of_opcode opcode_checkmultisigverify" example_crypto None]
  show ?thesis by (auto simp: operation_of_opcode_def)
qed

theorem one_signature_satisfies_multisig_witness:
  "\<exists>p'. run_op example_crypto None (operation_of_opcode opcode_checkmultisigverify)
     (example_program multisig_stack 0) = Some (success, p') \<and> primary p' = []"
  by (rule one_signature_satisfies_multisig [OF example_multisig(2) example_multisig(1), of _ "[8]"])
    (use example_verifies [OF example_multisig(2), of "[8]" multisig_stack 0 "0x41" "[8]"] in
      \<open>auto simp: operation_of_opcode_def\<close>)

theorem locktime_verify_iff_witness:
  "run_op example_crypto None (operation_of_opcode opcode_checklocktimeverify)
     (example_program [[0]] bip65_rule) = Some (success, tally opcode_cost (example_program [[0]] bip65_rule)) \<longleftrightarrow>
   in_sequence (tx_inputs example_tx ! 0) \<noteq> max_input_sequence \<and> unat (tx_locktime example_tx) < locktime_threshold"
  using locktime_verify_iff [OF _ _ example_multisig(2), of "[[0]]" bip65_rule
      "operation_of_opcode opcode_checklocktimeverify" example_crypto None]
  by (simp add: operation_of_opcode_def is_enabled_def example_program_def lock_operand_def sm_value_def)

theorem sequence_verify_iff_witness:
  "run_op example_crypto None (operation_of_opcode opcode_checksequenceverify)
     (example_program [[0, 0, 0, 0x80, 0]] bip112_rule) =
     Some (success, tally opcode_cost (example_program [[0, 0, 0, 0x80, 0]] bip112_rule))"
  using sequence_verify_iff [OF _ _ example_multisig(2), of "[[0, 0, 0, 0x80, 0]]" bip112_rule
      "operation_of_opcode opcode_checksequenceverify" example_crypto None]
  by (simp add: operation_of_opcode_def is_enabled_def example_program_def lock_operand_def sm_value_def)

end
