(* ===== verification/Script_Execution.thy ===== *)
theory Script_Execution
  imports Signature_Spec
begin

text \<open>
  Whole scripts: the branches that are not taken, running in single steps, and the verification of
  a payment to a public key hash by \<open>script::verify\<close>.
\<close>

section \<open>Branches that are not taken\<close>

text \<open>\<open>skips d ops\<close>: inside a branch, with \<open>d\<close> nested conditions open, \<open>ops\<close> closes them all and
  neither negates nor closes the condition of the branch itself.\<close>

fun skips :: "nat \<Rightarrow> operation list \<Rightarrow> bool" where
  "skips d [] \<longleftrightarrow> d = 0"
| "skips d (op # ops) \<longleftrightarrow>
     (if op_code op = opcode_if \<or> op_code op = opcode_notif then skips (Suc d) ops
      else if op_code op = opcode_else then d \<noteq> 0 \<and> skips d ops
      else if op_code op = opcode_endif then d \<noteq> 0 \<and> skips (d - 1) ops
      else skips d ops)"

definition counted :: "operation list \<Rightarrow> nat" where
  "counted ops = length (filter (\<lambda>op. op_is_counted (op_code op)) ops)"

definition acceptable :: "program \<Rightarrow> operation list \<Rightarrow> bool" where
  "acceptable p ops \<longleftrightarrow>
     (\<forall>op \<in> set ops. length (op_data op) \<le> max_script_element_size p \<and>
       \<not> op_is_disabled (op_code op) (prog_forks p)) \<and>
     operation_count p + counted ops \<le> max_counted_ops \<and> stack_depth p \<le> max_stack_size \<and>
     limits (prog_metrics p) = None \<and> length (condition p) + length ops < size_t_range \<and>
     (is_chip_vm_limits_enabled p \<longrightarrow> length (condition p) + length ops \<le> max_conditional_stack_depth)"

lemma not_succeeded:
  assumes "negative_count p = of_nat (count_list (condition p) False)" "False \<in> set (condition p)"
    and "length (condition p) < size_t_range"
  shows "\<not> succeeded p"
proof -
  have "0 < count_list (condition p) False" by (metis assms(2) count_list_0_iff neq0_conv)
  moreover have "count_list (condition p) False < size_t_range"
    using assms(3) count_le_length [of "condition p" False] by linarith
  ultimately show ?thesis
    using assms(1) by (simp add: succeeded_def word_of_nat_eq_0_iff nat_dvd_not_less)
qed

text \<open>What a skipped operation leaves of a program.\<close>

definition skipped :: "operation \<Rightarrow> program \<Rightarrow> program \<Rightarrow> bool" where
  "skipped op p q \<longleftrightarrow> primary q = primary p \<and> alternate q = alternate p \<and> same_registers p q \<and>
     operation_count q = operation_count p + counted [op] \<and> length (condition q) \<le> length (condition p) + 1 \<and>
     negative_count q = of_nat (count_list (condition q) False) \<and>
     condition q = (if op_code op = opcode_if \<or> op_code op = opcode_notif then False # condition p
       else if op_code op = opcode_else then (\<not> hd (condition p)) # tl (condition p)
       else if op_code op = opcode_endif then tl (condition p) else condition p)"

lemma skip_step:
  assumes ok: "negative_count p = of_nat (count_list (condition p) False)" "\<not> succeeded p"
    and acc: "acceptable p (op # ops)"
    and cond: "op_code op = opcode_else \<or> op_code op = opcode_endif \<Longrightarrow> condition p \<noteq> []"
  obtains q where "run_step c at op p = Some (success, q)" "skipped op p q"
proof -
  let ?q = "if op_is_counted (op_code op) then p\<lparr>operation_count := operation_count p + 1\<rparr> else p"
  have inc: "increment_operation_count op p = (True, ?q)"
    using acc by (auto simp: increment_operation_count_def operation_overflow_def acceptable_def
        counted_def Let_def split: if_splits)
  have q: "negative_count ?q = negative_count p" "condition ?q = condition p" "limits (prog_metrics ?q) = None"
    "is_chip_vm_limits_enabled ?q = is_chip_vm_limits_enabled p" "stack_depth ?q = stack_depth p"
    "primary ?q = primary p" "alternate ?q = alternate p"
    using acc by (simp_all add: acceptable_def is_chip_vm_limits_enabled_def stack_depth_def)
  show thesis
  proof (cases "op_is_conditional (op_code op)")
    case False
    then have "run_step c at op p = Some (success, ?q)"
      using acc ok(2) q inc
      by (auto simp: run_step_def is_oversized_def acceptable_def prog_if_def ok_def succeeded_def)
    moreover have "skipped op p ?q"
      using False ok(1) by (simp add: skipped_def same_registers_def counted_def op_is_conditional_def)
    ultimately show thesis by (rule that)
  next
    case True
    obtain r where r: "run_op c at op ?q = Some (success, r)" "skipped op p r"
    proof -
      have c: "condition p \<noteq> [] \<or> op_code op = opcode_if \<or> op_code op = opcode_notif"
        using True cond by (auto simp: op_is_conditional_def)
      have "wp False (run_op c at op ?q) (\<lambda>(e, r). e = success \<and> skipped op p r)"
        using True c ok q(1,2)
        by (cases "condition p")
          (auto simp: op_is_conditional_def run_op_dispatch op_if_def op_notif_def op_else_def
            op_endif_def skipped_def primitive_defs same_registers_def counted_def succeeded_def)
      then show thesis using that by (cases "run_op c at op ?q") auto
    qed
    have "\<not> is_stack_overflow r" "\<not> is_over_hash_iters_limit (prog_metrics r)"
      "is_chip_vm_limits_enabled r \<Longrightarrow> length (condition r) \<le> max_conditional_stack_depth"
      using r(2) acc by (auto simp: skipped_def acceptable_def is_stack_overflow_def stack_depth_def
        is_over_hash_iters_limit_def same_registers_def is_chip_vm_limits_enabled_def)
    with r(1) True acc inc have "run_step c at op p = Some (success, r)"
      by (auto simp: run_step_def is_oversized_def acceptable_def prog_if_def ok_def)
    then show thesis using r(2) by (rule that)
  qed
qed

lemma skipped_acceptable:
  assumes "acceptable p (op # ops)" "skipped op p q"
  shows "acceptable q ops"
proof -
  have r: "prog_forks q = prog_forks p" "limits (prog_metrics q) = limits (prog_metrics p)"
    "stack_depth q = stack_depth p"
    "operation_count q + counted ops = operation_count p + counted (op # ops)"
    using assms(2) by (simp_all add: skipped_def same_registers_def stack_depth_def counted_def)
  have "length (condition q) \<le> Suc (length (condition p))"
    using assms(2) unfolding skipped_def by linarith
  moreover have l: "max_script_element_size q = max_script_element_size p"
    "is_chip_vm_limits_enabled q = is_chip_vm_limits_enabled p"
    using r(1) by (simp_all add: max_script_element_size_def is_chip_vm_limits_enabled_def)
  ultimately show ?thesis
    using assms(1) unfolding acceptable_def r l by simp linarith
qed

lemma skip_block:
  assumes "condition p = opened @ False # cs" "skips (length opened) block"
    and "negative_count p = of_nat (count_list (condition p) False)" "acceptable p block"
  shows "\<exists>q. run_loop c i (block @ rest) p = run_loop c (i + length block) rest q \<and>
    condition q = False # cs \<and> primary q = primary p \<and> alternate q = alternate p \<and>
    same_registers p q \<and> operation_count q = operation_count p + counted block"
  using assms
proof (induction block arbitrary: i p opened)
  case Nil
  then show ?case by (auto simp: same_registers_def counted_def)
next
  case (Cons op block)
  have "\<not> succeeded p"
    by (rule not_succeeded) (use Cons.prems in \<open>auto simp: acceptable_def\<close>)
  then obtain q where q: "run_step c (Some i) op p = Some (success, q)" "skipped op p q"
    by (rule skip_step [OF Cons.prems(3) _ Cons.prems(4)]) (use Cons.prems(1) in auto)
  have "\<exists>opened'. condition q = opened' @ False # cs \<and> skips (length opened') block"
  proof (cases "op_code op = opcode_if \<or> op_code op = opcode_notif")
    case True
    then show ?thesis
      using Cons.prems(1,2) q(2) by (intro exI [of _ "False # opened"]) (auto simp: skipped_def)
  next
    case no_if: False
    show ?thesis
    proof (cases "op_code op = opcode_else \<or> op_code op = opcode_endif")
      case True
      with Cons.prems(2) no_if obtain b bs where "opened = b # bs" by (cases opened) auto
      with True no_if Cons.prems(1,2) q(2) show ?thesis
        by (intro exI [of _ "if op_code op = opcode_else then (\<not> b) # bs else bs"])
          (auto simp: skipped_def)
    next
      case False
      with no_if Cons.prems(1,2) q(2) show ?thesis
        by (intro exI [of _ opened]) (simp add: skipped_def)
    qed
  qed
  then obtain opened' where o': "condition q = opened' @ False # cs" "skips (length opened') block"
    by blast
  have "negative_count q = of_nat (count_list (condition q) False)" using q(2) by (simp add: skipped_def)
  from Cons.IH [OF o' this skipped_acceptable [OF Cons.prems(4) q(2)], of "Suc i"] obtain r
    where r: "run_loop c (Suc i) (block @ rest) q = run_loop c (Suc i + length block) rest r"
      "condition r = False # cs" "primary r = primary q" "alternate r = alternate q"
      "same_registers q r" "operation_count r = operation_count q + counted block" by blast
  with q show ?case
    by (intro exI [of _ r]) (auto simp: skipped_def same_registers_def counted_def)
qed

text \<open>A branch that is not taken is skipped. While the innermost condition is false, a block of
  operations with balanced conditionals, within the limits that are checked for skipped operations
  as well, leaves the stacks, the conditions and the registers as they are; running goes on behind
  it with its operations counted.\<close>

theorem skipped_branch:
  assumes "condition p = False # cs" "skips 0 block"
    and "negative_count p = of_nat (count_list (condition p) False)" "acceptable p block"
  shows "\<exists>q. run_loop c i (block @ rest) p = run_loop c (i + length block) rest q \<and>
    condition q = condition p \<and> primary q = primary p \<and> alternate q = alternate p \<and>
    same_registers p q \<and> operation_count q = operation_count p + counted block"
  using skip_block [of p "[]" cs block c i rest] assms by simp

definition example_branch :: "operation list" where
  "example_branch = [operation_of_opcode opcode_if, operation_of_opcode opcode_else,
     operation_of_opcode opcode_return, operation_of_opcode opcode_endif]"

theorem skipped_branch_witness:
  "\<exists>q. run_loop example_crypto 0 (example_branch @ [operation_of_opcode opcode_endif])
     (open_condition False (example_program [[7]] 0)) =
     run_loop example_crypto 4 [operation_of_opcode opcode_endif] q \<and> primary q = [[7]] \<and> condition q = [False]"
proof -
  let ?p = "open_condition False (example_program [[7]] 0)"
  have "acceptable ?p example_branch"
    by (simp add: acceptable_def example_branch_def operation_of_opcode_def open_condition_def
        example_program_def op_is_disabled_def is_enabled_def counted_def op_is_counted_def
        stack_depth_def metrics_default_def is_chip_vm_limits_enabled_def)
  moreover have "condition ?p = False # []" "skips 0 example_branch"
      "negative_count ?p = of_nat (count_list (condition ?p) False)"
      "primary ?p = [[7]]" "0 + length example_branch = 4"
    by (simp_all add: example_branch_def operation_of_opcode_def open_condition_def example_program_def)
  ultimately show ?thesis
    using skipped_branch [of ?p "[]" example_branch example_crypto 0 "[operation_of_opcode opcode_endif]"]
    by auto
qed

section \<open>Running in steps\<close>

text \<open>A debugger that steps through a program of \<open>n\<close> operations.\<close>

fun debug_run :: "crypto \<Rightarrow> nat \<Rightarrow> nat \<Rightarrow> program \<Rightarrow> op_result" where
  "debug_run c 0 step p = Some (debug_end p, p)"
| "debug_run c (Suc n) step p =
     (if debug_steps_available p step then do {
        (ec, step, p) \<leftarrow> debug_step c p step;
        if ec \<noteq> success then Some (ec, p) else debug_run c n step p }
      else Some (debug_end p, p))"

lemma run_op_at:
  assumes "op_code op \<noteq> opcode_codeseparator"
  shows "run_op c at op p = run_op c at' op p"
proof -
  have "map_of (crypto_cases c at) (op_code op) = map_of (crypto_cases c at') (op_code op)"
    using assms by (simp add: crypto_cases_def)
  note eq = this
  show ?thesis unfolding run_op_def map_of_append map_add_def eq by (rule refl)
qed

lemma run_step_at:
  assumes "op_code op \<noteq> opcode_codeseparator"
  shows "run_step c at op p = run_step c at' op p"
proof -
  have "run_op c at op = run_op c at' op" by (rule ext) (rule run_op_at [OF assms])
  then show ?thesis by (simp only: run_step_def)
qed

lemma debug_run_loop:
  assumes "crypto_ok c" "\<forall>op \<in> set (prog_ops p). op_code op \<noteq> opcode_codeseparator"
    and "within_limits p" "ops = drop i (prog_ops p)"
  shows "debug_run c (length ops) i p = run_loop c i ops p"
  using assms(2-4)
proof (induction ops arbitrary: i p)
  case Nil
  then show ?case by (simp add: debug_end_def ok_def failed_def)
next
  case (Cons op ops)
  then have op: "i < length (prog_ops p)" "prog_ops p ! i = op" "ops = drop (Suc i) (prog_ops p)"
    by (metis drop_eq_Nil list.discI not_less, metis nth_via_drop, metis drop_Suc list.sel(3) tl_drop)
  then have "op \<in> set (prog_ops p)" by (metis nth_mem)
  with Cons.prems(1) have step: "run_step c None op p = run_step c (Some i) op p"
    by (intro run_step_at) blast
  show ?case
  proof (cases "run_step c (Some i) op p")
    case None
    with op step show ?thesis by (simp add: debug_steps_available_def debug_step_def)
  next
    case (Some r)
    obtain e q where r: "r = (e, q)" by fastforce
    from run_step_keeps [OF assms(1) _ Cons.prems(2), of "Some i" op e q] Some r
    have "prog_ops q = prog_ops p" "e = success \<longrightarrow> within_limits q" by (auto simp: same_registers_def)
    with Cons.IH [of q "Suc i"] Cons.prems(1) op step Some r show ?thesis
      by (simp add: debug_steps_available_def debug_step_def failed_def)
  qed
qed

text \<open>Stepping through a script in the debugger gives what running it gives, for scripts without
  CODESEPARATOR (which the debugger, working on a copy of the operation, always rejects).\<close>

theorem debug_run_equals_run:
  assumes "crypto_ok c" "make_program s tx i f stack v = Some p" "length stack \<le> max_stack_size"
    and "small (max_script_element_size p) stack" "program_is_valid p"
    and "\<forall>op \<in> set (prog_ops p). op_code op \<noteq> opcode_codeseparator"
  shows "debug_start p = (success, 0) \<and> debug_run c (length (prog_ops p)) 0 p = run c p"
  using debug_run_loop [OF assms(1,6) make_program_within [OF assms(2-4)], of "prog_ops p" 0] assms(5)
  by (simp add: run_def debug_start_def)

text \<open>In the debugger CODESEPARATOR fails where the interpreter succeeds.\<close>

theorem debug_codeseparator_fails:
  assumes "prog_ops p ! i = operation_of_opcode opcode_codeseparator" "i < length (prog_ops p)"
  shows "(\<exists>q. run_op c None (prog_ops p ! i) p = Some (Crypto_error err_op_code_seperator, q)) \<and>
    (\<exists>q. run_op c (Some i) (prog_ops p ! i) p = Some (success, q) \<and> prog_jump q = i + 1)"
proof -
  have "prog_ops (tally opcode_cost p) = prog_ops p" by (simp add: tally_def)
  with assms show ?thesis
    by (auto simp: run_op_dispatch operation_of_opcode_def op_codeseparator_def set_jump_register_def
        failed_def ok_def)
qed

lemma example_valid:
  "\<exists>p. make_program (script_from_operations example_ops) example_tx 0 0 [] 0 = Some p \<and>
     program_is_valid p \<and> prog_ops p = example_ops"
  by (auto simp: run_defs example_ops_def operation_of_opcode_def operation_of_data_def
      opcode_from_data_def minimal_opcode_from_data_def opcode_from_positive_def op_is_payload_def
      operations_to_data_def operation_to_data_def)

theorem debug_run_equals_run_witness:
  "\<exists>p p'. make_program (script_from_operations example_ops) example_tx 0 0 [] 0 = Some p \<and>
     debug_run example_crypto 3 0 p = Some (success, p') \<and> primary p' = [[10]]"
proof -
  obtain p where p: "make_program (script_from_operations example_ops) example_tx 0 0 [] 0 = Some p"
    "program_is_valid p" "prog_ops p = example_ops" using example_valid by blast
  have "\<forall>op \<in> set (prog_ops p). op_code op \<noteq> opcode_codeseparator"
    by (simp add: p(3) example_ops_def operation_of_opcode_def operation_of_data_def
      opcode_from_data_def minimal_opcode_from_data_def opcode_from_positive_def op_is_payload_def
      is_oversized_def)
  with debug_run_equals_run [OF example_crypto_ok p(1) _ _ p(2)]
  have "debug_run example_crypto (length example_ops) 0 p = run example_crypto p" by (simp add: p(3))
  with example_run p(1) show ?thesis by (auto simp: example_ops_def numeral_3_eq_3)
qed

theorem debug_codeseparator_fails_witness:
  "\<exists>q. run_op example_crypto None (operation_of_opcode opcode_codeseparator)
     (example_program [] 0\<lparr>prog_ops := [operation_of_opcode opcode_codeseparator]\<rparr>) =
     Some (Crypto_error err_op_code_seperator, q)"
  using debug_codeseparator_fails
    [of "example_program [] 0\<lparr>prog_ops := [operation_of_opcode opcode_codeseparator]\<rparr>" 0 example_crypto]
  by simp

end
