(* ===== verification/Script_Verify.thy ===== *)
theory Script_Verify
  imports Script_Execution
begin

text \<open>
  \<open>script::verify\<close> on a payment to a public key hash: the two scripts are run one after the other,
  which comes down to one comparison and one signature check.
\<close>

section \<open>Pushing small items\<close>

definition small_push :: "bytes \<Rightarrow> operation" where
  "small_push data = \<lparr>op_code = of_nat (length data), op_data = data, op_valid = True\<rparr>"

lemma operation_of_small_data:
  "2 \<le> length data \<Longrightarrow> length data \<le> 75 \<Longrightarrow> operation_of_data data True = small_push data"
  by (auto simp: operation_of_data_def small_push_def opcode_from_data_def minimal_opcode_from_data_def
      opcode_from_size_def is_oversized_def op_is_payload_def word_le_nat_alt unat_of_nat Let_def)

lemma small_push_code:
  assumes "length data \<le> 75"
  shows "op_code (small_push data) \<le> opcode_push_size_75"
    "\<not> op_is_counted (op_code (small_push data))"
    "\<not> op_is_conditional (op_code (small_push data))"
    "\<not> op_is_disabled (op_code (small_push data)) f"
proof -
  show le: "op_code (small_push data) \<le> opcode_push_size_75"
    using assms by (simp add: small_push_def word_le_nat_alt unat_of_nat)
  show "\<not> op_is_counted (op_code (small_push data))"
    "\<not> op_is_conditional (op_code (small_push data))"
    "\<not> op_is_disabled (op_code (small_push data)) f"
    using le by (auto simp: op_is_counted_def op_is_conditional_def op_is_disabled_def dest: order_trans)
qed

lemma run_step_small_push:
  assumes "length data \<le> 75" "succeeded p" "operation_count p \<le> max_counted_ops"
    "stack_depth p < max_stack_size" "limits (prog_metrics p) = None"
    "length (condition p) \<le> max_conditional_stack_depth"
  shows "run_step c at (small_push data) p =
    Some (success, tally (length data) (push_move data (tally opcode_cost p)))"
proof -
  note small = small_push_code [OF assms(1)]
  have "run_op c at (small_push data) p =
      Some (success, tally (length data) (push_move data (tally opcode_cost p)))"
    using assms(1) small(1)
    by (simp add: run_op_def Let_def op_push_size_def tally_top_def top_def push_move_def ok_def tally_def
        small_push_def)
  moreover have "increment_operation_count (small_push data) p = (True, p)"
    using assms(3) small(2) by (simp add: increment_operation_count_def operation_overflow_def)
  ultimately show ?thesis
    using assms small
    by (simp add: run_step_def is_oversized_def prog_if_def is_stack_overflow_def stack_depth_def
        is_over_hash_iters_limit_def ok_def tally_def push_move_def add_op_cost_def
        small_push_def max_script_element_size_def)
qed

section \<open>Payment to a public key hash\<close>

abbreviation pkh_ops :: "bytes \<Rightarrow> operation list" where
  "pkh_ops h \<equiv> to_pay_public_key_hash_pattern h"

lemma pkh_ops_small:
  "length h = 20 \<Longrightarrow> pkh_ops h =
     [operation_of_opcode opcode_dup, operation_of_opcode opcode_hash160, small_push h,
      operation_of_opcode opcode_equalverify, operation_of_opcode opcode_checksig]"
  by (simp add: to_pay_public_key_hash_pattern_def operation_of_small_data)

lemma length_small_push: "length data \<le> 75 \<Longrightarrow> length (operation_to_data (small_push data)) = Suc (length data)"
  using small_push_code(1) [of data] by (auto simp: operation_to_data_def Let_def) (simp_all add: small_push_def)

lemma length_opcode: "length (operation_to_data (operation_of_opcode code)) \<le> 5"
  by (simp add: operation_to_data_def operation_of_opcode_def Let_def write_2_bytes_little_endian_def write_4_bytes_little_endian_def)

text \<open>A program outside all conditions, and a step that leaves it with the items \<open>ys\<close>.\<close>

definition plain :: "program \<Rightarrow> bool" where
  "plain p \<longleftrightarrow> condition p = [] \<and> negative_count p = 0 \<and> alternate p = [] \<and> limits (prog_metrics p) = None"

definition leaves :: "program \<Rightarrow> bytes list \<Rightarrow> program \<Rightarrow> bool" where
  "leaves p ys q \<longleftrightarrow> plain q \<and> primary q = ys \<and> same_registers p q \<and> prog_jump q = prog_jump p \<and>
     operation_count q \<le> Suc (operation_count p)"

lemma step_small_push:
  assumes "length data \<le> 75" "plain p" "operation_count p \<le> max_counted_ops"
    "length (primary p) < max_stack_size"
  obtains q where "run_step c at (small_push data) p = Some (success, q)" "leaves p (data # primary p) q"
proof -
  let ?q = "tally (length data) (push_move data (tally opcode_cost p))"
  have "run_step c at (small_push data) p = Some (success, ?q)"
    by (rule run_step_small_push) (use assms in \<open>auto simp: plain_def succeeded_def stack_depth_def\<close>)
  moreover have "leaves p (data # primary p) ?q"
    using assms(2) by (simp add: leaves_def plain_def tally_def push_move_def same_registers_def add_op_cost_def)
  ultimately show thesis by (rule that)
qed

lemma step_opcode:
  assumes "plain p" "\<not> op_is_disabled code (prog_forks p)" "op_is_counted code"
    "operation_count p < max_counted_ops" "length ys \<le> max_stack_size"
    and "wp False (run_op c at (operation_of_opcode code) (p\<lparr>operation_count := Suc (operation_count p)\<rparr>))
      (\<lambda>(e, q). Q e \<and> (e = success \<longrightarrow> leaves p ys q))"
  obtains e q where "run_step c at (operation_of_opcode code) p = Some (e, q)" "Q e"
    "e = success \<Longrightarrow> leaves p ys q"
proof -
  obtain e q where r: "run_op c at (operation_of_opcode code) (p\<lparr>operation_count := Suc (operation_count p)\<rparr>) = Some (e, q)"
    and post: "Q e" "e = success \<Longrightarrow> leaves p ys q"
    using assms(6) by (cases "run_op c at (operation_of_opcode code) (p\<lparr>operation_count := Suc (operation_count p)\<rparr>)") auto
  have step: "run_step c at (operation_of_opcode code) p = Some (e, q)"
    using assms(1-5) r post(2)
    by (auto simp: run_step_def is_oversized_def operation_of_opcode_def prog_if_def succeeded_def plain_def
        increment_operation_count_def operation_overflow_def is_stack_overflow_def leaves_def
        is_over_hash_iters_limit_def ok_def failed_def)
  show thesis by (rule that [OF step post])
qed

lemmas step_defs = run_op_dispatch operation_of_opcode_def leaves_def plain_def same_registers_def primitive_defs

lemma step_dup:
  assumes "plain p" "operation_count p < max_counted_ops" "primary p = x # s" "length s \<le> 100"
  obtains q where "run_step c at (operation_of_opcode opcode_dup) p = Some (success, q)" "leaves p (x # x # s) q"
  by (rule step_opcode [of p opcode_dup "x # x # s" c at "\<lambda>e. e = success"])
    (use assms in \<open>auto simp: step_defs op_is_disabled_def op_is_counted_def op_dup_def\<close>)

lemma step_hash160:
  assumes "plain p" "operation_count p < max_counted_ops" "primary p = x # s" "length s \<le> 100"
  obtains q where "run_step c at (operation_of_opcode opcode_hash160) p = Some (success, q)"
    "leaves p (ripemd160_hash c (sha256_hash c x) # s) q"
  by (rule step_opcode [of p opcode_hash160 "ripemd160_hash c (sha256_hash c x) # s" c at "\<lambda>e. e = success"])
    (use assms in \<open>auto simp: step_defs op_is_disabled_def op_is_counted_def op_hash160_def\<close>)

lemma step_equal_verify:
  assumes "plain p" "operation_count p < max_counted_ops" "primary p = x # y # s" "length s \<le> 100"
  obtains e q where "run_step c at (operation_of_opcode opcode_equalverify) p = Some (e, q)"
    "e = success \<longleftrightarrow> x = y" "e = success \<Longrightarrow> leaves p s q"
  by (rule step_opcode [of p opcode_equalverify s c at "\<lambda>e. e = success \<longleftrightarrow> x = y"])
    (use assms in \<open>auto simp: step_defs op_is_disabled_def op_is_counted_def op_equal_verify_def\<close>)


lemma step_checksig:
  assumes "unat (prog_input_index p) < length (tx_inputs (prog_tx p))"
    and "plain p" "operation_count p < max_counted_ops" "primary p = key # sig # s" "length s \<le> 100"
  obtains e q where "run_step c at (operation_of_opcode opcode_checksig) p = Some (e, q)"
    "verifies c p sig key \<Longrightarrow> e = success"
    "e = success \<Longrightarrow> leaves p (bool_item (verifies c p sig key) # s) q"
proof -
  obtain R where R: "\<And>g t x. check_signature c g t key x (prog_tx p) (prog_input_index p) (prog_forks p)
      (prog_value p) = Some (R g t x)"
  proof
    show "check_signature c g t key x (prog_tx p) (prog_input_index p) (prog_forks p) (prog_value p) =
        Some (the (check_signature c g t key x (prog_tx p) (prog_input_index p) (prog_forks p) (prog_value p)))"
      for g t x using check_program_signature_defined [OF assms(1)] by (simp add: check_program_signature_def)
  qed
  let ?q = "p\<lparr>operation_count := Suc (operation_count p)\<rparr>"
  note simps = step_defs op_check_sig_def op_check_sig_common_def verifies_def tally_sig_check_def
    add_sig_checks_def add_hash_iterations_def encoding_error_def check_program_signature_def subscript_def
    bool_item_def Let_def
  have "wp False (run_op c at (operation_of_opcode opcode_checksig) ?q)
      (\<lambda>(e, q). (verifies c p sig key \<longrightarrow> e = success) \<and>
        (e = success \<longrightarrow> leaves p (bool_item (verifies c p sig key) # s) q))"
  proof (cases "parse_endorsement sig")
    case None
    with assms(2-5) show ?thesis by (simp add: simps)
  next
    case (Some x)
    obtain t d where x: "x = (t, d)" by fastforce
    show ?thesis
    proof (cases "parse_signature c d (is_enabled (prog_forks p) bip66_rule)")
      case None
      with Some x assms(2-5) show ?thesis by (simp add: simps)
    next
      case (Some g)
      obtain r n where "R g t (script_from_operations (drop (prog_jump p) (prog_ops p))) = (r, n)" by fastforce
      with Some \<open>parse_endorsement sig = Some x\<close> x R assms(2-5) show ?thesis by (cases r) (simp_all add: simps)
    qed
  qed
  note wp = this
  show thesis
    by (rule step_opcode [OF assms(2) _ _ assms(3) _ wp])
      (use assms(5) that in \<open>auto simp: op_is_disabled_def op_is_counted_def\<close>)
qed

text \<open>A script of small operations that does not start with RETURN makes a valid program.\<close>

lemma make_program_script:
  assumes "length (operations_to_data ops) \<le> max_script_size" "ops \<noteq> []" "op_valid (last ops)"
    and "op_code (hd ops) \<noteq> opcode_return"
  obtains p where "make_program (script_from_operations ops) tx i f s v = Some p" "program_is_valid p"
    "prog_ops p = ops" "plain p" "primary p = s" "operation_count p = 0" "prog_jump p = 0"
    "prog_tx p = tx" "prog_input_index p = i" "prog_forks p = f" "prog_value p = v"
proof (rule that)
  let ?p = "\<lparr>prog_script = script_from_operations ops, prog_ops = ops, prog_tx = tx, prog_input_index = i,
    prog_forks = f, prog_value = v, negative_count = 0, operation_count = 0, prog_jump = 0,
    primary = s, alternate = [], condition = [], prog_metrics = metrics_default\<rparr>"
  show "make_program (script_from_operations ops) tx i f s v = Some ?p"
    by (simp add: make_program_def script_operations_def script_from_operations_def)
  show "program_is_valid ?p"
    using assms by (simp add: program_is_valid_def is_valid_operations_def is_unspendable_def
        script_serialized_size_def script_from_operations_def hd_conv_nth)
  show "plain ?p" by (simp add: plain_def metrics_default_def)
qed simp_all

lemma run_loop_step:
  "run_step c (Some i) op p = Some (e, q) \<Longrightarrow>
   run_loop c i (op # ops) p = (if e = success then run_loop c (Suc i) ops q else Some (e, q))"
  by (simp add: failed_def)

lemma run_loop_done: "plain p \<Longrightarrow> run_loop c i [] p = Some (success, p)"
  by (simp add: plain_def closed_def ok_def)


definition signs ::
  "crypto \<Rightarrow> transaction \<Rightarrow> u32 \<Rightarrow> forks \<Rightarrow> u64 \<Rightarrow> operation list \<Rightarrow> bytes \<Rightarrow> bytes \<Rightarrow> bool" where
  "signs c tx i f v ops endorsement key \<longleftrightarrow>
     (\<exists>t d g n. parse_endorsement endorsement = Some (t, d) \<and>
        parse_signature c d (is_enabled f bip66_rule) = Some g \<and>
        check_signature c g t key (script_from_operations ops) tx i f v = Some (True, n))"

lemma signs_verifies:
  "prog_jump p = 0 \<Longrightarrow>
   verifies c p = signs c (prog_tx p) (prog_input_index p) (prog_forks p) (prog_value p) (prog_ops p)"
  by (auto simp: verifies_def signs_def check_program_signature_def subscript_def fun_eq_iff
      split: option.splits)

lemma run_two_pushes:
  assumes "length sig \<le> 75" "length key \<le> 75" "plain p" "primary p = []" "operation_count p = 0"
  obtains q where "run_loop c 0 [small_push sig, small_push key] p = Some (success, q)"
    "plain q" "primary q = [key, sig]" "same_registers p q"
proof -
  obtain q1 where 1: "run_step c (Some 0) (small_push sig) p = Some (success, q1)" "leaves p [sig] q1"
    using step_small_push [of sig p c "Some 0"] assms by auto
  obtain q2 where 2: "run_step c (Some (Suc 0)) (small_push key) q1 = Some (success, q2)" "leaves q1 [key, sig] q2"
    using step_small_push [of key q1 c "Some (Suc 0)"] 1(2) assms by (auto simp: leaves_def)
  show thesis
  proof (rule that)
    show "run_loop c 0 [small_push sig, small_push key] p = Some (success, q2)"
      using 2(2) by (simp add: run_loop_step [OF 1(1)] run_loop_step [OF 2(1)] run_loop_done leaves_def
          del: run_loop.simps)
    show "plain q2" "primary q2 = [key, sig]" "same_registers p q2"
      using 1(2) 2(2) by (simp_all add: leaves_def same_registers_def)
  qed
qed

lemma leavesD:
  assumes "leaves p ys q"
  shows "plain q" "primary q = ys" "same_registers p q" "prog_jump q = prog_jump p"
    "operation_count q \<le> Suc (operation_count p)"
  using assms by (simp_all add: leaves_def)


lemma run_pkh:
  assumes "length h = 20" "unat i < length (tx_inputs tx)" "plain p" "primary p = [key, sig]"
    "operation_count p = 0" "prog_jump p = 0" "prog_ops p = pkh_ops h" "prog_tx p = tx"
    "prog_input_index p = i" "prog_forks p = f" "prog_value p = v"
  obtains e q where "run_loop c 0 (pkh_ops h) p = Some (e, q)"
    "ripemd160_hash c (sha256_hash c key) = h \<and> signs c tx i f v (pkh_ops h) sig key \<Longrightarrow> e = success"
    "e = success \<Longrightarrow> ripemd160_hash c (sha256_hash c key) = h \<and>
       primary q = [bool_item (signs c tx i f v (pkh_ops h) sig key)]"
proof -
  obtain q1 where 1: "run_step c (Some 0) (operation_of_opcode opcode_dup) p = Some (success, q1)"
    "leaves p [key, key, sig] q1" using step_dup [of p key "[sig]" c "Some 0"] assms by auto
  obtain q2 where 2: "run_step c (Some 1) (operation_of_opcode opcode_hash160) q1 = Some (success, q2)"
    "leaves q1 [ripemd160_hash c (sha256_hash c key), key, sig] q2"
    using step_hash160 [of q1 key "[key, sig]" c "Some 1"] leavesD [OF 1(2)] assms by auto
  obtain q3 where 3: "run_step c (Some 2) (small_push h) q2 = Some (success, q3)"
    "leaves q2 [h, ripemd160_hash c (sha256_hash c key), key, sig] q3"
    using step_small_push [of h q2 c "Some 2"] leavesD [OF 2(2)] leavesD [OF 1(2)] assms by auto
  obtain e4 q4 where 4: "run_step c (Some 3) (operation_of_opcode opcode_equalverify) q3 = Some (e4, q4)"
    "e4 = success \<longleftrightarrow> h = ripemd160_hash c (sha256_hash c key)" "e4 = success \<Longrightarrow> leaves q3 [key, sig] q4"
    using step_equal_verify [of q3 h "ripemd160_hash c (sha256_hash c key)" "[key, sig]" c "Some 3"]
      leavesD [OF 3(2)] leavesD [OF 2(2)] leavesD [OF 1(2)] assms by auto
  have loop: "run_loop c 0 (pkh_ops h) p =
      (if e4 = success then run_loop c 4 [operation_of_opcode opcode_checksig] q4 else Some (e4, q4))"
    using 1(1) 2(1) 3(1) 4(1) by (simp add: pkh_ops_small assms(1) failed_def numeral_eq_Suc)
  show thesis
  proof (cases "e4 = success")
    case False
    with loop 4(2) that show thesis by simp
  next
    case True
    have regs: "same_registers p q4" "prog_jump q4 = 0"
      using leavesD [OF 4(3) [OF True]] leavesD [OF 3(2)] leavesD [OF 2(2)] leavesD [OF 1(2)] assms(6)
      by (simp_all add: same_registers_def)
    then have signs: "verifies c q4 sig key = signs c tx i f v (pkh_ops h) sig key"
      using assms(7-11) by (simp add: signs_verifies same_registers_def)
    obtain e5 q5 where 5: "run_step c (Some 4) (operation_of_opcode opcode_checksig) q4 = Some (e5, q5)"
      "verifies c q4 sig key \<Longrightarrow> e5 = success"
      "e5 = success \<Longrightarrow> leaves q4 [bool_item (verifies c q4 sig key)] q5"
      using step_checksig [of q4 key sig "[]" c "Some 4"] regs(1) assms
        leavesD [OF 4(3) [OF True]] leavesD [OF 3(2)] leavesD [OF 2(2)] leavesD [OF 1(2)]
      by (auto simp: same_registers_def)
    have "run_loop c 0 (pkh_ops h) p = run_loop c 4 [operation_of_opcode opcode_checksig] q4"
      using loop True by simp
    also have "\<dots> = Some (e5, q5)"
      using leavesD(1) [OF 5(3)] by (simp add: run_loop_step [OF 5(1)] run_loop_done del: run_loop.simps)
    finally have run: "run_loop c 0 (pkh_ops h) p = Some (e5, q5)" .
    have h: "ripemd160_hash c (sha256_hash c key) = h" using 4(2) True by simp
    show thesis
    proof (rule that [OF run])
      show "e5 = success" if "ripemd160_hash c (sha256_hash c key) = h \<and> signs c tx i f v (pkh_ops h) sig key"
        using that 5(2) signs by simp
      show "ripemd160_hash c (sha256_hash c key) = h \<and>
          primary q5 = [bool_item (signs c tx i f v (pkh_ops h) sig key)]" if "e5 = success"
        using leavesD(2) [OF 5(3) [OF that]] h signs by simp
    qed
  qed
qed


lemma stack_result_bool_item: "primary q = [bool_item b] \<Longrightarrow> stack_result False q \<longleftrightarrow> b"
  by (simp add: stack_result_def stack_true_def stack_to_bool_def bool_item_def)

lemma run_signature_and_key:
  assumes "2 \<le> length sig" "length sig \<le> 75" "2 \<le> length key" "length key \<le> 75"
  obtains p q where "make_program (script_from_operations [operation_of_data sig True, operation_of_data key True])
      tx i f [] v = Some p" "run c p = Some (success, q)" "primary q = [key, sig]" "prog_tx q = tx"
    "prog_input_index q = i" "prog_forks q = f" "prog_value q = v"
proof -
  have ops: "operation_of_data sig True = small_push sig" "operation_of_data key True = small_push key"
    using assms by (simp_all add: operation_of_small_data)
  have sz: "length (operations_to_data [small_push sig, small_push key]) \<le> max_script_size"
    using assms by (simp add: operations_to_data_def length_small_push)
  have code: "op_code (small_push sig) \<noteq> opcode_return"
    using small_push_code(1) [of sig] assms by auto
  obtain p where p: "make_program (script_from_operations [small_push sig, small_push key]) tx i f [] v = Some p"
    "program_is_valid p" "prog_ops p = [small_push sig, small_push key]" "plain p" "primary p = []"
    "operation_count p = 0" "prog_tx p = tx" "prog_input_index p = i" "prog_forks p = f" "prog_value p = v"
    by (rule make_program_script [OF sz, of tx i f "[]" v]) (use code in \<open>auto simp: small_push_def\<close>)
  obtain q where "run c p = Some (success, q)" "primary q = [key, sig]" "same_registers p q"
    using run_two_pushes [of sig key p c] p assms by (auto simp: run_def)
  with p that show thesis by (simp add: ops same_registers_def)
qed

lemma run_pkh_program:
  assumes "length h = 20" "unat i < length (tx_inputs tx)"
  obtains p e q where "make_program (script_from_operations (pkh_ops h)) tx i f [key, sig] v = Some p"
    "run c p = Some (e, q)"
    "e = success \<and> stack_result False q \<longleftrightarrow>
       ripemd160_hash c (sha256_hash c key) = h \<and> signs c tx i f v (pkh_ops h) sig key"
proof -
  have sz: "length (operations_to_data (pkh_ops h)) \<le> max_script_size"
    using assms length_opcode [of opcode_dup] length_opcode [of opcode_hash160]
      length_opcode [of opcode_equalverify] length_opcode [of opcode_checksig]
    by (simp add: operations_to_data_def length_small_push pkh_ops_small)
  obtain p where p: "make_program (script_from_operations (pkh_ops h)) tx i f [key, sig] v = Some p"
    "program_is_valid p" "prog_ops p = pkh_ops h" "plain p" "primary p = [key, sig]"
    "operation_count p = 0" "prog_jump p = 0" "prog_tx p = tx" "prog_input_index p = i" "prog_forks p = f"
    "prog_value p = v"
    by (rule make_program_script [OF sz, of tx i f "[key, sig]" v])
      (auto simp: pkh_ops_small assms operation_of_opcode_def)
  have run: "run c p = run_loop c 0 (pkh_ops h) p" using p(2,3) by (simp add: run_def)
  obtain e q where q: "run c p = Some (e, q)"
    "ripemd160_hash c (sha256_hash c key) = h \<and> signs c tx i f v (pkh_ops h) sig key \<Longrightarrow> e = success"
    "e = success \<Longrightarrow> ripemd160_hash c (sha256_hash c key) = h \<and>
       primary q = [bool_item (signs c tx i f v (pkh_ops h) sig key)]"
    using run_pkh [OF assms p(4-7,3,8-11), of c] run by (metis (no_types))
  show thesis
    by (rule that [OF p(1) q(1)]) (use q(2,3) in \<open>auto simp: stack_result_bool_item\<close>)
qed

lemma pkh_plain:
  "\<not> is_pay_to_script_hash (pkh_ops h) f" "\<not> is_pay_to_script_hash_32 (pkh_ops h) f"
  "script_operations (script_from_operations (pkh_ops h)) = Some (pkh_ops h)"
  by (simp_all add: is_pay_to_script_hash_def is_pay_to_script_hash_32_def is_pay_script_hash_pattern_def
      is_pay_script_hash_32_pattern_def to_pay_public_key_hash_pattern_def script_operations_def
      script_from_operations_def)

text \<open>C7: A payment to a public key hash, with scripts that are built in memory from their operations. For an existing
  input, a hash of 20 bytes and items of 2 to 75 bytes, the input script that pushes the signature and the key redeems the
  output script exactly when the key has that hash and the signature, encoded as the rules require, is one of the
  transaction by that key over the output's script and the value 2^64 - 1. (Scripts that are parsed from bytes lose
  their operation codes, so this is not the result for a transaction that was received; and the value of the output,
  which the caller passes, is not the one that is signed.)\<close>

theorem pay_public_key_hash_verified_iff:
  assumes "unat i < length (tx_inputs tx)" "length h = 20"
    and "2 \<le> length sig" "length sig \<le> 75" "2 \<le> length key" "length key \<le> 75"
  shows "verify_scripts c tx i f
      (script_from_operations [operation_of_data sig True, operation_of_data key True])
      (script_from_operations (to_pay_public_key_hash_pattern h)) v = Some success \<longleftrightarrow>
    ripemd160_hash c (sha256_hash c key) = h \<and>
    (\<exists>t d g n. parse_endorsement sig = Some (t, d) \<and>
       parse_signature c d (is_enabled f bip66_rule) = Some g \<and>
       check_signature c g t key (script_from_operations (to_pay_public_key_hash_pattern h)) tx i f
         (of_nat max_uint64) = Some (True, n))"
proof -
  obtain p q where p: "make_program
      (script_from_operations [operation_of_data sig True, operation_of_data key True]) tx i f []
        (of_nat max_uint64) = Some p" "run c p = Some (success, q)" "primary q = [key, sig]" "prog_tx q = tx"
    "prog_input_index q = i" "prog_forks q = f" "prog_value q = of_nat max_uint64"
    by (rule run_signature_and_key [OF assms(3-6), of tx i f "of_nat max_uint64" c])
  obtain p2 e q2 where q: "make_program (script_from_operations (pkh_ops h)) tx i f [key, sig]
      (of_nat max_uint64) = Some p2" "run c p2 = Some (e, q2)"
    "e = success \<and> stack_result False q2 \<longleftrightarrow> ripemd160_hash c (sha256_hash c key) = h \<and>
       signs c tx i f (of_nat max_uint64) (pkh_ops h) sig key"
    by (rule run_pkh_program [OF assms(2,1), of f key sig "of_nat max_uint64" c])
  have "prevout_program (script_from_operations (pkh_ops h)) q = Some p2"
    using p(3-7) q(1) by (simp add: prevout_program_def)
  then show ?thesis
    unfolding verify_scripts_def input_program_def p(1) signs_def [symmetric] q(3) [symmetric]
    by (simp add: p(2) q(2) pkh_plain)
qed

lemma example_check_signature:
  "\<exists>n. check_signature example_crypto [8, 8] 0x41 [8, 8] s example_tx 0 f v = Some (True, n)"
  using signature_preimage_Some [of example_crypto example_tx 0 s v "0x41" f]
  by (auto simp: check_signature_def generate_signature_hash_def example_crypto_def example_tx_def bind_eq_Some_conv)

theorem pay_public_key_hash_verified_iff_witness:
  "verify_scripts example_crypto example_tx 0 0
     (script_from_operations [operation_of_data [8, 8, 0x41] True, operation_of_data [8, 8] True])
     (script_from_operations (to_pay_public_key_hash_pattern (replicate 20 32))) 5 = Some success"
proof -
  have "parse_endorsement [8, 8, 0x41] = Some (0x41, [8, 8])"
    "parse_signature example_crypto [8, 8] (is_enabled 0 bip66_rule) = Some [8, 8]"
    by (simp_all add: parse_endorsement_def parse_signature_def example_crypto_def)
  with example_check_signature have s: "\<exists>t d g n. parse_endorsement [8, 8, 0x41] = Some (t, d) \<and>
      parse_signature example_crypto d (is_enabled 0 bip66_rule) = Some g \<and>
      check_signature example_crypto g t [8, 8]
        (script_from_operations (to_pay_public_key_hash_pattern (replicate 20 32))) example_tx 0 0
        (of_nat max_uint64) = Some (True, n)" by blast
  have h: "ripemd160_hash example_crypto (sha256_hash example_crypto [8, 8]) = replicate 20 32"
    by (simp add: example_crypto_def)
  have "unat (0 :: u32) < length (tx_inputs example_tx)" by (simp add: example_tx_def)
  from pay_public_key_hash_verified_iff [OF this, of "replicate 20 32" "[8, 8, 0x41]" "[8, 8]" example_crypto 0 5]
    s h show ?thesis by simp
qed

end
