(* ===== verification/Tx_Validation.thy ===== *)
theory Tx_Validation
  imports Chain_State Script_Verify
begin

text \<open>
  The validation of a transaction in the context of the chain (domain/src/chain/transaction_basis.cpp
  \<open>accept\<close>, domain/src/chain/transaction.cpp \<open>connect\<close>).
\<close>

section \<open>Accepting a transaction\<close>

definition output_signature_operations :: "tx_output \<Rightarrow> nat option" where
  "output_signature_operations out = do { ops \<leftarrow> script_operations (out_script out); Some (sigops ops False) }"

text \<open>The two sums are added without the ceiling of their parts.\<close>

definition tx_signature_operations :: "transaction \<Rightarrow> bool \<Rightarrow> nat option" where
  "tx_signature_operations tx bip16 = do {
     ins \<leftarrow> fold (\<lambda>i sum. do { s \<leftarrow> sum; n \<leftarrow> input_signature_operations i bip16; Some (ceiling_add s n) })
       (tx_inputs tx) (Some 0);
     outs \<leftarrow> fold (\<lambda>out sum. do { s \<leftarrow> sum; n \<leftarrow> output_signature_operations out; Some (ceiling_add s n) })
       (tx_outputs tx) (Some 0);
     Some ((ins + outs) mod size_t_range) }"

definition min_tx_size :: "chain_state \<Rightarrow> nat" where
  "min_tx_size s = (if state_descartes_enabled s then 65 else if state_euclid_enabled s then 100 else 0)"

text \<open>\<open>None\<close> where the signature operations are those of a script without operations.\<close>

definition tx_accept :: "transaction \<Rightarrow> chain_state \<Rightarrow> bool \<Rightarrow> bool \<Rightarrow> bool \<Rightarrow> error_code option" where
  "tx_accept tx s overspent duplicated transaction_pool =
     (let bip16 = state_is_enabled s bip16_rule;
          bip30 = state_is_enabled s bip30_rule;
          bip68 = state_is_enabled s bip68_rule;
          revert_bip30 = state_is_enabled s allow_collisions;
          version_check =
            (if state_descartes_enabled s \<and> (tx_version tx > 2 \<or> tx_version tx < 1)
             then Tx_error err_transaction_version_out_of_range else success)
      in if transaction_pool \<and> is_under_checkpoint s then Some (Tx_error err_premature_validation)
         else if tx_serialized_size True tx < min_tx_size s then Some (Tx_error err_transaction_size_limit)
         else if transaction_pool \<and> \<not> tx_is_final tx (state_height s) (cs_median_time_past s)
         then Some (Tx_error err_transaction_non_final)
         else if bip30 \<and> \<not> revert_bip30 \<and> duplicated then Some (Tx_error err_unspent_duplicate)
         else if is_missing_previous_outputs tx then Some (Tx_error err_missing_previous_output)
         else if is_double_spend tx transaction_pool then Some (Tx_error err_double_spend)
         else if \<not> tx_is_mature tx (state_height s) then Some (Tx_error err_coinbase_maturity)
         else if overspent then Some (Tx_error err_spend_exceeds_value)
         else if bip68 \<and> tx_is_locked tx (state_height s) (cs_median_time_past s)
         then Some (Tx_error err_sequence_locked)
         else if \<not> state_fermat_enabled s \<and> transaction_pool then do {
           let max_sigops = (if state_lobachevski_enabled s then dynamic_max_block_sigops s
             else static_max_block_sigops (cs_network s));
           n \<leftarrow> tx_signature_operations tx bip16;
           if n > max_sigops then Some (Tx_error err_transaction_embedded_sigop_limit)
           else Some version_check }
         else Some version_check)"

definition transaction_accept :: "transaction \<Rightarrow> chain_state \<Rightarrow> bool \<Rightarrow> bool \<Rightarrow> error_code option" where
  "transaction_accept tx s duplicated transaction_pool =
     tx_accept tx s (is_overspent tx) duplicated transaction_pool"

definition tx_is_standard :: "transaction \<Rightarrow> bool option" where
  "tx_is_standard tx =
     fold (\<lambda>i r. do {
         ok \<leftarrow> r;
         if \<not> ok then Some False
         else do { ops \<leftarrow> script_operations (in_script i); Some (pattern ops \<noteq> non_standard) } })
       (tx_inputs tx)
     (Some True) \<bind>
     (\<lambda>ok. if \<not> ok then Some False
       else fold (\<lambda>out r. do {
           ok \<leftarrow> r;
           if \<not> ok then Some False
           else do { ops \<leftarrow> script_operations (out_script out); Some (pattern ops \<noteq> non_standard) } })
         (tx_outputs tx) (Some True))"

section \<open>Connecting a transaction\<close>

text \<open>A false result of a script ends the process.\<close>

datatype verification = Returned error_code | Terminated

definition chain_verify_scripts ::
  "crypto \<Rightarrow> transaction \<Rightarrow> u32 \<Rightarrow> forks \<Rightarrow> script \<Rightarrow> script \<Rightarrow> u64 \<Rightarrow> verification option" where
  "chain_verify_scripts c tx input_index forks input_script prevout_script val = do {
     input \<leftarrow> input_program input_script tx input_index forks;
     (ec, input) \<leftarrow> run c input;
     if ec \<noteq> success then Some (Returned ec)
     else do {
       prevout \<leftarrow> prevout_program prevout_script input;
       (ec, prevout) \<leftarrow> run c prevout;
       if ec \<noteq> success then Some (Returned ec)
       else if \<not> stack_result False prevout then Some Terminated
       else do {
         ops \<leftarrow> script_operations prevout_script;
         if is_pay_to_script_hash ops forks \<or> is_pay_to_script_hash_32 ops forks then do {
           input_ops \<leftarrow> script_operations input_script;
           if \<not> is_relaxed_push input_ops then Some (Returned (Connect_error err_invalid_script_embed))
           else do {
             (serialized, input) \<leftarrow> pop input;
             embedded \<leftarrow> embedded_program (script_of_bytes serialized) input;
             (ec, embedded) \<leftarrow> run c embedded;
             if ec \<noteq> success then Some (Returned ec)
             else if \<not> stack_result False embedded then Some Terminated
             else Some (Returned success) } }
         else Some (Returned success) } } }"

definition chain_verify :: "crypto \<Rightarrow> transaction \<Rightarrow> u32 \<Rightarrow> forks \<Rightarrow> verification option" where
  "chain_verify c tx input forks =
     (if unat input \<ge> length (tx_inputs tx) then Some (Returned (Connect_error err_operation_failed))
      else
        let inp = tx_inputs tx ! unat input; prevout = pv_cache (validation (in_prevout inp))
        in chain_verify_scripts c tx input forks (in_script inp) (out_script prevout) (out_value prevout))"

definition connect_input :: "crypto \<Rightarrow> transaction \<Rightarrow> chain_state \<Rightarrow> nat \<Rightarrow> verification option" where
  "connect_input c tx s input_index =
     (if input_index \<ge> length (tx_inputs tx) then Some (Returned (Connect_error err_operation_failed))
      else if is_coinbase tx then Some (Returned success)
      else if \<not> output_is_valid (pv_cache (validation (in_prevout (tx_inputs tx ! input_index))))
      then Some (Returned (Tx_error err_missing_previous_output))
      else chain_verify c tx (of_nat input_index) (act_forks (cs_active s)))"

fun connect_inputs :: "crypto \<Rightarrow> transaction \<Rightarrow> chain_state \<Rightarrow> nat list \<Rightarrow> verification option" where
  "connect_inputs c tx s [] = Some (Returned success)"
| "connect_inputs c tx s (i # is) = do {
     r \<leftarrow> connect_input c tx s i;
     if r = Returned success then connect_inputs c tx s is else Some r }"

definition tx_connect :: "crypto \<Rightarrow> transaction \<Rightarrow> chain_state \<Rightarrow> verification option" where
  "tx_connect c tx s = connect_inputs c tx s [0..<length (tx_inputs tx)]"

section \<open>Lemmas\<close>

text \<open>Where the script verification of script.cpp returns that the stack is false, this one ends the process.\<close>

definition returned :: "verification \<Rightarrow> error_code" where
  "returned r = (case r of Returned e \<Rightarrow> e | Terminated \<Rightarrow> Connect_error err_stack_false)"

lemma returned_simps [simp]:
  "returned (Returned e) = e" "returned Terminated = Connect_error err_stack_false"
  by (simp_all add: returned_def)

lemma chain_verify_scripts_agree:
  "map_option returned (chain_verify_scripts c tx i forks ins outs v) = verify_scripts c tx i forks ins outs v"
  unfolding chain_verify_scripts_def verify_scripts_def
  by (simp only: map_option_bind o_def prod.case_distrib [of "map_option returned"]
      if_distrib [of "map_option returned"] option.map returned_simps Let_def)


lemma chain_verify_agree: "map_option returned (chain_verify c tx i forks) = verify c tx i forks"
  by (simp add: chain_verify_def verify_def chain_verify_scripts_agree Let_def)

lemma returned_success: "returned r = success \<longleftrightarrow> r = Returned success"
  by (cases r) simp_all

lemma chain_verify_success: "chain_verify c tx i forks = Some (Returned success) \<longleftrightarrow> verify c tx i forks = Some success"
  unfolding chain_verify_agree [symmetric] by (auto simp: returned_success)

lemma connect_inputs_success:
  "connect_inputs c tx s is = Some (Returned success) \<longleftrightarrow>
     (\<forall>i \<in> set is. connect_input c tx s i = Some (Returned success))"
  by (induction "is") (auto split: bind_splits)

lemma tx_accept_success:
  assumes "tx_accept tx s overspent duplicated transaction_pool = Some success"
  shows "\<not> is_missing_previous_outputs tx" "\<not> is_double_spend tx transaction_pool"
    "tx_is_mature tx (state_height s)" "\<not> overspent"
  using assms by (auto simp: tx_accept_def Let_def split: if_splits)

lemma state_of_active:
  assumes "chain_state_of values forks checkpoints network a half_life config l c = Some s"
  shows "act_forks (cs_active s) = act_forks (activation values (forks OR allow_collisions) network l c)"
    "cs_median_time_past s = median_time_past values 11" "cs_network s = network" "cs_data s = values"
  using assms by (auto simp: chain_state_of_def Let_def split: bind_splits)

lemma bip68_inactive:
  assumes "chain_state_of values forks checkpoints network a half_life config l c = Some s"
  shows "\<not> state_is_enabled s bip68_rule" "\<not> state_is_enabled s bip113_rule"
  using inactive_rules by (simp_all add: state_is_enabled_def state_of_active [OF assms])

section \<open>A coinbase and a state\<close>

definition example_coinbase :: transaction where
  "example_coinbase = \<lparr>tx_version = 1, tx_locktime = 0,
     tx_inputs = [\<lparr>in_prevout = output_point_of (make_point null_hash 0xffffffff),
       in_script = script_of_bytes (replicate 90 0x51), in_sequence = max_input_sequence\<rparr>],
     tx_outputs = [\<lparr>out_value = 625000000, out_script = script_of_bytes [0x51], out_token = None\<rparr>]\<rparr>"

definition example_state :: chain_state where
  "example_state = \<lparr>cs_data = example_data 700000, cs_anchor = get_assert_anchor_block mainnet, cs_forks = 0x80,
     cs_checkpoints = [], cs_network = mainnet, cs_active = \<lparr>act_forks = 0x80, act_minimum_version = 4\<rparr>,
     cs_median_time_past = 141, cs_work_required = 0x207fffff, cs_half_life = 172800,
     cs_abla_config = default_config 32000000 False, cs_leibniz = 0, cs_cantor = 0\<rparr>"

lemma example_is_coinbase: "is_coinbase example_coinbase"
  by (simp add: is_coinbase_def example_coinbase_def output_point_of_def point.defs make_point_def point_is_null_def)

section \<open>Properties\<close>

text \<open>C27: Relative lock times are not enforced: whatever is configured, and whatever the sequences of its inputs, no
  transaction is ever rejected because an input is locked, in no chain state that the constructor makes.\<close>

theorem relative_locks_not_enforced:
  assumes "chain_state_of values forks checkpoints network a half_life config l c = Some s"
  shows "tx_accept tx s overspent duplicated transaction_pool \<noteq> Some (Tx_error err_sequence_locked)"
  using bip68_inactive [OF assms]
  by (auto simp: tx_accept_def Let_def split: if_splits bind_splits)

theorem relative_locks_not_enforced_witness:
  "\<exists>s. chain_state_of (example_data 100) 0x100 [] mainnet (get_assert_anchor_block mainnet) 172800
      (default_config 32000000 False) 0 0 = Some s \<and>
    tx_accept example_tx s False False False \<noteq> Some (Tx_error err_sequence_locked)"
proof -
  have "bits_high (example_data 100) = Some 0x1d00ffff"
    by (simp add: bits_high_def deque_back_def example_data_def)
  then have "\<exists>s. chain_state_of (example_data 100) 0x100 [] mainnet (get_assert_anchor_block mainnet) 172800
      (default_config 32000000 False) 0 0 = Some s"
    by (simp add: chain_state_of_def work_required_def is_enabled_def Let_def)
  then show ?thesis using relative_locks_not_enforced by blast
qed

text \<open>C8: Connecting a transaction succeeds exactly when it is a coinbase or every input has its previous output and
  passes script verification. On the failures it differs from script verification in one way: where that returns
  the error that the result of the scripts is false, connecting may end the process instead.\<close>

theorem connect_verifies:
  "(tx_connect c tx s = Some (Returned success) \<longleftrightarrow>
     is_coinbase tx \<or>
     (\<forall>i < length (tx_inputs tx).
        output_is_valid (pv_cache (validation (in_prevout (tx_inputs tx ! i)))) \<and>
        verify c tx (of_nat i) (act_forks (cs_active s)) = Some success)) \<and>
   (chain_verify c tx i forks = Some Terminated \<longrightarrow> verify c tx i forks = Some (Connect_error err_stack_false)) \<and>
   (chain_verify c tx i forks = Some (Returned e) \<longrightarrow> verify c tx i forks = Some e) \<and>
   (chain_verify c tx i forks = None \<longleftrightarrow> verify c tx i forks = None)"
proof (intro conjI impI)
  show "tx_connect c tx s = Some (Returned success) \<longleftrightarrow>
     is_coinbase tx \<or>
     (\<forall>i < length (tx_inputs tx).
        output_is_valid (pv_cache (validation (in_prevout (tx_inputs tx ! i)))) \<and>
        verify c tx (of_nat i) (act_forks (cs_active s)) = Some success)"
    by (auto simp: tx_connect_def connect_inputs_success connect_input_def chain_verify_success)
qed (simp_all flip: chain_verify_agree)

theorem connect_verifies_witness:
  "tx_connect constant_crypto example_coinbase example_state = Some (Returned success)"
  using connect_verifies [of constant_crypto example_coinbase example_state] example_is_coinbase by blast

end
