(* ===== verification/Block.thy ===== *)
theory Block
  imports Tx_Validation
begin

text \<open>
  Blocks (domain/src/chain/block_basis.cpp, block.cpp): serialisation, the Merkle root, the reward, the context free
  check and the acceptance and connection of a block in a chain state.
\<close>

section \<open>Blocks\<close>

text \<open>A transaction with what the node found out about it.\<close>

record block_tx =
  bt_tx :: transaction
  bt_validated :: bool
  bt_duplicate :: bool

record block =
  blk_header :: validated_header
  blk_txs :: "block_tx list"

definition new_block_tx :: "transaction \<Rightarrow> block_tx" where
  "new_block_tx tx = \<lparr>bt_tx = tx, bt_validated = False, bt_duplicate = False\<rparr>"

definition block_from_data :: "bool \<Rightarrow> block reader" where
  "block_from_data wire =
     rbind (header_from_data wire) (\<lambda>h. rbind (read_collection (tx_from_data wire)) (\<lambda>txs.
       rreturn \<lparr>blk_header = h, blk_txs = map new_block_tx txs\<rparr>))"

definition block_to_data :: "block \<Rightarrow> bytes" where
  "block_to_data b =
     header_to_data True (blk_header b) @ write_collection (\<lambda>t. tx_to_data True (bt_tx t)) (blk_txs b)"

definition block_serialized_size :: "block \<Rightarrow> nat" where
  "block_serialized_size b =
     header_serialized_size True + variable_uint_size (of_nat (length (blk_txs b))) +
     fold (\<lambda>t sum. sum + tx_serialized_size True (bt_tx t)) (blk_txs b) 0"

definition block_is_valid :: "block \<Rightarrow> bool" where
  "block_is_valid b \<longleftrightarrow> blk_txs b \<noteq> [] \<or> header_is_valid (blk_header b)"

definition block_tx_hash :: "crypto \<Rightarrow> block_tx \<Rightarrow> bytes" where
  "block_tx_hash c t = tx_hash (bitcoin_hash c) (bt_tx t)"

definition to_hashes :: "crypto \<Rightarrow> block \<Rightarrow> bytes list" where
  "to_hashes c b = map (block_tx_hash c) (blk_txs b)"

definition block_hash :: "crypto \<Rightarrow> block \<Rightarrow> bytes" where
  "block_hash c b = header_hash c (blk_header b)"

definition block_proof :: "block \<Rightarrow> u256" where
  "block_proof b = header_proof (hd_bits (blk_header b))"

section \<open>The Merkle root\<close>

fun merkle_level :: "(bytes \<Rightarrow> bytes) \<Rightarrow> bytes list \<Rightarrow> bytes list" where
  "merkle_level H (a # b # hs) = H (a @ b) # merkle_level H hs"
| "merkle_level H _ = []"

lemma length_merkle_level [simp]: "length (merkle_level H hs) = length hs div 2"
  by (induction H hs rule: merkle_level.induct) simp_all

definition even_out :: "bytes list \<Rightarrow> bytes list" where
  "even_out hs = (if odd (length hs) then hs @ [last hs] else hs)"

function merkle_loop :: "(bytes \<Rightarrow> bytes) \<Rightarrow> bytes list \<Rightarrow> bytes" where
  "merkle_loop H hs = (if length hs > 1 then merkle_loop H (merkle_level H (even_out hs)) else hd hs)"
  by pat_completeness auto
termination by (relation "measure (\<lambda>(_, hs). length hs)") (auto simp: even_out_def elim!: oddE)

declare merkle_loop.simps [simp del]

definition generate_merkle_root :: "crypto \<Rightarrow> block \<Rightarrow> bytes" where
  "generate_merkle_root c b =
     (if blk_txs b = [] then null_hash else merkle_loop (bitcoin_hash c) (to_hashes c b))"

definition is_valid_merkle_root :: "crypto \<Rightarrow> block \<Rightarrow> bool" where
  "is_valid_merkle_root c b \<longleftrightarrow> generate_merkle_root c b = hd_merkle (blk_header b)"

section \<open>The reward\<close>

definition initial_block_subsidy_satoshi :: u64 where
  "initial_block_subsidy_satoshi = 50 * 100000000"

definition subsidy :: "nat \<Rightarrow> bool \<Rightarrow> u64" where
  "subsidy height retargets =
     (let halvings = height div subsidy_interval retargets
      in drop_bit (if halvings \<ge> 64 then 0 else halvings) initial_block_subsidy_satoshi)"

definition block_fees :: "block \<Rightarrow> nat" where
  "block_fees b = fold (\<lambda>t sum. ceiling_add sum (fees (bt_tx t))) (blk_txs b) 0"

definition claim :: "block \<Rightarrow> nat" where
  "claim b = (if blk_txs b = [] then 0 else total_output_value (bt_tx (hd (blk_txs b))))"

definition reward :: "block \<Rightarrow> nat \<Rightarrow> nat" where
  "reward b height = ceiling_add (block_fees b) (unat (subsidy height True))"

definition is_valid_coinbase_claim :: "block \<Rightarrow> nat \<Rightarrow> bool" where
  "is_valid_coinbase_claim b height \<longleftrightarrow> claim b \<le> reward b height"

definition is_valid_coinbase_script :: "block \<Rightarrow> nat \<Rightarrow> bool option" where
  "is_valid_coinbase_script b height =
     (if blk_txs b = [] \<or> tx_inputs (bt_tx (hd (blk_txs b))) = [] then Some False
      else do {
        ops \<leftarrow> script_operations (in_script (hd (tx_inputs (bt_tx (hd (blk_txs b))))));
        Some (is_coinbase_pattern ops height) })"

section \<open>Helpers of validation\<close>

definition block_signature_operations :: "block \<Rightarrow> bool \<Rightarrow> nat option" where
  "block_signature_operations b bip16 =
     fold (\<lambda>t sum. do { s \<leftarrow> sum; n \<leftarrow> tx_signature_operations (bt_tx t) bip16; Some (ceiling_add s n) })
       (blk_txs b) (Some 0)"

definition is_extra_coinbases :: "block \<Rightarrow> bool" where
  "is_extra_coinbases b \<longleftrightarrow>
     (if blk_txs b = [] then False else list_ex (\<lambda>t. is_coinbase (bt_tx t)) (tl (blk_txs b)))"

definition block_is_final :: "block \<Rightarrow> nat \<Rightarrow> u32 \<Rightarrow> bool" where
  "block_is_final b height block_time \<longleftrightarrow> list_all (\<lambda>t. tx_is_final (bt_tx t) height block_time) (blk_txs b)"

definition is_distinct_transaction_set :: "crypto \<Rightarrow> block \<Rightarrow> bool" where
  "is_distinct_transaction_set c b \<longleftrightarrow>
     (let hashes = sort (to_hashes c b) in length (remdups_adj hashes) = length hashes)"

definition non_coinbase_input_count :: "block \<Rightarrow> nat" where
  "non_coinbase_input_count b =
     (if blk_txs b = [] then 0 else fold (\<lambda>t sum. sum + length (tx_inputs (bt_tx t))) (tl (blk_txs b)) 0)"

text \<open>The loop over the transactions in reverse order, with the hashes seen.\<close>

fun forward_reference_loop :: "crypto \<Rightarrow> bytes set \<Rightarrow> block_tx list \<Rightarrow> bool" where
  "forward_reference_loop c hashes [] = False"
| "forward_reference_loop c hashes (t # ts) =
     (let hashes = insert (block_tx_hash c t) hashes
      in if list_ex (\<lambda>i. point_hash (in_prevout i) \<in> hashes) (tx_inputs (bt_tx t)) then True
         else forward_reference_loop c hashes ts)"

definition is_forward_reference :: "crypto \<Rightarrow> block \<Rightarrow> bool" where
  "is_forward_reference c b = forward_reference_loop c {} (rev (blk_txs b))"

text \<open>The order compares the bytes of the hashes from the last to the first. Without transactions the range of
  the code is invalid; here it is empty.\<close>

definition is_canonical_ordered :: "crypto \<Rightarrow> block \<Rightarrow> bool" where
  "is_canonical_ordered c b \<longleftrightarrow>
     successively (\<lambda>s t. \<not> rev (block_tx_hash c t) < rev (block_tx_hash c s)) (tl (blk_txs b))"

definition block_internal_double_spend :: "block \<Rightarrow> bool" where
  "block_internal_double_spend b \<longleftrightarrow>
     (if blk_txs b = [] then False
      else let outs = sort (concat (map (\<lambda>t. map point_key (previous_outputs (bt_tx t))) (tl (blk_txs b))))
        in length (remdups_adj outs) \<noteq> length outs)"

section \<open>Validation\<close>

fun check_transactions :: "block_tx list \<Rightarrow> error_code" where
  "check_transactions [] = success"
| "check_transactions (t # ts) =
     (let ec = tx_check (bt_tx t) (total_output_value (bt_tx t)) static_absolute_max_block_size False True
      in if ec \<noteq> success then ec else check_transactions ts)"

fun accept_transactions :: "chain_state \<Rightarrow> block_tx list \<Rightarrow> error_code option" where
  "accept_transactions s [] = Some success"
| "accept_transactions s (t # ts) =
     (if bt_validated t then accept_transactions s ts
      else do {
        ec \<leftarrow> transaction_accept (bt_tx t) s (bt_duplicate t) False;
        if ec \<noteq> success then Some ec else accept_transactions s ts })"

fun connect_transactions :: "crypto \<Rightarrow> chain_state \<Rightarrow> block_tx list \<Rightarrow> verification option" where
  "connect_transactions c s [] = Some (Returned success)"
| "connect_transactions c s (t # ts) =
     (if bt_validated t then connect_transactions c s ts
      else do {
        r \<leftarrow> tx_connect c (bt_tx t) s;
        if r \<noteq> Returned success then Some r else connect_transactions c s ts })"

text \<open>The check of the header has the limit of proof of work as its state and the clock as an argument.\<close>

definition block_check :: "crypto \<Rightarrow> u256 option \<Rightarrow> nat \<Rightarrow> block \<Rightarrow> error_code \<times> u256 option" where
  "block_check c limit now b =
     (case header_check limit now (blk_header b) (block_hash c b) False of
        (ec, limit') \<Rightarrow>
          (if ec \<noteq> success then ec
           else if block_serialized_size b > static_absolute_max_block_size then Block_error err_block_size_limit
           else if blk_txs b = [] then Block_error err_empty_block
           else if \<not> is_coinbase (bt_tx (hd (blk_txs b))) then Block_error err_first_not_coinbase
           else if is_extra_coinbases b then Block_error err_extra_coinbases
           else if block_internal_double_spend b then Block_error err_block_internal_double_spend
           else if \<not> is_valid_merkle_root c b then Block_error err_merkle_mismatch
           else check_transactions (blk_txs b), limit'))"

definition max_serialized_size :: "chain_state \<Rightarrow> nat" where
  "max_serialized_size s =
     (if state_lobachevski_enabled s then dynamic_max_block_size s
      else if state_pythagoras_enabled s then static_max_block_size (cs_network s)
      else 8000000)"

definition block_accept :: "crypto \<Rightarrow> block \<Rightarrow> chain_state \<Rightarrow> nat \<Rightarrow> bool \<Rightarrow> error_code option" where
  "block_accept c b s serialized_size transactions =
     (let bip16 = state_is_enabled s bip16_rule;
          bip34 = state_is_enabled s bip34_rule;
          bip113 = state_is_enabled s bip113_rule;
          ec = header_accept s (blk_header b) (block_hash c b)
      in if ec \<noteq> success then Some ec
         else if serialized_size > max_serialized_size s then Some (Block_error err_block_size_limit)
         else if is_under_checkpoint s then Some success
         else if state_euclid_enabled s \<and> \<not> is_canonical_ordered c b
         then Some (Block_error err_non_canonical_ordered)
         else if \<not> state_euclid_enabled s \<and> is_forward_reference c b
         then Some (Block_error err_forward_reference)
         else do {
           coinbase_script \<leftarrow> (if bip34 then is_valid_coinbase_script b (state_height s) else Some True);
           if \<not> coinbase_script then Some (Block_error err_coinbase_height_mismatch)
           else if \<not> is_valid_coinbase_claim b (state_height s) then Some (Block_error err_coinbase_value_limit)
           else if \<not> block_is_final b (state_height s)
               (if bip113 then cs_median_time_past s else hd_timestamp (blk_header b))
           then Some (Block_error err_block_non_final)
           else do {
             exceeded \<leftarrow>
               (if \<not> state_fermat_enabled s \<and> transactions then do {
                  n \<leftarrow> block_signature_operations b bip16;
                  Some (n > get_allowed_sigops serialized_size) }
                else Some False);
             if exceeded then Some (Block_error err_block_embedded_sigop_limit)
             else if transactions then accept_transactions s (blk_txs b)
             else Some success } })"

definition block_connect :: "crypto \<Rightarrow> block \<Rightarrow> chain_state \<Rightarrow> verification option" where
  "block_connect c b s =
     (if is_under_checkpoint s then Some (Returned success) else connect_transactions c s (blk_txs b))"

section \<open>Locators and inputs\<close>

text \<open>The step is a power of two, given by its exponent.\<close>

function locator_loop :: "nat \<Rightarrow> nat \<Rightarrow> nat \<Rightarrow> nat list" where
  "locator_loop height k n =
     (if height = 0 then [0]
      else
        let k = (if n \<ge> 10 then k + 1 else k)
        in height # locator_loop (floor_subtract height (2 ^ k)) k (n + 1))"
  by pat_completeness auto
termination by (relation "measure (\<lambda>(h, _, _). h)") (auto simp: floor_subtract_def)

declare locator_loop.simps [simp del]

definition locator_heights :: "nat \<Rightarrow> nat list" where
  "locator_heights height = locator_loop height 0 0"

definition total_inputs :: "block \<Rightarrow> bool \<Rightarrow> nat" where
  "total_inputs b with_coinbase =
     fold (\<lambda>t sum. sum + length (tx_inputs (bt_tx t)))
       (drop (if with_coinbase then 0 else 1) (blk_txs b)) 0"

text \<open>The value is cached, without the argument it was computed for.\<close>

definition get_total_inputs :: "block \<Rightarrow> nat option \<Rightarrow> bool \<Rightarrow> nat \<times> nat option" where
  "get_total_inputs b cache with_coinbase =
     (case cache of
        Some v \<Rightarrow> (v, cache)
      | None \<Rightarrow> let v = total_inputs b with_coinbase in (v, Some v))"


section \<open>Lemmas on the Merkle root\<close>

text \<open>The strings of two hashes that are hashed in the computation of a root.\<close>

fun level_inputs :: "bytes list \<Rightarrow> bytes set" where
  "level_inputs (a # b # hs) = insert (a @ b) (level_inputs hs)"
| "level_inputs _ = {}"

function merkle_inputs :: "(bytes \<Rightarrow> bytes) \<Rightarrow> bytes list \<Rightarrow> bytes set" where
  "merkle_inputs H hs =
     (if length hs > 1 then level_inputs (even_out hs) \<union> merkle_inputs H (merkle_level H (even_out hs)) else {})"
  by pat_completeness auto
termination by (relation "measure (\<lambda>(_, hs). length hs)") (auto simp: even_out_def elim!: oddE)

declare merkle_inputs.simps [simp del]

text \<open>Two different strings of these sets with the same hash.\<close>

definition collision :: "(bytes \<Rightarrow> bytes) \<Rightarrow> bytes set \<Rightarrow> bytes set \<Rightarrow> bool" where
  "collision H X Y \<longleftrightarrow> (\<exists>x \<in> X. \<exists>y \<in> Y. x \<noteq> y \<and> H x = H y)"

definition hashes :: "bytes list \<Rightarrow> bool" where
  "hashes hs \<longleftrightarrow> (\<forall>h \<in> set hs. length h = 32)"

lemma merkle_level_hashes: "(\<And>m. length (H m) = 32) \<Longrightarrow> hashes (merkle_level H hs)"
  by (induction H hs rule: merkle_level.induct) (simp_all add: hashes_def)

lemma even_out_hashes: "hashes hs \<Longrightarrow> hashes (even_out hs)"
  by (cases hs rule: rev_cases) (auto simp: hashes_def even_out_def)

lemma merkle_level_inj:
  assumes "\<not> collision H (level_inputs xs) (level_inputs ys)" "hashes xs" "hashes ys" "length xs = length ys" "even (length xs)"
    "merkle_level H xs = merkle_level H ys"
  shows "xs = ys"
  using assms
proof (induction H xs arbitrary: ys rule: merkle_level.induct)
  case (1 H a b hs)
  then obtain c d ks where ys: "ys = c # d # ks" by (auto simp: length_Suc_conv Suc_length_conv)
  have "H (a @ b) = H (c @ d)" using 1 by (simp add: ys)
  with 1(2) have "a @ b = c @ d" by (auto simp: collision_def ys)
  moreover have "length a = length c" using 1(3,4) by (simp add: ys hashes_def)
  ultimately have ab: "a = c" "b = d" by simp_all
  have "hs = ks"
    using 1(2-) by (intro "1.IH") (auto simp: ys hashes_def collision_def)
  with ab show ?case by (simp add: ys)
qed auto

lemma even_length_even_out: "even (length (even_out hs))"
  by (simp add: even_out_def)

lemma even_out_inj: "even_out xs = even_out ys \<Longrightarrow> length xs = length ys \<Longrightarrow> xs = ys"
  by (auto simp: even_out_def split: if_splits)

lemma merkle_loop_inj:
  assumes "\<And>m. length (H m) = 32"
  shows "\<not> collision H (merkle_inputs H xs) (merkle_inputs H ys) \<Longrightarrow> hashes xs \<Longrightarrow> hashes ys \<Longrightarrow> length xs = length ys \<Longrightarrow> merkle_loop H xs = merkle_loop H ys \<Longrightarrow> xs = ys"
  using assms
proof (induction H xs arbitrary: ys rule: merkle_loop.induct)
  case (1 H xs)
  show ?case
  proof (cases "length xs > 1")
    case True
    let ?up = "\<lambda>hs. merkle_level H (even_out hs)"
    have len: "length (even_out xs) = length (even_out ys)" using 1 by (simp add: even_out_def)
    have col: "\<not> collision H (level_inputs (even_out xs)) (level_inputs (even_out ys))"
      "\<not> collision H (merkle_inputs H (?up xs)) (merkle_inputs H (?up ys))"
      using 1 True merkle_inputs.simps [of H xs] merkle_inputs.simps [of H ys] by (auto simp: collision_def)
    have "merkle_loop H (?up xs) = merkle_loop H (?up ys)"
      using 1 True merkle_loop.simps [of H xs] merkle_loop.simps [of H ys] by simp
    then have "?up xs = ?up ys"
      using 1 True len col by (intro "1.IH") (simp_all add: merkle_level_hashes)
    then have "even_out xs = even_out ys"
      by (rule merkle_level_inj [OF col(1) even_out_hashes [OF 1(3)] even_out_hashes [OF 1(4)] len even_length_even_out])
    then show ?thesis by (rule even_out_inj [OF _ 1(5)])
  next
    case False
    then show ?thesis
      using 1(5,6) merkle_loop.simps [of H xs] merkle_loop.simps [of H ys]
      by (cases xs; cases ys) simp_all
  qed
qed

lemma merkle_loop_repeat_last:
  assumes "odd (length hs)" "1 < length hs"
  shows "merkle_loop H (hs @ [last hs]) = merkle_loop H hs"
  using assms merkle_loop.simps [of H hs] merkle_loop.simps [of H "hs @ [last hs]"]
  by (auto simp: even_out_def)

section \<open>Lemmas on sums\<close>

lemma fold_add: "fold (\<lambda>x sum. sum + f x) xs (a :: nat) = a + sum_list (map f xs)"
  by (induction xs arbitrary: a) simp_all

lemma block_fees_min: "block_fees b = min max_uint64 (sum_list (map (\<lambda>t. fees (bt_tx t)) (blk_txs b)))"
proof -
  have "fees tx \<le> max_uint64" for tx
    using total_input_value_min [of tx] by (simp add: fees_def floor_subtract_def) linarith
  then show ?thesis using fold_ceiling_add [of "blk_txs b" "\<lambda>t. fees (bt_tx t)" 0] by (simp add: block_fees_def)
qed

lemma internal_double_spend_iff:
  "block_internal_double_spend b \<longleftrightarrow>
     \<not> distinct (concat (map (\<lambda>t. map point_key (previous_outputs (bt_tx t))) (tl (blk_txs b))))"
  by (cases "blk_txs b = []") (simp_all only: block_internal_double_spend_def Let_def remdups_adj_sorted_distinct
      if_True if_False list.sel list.map concat.simps distinct.simps simp_thms)

lemma check_transactions_success:
  "check_transactions ts = success \<longleftrightarrow>
     (\<forall>t \<in> set ts. tx_check (bt_tx t) (total_output_value (bt_tx t)) static_absolute_max_block_size False True = success)"
  by (induction ts) (auto simp: Let_def)

lemma accept_transactions_success:
  "accept_transactions s ts = Some success \<longleftrightarrow>
     (\<forall>t \<in> set ts. bt_validated t \<or> transaction_accept (bt_tx t) s (bt_duplicate t) False = Some success)"
  by (induction ts) (auto split: bind_splits)

lemma connect_transactions_success:
  "connect_transactions c s ts = Some (Returned success) \<longleftrightarrow>
     (\<forall>t \<in> set ts. bt_validated t \<or> tx_connect c (bt_tx t) s = Some (Returned success))"
  by (induction ts) (auto split: bind_splits)


text \<open>The true sums of a transaction, without the ceiling of 64 bits.\<close>

definition outputs_sum :: "transaction \<Rightarrow> nat" where
  "outputs_sum tx = sum_list (map (\<lambda>out. unat (out_value out)) (tx_outputs tx))"

definition inputs_sum :: "transaction \<Rightarrow> nat" where
  "inputs_sum tx = sum_list (map input_value (tx_inputs tx))"

lemma ceiling_add_le: "ceiling_add a b \<le> a + b"
  by (auto simp: ceiling_add_def)

lemma outputs_sum_checked:
  assumes "tx_check tx (total_output_value tx) n p r = success"
  shows "total_output_value tx = outputs_sum tx"
proof -
  have "total_output_value tx \<le> max_money r"
    using assms by (auto simp: tx_check_def split: if_splits)
  moreover have "max_money r < max_uint64" by (simp add: max_money_def subsidy_interval_def)
  ultimately show ?thesis by (simp add: total_output_value_min outputs_sum_def)
qed

lemma fees_balance:
  assumes "total_output_value tx = outputs_sum tx" "\<not> is_overspent tx" "\<not> is_coinbase tx"
  shows "fees tx + outputs_sum tx \<le> inputs_sum tx"
  using assms total_input_value_min [of tx]
  by (auto simp: fees_def floor_subtract_def is_overspent_def inputs_sum_def)

lemma block_fees_le: "block_fees b \<le> sum_list (map (\<lambda>t. fees (bt_tx t)) (blk_txs b))"
  by (simp add: block_fees_min)

lemma sum_list_le:
  "(\<And>x. x \<in> set xs \<Longrightarrow> f x + g x \<le> (h x :: nat)) \<Longrightarrow>
   sum_list (map f xs) + sum_list (map g xs) \<le> sum_list (map h xs)"
proof (induction xs)
  case (Cons x xs)
  then have "f x + g x \<le> h x" "sum_list (map f xs) + sum_list (map g xs) \<le> sum_list (map h xs)" by simp_all
  then show ?case by simp
qed simp

text \<open>The checks of a block that succeeds.\<close>

lemma block_check_success:
  assumes "fst (block_check c limit now b) = success"
  shows "blk_txs b \<noteq> []" "is_coinbase (bt_tx (hd (blk_txs b)))" "\<not> is_extra_coinbases b"
    "\<not> block_internal_double_spend b" "is_valid_merkle_root c b"
    "check_transactions (blk_txs b) = success"
  using assms by (auto simp: block_check_def split: prod.splits if_splits)

lemma block_accept_success:
  assumes "block_accept c b s n True = Some success" "\<not> is_under_checkpoint s"
  shows "header_accept s (blk_header b) (block_hash c b) = success" "n \<le> max_serialized_size s"
    "is_valid_coinbase_claim b (state_height s)" "accept_transactions s (blk_txs b) = Some success"
  using assms by (auto simp: block_accept_def Let_def split: if_splits bind_splits)

section \<open>Lemmas on the subsidy\<close>

lemma unat_subsidy:
  "unat (subsidy h True) = (if h div 210000 \<ge> 64 then 5000000000 else 5000000000 div 2 ^ (h div 210000))"
  by (simp add: subsidy_def subsidy_interval_def initial_block_subsidy_satoshi_def unat_drop_bit)

lemma sum_blocks_of: "(\<Sum>h < k * m. f (h div m)) = m * (\<Sum>i < k. f i)"
  if "0 < m" for f :: "nat \<Rightarrow> nat"
proof (induction k)
  case (Suc k)
  have "(\<Sum>h < Suc k * m. f (h div m)) = (\<Sum>h < k * m. f (h div m)) + (\<Sum>h = k * m..<Suc k * m. f (h div m))"
    by (simp add: lessThan_atLeast0 sum.atLeastLessThan_concat)
  also have "(\<Sum>h = k * m..<Suc k * m. f (h div m)) = (\<Sum>h = k * m..<Suc k * m. f k)"
    using that by (intro sum.cong refl arg_cong [where f = f])
      (auto intro!: div_nat_eqI simp: algebra_simps)
  also have "\<dots> = m * f k" by simp
  finally show ?case using Suc.IH by (simp add: algebra_simps)
qed simp

lemma sum_halves: "(\<Sum>i < numeral k. (x :: nat) div 2 ^ i) = x + (\<Sum>i < pred_numeral k. (x div 2) div 2 ^ i)"
  by (simp only: numeral_eq_Suc [of k] sum.lessThan_Suc_shift power_0 div_by_1 power_Suc div_mult2_eq)

lemma recursive_money: "(\<Sum>i < 64. 5000000000 div 2 ^ i) = (9999999989 :: nat)"
  by (simp add: sum_halves)

lemma subsidy_supply: "(\<Sum>h < 64 * 210000. unat (subsidy h True)) = max_money True"
proof -
  have "(\<Sum>h < 64 * 210000. unat (subsidy h True)) = (\<Sum>h < 64 * 210000. 5000000000 div 2 ^ (h div 210000))"
    by (intro sum.cong refl) (auto simp: unat_subsidy div_less_iff_less_mult)
  also have "\<dots> = 210000 * (\<Sum>i < 64. 5000000000 div 2 ^ i)" by (rule sum_blocks_of) simp
  finally show ?thesis unfolding recursive_money by (simp add: max_money_def subsidy_interval_def)
qed

section \<open>Lemmas on locators\<close>

lemma locator_loop_bound:
  assumes "10 \<le> n" "h \<le> 2 ^ (k + 1) * (2 ^ i - 1)"
  shows "length (locator_loop h k n) \<le> i + 1"
  using assms
proof (induction i arbitrary: h k n)
  case 0
  then show ?case by (simp add: locator_loop.simps)
next
  case (Suc i)
  have "floor_subtract h (2 ^ (k + 1)) \<le> 2 ^ (k + 1 + 1) * (2 ^ i - 1)"
  proof -
    obtain q :: nat where q: "2 ^ i = q + 1" by (metis Suc_eq_plus1 not0_implies_Suc power_not_zero zero_neq_numeral)
    show ?thesis using Suc.prems(2) by (simp add: floor_subtract_def q algebra_simps) linarith
  qed
  then have "length (locator_loop (floor_subtract h (2 ^ (k + 1))) (k + 1) (n + 1)) \<le> i + 1"
    using Suc.prems(1) by (intro Suc.IH) simp_all
  with Suc.prems(1) show ?case by (subst locator_loop.simps) simp
qed

lemma locator_loop_first:
  assumes "n \<le> 10"
  shows "length (locator_loop h 0 n) \<le> 10 - n + length (locator_loop (h - (10 - n)) 0 10)"
  using assms
proof (induction "10 - n" arbitrary: h n)
  case (Suc d)
  then have n: "n < 10" "d = 10 - Suc n" "10 - n = Suc (10 - Suc n)" by simp_all
  show ?case
  proof (cases "h = 0")
    case True
    then show ?thesis by (simp add: locator_loop.simps)
  next
    case False
    have "length (locator_loop h 0 n) = Suc (length (locator_loop (h - 1) 0 (Suc n)))"
      using False n(1) by (subst locator_loop.simps) (auto simp: floor_subtract_def)
    also have "\<dots> \<le> Suc (10 - Suc n + length (locator_loop (h - 1 - (10 - Suc n)) 0 10))"
      using Suc.hyps(1) [OF n(2), of "h - 1"] n(1) by simp
    also have "h - 1 - (10 - Suc n) = h - (10 - n)" using n by simp
    finally show ?thesis using n by simp
  qed
qed simp


section \<open>A block\<close>

definition example_block :: block where
  "example_block = \<lparr>blk_header = \<lparr>hd_version = 4, previous_block_hash = replicate 32 0,
       hd_merkle = replicate 32 0, hd_timestamp = 2000, hd_bits = 0x207fffff, hd_nonce = 0, hd_median_time_past = 0\<rparr>,
     blk_txs = [new_block_tx example_coinbase]\<rparr>"

lemma example_hashes: "to_hashes constant_crypto example_block = [replicate 32 0]"
  by (simp add: to_hashes_def example_block_def block_tx_hash_def tx_hash_def bitcoin_hash_def constant_crypto_def)

lemma example_root: "generate_merkle_root constant_crypto example_block = replicate 32 0"
  by (simp add: generate_merkle_root_def example_hashes merkle_loop.simps) (simp add: example_block_def)

lemma example_proof: "fst (is_valid_proof_of_work None (blk_header example_block) (replicate 32 0) False)"
proof -
  have "to_uint256 (replicate 32 0) = 0"
    by (simp add: unat_eq_zero [symmetric] unat_to_uint256 numeral_eq_Suc)
  then show ?thesis
    by (simp add: is_valid_proof_of_work_def compact_of_bits_def work_limit_def from_compact_def is_negated_def
        sign_bit_def mantissa_max_def exp_byte_def mantissa_bits_def compact_overflow_def log_256_def
        shift_high_def Let_def example_block_def)
qed

lemma example_coinbase_size: "tx_serialized_size True example_coinbase = 151"
  by (simp add: tx_serialized_size_def example_coinbase_def input_serialized_size_def output_serialized_size_def chain_output_serialized_size_def
      script_serialized_size_def script_of_bytes_def variable_uint_size_def point_serialized_size_def token_opt_size_def)

lemma example_coinbase_check:
  "tx_check example_coinbase (total_output_value example_coinbase) n False True = success" "is_coinbase example_coinbase"
  by (simp_all add: tx_check_def is_null_non_coinbase_def is_oversized_coinbase_def is_coinbase_def
      example_coinbase_def output_point_of_def point.defs make_point_def point_is_null_def total_output_value_def
      Let_def script_serialized_size_def script_of_bytes_def ceiling_add_def max_money_def subsidy_interval_def)

lemma example_block_check: "fst (block_check constant_crypto None (10 ^ 15) example_block) = success"
proof -
  have "block_hash constant_crypto example_block = replicate 32 0"
    by (simp add: block_hash_def header_hash_def bitcoin_hash_def constant_crypto_def)
  then have "fst (header_check None (10 ^ 15) (blk_header example_block) (block_hash constant_crypto example_block) False) = success"
    using example_proof by (auto simp: header_check_def is_valid_timestamp_def example_block_def split: prod.splits)
  moreover have "block_serialized_size example_block \<le> static_absolute_max_block_size"
    by (simp add: block_serialized_size_def header_fixed_size_def static_absolute_max_block_size_def header_serialized_size_def variable_uint_size_def example_block_def new_block_tx_def
      example_coinbase_size)
  moreover have "blk_txs example_block = [new_block_tx example_coinbase]"
    "hd_merkle (blk_header example_block) = replicate 32 0" by (simp_all add: example_block_def)
  moreover have "bt_tx (new_block_tx example_coinbase) = example_coinbase" by (simp add: new_block_tx_def)
  ultimately show ?thesis
    using example_coinbase_check example_root
    by (auto simp: block_check_def is_extra_coinbases_def internal_double_spend_iff is_valid_merkle_root_def
      split: prod.splits)
qed

lemmas example_state_rules =
  state_descartes_enabled_def is_descartes_enabled_def state_fermat_enabled_def is_fermat_enabled_def
  state_euclid_enabled_def is_euclid_enabled_def state_lobachevski_enabled_def is_lobachevski_enabled_def
  is_rule_enabled.simps descartes_heights_def fermat_heights_def euclid_heights_def lobachevski_heights_def pythagoras_heights_def state_height_def state_is_enabled_def is_enabled_def is_under_checkpoint_def covered_def
  example_state_def example_data_def

lemma example_coinbase_accept: "transaction_accept example_coinbase example_state False False = Some success"
proof -
  have "\<not> is_missing_previous_outputs example_coinbase" "\<not> is_double_spend example_coinbase False"
    "tx_is_mature example_coinbase n" for n
    by (simp_all add: is_missing_previous_outputs_def is_double_spend_def tx_is_mature_def input_is_missing_def
      example_coinbase_def output_point_is_mature_def output_point_of_def point.defs make_point_def point_is_null_def
      prevout_default_def Let_def)
  moreover have "\<not> is_overspent example_coinbase" "\<not> tx_is_locked example_coinbase h m" for h m
    using example_coinbase_check(2) by (simp_all add: is_overspent_def tx_is_locked_def)
  moreover have "\<not> state_descartes_enabled example_state" "min_tx_size example_state = 100"
    "state_fermat_enabled example_state"
    by (simp_all add: min_tx_size_def example_state_rules)
  ultimately show ?thesis
    by (simp add: transaction_accept_def tx_accept_def example_coinbase_size)
qed

lemma example_block_accept: "block_accept constant_crypto example_block example_state 300 True = Some success"
proof -
  have "header_accept example_state (blk_header example_block) h = success" for h
    by (simp add: header_accept_def is_checkpoint_conflict_def checkpoint_validate_def minimum_version_def
      example_block_def example_state_def)
  moreover have "is_valid_coinbase_claim example_block 700000"
    by (simp add: is_valid_coinbase_claim_def claim_def reward_def unat_subsidy ceiling_add_def block_fees_min
      total_output_value_min example_block_def new_block_tx_def example_coinbase_def)
  moreover have "block_is_final example_block n t" for n t
    by (simp add: block_is_final_def tx_is_final_def example_block_def new_block_tx_def example_coinbase_def)
  moreover have "is_canonical_ordered constant_crypto example_block"
    by (simp add: is_canonical_ordered_def example_block_def)
  moreover have "accept_transactions example_state (blk_txs example_block) = Some success"
    using example_coinbase_accept by (simp add: example_block_def new_block_tx_def)
  moreover have "300 \<le> max_serialized_size example_state" "\<not> state_is_enabled example_state bip34_rule"
    "state_euclid_enabled example_state" "state_fermat_enabled example_state" "\<not> is_under_checkpoint example_state"
    "state_height example_state = 700000"
    by (simp_all add: max_serialized_size_def static_max_block_size_def state_pythagoras_enabled_def is_pythagoras_enabled_def
       example_state_rules)
  ultimately show ?thesis by (simp add: block_accept_def)
qed

section \<open>Properties\<close>

text \<open>C1: No inflation: a block that passes its check and is accepted above the checkpoints, with all its transactions
  validated in the block, creates no more than the subsidy: the values of all outputs together do not exceed those of
  the outputs that its transactions spend and the subsidy of the height. The sums are over the natural numbers: the
  ceilings of the 64 bit sums of the code do not help a block over the limit.\<close>

theorem no_inflation:
  assumes "fst (block_check c limit now b) = success" "block_accept c b s n True = Some success"
    "\<not> is_under_checkpoint s" "\<forall>t \<in> set (blk_txs b). \<not> bt_validated t"
    "inputs_sum (bt_tx (hd (blk_txs b))) = 0"
  shows "(\<Sum>t \<leftarrow> blk_txs b. outputs_sum (bt_tx t)) \<le>
    (\<Sum>t \<leftarrow> tl (blk_txs b). inputs_sum (bt_tx t)) + unat (subsidy (state_height s) True)"
proof -
  note check = block_check_success [OF assms(1)] and accept = block_accept_success [OF assms(2,3)]
  obtain t ts where txs: "blk_txs b = t # ts" using check(1) by (cases "blk_txs b") simp_all
  have out: "total_output_value (bt_tx u) = outputs_sum (bt_tx u)" if "u \<in> set (blk_txs b)" for u
    using check(6) that outputs_sum_checked by (auto simp: check_transactions_success)
  have balance: "fees (bt_tx u) + outputs_sum (bt_tx u) \<le> inputs_sum (bt_tx u)" if "u \<in> set ts" for u
  proof (rule fees_balance)
    show "total_output_value (bt_tx u) = outputs_sum (bt_tx u)" using out that txs by simp
    have "transaction_accept (bt_tx u) s (bt_duplicate u) False = Some success"
      using accept(4) [unfolded accept_transactions_success] assms(4) that txs by auto
    then show "\<not> is_overspent (bt_tx u)"
      unfolding transaction_accept_def by (rule tx_accept_success(4))
    show "\<not> is_coinbase (bt_tx u)"
      using check(3) that txs by (auto simp: is_extra_coinbases_def list_ex_iff)
  qed
  have "inputs_sum (bt_tx t) = 0" using assms(5) txs by simp
  then have "total_input_value (bt_tx t) = 0"
    using total_input_value_min [of "bt_tx t"] unfolding inputs_sum_def by (simp only: min_0R)
  then have "fees (bt_tx t) = 0" by (simp add: fees_def floor_subtract_def)
  then have "outputs_sum (bt_tx t) \<le> (\<Sum>u \<leftarrow> ts. fees (bt_tx u)) + unat (subsidy (state_height s) True)"
    using accept(3) out [of t] txs block_fees_le [of b] ceiling_add_le [of "block_fees b" "unat (subsidy (state_height s) True)"]
    by (simp add: is_valid_coinbase_claim_def claim_def reward_def)
  moreover have "(\<Sum>u \<leftarrow> ts. fees (bt_tx u)) + (\<Sum>u \<leftarrow> ts. outputs_sum (bt_tx u)) \<le> (\<Sum>u \<leftarrow> ts. inputs_sum (bt_tx u))"
    by (rule sum_list_le) (rule balance)
  ultimately show ?thesis using txs by simp
qed

theorem no_inflation_witness:
  "fst (block_check constant_crypto None (10 ^ 15) example_block) = success \<and>
   block_accept constant_crypto example_block example_state 300 True = Some success \<and>
   outputs_sum example_coinbase \<le> unat (subsidy 700000 True)"
proof -
  have "\<not> is_under_checkpoint example_state" "state_height example_state = 700000"
    by (simp_all add: example_state_rules)
  moreover have "blk_txs example_block = [new_block_tx example_coinbase]" by (simp add: example_block_def)
  moreover have "inputs_sum example_coinbase = 0"
    by (simp add: inputs_sum_def input_value_def output_is_valid_def output_default_def prevout_default_def
      example_coinbase_def output_point_of_def point.defs make_point_def)
  ultimately show ?thesis
    using no_inflation [OF example_block_check example_block_accept] example_block_check example_block_accept
    by (simp add: new_block_tx_def)
qed

text \<open>C2: The Merkle root commits to the transactions: two blocks with the same number of transactions and the same
  root have the same transaction hashes in the same order, or two different strings that are hashed in the
  computation of the two roots are a collision of the hash function. A block of which the last of an odd number of transactions is repeated has the same root as the original,
  but never passes the check.\<close>

theorem merkle_root_commits:
  assumes "crypto_ok c"
  shows "(length (blk_txs b) = length (blk_txs b') \<and> generate_merkle_root c b = generate_merkle_root c b' \<longrightarrow>
      to_hashes c b = to_hashes c b' \<or>
      (\<exists>x y. x \<in> merkle_inputs (bitcoin_hash c) (to_hashes c b) \<and> y \<in> merkle_inputs (bitcoin_hash c) (to_hashes c b') \<and>
        x \<noteq> y \<and> bitcoin_hash c x = bitcoin_hash c y)) \<and>
    (odd (length (blk_txs b)) \<and> 1 < length (blk_txs b) \<longrightarrow>
      generate_merkle_root c (b\<lparr>blk_txs := blk_txs b @ [last (blk_txs b)]\<rparr>) = generate_merkle_root c b \<and>
      fst (block_check c limit now (b\<lparr>blk_txs := blk_txs b @ [last (blk_txs b)]\<rparr>)) \<noteq> success)"
proof (intro conjI impI)
  have len: "length (bitcoin_hash c m) = 32" for m using assms by (simp add: crypto_ok_def bitcoin_hash_def)
  then have h: "hashes (to_hashes c x)" for x
    by (auto simp: hashes_def to_hashes_def block_tx_hash_def tx_hash_def)
  assume "length (blk_txs b) = length (blk_txs b') \<and> generate_merkle_root c b = generate_merkle_root c b'"
  then have "length (to_hashes c b) = length (to_hashes c b')" "blk_txs b = [] \<longleftrightarrow> blk_txs b' = []"
    "generate_merkle_root c b = generate_merkle_root c b'"
    by (auto simp: to_hashes_def simp flip: length_0_conv)
  then show "to_hashes c b = to_hashes c b' \<or>
      (\<exists>x y. x \<in> merkle_inputs (bitcoin_hash c) (to_hashes c b) \<and> y \<in> merkle_inputs (bitcoin_hash c) (to_hashes c b') \<and>
        x \<noteq> y \<and> bitcoin_hash c x = bitcoin_hash c y)"
    using merkle_loop_inj [of "bitcoin_hash c" "to_hashes c b" "to_hashes c b'"] len h
    by (cases "blk_txs b = []") (auto simp: generate_merkle_root_def to_hashes_def collision_def)
next
  let ?l = "last (blk_txs b)" and ?b = "b\<lparr>blk_txs := blk_txs b @ [last (blk_txs b)]\<rparr>"
  assume odd: "odd (length (blk_txs b)) \<and> 1 < length (blk_txs b)"
  then have ne: "blk_txs b \<noteq> []" by auto
  have "to_hashes c ?b = to_hashes c b @ [last (to_hashes c b)]" using ne by (simp add: to_hashes_def last_map)
  then show "generate_merkle_root c ?b = generate_merkle_root c b"
    using odd ne merkle_loop_repeat_last [of "to_hashes c b" "bitcoin_hash c"]
    by (simp add: generate_merkle_root_def to_hashes_def)
  obtain t ts l where txs: "blk_txs b = t # ts @ [l]"
    using odd by (cases "blk_txs b"; cases "tl (blk_txs b)" rule: rev_cases) auto
  then have txs': "blk_txs ?b = t # ts @ [l, l]" by simp
  show "fst (block_check c limit now ?b) \<noteq> success"
  proof
    assume "fst (block_check c limit now ?b) = success"
    note check = block_check_success [OF this]
    let ?p = "map point_key (previous_outputs (bt_tx l))"
    have "distinct (concat (map (\<lambda>t. map point_key (previous_outputs (bt_tx t))) ts) @ ?p @ ?p)"
      using check(4) unfolding internal_double_spend_iff txs' by simp
    then have "?p = []" by (cases ?p) auto
    moreover have "tx_check (bt_tx l) (total_output_value (bt_tx l)) static_absolute_max_block_size False True = success"
      using check(6) unfolding check_transactions_success txs' by simp
    then have "tx_inputs (bt_tx l) \<noteq> []" by (auto simp: tx_check_def)
    ultimately show False by (simp add: previous_outputs_def)
  qed
qed

theorem merkle_root_commits_witness:
  "generate_merkle_root constant_crypto (example_block\<lparr>blk_txs := replicate 4 (new_block_tx example_coinbase)\<rparr>) =
   generate_merkle_root constant_crypto (example_block\<lparr>blk_txs := replicate 3 (new_block_tx example_coinbase)\<rparr>)"
proof -
  have "crypto_ok constant_crypto" by (simp add: crypto_ok_def constant_crypto_def)
  let ?b = "example_block\<lparr>blk_txs := replicate 3 (new_block_tx example_coinbase)\<rparr>"
  have "odd (length (blk_txs ?b)) \<and> 1 < length (blk_txs ?b)" by simp
  moreover have "?b\<lparr>blk_txs := blk_txs ?b @ [last (blk_txs ?b)]\<rparr> =
    example_block\<lparr>blk_txs := replicate 4 (new_block_tx example_coinbase)\<rparr>"
    by (simp add: numeral_eq_Suc)
  ultimately show ?thesis using merkle_root_commits [OF \<open>crypto_ok constant_crypto\<close>, of ?b] by metis
qed

text \<open>C40: The subsidies of all blocks below 13440000, the 64 halvings of 210000 blocks, add up to exactly the
  maximum of money, and those of any of its initial segments to no more. The halvings are however not continued: from
  height 13440000 on the subsidy is again that of the first block.\<close>

theorem subsidy_schedule:
  "(\<Sum>h < 13440000. unat (subsidy h True)) = max_money True \<and>
   (n \<le> 13440000 \<longrightarrow> (\<Sum>h < n. unat (subsidy h True)) \<le> max_money True) \<and>
   (13440000 \<le> n \<longrightarrow> unat (subsidy n True) = 50 * 100000000)"
proof (intro conjI impI)
  show s: "(\<Sum>h < 13440000. unat (subsidy h True)) = max_money True" using subsidy_supply by simp
  show "(\<Sum>h < n. unat (subsidy h True)) \<le> max_money True" if "n \<le> 13440000"
    unfolding s [symmetric] using that by (intro sum_mono2) auto
  show "unat (subsidy n True) = 50 * 100000000" if "13440000 \<le> n"
    using that by (simp add: unat_subsidy less_eq_div_iff_mult_less_eq)
qed

theorem subsidy_schedule_witness:
  "(\<Sum>h < 210001. unat (subsidy h True)) \<le> max_money True \<and> unat (subsidy 13440000 True) = 5000000000"
  using subsidy_schedule [of 210001] subsidy_schedule [of 13440000] by simp

text \<open>A locator of a chain with a height of 32 bits has at most 43 entries, the limit of the protocol; it starts at
  the top and ends at the genesis block.\<close>

theorem locator_fits:
  assumes "height < 2 ^ 32"
  shows "length (locator_heights height) \<le> 43 \<and> hd (locator_heights height) = height \<and>
    last (locator_heights height) = 0"
proof (intro conjI)
  have "length (locator_loop (height - 10) 0 10) \<le> 31 + 1"
    by (rule locator_loop_bound) (use assms in simp_all)
  moreover have "length (locator_loop height 0 0) \<le> 10 - 0 + length (locator_loop (height - (10 - 0)) 0 10)"
    by (rule locator_loop_first) simp
  ultimately show "length (locator_heights height) \<le> 43" by (simp add: locator_heights_def)
  show "hd (locator_heights height) = height"
    by (simp add: locator_heights_def locator_loop.simps [of height] Let_def)
  have "locator_loop h k m \<noteq> [] \<and> last (locator_loop h k m) = 0" for h k m
    by (induction h k m rule: locator_loop.induct) (subst (1 2) locator_loop.simps, simp add: Let_def)
  then show "last (locator_heights height) = 0" by (simp add: locator_heights_def)
qed

theorem locator_fits_witness: "length (locator_heights 900000) \<le> 43"
  using locator_fits [of 900000] by simp

end
