(* ===== verification/Branch.thy ===== *)
theory Branch
  imports Block
begin

text \<open>
  A branch of blocks above a block of the chain (blockchain/src/pools/branch.cpp): how it grows, what it knows by
  height, and how it fills in the outputs that its transactions spend, by a search and by a table of its outputs.
\<close>

section \<open>Outcomes of a query\<close>

text \<open>A query fails with \<open>Missing\<close>; it is \<open>Undefined\<close> when it reads outside of a list.\<close>

datatype 'a fetch = Undefined | Missing | Found 'a

fun fetch_bind :: "'a fetch \<Rightarrow> ('a \<Rightarrow> 'b fetch) \<Rightarrow> 'b fetch" where
  "fetch_bind Undefined f = Undefined"
| "fetch_bind Missing f = Missing"
| "fetch_bind (Found x) f = f x"

text \<open>The operator of disjunction on queries: the second one is made if the first one fails.\<close>

fun fetch_else :: "'a fetch \<Rightarrow> 'a fetch \<Rightarrow> 'a fetch" where
  "fetch_else Missing y = y"
| "fetch_else x y = x"

section \<open>Branches\<close>

record branch =
  br_height :: nat
  br_blocks :: "block list"

definition new_branch :: "nat \<Rightarrow> branch" where
  "new_branch height = \<lparr>br_height = height, br_blocks = []\<rparr>"

definition set_branch_height :: "nat \<Rightarrow> branch \<Rightarrow> branch" where
  "set_branch_height height b = b\<lparr>br_height := height\<rparr>"

definition branch_empty :: "branch \<Rightarrow> bool" where
  "branch_empty b \<longleftrightarrow> br_blocks b = []"

definition branch_size :: "branch \<Rightarrow> nat" where
  "branch_size b = length (br_blocks b)"

definition push_front :: "crypto \<Rightarrow> block \<Rightarrow> branch \<Rightarrow> bool \<times> branch" where
  "push_front c block b =
     (if branch_empty b \<or> previous_block_hash (blk_header (hd (br_blocks b))) = block_hash c block
      then (True, b\<lparr>br_blocks := block # br_blocks b\<rparr>)
      else (False, b))"

definition branch_top :: "branch \<Rightarrow> block option" where
  "branch_top b = (if branch_empty b then None else Some (last (br_blocks b)))"

definition top_height :: "branch \<Rightarrow> nat" where
  "top_height b = br_height b + branch_size b"

definition branch_hash :: "branch \<Rightarrow> bytes" where
  "branch_hash b = (if branch_empty b then null_hash else previous_block_hash (blk_header (hd (br_blocks b))))"

definition fork_point :: "branch \<Rightarrow> checkpoint" where
  "fork_point b = \<lparr>cp_hash = branch_hash b, cp_height = br_height b\<rparr>"

text \<open>\<open>None\<close> where the result of a failed subtraction or addition is used.\<close>

definition safe_subtract :: "nat \<Rightarrow> nat \<Rightarrow> nat option" where
  "safe_subtract left right = (if left < right then None else Some (left - right))"

definition index_of :: "branch \<Rightarrow> nat \<Rightarrow> nat option" where
  "index_of b height = do { d \<leftarrow> safe_subtract height (br_height b); safe_subtract d 1 }"

definition height_at :: "branch \<Rightarrow> nat \<Rightarrow> nat option" where
  "height_at b index =
     (if index + br_height b + 1 > max_uint64 then None else Some (index + br_height b + 1))"

definition median_time_past_at :: "branch \<Rightarrow> nat \<Rightarrow> u32" where
  "median_time_past_at b index = hd_median_time_past (blk_header (br_blocks b ! index))"

definition branch_work :: "branch \<Rightarrow> u256" where
  "branch_work b = fold (\<lambda>block total. total + block_proof block) (br_blocks b) 0"

section \<open>Queries by height\<close>

text \<open>The block at a height; a height above the top reads outside of the list.\<close>

definition block_at :: "branch \<Rightarrow> nat \<Rightarrow> block fetch" where
  "block_at b height =
     (if height \<le> br_height b then Missing
      else case index_of b height of
          None \<Rightarrow> Undefined
        | Some i \<Rightarrow> if i < branch_size b then Found (br_blocks b ! i) else Undefined)"

definition get_bits :: "branch \<Rightarrow> nat \<Rightarrow> u32 fetch" where
  "get_bits b height = fetch_bind (block_at b height) (\<lambda>block. Found (hd_bits (blk_header block)))"

definition get_version :: "branch \<Rightarrow> nat \<Rightarrow> u32 fetch" where
  "get_version b height = fetch_bind (block_at b height) (\<lambda>block. Found (hd_version (blk_header block)))"

definition get_timestamp :: "branch \<Rightarrow> nat \<Rightarrow> u32 fetch" where
  "get_timestamp b height = fetch_bind (block_at b height) (\<lambda>block. Found (hd_timestamp (blk_header block)))"

definition get_block_hash :: "crypto \<Rightarrow> branch \<Rightarrow> nat \<Rightarrow> bytes fetch" where
  "get_block_hash c b height = fetch_bind (block_at b height) (\<lambda>block. Found (block_hash c block))"

section \<open>Previous outputs\<close>

text \<open>A spend in a block below the top; the coinbases are left out.\<close>

definition populate_spent :: "branch \<Rightarrow> 'a point_scheme \<Rightarrow> prevout_metadata \<Rightarrow> prevout_metadata" where
  "populate_spent b outpoint pv =
     (if branch_size b < 2 then pv\<lparr>pv_spent := False, pv_confirmed := False\<rparr>
      else
        let spent = list_ex (\<lambda>block. list_ex (\<lambda>t.
              list_ex (\<lambda>i. point_key (in_prevout i) = point_key outpoint) (tx_inputs (bt_tx t)))
            (tl (blk_txs block))) (butlast (br_blocks b))
        in pv\<lparr>pv_spent := spent, pv_confirmed := spent\<rparr>)"

definition clear_prevout :: "prevout_metadata \<Rightarrow> prevout_metadata" where
  "clear_prevout pv = pv\<lparr>pv_cache := output_default, pv_coinbase := False, pv_height := 0, pv_median_time_past := 0\<rparr>"

text \<open>The output in the first transaction that has it, and whether that transaction is the first of the block.\<close>

fun search_transactions ::
  "crypto \<Rightarrow> 'a point_scheme \<Rightarrow> bool \<Rightarrow> block_tx list \<Rightarrow> tx_output option \<times> bool" where
  "search_transactions c outpoint coinbase [] = (None, coinbase)"
| "search_transactions c outpoint coinbase (t # ts) =
     (if point_hash outpoint = block_tx_hash c t \<and> unat (point_index outpoint) < length (tx_outputs (bt_tx t))
      then (Some (tx_outputs (bt_tx t) ! unat (point_index outpoint)), coinbase)
      else search_transactions c outpoint False ts)"

fun search_blocks ::
  "crypto \<Rightarrow> branch \<Rightarrow> 'a point_scheme \<Rightarrow> prevout_metadata \<Rightarrow> nat list \<Rightarrow> prevout_metadata option" where
  "search_blocks c b outpoint pv [] = Some pv"
| "search_blocks c b outpoint pv (i # is) =
     (case search_transactions c outpoint True (blk_txs (br_blocks b ! i)) of
        (Some out, coinbase) \<Rightarrow> do {
          h \<leftarrow> height_at b i;
          Some (pv\<lparr>pv_coinbase := coinbase, pv_height := h, pv_median_time_past := median_time_past_at b i,
            pv_cache := out\<rparr>) }
      | (None, coinbase) \<Rightarrow> search_blocks c b outpoint (pv\<lparr>pv_coinbase := coinbase\<rparr>) is)"

definition populate_prevout ::
  "crypto \<Rightarrow> branch \<Rightarrow> 'a point_scheme \<Rightarrow> prevout_metadata \<Rightarrow> prevout_metadata option" where
  "populate_prevout c b outpoint pv =
     (let pv = clear_prevout pv
      in if point_is_null outpoint then Some pv
         else search_blocks c b outpoint pv (rev [0..<branch_size b]))"

text \<open>The table of the outputs of a block: the first one of a point is kept.\<close>

type_synonym local_utxo = "u32 \<times> bytes \<rightharpoonup> tx_output"

definition emplace :: "u32 \<times> bytes \<Rightarrow> tx_output \<Rightarrow> local_utxo \<Rightarrow> local_utxo" where
  "emplace k out m = (case m k of None \<Rightarrow> m(k \<mapsto> out) | Some _ \<Rightarrow> m)"

definition emplace_outputs :: "crypto \<Rightarrow> block_tx \<Rightarrow> local_utxo \<Rightarrow> local_utxo" where
  "emplace_outputs c t m =
     fold (\<lambda>(i, out). emplace (of_nat i, block_tx_hash c t) out)
       (zip [0..<length (tx_outputs (bt_tx t))] (tx_outputs (bt_tx t))) m"

definition create_local_utxo_set :: "crypto \<Rightarrow> block \<Rightarrow> local_utxo" where
  "create_local_utxo_set c block = fold (emplace_outputs c) (blk_txs block) Map.empty"

definition create_branch_utxo_set :: "crypto \<Rightarrow> branch \<Rightarrow> local_utxo list" where
  "create_branch_utxo_set c b = map (create_local_utxo_set c) (br_blocks b)"

fun search_utxos ::
  "crypto \<Rightarrow> branch \<Rightarrow> local_utxo list \<Rightarrow> 'a point_scheme \<Rightarrow> prevout_metadata \<Rightarrow> nat list \<Rightarrow>
   prevout_metadata option" where
  "search_utxos c b utxos outpoint pv [] = Some pv"
| "search_utxos c b utxos outpoint pv (i # is) =
     (case (utxos ! i) (point_key outpoint) of
        Some out \<Rightarrow> do {
          h \<leftarrow> height_at b i;
          Some (pv\<lparr>pv_coinbase := (point_hash outpoint = block_tx_hash c (hd (blk_txs (br_blocks b ! i)))),
            pv_height := h, pv_median_time_past := median_time_past_at b i, pv_cache := out\<rparr>) }
      | None \<Rightarrow> search_utxos c b utxos outpoint (pv\<lparr>pv_coinbase := False\<rparr>) is)"

definition populate_prevout_utxo ::
  "crypto \<Rightarrow> branch \<Rightarrow> local_utxo list \<Rightarrow> 'a point_scheme \<Rightarrow> prevout_metadata \<Rightarrow> prevout_metadata option" where
  "populate_prevout_utxo c b utxos outpoint pv =
     (let pv = clear_prevout pv
      in if point_is_null outpoint then Some pv
         else search_utxos c b utxos outpoint pv (rev [0..<branch_size b]))"

section \<open>Lemmas on queries\<close>

lemma fetch_bind_Found: "fetch_bind m f = Found y \<longleftrightarrow> (\<exists>x. m = Found x \<and> f x = Found y)"
  by (cases m) simp_all

lemma block_at_cases:
  "h \<le> br_height b \<Longrightarrow> block_at b h = Missing"
  "br_height b < h \<Longrightarrow> h \<le> top_height b \<Longrightarrow> block_at b h = Found (br_blocks b ! (h - br_height b - 1))"
  "top_height b < h \<Longrightarrow> block_at b h = Undefined"
  by (auto simp: block_at_def index_of_def safe_subtract_def top_height_def branch_size_def)

text \<open>What a field of the blocks is by height.\<close>

locale branch_field =
  fixes get :: "branch \<Rightarrow> nat \<Rightarrow> 'a fetch" and field :: "block \<Rightarrow> 'a"
  assumes get_block: "get b h = fetch_bind (block_at b h) (\<lambda>block. Found (field block))"
begin

lemma below: "h \<le> br_height b \<Longrightarrow> get b h = Missing"
  by (simp add: get_block block_at_cases)

lemma within: "br_height b < h \<Longrightarrow> h \<le> top_height b \<Longrightarrow> get b h = Found (field (br_blocks b ! (h - br_height b - 1)))"
  by (simp add: get_block block_at_cases)

lemma above: "top_height b < h \<Longrightarrow> get b h = Undefined"
  by (simp add: get_block block_at_cases)

text \<open>With the chain below, all heights up to the top are found.\<close>

lemma found_with_chain:
  assumes "h \<le> top_height b" "h \<le> br_height b \<Longrightarrow> chain h \<in> range Found"
  shows "fetch_else (get b h) (chain h) \<in> range Found"
  using assms by (cases "h \<le> br_height b") (auto simp: below within)

end

interpretation bits_field: branch_field get_bits "\<lambda>block. hd_bits (blk_header block)"
  by unfold_locales (simp add: get_bits_def)

interpretation version_field: branch_field get_version "\<lambda>block. hd_version (blk_header block)"
  by unfold_locales (simp add: get_version_def)

interpretation timestamp_field: branch_field get_timestamp "\<lambda>block. hd_timestamp (blk_header block)"
  by unfold_locales (simp add: get_timestamp_def)

interpretation hash_field: branch_field "get_block_hash c" "block_hash c"
  by unfold_locales (simp add: get_block_hash_def)

section \<open>Lemmas on growth\<close>

text \<open>Each block names the one below it.\<close>

definition linked :: "crypto \<Rightarrow> block list \<Rightarrow> bool" where
  "linked c bs \<longleftrightarrow> successively (\<lambda>x y. previous_block_hash (blk_header y) = block_hash c x) bs"

definition push_all :: "crypto \<Rightarrow> block list \<Rightarrow> branch \<Rightarrow> branch" where
  "push_all c bs b = fold (\<lambda>block b. snd (push_front c block b)) bs b"

lemma push_front_linked: "linked c (br_blocks b) \<Longrightarrow> linked c (br_blocks (snd (push_front c block b)))"
  by (cases "br_blocks b") (auto simp: push_front_def branch_empty_def linked_def)

lemma push_front_height [simp]: "br_height (snd (push_front c block b)) = br_height b"
  by (simp add: push_front_def)

lemma push_all_invariant:
  "linked c (br_blocks b) \<Longrightarrow> linked c (br_blocks (push_all c bs b)) \<and> br_height (push_all c bs b) = br_height b"
  by (induction bs arbitrary: b) (simp_all add: push_all_def push_front_linked)

lemma linked_nth:
  "linked c bs \<Longrightarrow> Suc i < length bs \<Longrightarrow> previous_block_hash (blk_header (bs ! Suc i)) = block_hash c (bs ! i)"
  unfolding linked_def by (rule successively_nth)

section \<open>Lemmas on previous outputs\<close>

definition has_output :: "crypto \<Rightarrow> 'a point_scheme \<Rightarrow> block_tx \<Rightarrow> bool" where
  "has_output c p t \<longleftrightarrow> point_hash p = block_tx_hash c t \<and> unat (point_index p) < length (tx_outputs (bt_tx t))"

lemma search_transactions_find:
  "search_transactions c p coinbase ts =
     (map_option (\<lambda>t. tx_outputs (bt_tx t) ! unat (point_index p)) (List.find (has_output c p) ts),
      coinbase \<and> (ts = [] \<or> has_output c p (hd ts)))"
  by (induction ts arbitrary: coinbase) (auto simp: has_output_def)

lemma emplace_first: "emplace k out m l = (if l = k \<and> m k = None then Some out else m l)"
  by (auto simp: emplace_def split: option.splits)

lemma emplace_outputs_at:
  assumes "length (tx_outputs (bt_tx t)) < 2 ^ 32"
  shows "emplace_outputs c t m (point_key p) =
    (case m (point_key p) of Some out \<Rightarrow> Some out
     | None \<Rightarrow> if has_output c p t then Some (tx_outputs (bt_tx t) ! unat (point_index p)) else None)"
proof -
  let ?k = "\<lambda>i. (of_nat i :: u32, block_tx_hash c t)"
  have "fold (\<lambda>(i, out). emplace (?k i) out) (zip [n..<n + length outs] outs) m (point_key p) =
      (case m (point_key p) of Some out \<Rightarrow> Some out
       | None \<Rightarrow> if point_hash p = block_tx_hash c t \<and> n \<le> unat (point_index p) \<and> unat (point_index p) < n + length outs
           then Some (outs ! (unat (point_index p) - n)) else None)"
    if "n + length outs < 2 ^ 32" for n outs
    using that
  proof (induction outs arbitrary: n m)
    case (Cons out outs)
    have key: "point_key p = ?k n \<longleftrightarrow> point_hash p = block_tx_hash c t \<and> unat (point_index p) = n"
      using Cons.prems by (auto simp: point_key_def unsigned_of_nat take_bit_nat_eq_self_iff)
    have "[n..<n + length (out # outs)] = n # [Suc n..<Suc n + length outs]" by (subst upt_conv_Cons) simp_all
    then show ?case
      using Cons.IH [of "Suc n" "emplace (?k n) out m"] Cons.prems key
      by (auto simp: emplace_first nth_Cons' split: option.splits)
  qed (auto split: option.splits)
  from this [of 0 "tx_outputs (bt_tx t)"] assms show ?thesis
    by (simp add: emplace_outputs_def has_output_def cong: option.case_cong)
qed

lemma local_utxo_find:
  assumes "\<forall>t \<in> set ts. length (tx_outputs (bt_tx t)) < 2 ^ 32"
  shows "fold (emplace_outputs c) ts m (point_key p) =
    (case m (point_key p) of Some out \<Rightarrow> Some out
     | None \<Rightarrow> map_option (\<lambda>t. tx_outputs (bt_tx t) ! unat (point_index p)) (List.find (has_output c p) ts))"
  using assms by (induction ts arbitrary: m) (auto simp: emplace_outputs_at split: option.splits)

section \<open>Properties\<close>

text \<open>C31: A branch is a chain: however blocks are pushed, each block that was taken names the one below it, so that for
  every height above the fork the branch has a block there, and its previous hash is that of the block below it or of the
  fork point. The hash of a height above the top is undefined.\<close>

theorem branch_is_chain:
  fixes c :: crypto and bs :: "block list" and fork :: nat
  defines "b \<equiv> push_all c bs (new_branch fork)"
  shows "(\<forall>h. fork < h \<and> h \<le> top_height b \<longrightarrow>
      (\<exists>block. block_at b h = Found block \<and>
        (if h = fork + 1 then previous_block_hash (blk_header block) = cp_hash (fork_point b)
         else get_block_hash c b (h - 1) = Found (previous_block_hash (blk_header block))))) \<and>
    (\<forall>h. top_height b < h \<longrightarrow> get_block_hash c b h = Undefined) \<and> cp_height (fork_point b) = fork"
proof -
  have b: "linked c (br_blocks b)" "br_height b = fork"
    using push_all_invariant [of c "new_branch fork" bs] by (simp_all add: b_def new_branch_def linked_def)
  have "\<exists>block. block_at b h = Found block \<and>
        (if h = fork + 1 then previous_block_hash (blk_header block) = cp_hash (fork_point b)
         else get_block_hash c b (h - 1) = Found (previous_block_hash (blk_header block)))"
    if h: "fork < h" "h \<le> top_height b" for h
  proof -
    let ?i = "h - fork - 1"
    have i: "?i < length (br_blocks b)" using h b(2) by (simp add: top_height_def branch_size_def)
    then have ne: "br_blocks b \<noteq> []" by auto
    have at: "block_at b h = Found (br_blocks b ! ?i)" using block_at_cases(2) [of b h] h b(2) by simp
    show ?thesis
    proof (cases "h = fork + 1")
      case True
      then show ?thesis using at ne by (simp add: fork_point_def branch_hash_def branch_empty_def hd_conv_nth)
    next
      case False
      then obtain j where j: "h = Suc (Suc (fork + j))"
        using h(1) less_iff_Suc_add [of fork h] not0_implies_Suc by fastforce
      have "get_block_hash c b (h - 1) = Found (block_hash c (br_blocks b ! j))"
        using hash_field.within [of b "h - 1" c] h b(2) by (simp add: j)
      moreover have "previous_block_hash (blk_header (br_blocks b ! Suc j)) = block_hash c (br_blocks b ! j)"
        using linked_nth [OF b(1), of j] i by (simp add: j)
      ultimately show ?thesis using at False by (simp add: j)
    qed
  qed
  then show ?thesis using hash_field.above b(2) by (auto simp: fork_point_def)
qed

theorem branch_is_chain_witness:
  "\<exists>block. block_at (push_all constant_crypto [example_block] (new_branch 5)) 6 = Found block \<and>
     previous_block_hash (blk_header block) =
       cp_hash (fork_point (push_all constant_crypto [example_block] (new_branch 5)))"
proof -
  have "top_height (push_all constant_crypto [example_block] (new_branch 5)) = 6"
    by (simp add: push_all_def push_front_def new_branch_def branch_empty_def top_height_def branch_size_def)
  then show ?thesis
    using branch_is_chain [where c = constant_crypto and bs = "[example_block]" and fork = 5]
    by (auto dest!: spec [of _ "6 :: nat"])
qed

text \<open>The table of the outputs of a branch gives the same previous output, with the same height, time and coinbase
  flag, as the search through the transactions of its blocks, for every point, if no block is empty and transactions of
  a block with the same hash have the same number of outputs.\<close>

theorem populate_prevout_agree:
  assumes "\<forall>block \<in> set (br_blocks b). blk_txs block \<noteq> [] \<and>
      (\<forall>t \<in> set (blk_txs block). length (tx_outputs (bt_tx t)) < 2 ^ 32 \<and>
        (\<forall>u \<in> set (blk_txs block). block_tx_hash c t = block_tx_hash c u \<longrightarrow>
          length (tx_outputs (bt_tx t)) = length (tx_outputs (bt_tx u))))"
  shows "populate_prevout_utxo c b (create_branch_utxo_set c b) p pv = populate_prevout c b p pv"
proof -
  have "search_utxos c b (create_branch_utxo_set c b) p pv is = search_blocks c b p pv is"
    if "\<forall>i \<in> set is. i < branch_size b" for pv "is"
    using that
  proof (induction "is" arbitrary: pv)
    case (Cons i "is")
    let ?block = "br_blocks b ! i"
    let ?found = "List.find (has_output c p) (blk_txs ?block)"
    have mem: "?block \<in> set (br_blocks b)" using Cons.prems by (simp add: branch_size_def)
    have "\<forall>t \<in> set (blk_txs ?block). length (tx_outputs (bt_tx t)) < 2 ^ 32" using assms mem by blast
    then have utxo: "(create_branch_utxo_set c b ! i) (point_key p) =
        map_option (\<lambda>t. tx_outputs (bt_tx t) ! unat (point_index p)) ?found"
      using Cons.prems by (simp add: create_branch_utxo_set_def create_local_utxo_set_def local_utxo_find branch_size_def)
    have rest: "search_utxos c b (create_branch_utxo_set c b) p pv is = search_blocks c b p pv is" for pv
      using Cons by simp
    obtain t ts where ts: "blk_txs ?block = t # ts" using assms mem by (cases "blk_txs ?block") auto
    show ?case
    proof (cases ?found)
      case None
      then have "\<not> has_output c p t" by (simp add: ts split: if_splits)
      then show ?thesis using None by (simp add: utxo rest search_transactions_find ts)
    next
      case (Some u)
      then have "u \<in> set (blk_txs ?block)" "has_output c p u" by (auto simp: find_Some_iff)
      moreover have "t \<in> set (blk_txs ?block)" by (simp add: ts)
      ultimately have "block_tx_hash c u = block_tx_hash c t \<longrightarrow> length (tx_outputs (bt_tx u)) = length (tx_outputs (bt_tx t))"
        using assms mem by blast
      then have "has_output c p t \<longleftrightarrow> point_hash p = block_tx_hash c t"
        using \<open>has_output c p u\<close> by (auto simp: has_output_def)
      then show ?thesis using Some by (simp add: utxo search_transactions_find) (simp add: ts)
    qed
  qed simp
  then show ?thesis by (simp add: populate_prevout_utxo_def populate_prevout_def Let_def)
qed

theorem populate_prevout_agree_witness:
  "populate_prevout_utxo constant_crypto \<lparr>br_height = 5, br_blocks = [example_block]\<rparr>
     (create_branch_utxo_set constant_crypto \<lparr>br_height = 5, br_blocks = [example_block]\<rparr>)
     (make_point (replicate 32 0) 0) prevout_default =
   populate_prevout constant_crypto \<lparr>br_height = 5, br_blocks = [example_block]\<rparr>
     (make_point (replicate 32 0) 0) prevout_default"
  by (rule populate_prevout_agree) (simp add: example_block_def new_block_tx_def example_coinbase_def)

end
