(* ===== verification/Populate_State.thy ===== *)
theory Populate_State
  imports Branch
begin

text \<open>
  The population of the chain state (blockchain/src/populate/populate_chain_state.cpp) from the chain and a branch.
  The chain is the interface of the database: its queries by height are the parameters of this model.
\<close>

section \<open>The chain\<close>

record fast_chain =
  fc_last_height :: "nat option"
  fc_header_and_abla_state :: "nat \<Rightarrow> (validated_header \<times> u64 \<times> u64 \<times> u64) option"
  fc_bits :: "nat \<Rightarrow> u32 option"
  fc_version :: "nat \<Rightarrow> u32 option"
  fc_timestamp :: "nat \<Rightarrow> u32 option"
  fc_block_hash :: "nat \<Rightarrow> bytes option"

definition fetched_of :: "'a option \<Rightarrow> 'a fetch" where
  "fetched_of r = (case r of None \<Rightarrow> Missing | Some v \<Rightarrow> Found v)"

record state_settings =
  set_forks :: forks
  set_checkpoints :: "checkpoint list"
  set_network :: network
  set_half_life :: u32
  set_abla_config :: abla_config
  set_leibniz :: u64
  set_cantor :: u64

definition is_transaction_pool :: "branch \<Rightarrow> bool" where
  "is_transaction_pool b \<longleftrightarrow> branch_empty b"

definition chain_bits :: "fast_chain \<Rightarrow> branch \<Rightarrow> nat \<Rightarrow> u32 fetch" where
  "chain_bits fc b height = fetch_else (get_bits b height) (fetched_of (fc_bits fc height))"

definition chain_version :: "fast_chain \<Rightarrow> branch \<Rightarrow> nat \<Rightarrow> u32 fetch" where
  "chain_version fc b height = fetch_else (get_version b height) (fetched_of (fc_version fc height))"

definition chain_timestamp :: "fast_chain \<Rightarrow> branch \<Rightarrow> nat \<Rightarrow> u32 fetch" where
  "chain_timestamp fc b height = fetch_else (get_timestamp b height) (fetched_of (fc_timestamp fc height))"

definition chain_block_hash :: "crypto \<Rightarrow> fast_chain \<Rightarrow> branch \<Rightarrow> nat \<Rightarrow> bytes fetch" where
  "chain_block_hash c fc b height = fetch_else (get_block_hash c b height) (fetched_of (fc_block_hash fc height))"

section \<open>The data\<close>

text \<open>The heights of a range, from the lowest to the highest.\<close>

definition range_heights :: "height_range \<Rightarrow> nat list" where
  "range_heights r = [range_high r + 1 - range_count r..<range_high r + 1]"

fun fetch_all :: "(nat \<Rightarrow> 'a fetch) \<Rightarrow> nat list \<Rightarrow> 'a list fetch" where
  "fetch_all get [] = Found []"
| "fetch_all get (h # hs) = fetch_bind (get h) (\<lambda>x. fetch_bind (fetch_all get hs) (\<lambda>xs. Found (x # xs)))"

definition populate_bits :: "fast_chain \<Rightarrow> chain_map \<Rightarrow> branch \<Rightarrow> chain_data \<Rightarrow> chain_data fetch" where
  "populate_bits fc m b data =
     fetch_bind (fetch_all (chain_bits fc b) (range_heights (map_bits m))) (\<lambda>bits.
     fetch_bind (if is_transaction_pool b then Found (work_limit True) else chain_bits fc b (map_bits_self m)) (\<lambda>self.
       Found (data\<lparr>bits_ordered := bits, bits_self := self\<rparr>)))"

definition populate_versions ::
  "state_settings \<Rightarrow> fast_chain \<Rightarrow> chain_map \<Rightarrow> branch \<Rightarrow> chain_data \<Rightarrow> chain_data fetch" where
  "populate_versions st fc m b data =
     fetch_bind (fetch_all (chain_version fc b) (range_heights (map_version m))) (\<lambda>versions.
     fetch_bind (if is_transaction_pool b then Found (of_nat (signal_version (set_forks st)))
                 else chain_version fc b (map_version_self m)) (\<lambda>self.
       Found (data\<lparr>version_ordered := versions, version_self := self\<rparr>)))"

abbreviation unspecified :: u32 where "unspecified \<equiv> 0xffffffff"

definition populate_timestamps ::
  "u32 \<Rightarrow> fast_chain \<Rightarrow> chain_map \<Rightarrow> branch \<Rightarrow> chain_data \<Rightarrow> chain_data fetch" where
  "populate_timestamps now fc m b data =
     fetch_bind (fetch_all (chain_timestamp fc b) (range_heights (map_timestamp m))) (\<lambda>timestamps.
     fetch_bind (if map_timestamp_retarget m \<noteq> unrequested then chain_timestamp fc b (map_timestamp_retarget m)
                 else Found unspecified) (\<lambda>retarget.
     fetch_bind (if is_transaction_pool b then Found now else chain_timestamp fc b (map_timestamp_self m)) (\<lambda>self.
       Found (data\<lparr>timestamp_ordered := timestamps, timestamp_retarget := retarget, timestamp_self := self\<rparr>))))"

definition populate_collision ::
  "crypto \<Rightarrow> fast_chain \<Rightarrow> chain_map \<Rightarrow> branch \<Rightarrow> chain_data \<Rightarrow> chain_data fetch" where
  "populate_collision c fc m b data =
     fetch_bind
       (if map_allow_collisions_height m = unrequested \<or> is_transaction_pool b then Found null_hash
        else chain_block_hash c fc b (map_allow_collisions_height m)) (\<lambda>h.
       Found (data\<lparr>allow_collisions_hash := h\<rparr>))"

definition populate_all ::
  "crypto \<Rightarrow> state_settings \<Rightarrow> u32 \<Rightarrow> fast_chain \<Rightarrow> branch \<Rightarrow> chain_data \<Rightarrow> chain_data fetch" where
  "populate_all c st now fc b data =
     (let m = get_map (cd_height data) (set_forks st) (set_network st)
      in fetch_bind (populate_bits fc m b data) (\<lambda>data.
         fetch_bind (populate_versions st fc m b data) (\<lambda>data.
         fetch_bind (populate_timestamps now fc m b data) (\<lambda>data.
           populate_collision c fc m b data))))"

section \<open>The states\<close>

text \<open>The members that the population sets are arbitrary before.\<close>

definition empty_data :: "bytes \<Rightarrow> nat \<Rightarrow> abla_state \<Rightarrow> chain_data" where
  "empty_data hash height abla =
     \<lparr>cd_height = height, cd_hash = hash, allow_collisions_hash = null_hash, bits_self = 0, bits_ordered = [],
      version_self = 0, version_ordered = [], timestamp_self = 0, timestamp_retarget = 0, timestamp_ordered = [],
      cd_abla_state = abla\<rparr>"

definition construct_state :: "state_settings \<Rightarrow> asert_anchor \<Rightarrow> chain_data \<Rightarrow> chain_state fetch" where
  "construct_state st anchor data =
     (case chain_state_of data (set_forks st) (set_checkpoints st) (set_network st) anchor (set_half_life st)
         (set_abla_config st) (set_leibniz st) (set_cantor st) of
        None \<Rightarrow> Undefined
      | Some s \<Rightarrow> Found s)"

definition pool_abla_state :: "state_settings \<Rightarrow> u64 \<Rightarrow> u64 \<Rightarrow> u64 \<Rightarrow> abla_state" where
  "pool_abla_state st block_sz control elastic =
     (if block_sz = 0 then initial_state (set_abla_config st) (of_nat (static_max_block_size (set_network st)))
      else (initial_state (set_abla_config st) block_sz)
        \<lparr>control_block_size := control, elastic_buffer_size := elastic\<rparr>)"

text \<open>The state of the transaction pool, above the top of the chain.\<close>

definition populate_pool :: "crypto \<Rightarrow> state_settings \<Rightarrow> u32 \<Rightarrow> fast_chain \<Rightarrow> chain_state fetch" where
  "populate_pool c st now fc =
     (case fc_last_height fc of
        None \<Rightarrow> Missing
      | Some t \<Rightarrow>
          (case fc_header_and_abla_state fc t of
             None \<Rightarrow> Missing
           | Some (last_header, block_sz, control, elastic) \<Rightarrow>
               if \<not> header_is_valid last_header then Missing
               else if t + 1 > max_uint64 then Undefined
               else
                 fetch_bind (populate_all c st now fc (new_branch t)
                     (empty_data null_hash (t + 1) (pool_abla_state st block_sz control elastic)))
                   (construct_state st (get_assert_anchor_block (set_network st)))))"

text \<open>The state of the top of a branch. The size of the block is that of its block only, and the state of the block size
  is computed from that of the pool.\<close>

definition branch_abla_state :: "state_settings \<Rightarrow> chain_state \<Rightarrow> nat \<Rightarrow> block \<Rightarrow> abla_state option" where
  "branch_abla_state st pool height block =
     (let size = of_nat (block_serialized_size block)
      in if is_lobachevski_enabled height (set_network st) \<and> state_lobachevski_enabled pool
         then abla_next (cd_abla_state (cs_data pool)) (set_abla_config st) size
         else Some (initial_state (set_abla_config st) size))"

definition populate_branch ::
  "crypto \<Rightarrow> state_settings \<Rightarrow> u32 \<Rightarrow> fast_chain \<Rightarrow> chain_state \<Rightarrow> branch \<Rightarrow> chain_state fetch" where
  "populate_branch c st now fc pool b =
     (case branch_top b of
        None \<Rightarrow> Undefined
      | Some block \<Rightarrow>
          if branch_size b = 1 \<and> top_height b = state_height pool
          then (case from_pool_ptr c pool (blk_header block) of None \<Rightarrow> Undefined | Some s \<Rightarrow> Found s)
          else
            fetch_bind (populate_all c st now fc b
                (empty_data (block_hash c block) (top_height b) (cd_abla_state (cs_data pool)))) (\<lambda>data.
              case branch_abla_state st pool (top_height b) block of
                None \<Rightarrow> Missing
              | Some abla \<Rightarrow> construct_state st (cs_anchor pool) (data\<lparr>cd_abla_state := abla\<rparr>)))"

section \<open>Lemmas\<close>

lemma fetch_all_Found:
  assumes "\<forall>h \<in> set hs. get h \<in> range Found"
  shows "\<exists>xs. fetch_all get hs = Found xs \<and> length xs = length hs \<and> (\<forall>x \<in> set xs. \<exists>h \<in> set hs. get h = Found x)"
  using assms
proof (induction hs)
  case (Cons h hs)
  then obtain x xs where "get h = Found x" "fetch_all get hs = Found xs" "length xs = length hs"
    "\<forall>x \<in> set xs. \<exists>h \<in> set hs. get h = Found x"
    by auto
  then show ?case by auto
qed simp

lemma range_heights_bounds:
  "range_count r \<le> range_high r + 1 \<Longrightarrow> length (range_heights r) = range_count r"
  "h \<in> set (range_heights r) \<Longrightarrow> h \<le> range_high r"
  by (auto simp: range_heights_def)

lemma fetched_of_Some: "r \<noteq> None \<Longrightarrow> fetched_of r \<in> range Found"
  by (auto simp: fetched_of_def)

text \<open>The chain has all blocks up to a height.\<close>

definition complete_chain :: "fast_chain \<Rightarrow> nat \<Rightarrow> bool" where
  "complete_chain fc height \<longleftrightarrow>
     (\<forall>h \<le> height. fc_bits fc h \<noteq> None \<and> fc_version fc h \<noteq> None \<and> fc_timestamp fc h \<noteq> None \<and> fc_block_hash fc h \<noteq> None)"

lemma chain_Found:
  assumes "complete_chain fc (br_height b)" "h \<le> top_height b"
  shows "chain_bits fc b h \<in> range Found" "chain_version fc b h \<in> range Found"
    "chain_timestamp fc b h \<in> range Found" "chain_block_hash c fc b h \<in> range Found"
proof -
  have "fetched_of (fc_bits fc h) \<in> range Found" "fetched_of (fc_version fc h) \<in> range Found"
    "fetched_of (fc_timestamp fc h) \<in> range Found" "fetched_of (fc_block_hash fc h) \<in> range Found"
    if "h \<le> br_height b"
    using assms(1) that by (simp_all add: complete_chain_def fetched_of_Some del: image_iff)
  then show "chain_bits fc b h \<in> range Found" "chain_version fc b h \<in> range Found"
    "chain_timestamp fc b h \<in> range Found" "chain_block_hash c fc b h \<in> range Found"
    unfolding chain_bits_def chain_version_def chain_timestamp_def chain_block_hash_def
    using bits_field.found_with_chain [OF assms(2), of "\<lambda>h. fetched_of (fc_bits fc h)"]
      version_field.found_with_chain [OF assms(2), of "\<lambda>h. fetched_of (fc_version fc h)"]
      timestamp_field.found_with_chain [OF assms(2), of "\<lambda>h. fetched_of (fc_timestamp fc h)"]
      hash_field.found_with_chain [OF assms(2), of "\<lambda>h. fetched_of (fc_block_hash fc h)" c]
    by blast+
qed

text \<open>The heights that are queried for a state are below it.\<close>

lemma retarget_height_below:
  assumes "0 < h" "h < max_uint64" "retarget_height h forks \<noteq> unrequested"
  shows "retarget_height h forks < h"
proof -
  have "size_diff h (if is_retarget_height h then 2016 else retarget_distance h) < h"
    using assms(1,2) by (auto simp: size_diff_def is_retarget_height_def retarget_distance_def dest: dvd_imp_le)
  then show ?thesis using assms(3) by (auto simp: retarget_height_def split: if_splits)
qed

lemma collision_height_below: "collision_height h network \<noteq> unrequested \<Longrightarrow> collision_height h network < h"
  by (auto simp: collision_height_def Let_def split: option.splits if_splits)

lemma map_counts:
  fixes forks :: forks and network :: network
  assumes "0 < h"
  defines "m \<equiv> get_map h forks network"
  shows "range_count (map_bits m) \<le> h" "range_count (map_version m) \<le> h" "range_count (map_timestamp m) \<le> h"
    "range_high (map_bits m) = h - 1" "range_high (map_version m) = h - 1" "range_high (map_timestamp m) = h - 1"
    "map_bits_self m = h" "map_version_self m = h" "map_timestamp_self m = h"
    "map_timestamp_retarget m = retarget_height h forks" "map_allow_collisions_height m = collision_height h network"
  using assms by (simp_all add: get_map_def bits_count_def version_count_def timestamp_count_def Let_def)

lemma range_Found:
  assumes "range_count r \<le> range_high r + 1" "\<And>h. h \<le> range_high r \<Longrightarrow> get h \<in> range Found"
  shows "\<exists>xs. fetch_all get (range_heights r) = Found xs \<and> length xs = range_count r \<and>
    (\<forall>x \<in> set xs. \<exists>h \<le> range_high r. get h = Found x)"
proof -
  have "\<forall>h \<in> set (range_heights r). get h \<in> range Found" using assms(2) range_heights_bounds(2) by blast
  from fetch_all_Found [OF this] show ?thesis
    using range_heights_bounds(1) [OF assms(1)] range_heights_bounds(2) by metis
qed

lemma populate_all_Found:
  fixes data :: chain_data and st :: state_settings and b :: branch
  defines "h \<equiv> cd_height data" and "forks \<equiv> set_forks st" and "network \<equiv> set_network st"
  assumes chain: "complete_chain fc (br_height b)" and h: "0 < h" "h \<le> top_height b + 1" "h < max_uint64"
    and self: "is_transaction_pool b \<or> h \<le> top_height b"
  shows "\<exists>data'. populate_all c st now fc b data = Found data' \<and> fetched data' forks network \<and>
    cd_height data' = h \<and> cd_abla_state data' = cd_abla_state data \<and> cd_hash data' = cd_hash data \<and>
    (\<forall>x \<in> set (bits_ordered data'). \<exists>k < h. chain_bits fc b k = Found x)"
proof -
  let ?m = "get_map h forks network"
  note m = map_counts [OF h(1), of forks network]
  have below: "k \<le> top_height b" if "k \<le> h - 1" for k using that h by simp
  have less: "k \<le> top_height b" if "k < h" for k using that h by simp
  obtain bits where bits: "fetch_all (chain_bits fc b) (range_heights (map_bits ?m)) = Found bits"
    "length bits = range_count (map_bits ?m)" "\<forall>x \<in> set bits. \<exists>k \<le> h - 1. chain_bits fc b k = Found x"
    using range_Found [of "map_bits ?m" "chain_bits fc b"] m(1,4) h(1) chain_Found(1) [OF chain below] by auto
  obtain versions where versions: "fetch_all (chain_version fc b) (range_heights (map_version ?m)) = Found versions"
    "length versions = range_count (map_version ?m)"
    using range_Found [of "map_version ?m" "chain_version fc b"] m(2,5) h(1) chain_Found(2) [OF chain below] by auto
  obtain times where times: "fetch_all (chain_timestamp fc b) (range_heights (map_timestamp ?m)) = Found times"
    "length times = range_count (map_timestamp ?m)"
    using range_Found [of "map_timestamp ?m" "chain_timestamp fc b"] m(3,6) h(1) chain_Found(3) [OF chain below] by auto
  obtain b_self where b_self:
    "(if is_transaction_pool b then Found (work_limit True) else chain_bits fc b (map_bits_self ?m)) = Found b_self"
    using self chain_Found(1) [OF chain, of h] by (cases "is_transaction_pool b") (auto simp: m)
  obtain v_self where v_self:
    "(if is_transaction_pool b then Found (of_nat (signal_version (set_forks st)))
      else chain_version fc b (map_version_self ?m)) = Found v_self"
    using self chain_Found(2) [OF chain, of h] by (cases "is_transaction_pool b") (auto simp: m)
  obtain t_self where t_self:
    "(if is_transaction_pool b then Found now else chain_timestamp fc b (map_timestamp_self ?m)) = Found t_self"
    using self chain_Found(3) [OF chain, of h] by (cases "is_transaction_pool b") (auto simp: m)
  obtain retarget where retarget:
    "(if map_timestamp_retarget ?m \<noteq> unrequested then chain_timestamp fc b (map_timestamp_retarget ?m)
      else Found unspecified) = Found retarget"
    using retarget_height_below [OF h(1,3), of forks] chain_Found(3) [OF chain less, of "retarget_height h forks"]
    by (cases "retarget_height h forks = unrequested") (auto simp: m)
  obtain hash where hash:
    "(if map_allow_collisions_height ?m = unrequested \<or> is_transaction_pool b then Found null_hash
      else chain_block_hash c fc b (map_allow_collisions_height ?m)) = Found hash"
    using collision_height_below [of h network] chain_Found(4) [OF chain less, of "collision_height h network" c]
    by (cases "collision_height h network = unrequested"; cases "is_transaction_pool b") (auto simp: m)
  have "populate_all c st now fc b data = Found (data\<lparr>bits_ordered := bits, bits_self := b_self,
      version_ordered := versions, version_self := v_self, timestamp_ordered := times, timestamp_retarget := retarget,
      timestamp_self := t_self, allow_collisions_hash := hash\<rparr>)" (is "_ = Found ?d")
  proof -
    have "populate_bits fc ?m b data = Found (data\<lparr>bits_ordered := bits, bits_self := b_self\<rparr>)"
      by (simp only: populate_bits_def bits(1) b_self fetch_bind.simps)
    moreover have "populate_versions st fc ?m b d = Found (d\<lparr>version_ordered := versions, version_self := v_self\<rparr>)" for d
      by (simp only: populate_versions_def versions(1) v_self fetch_bind.simps)
    moreover have "populate_timestamps now fc ?m b d = Found (d\<lparr>timestamp_ordered := times,
        timestamp_retarget := retarget, timestamp_self := t_self\<rparr>)" for d
      by (simp only: populate_timestamps_def times(1) retarget t_self fetch_bind.simps)
    moreover have "populate_collision c fc ?m b d = Found (d\<lparr>allow_collisions_hash := hash\<rparr>)" for d
      by (simp only: populate_collision_def hash fetch_bind.simps)
    ultimately show ?thesis
      by (simp only: populate_all_def Let_def fetch_bind.simps h_def forks_def network_def)
  qed
  moreover have "fetched ?d forks network"
    using bits(2) versions(2) times(2) by (simp add: fetched_def Let_def flip: h_def)
  moreover have "\<forall>x \<in> set bits. \<exists>k < h. chain_bits fc b k = Found x"
    using bits(3) h(1) by (metis Suc_pred' less_Suc_eq_le)
  ultimately show ?thesis by (intro exI [of _ ?d]) (simp add: h_def)
qed

lemma construct_state_Found:
  assumes "fetched data (set_forks st OR allow_collisions) (set_network st)" "0 < cd_height data" "cd_height data < 2 ^ 32"
    "set_network st \<noteq> regtest" "set_half_life st \<noteq> 0" "\<forall>x \<in> set (bits_ordered data). workable x"
  shows "\<exists>s. construct_state st (get_assert_anchor_block (set_network st)) data = Found s \<and> cs_data s = data \<and>
    \<not> overflowed (compact_of_bits (cs_work_required s)) \<and> big (compact_of_bits (cs_work_required s)) \<le> pow_limit"
  using work_required_total [OF assms] by (auto simp: construct_state_def chain_state_of_def Let_def)

text \<open>Allowing collisions does not change what is queried.\<close>

lemma fetched_allow_collisions: "fetched data (forks OR allow_collisions) network \<longleftrightarrow> fetched data forks network"
proof -
  have "is_enabled (forks OR allow_collisions) r = is_enabled forks r"
    if "r AND allow_collisions = 0" for r
    using that by (simp add: is_enabled_def bit.conj_disj_distrib)
  from this [of easy_blocks] this [of retarget] this [of bip90_rule] this [of bip34_activations]
  show ?thesis
    by (simp add: fetched_def get_map_def bits_count_def version_count_def retarget_height_def)
qed

section \<open>Properties\<close>

text \<open>C28: The chain state of the transaction pool is defined for a configured half life other than 0: on a chain with all its
  blocks and a valid top header, of a top below 2^32 - 1, of targets between 2^32 and the limit, and on every network but
  regtest, the population of the state reads nothing that is missing or outside of a list and no computation in it is
  undefined; the state is for the height above the top, its block size state is built from that of the top block, and it
  requires a work within the limit. (The half life is configurable; 0, or a multiple of 2^32, which is cut to 0, makes the code divide by zero.)\<close>

theorem pool_state_defined:
  assumes "fc_last_height fc = Some t" "fc_header_and_abla_state fc t = Some (last_header, sz, control, elastic)"
    "header_is_valid last_header" "complete_chain fc t" "t < 2 ^ 32 - 1"
    "set_network st \<noteq> regtest" "set_half_life st \<noteq> 0" "\<forall>h x. fc_bits fc h = Some x \<longrightarrow> workable x"
  shows "\<exists>s. populate_pool c st now fc = Found s \<and> state_height s = t + 1 \<and>
    big (compact_of_bits (cs_work_required s)) \<le> pow_limit \<and>
    cd_abla_state (cs_data s) = pool_abla_state st sz control elastic"
proof -
  let ?b = "new_branch t" and ?d = "empty_data null_hash (t + 1) (pool_abla_state st sz control elastic)"
  have b: "complete_chain fc (br_height ?b)" "is_transaction_pool ?b" "top_height ?b = t"
    using assms(4) by (simp_all add: new_branch_def is_transaction_pool_def branch_empty_def top_height_def branch_size_def)
  obtain data where data: "populate_all c st now fc ?b ?d = Found data" "fetched data (set_forks st) (set_network st)"
    "cd_height data = t + 1" "cd_abla_state data = pool_abla_state st sz control elastic"
    "\<forall>x \<in> set (bits_ordered data). \<exists>k < t + 1. chain_bits fc ?b k = Found x"
    using populate_all_Found [OF b(1), of ?d c st now] b(2,3) assms(5) by (auto simp: empty_data_def)
  have "workable x" if x: "x \<in> set (bits_ordered data)" for x
  proof -
    obtain k where "k \<le> t" "chain_bits fc ?b k = Found x" using data(5) x by (auto simp: less_Suc_eq_le)
    then have "fetched_of (fc_bits fc k) = Found x"
      by (simp add: chain_bits_def bits_field.below new_branch_def)
    then show ?thesis using assms(8) by (auto simp: fetched_of_def split: option.splits)
  qed
  then obtain s where "construct_state st (get_assert_anchor_block (set_network st)) data = Found s" "cs_data s = data"
    "big (compact_of_bits (cs_work_required s)) \<le> pow_limit"
    using construct_state_Found [of data st] data(2,3) assms(5-7) fetched_allow_collisions by auto
  moreover have "\<not> t + 1 > max_uint64" using assms(5) by simp
  ultimately show ?thesis
    using assms(1-3) data(1,3,4) by (auto simp: populate_pool_def state_height_def)
qed

definition example_chain :: fast_chain where
  "example_chain = \<lparr>fc_last_height = Some 300,
     fc_header_and_abla_state = \<lambda>_. Some (blk_header example_block, 1000, 16000000, 16000000),
     fc_bits = \<lambda>_. Some 0x1d00ffff, fc_version = \<lambda>_. Some 4, fc_timestamp = \<lambda>h. Some (of_nat h * 600),
     fc_block_hash = \<lambda>_. Some (replicate 32 1)\<rparr>"

definition example_settings :: state_settings where
  "example_settings = \<lparr>set_forks = 0x40000000, set_checkpoints = [], set_network = mainnet, set_half_life = 172800,
     set_abla_config = default_config 32000000 False, set_leibniz = 0, set_cantor = 0\<rparr>"

theorem pool_state_defined_witness:
  "\<exists>s. populate_pool constant_crypto example_settings 0 example_chain = Found s \<and> state_height s = 301"
proof -
  have "header_is_valid (blk_header example_block)" by (simp add: header_is_valid_def example_block_def)
  moreover have "complete_chain example_chain 300" by (simp add: complete_chain_def example_chain_def)
  ultimately show ?thesis
    using pool_state_defined [of example_chain 300 "blk_header example_block" 1000 16000000 16000000 example_settings]
      workable_limit
    by (auto simp: example_chain_def example_settings_def)
qed

text \<open>The state of the block size does not follow the chain: the state of a block on top of the chain keeps that
  of the pool, without a step for the block, and the state of a longer branch makes one step from that of
  the pool for its top block, whatever the blocks below it are and wherever the branch begins.\<close>

theorem branch_block_size_state:
  assumes "populate_branch c st now fc pool b = Found s"
  shows "if branch_size b = 1 \<and> top_height b = state_height pool
    then cd_abla_state (cs_data s) = cd_abla_state (cs_data pool)
    else branch_abla_state st pool (top_height b) (last (br_blocks b)) = Some (cd_abla_state (cs_data s))"
proof -
  have of_values: "cs_data s' = v" if "chain_state_of v f cp n a hl cfg l k = Some s'" for v f cp n a hl cfg l k s'
    using that by (auto simp: chain_state_of_def Let_def split: bind_splits)
  obtain block where top: "branch_top b = Some block" "block = last (br_blocks b)"
    using assms by (auto simp: populate_branch_def branch_top_def split: if_splits)
  show ?thesis
  proof (cases "branch_size b = 1 \<and> top_height b = state_height pool")
    case True
    then have "from_pool_ptr c pool (blk_header block) = Some s"
      using assms by (simp add: populate_branch_def top(1) split: option.splits)
    then have "cs_data s = to_block c pool (blk_header block)" unfolding from_pool_ptr_def by (rule of_values)
    then show ?thesis using True by (simp add: to_block_def Let_def)
  next
    case False
    then obtain data abla where "branch_abla_state st pool (top_height b) block = Some abla"
      "construct_state st (cs_anchor pool) (data\<lparr>cd_abla_state := abla\<rparr>) = Found s"
      using assms by (auto simp: populate_branch_def top(1) fetch_bind_Found split: option.splits)
    moreover from this(2) have "cs_data s = data\<lparr>cd_abla_state := abla\<rparr>"
      by (auto simp: construct_state_def intro: of_values split: option.splits)
    ultimately show ?thesis using False by (auto simp: top(2))
  qed
qed

theorem branch_block_size_state_witness:
  "\<exists>pool s. populate_branch constant_crypto example_settings 0 example_chain pool \<lparr>br_height = 99, br_blocks = [example_block]\<rparr>
     = Found s \<and> cd_abla_state (cs_data s) = cd_abla_state (cs_data pool)"
proof -
  let ?b = "\<lparr>br_height = 99, br_blocks = [example_block]\<rparr>"
  obtain pool :: chain_state where pool: "cs_forks pool = 0x80" "cs_data pool = example_data 100"
    using example_state [of "default_config 32000000 False"] by blast
  have "bits_high (to_block constant_crypto pool (blk_header example_block)) = Some 0x1d00ffff"
    "cd_height (to_block constant_crypto pool (blk_header example_block)) = 100"
    by (simp_all add: to_block_def pool bits_high_def deque_back_def example_data_def Let_def)
  then obtain s where "from_pool_ptr constant_crypto pool (blk_header example_block) = Some s"
    by (auto simp: from_pool_ptr_def chain_state_of_def work_required_def pool is_enabled_def Let_def)
  moreover have here: "branch_size ?b = 1" "top_height ?b = state_height pool" "branch_top ?b = Some example_block"
    by (simp_all add: branch_size_def top_height_def state_height_def pool example_data_def branch_top_def branch_empty_def)
  ultimately have "populate_branch constant_crypto example_settings 0 example_chain pool ?b = Found s"
    by (simp add: populate_branch_def)
  from branch_block_size_state [OF this] this here show ?thesis by auto
qed

end
