(* ===== verification/Coin_Selection.thy ===== *)
theory Coin_Selection
  imports Transaction "HOL-Library.Multiset"
begin

text \<open>
  The template of a payment (domain/src/chain/transaction.cpp, from \<open>utxo_selection\<close> on): the coins it spends, its
  change and the tokens it returns. The numbers of type \<open>double\<close> are modelled exactly, on their finite values; an
  infinite ratio or one that is not a number fails the check of their sum in the code. The ratios are an argument:
  the overload that draws them at random is not modelled.
\<close>

section \<open>Binary floating point\<close>

text \<open>The pair \<open>(m, e)\<close> is the number \<open>m\<close> times two to the \<open>e\<close>.\<close>

type_synonym double = "int \<times> int"

fun bit_length :: "nat \<Rightarrow> nat" where
  "bit_length n = (if n = 0 then 0 else bit_length (n div 2) + 1)"

declare bit_length.simps [simp del]

text \<open>To the nearest number of 53 bits, a tie to the even one.\<close>

definition round_magnitude :: "nat \<Rightarrow> nat \<times> nat" where
  "round_magnitude m =
     (let s = bit_length m - 53; q = m div 2 ^ s; r = m mod 2 ^ s; half = 2 ^ (s - 1)
      in (if s > 0 \<and> (r > half \<or> r = half \<and> odd q) then q + 1 else q, s))"

fun round_double :: "double \<Rightarrow> double" where
  "round_double (m, e) =
     (case round_magnitude (nat \<bar>m\<bar>) of (q, s) \<Rightarrow> (sgn m * int q, e + int s))"

fun add_double :: "double \<Rightarrow> double \<Rightarrow> double" where
  "add_double (m, e) (n, f) =
     (let g = min e f in round_double (m * 2 ^ nat (e - g) + n * 2 ^ nat (f - g), g))"

fun mult_double :: "double \<Rightarrow> double \<Rightarrow> double" where
  "mult_double (m, e) (n, f) = round_double (m * n, e + f)"

fun equal_double :: "double \<Rightarrow> double \<Rightarrow> bool" where
  "equal_double (m, e) (n, f) \<longleftrightarrow> (let g = min e f in m * 2 ^ nat (e - g) = n * 2 ^ nat (f - g))"

definition double_of_u64 :: "u64 \<Rightarrow> double" where
  "double_of_u64 v = round_double (uint v, 0)"

text \<open>The conversion drops the fraction; it is undefined outside of the range of the integers.\<close>

fun u64_of_double :: "double \<Rightarrow> u64 option" where
  "u64_of_double (m, e) =
     (let v = (if e \<ge> 0 then m * 2 ^ nat e else sgn m * (\<bar>m\<bar> div 2 ^ nat (- e)))
      in if 0 \<le> v \<and> v < 2 ^ 64 then Some (of_int v) else None)"

section \<open>Selection\<close>

datatype template_error = insufficient_amount | empty_utxo_list | invalid_change | unknown

record utxo =
  utxo_height :: u32
  utxo_point :: output_point
  utxo_amount :: u64
  utxo_token :: "token_data option"

datatype coin_selection_algorithm = smallest_first | largest_first | manual | send_all

definition sats_per_byte :: u64 where "sats_per_byte = 1"
definition approx_input_size :: u64 where "approx_input_size = 148"
definition approx_output_size :: u64 where "approx_output_size = 34"
definition base_tx_size :: u64 where "base_tx_size = 10"

record utxo_selection =
  total_selected_bch :: u64
  utxo_count :: nat
  estimated_size :: u64
  amount_to_send :: u64
  fungible_tokens :: "(bytes \<times> u64) list"
  non_fungible_and_both_tokens :: "token_data list"

definition estimate_size :: "nat \<Rightarrow> nat \<Rightarrow> u64" where
  "estimate_size input_count output_count =
     base_tx_size + of_nat input_count * approx_input_size + of_nat output_count * approx_output_size"

text \<open>The map of the fungible amounts, in the order of insertion: that of its iteration is unspecified.\<close>

fun add_fungible :: "bytes \<Rightarrow> u64 \<Rightarrow> (bytes \<times> u64) list \<Rightarrow> (bytes \<times> u64) list" where
  "add_fungible c a [] = [(c, a)]"
| "add_fungible c a ((k, v) # m) = (if k = c then (k, v + a) # m else (k, v) # add_fungible c a m)"

definition select_utxo :: "utxo \<Rightarrow> utxo_selection \<Rightarrow> utxo_selection" where
  "select_utxo u r =
     (let r = r\<lparr>total_selected_bch := total_selected_bch r + utxo_amount u, utxo_count := utxo_count r + 1\<rparr>
      in case utxo_token u of
           None \<Rightarrow> r
         | Some t \<Rightarrow>
             (case token_kind t of
                fungible a \<Rightarrow> r\<lparr>fungible_tokens := add_fungible (token_id t) a (fungible_tokens r)\<rparr>
              | _ \<Rightarrow> r\<lparr>non_fungible_and_both_tokens := non_fungible_and_both_tokens r @ [t]\<rparr>))"

fun select_loop :: "u64 \<Rightarrow> nat \<Rightarrow> utxo list \<Rightarrow> utxo_selection \<Rightarrow> template_error + utxo_selection" where
  "select_loop amt output_count [] r = Inl insufficient_amount"
| "select_loop amt output_count (u # us) r =
     (let r = select_utxo u r;
          size = estimate_size (utxo_count r) output_count;
          estimated_fee = size * sats_per_byte;
          total_needed = amt + estimated_fee
      in if total_selected_bch r \<ge> total_needed then Inr (r\<lparr>estimated_size := size\<rparr>)
         else select_loop amt output_count us r)"

definition empty_selection :: "u64 \<Rightarrow> utxo_selection" where
  "empty_selection amt = \<lparr>total_selected_bch = 0, utxo_count = 0, estimated_size = 0, amount_to_send = amt,
     fungible_tokens = [], non_fungible_and_both_tokens = []\<rparr>"

text \<open>The coins are sorted in place. The order of coins of the same amount is unspecified in the library;
  here it is that of the list.\<close>

definition sort_utxos :: "coin_selection_algorithm \<Rightarrow> utxo list \<Rightarrow> utxo list" where
  "sort_utxos algo us =
     (if algo = smallest_first then sort_key (\<lambda>u. uint (utxo_amount u)) us
      else sort_key (\<lambda>u. - uint (utxo_amount u)) us)"

definition select_utxos_simple ::
  "utxo list \<Rightarrow> u64 \<Rightarrow> nat \<Rightarrow> coin_selection_algorithm \<Rightarrow> (template_error + utxo_selection) \<times> utxo list" where
  "select_utxos_simple available amt output_count algo =
     (let available = sort_utxos algo available
      in (select_loop amt output_count available (empty_selection amt), available))"

definition select_utxos_all :: "utxo list \<Rightarrow> nat \<Rightarrow> template_error + utxo_selection" where
  "select_utxos_all available output_count =
     (let size = estimate_size (length available) output_count;
          total_input = fold (\<lambda>u sum. sum + utxo_amount u) available 0;
          estimated_fee = size * sats_per_byte
      in if total_input \<le> estimated_fee then Inl insufficient_amount
         else Inr \<lparr>total_selected_bch = total_input, utxo_count = length available, estimated_size = size,
           amount_to_send = total_input - estimated_fee, fungible_tokens = [],
           non_fungible_and_both_tokens = []\<rparr>)"

section \<open>The template\<close>

definition unlocking_placeholder :: "nat \<Rightarrow> nat \<Rightarrow> operation list" where
  "unlocking_placeholder endorsement_size pubkey_size =
     [operation_of_opcode opcode_push_size_0, operation_of_data (replicate endorsement_size 0) True,
      operation_of_data (replicate pubkey_size 0) True]"

text \<open>A payment address is its hash.\<close>

definition pay_to :: "bytes \<Rightarrow> u64 \<Rightarrow> token_data option \<Rightarrow> tx_output" where
  "pay_to address val token =
     \<lparr>out_value = val, out_script = script_from_operations (to_pay_public_key_hash_pattern address),
      out_token = token\<rparr>"

definition utxo_key :: "utxo \<Rightarrow> bytes \<times> u32" where
  "utxo_key u = (point_hash (utxo_point u), point_index (utxo_point u))"

definition utxo_positions :: "utxo list \<Rightarrow> bytes \<times> u32 \<rightharpoonup> nat" where
  "utxo_positions us = map_of (rev (zip (map utxo_key us) [0..<length us]))"

definition template_input :: "utxo \<Rightarrow> tx_input" where
  "template_input u =
     \<lparr>in_prevout = utxo_point u, in_script = script_from_operations (unlocking_placeholder 71 33),
      in_sequence = max_input_sequence\<rparr>"

text \<open>The outputs of the change; \<open>None\<close> where a conversion is undefined.\<close>

fun change_outputs :: "u64 \<Rightarrow> (bytes \<times> double) list \<Rightarrow> (bytes \<times> u64) list option" where
  "change_outputs total_change [] = Some []"
| "change_outputs total_change ((address, ratio) # rest) =
     do {
       v \<leftarrow> u64_of_double (mult_double (double_of_u64 total_change) ratio);
       outs \<leftarrow> change_outputs total_change rest;
       Some ((address, v) # outs) }"

definition token_outputs :: "bytes \<Rightarrow> utxo_selection \<Rightarrow> tx_output list" where
  "token_outputs change_address sel =
     map (\<lambda>(c, a). pay_to change_address 0 (Some \<lparr>token_id = c, token_kind = fungible a\<rparr>)) (fungible_tokens sel) @
     map (\<lambda>t. pay_to change_address 0 (Some t)) (non_fungible_and_both_tokens sel)"

record template_result =
  tr_transaction :: transaction
  tr_selected_utxo_indices :: "nat list"
  tr_addresses :: "bytes list"
  tr_amounts :: "u64 list"

definition make_template ::
  "utxo list \<Rightarrow> (bytes \<times> u32 \<rightharpoonup> nat) \<Rightarrow> utxo_selection \<Rightarrow> (bytes \<times> u64) list \<Rightarrow> bytes \<Rightarrow> template_result" where
  "make_template available positions sel payments change_address =
     (let selected = take (utxo_count sel) available
      in \<lparr>tr_transaction = \<lparr>tx_version = 1, tx_locktime = 0, tx_inputs = map template_input selected,
            tx_outputs = map (\<lambda>(address, v). pay_to address v None) payments @ token_outputs change_address sel\<rparr>,
          tr_selected_utxo_indices = List.map_filter (\<lambda>u. positions (utxo_key u)) selected,
          tr_addresses = map fst payments, tr_amounts = map snd payments\<rparr>)"

definition create_template ::
  "utxo list \<Rightarrow> u64 \<Rightarrow> bytes \<Rightarrow> bytes list \<Rightarrow> double list \<Rightarrow> coin_selection_algorithm \<Rightarrow>
   (template_error + template_result) option" where
  "create_template available amount_hint destination change_addresses change_ratios algo =
     (if available = [] then Some (Inl empty_utxo_list)
      else if change_addresses = [] then Some (Inl invalid_change)
      else if length change_ratios \<noteq> length change_addresses then Some (Inl invalid_change)
      else if \<not> equal_double (foldl add_double (0, 0) change_ratios) (1, 0) then Some (Inl invalid_change)
      else
        let all = (amount_hint = 0 \<or> algo = send_all \<or> algo = manual)
        in if all \<and> length change_addresses > 1 then Some (Inl invalid_change)
        else
          let positions = utxo_positions available;
              output_count = length change_addresses + 1
          in case (if all then (select_utxos_all available output_count, available)
                   else select_utxos_simple available amount_hint output_count algo) of
               (Inl e, _) \<Rightarrow> Some (Inl e)
             | (Inr sel, available) \<Rightarrow>
                 let total_input = total_selected_bch sel;
                     estimated_fee = estimated_size sel * sats_per_byte;
                     payment = (destination, amount_to_send sel)
                 in if all then
                      (if total_input \<noteq> amount_to_send sel + estimated_fee then Some (Inl unknown)
                       else Some (Inr (make_template available positions sel [payment] (hd change_addresses))))
                    else
                      let total_change = total_input - (amount_to_send sel + estimated_fee)
                      in do {
                        change \<leftarrow>
                          (if total_change > 0 then change_outputs total_change (zip change_addresses change_ratios)
                           else Some []);
                        if sum_list (map snd change) \<noteq> total_change then Some (Inl unknown)
                        else if total_input \<noteq> total_change + amount_to_send sel + estimated_fee
                        then Some (Inl unknown)
                        else Some (Inr (make_template available positions sel (payment # change)
                          (hd change_addresses))) })"

section \<open>Lemmas on the selection\<close>

text \<open>The true amounts and the fee, without the wrap-around of 64 bits.\<close>

definition amounts_sum :: "utxo list \<Rightarrow> nat" where
  "amounts_sum us = (\<Sum>u \<leftarrow> us. unat (utxo_amount u))"

definition fee_of :: "nat \<Rightarrow> nat \<Rightarrow> nat" where
  "fee_of inputs outputs = 10 + 148 * inputs + 34 * outputs"

lemma amounts_sum_simps [simp]:
  "amounts_sum [] = 0" "amounts_sum (u # us) = unat (utxo_amount u) + amounts_sum us"
  "amounts_sum (us @ vs) = amounts_sum us + amounts_sum vs"
  by (simp_all add: amounts_sum_def)

lemma unat_estimate_size: "fee_of n k < 2 ^ 64 \<Longrightarrow> unat (estimate_size n k) = fee_of n k"
proof -
  assume "fee_of n k < 2 ^ 64"
  then have "unat (of_nat (fee_of n k) :: u64) = fee_of n k"
    by (simp add: unsigned_of_nat take_bit_nat_eq_self_iff)
  moreover have "estimate_size n k = of_nat (fee_of n k)"
    by (simp add: estimate_size_def base_tx_size_def approx_input_size_def approx_output_size_def fee_of_def
      mult.commute)
  ultimately show ?thesis by simp
qed

lemma unat_needed:
  assumes "unat hint + fee_of n k < 2 ^ 64"
  shows "unat (hint + estimate_size n k) = unat hint + fee_of n k"
proof -
  have fee: "unat (estimate_size n k) = fee_of n k" using assms by (intro unat_estimate_size) simp
  then have "unat hint + unat (estimate_size n k) < 2 ^ LENGTH(64)" using assms by simp
  then show ?thesis by (simp only: unat_add_lem [THEN iffD1] fee)
qed

lemma select_utxo_simps [simp]:
  "total_selected_bch (select_utxo u r) = total_selected_bch r + utxo_amount u"
  "utxo_count (select_utxo u r) = Suc (utxo_count r)"
  "estimated_size (select_utxo u r) = estimated_size r"
  "amount_to_send (select_utxo u r) = amount_to_send r"
  by (simp_all add: select_utxo_def Let_def split: option.split token_kind.split)

lemma fold_select_utxo:
  "total_selected_bch (fold select_utxo us r) = total_selected_bch r + (\<Sum>u \<leftarrow> us. utxo_amount u)"
  "utxo_count (fold select_utxo us r) = utxo_count r + length us"
  "amount_to_send (fold select_utxo us r) = amount_to_send r"
  by (induction us arbitrary: r) (simp_all add: algebra_simps)

text \<open>The loop returns the first prefix that pays for the amount and its fee.\<close>

definition pays :: "u64 \<Rightarrow> nat \<Rightarrow> u64 \<Rightarrow> nat \<Rightarrow> bool" where
  "pays amt output_count funds n \<longleftrightarrow> funds \<ge> amt + estimate_size n output_count"

lemma select_loop_Inr:
  assumes "select_loop amt k us r = Inr sel"
  obtains n where "0 < n" "n \<le> length us"
    "sel = (fold select_utxo (take n us) r)\<lparr>estimated_size := estimate_size (utxo_count r + n) k\<rparr>"
    "pays amt k (total_selected_bch r + (\<Sum>u \<leftarrow> take n us. utxo_amount u)) (utxo_count r + n)"
    "\<And>m. 0 < m \<Longrightarrow> m < n \<Longrightarrow> \<not> pays amt k (total_selected_bch r + (\<Sum>u \<leftarrow> take m us. utxo_amount u)) (utxo_count r + m)"
  using assms
proof (induction us arbitrary: r thesis)
  case Nil
  then show ?case by simp
next
  case (Cons u us)
  let ?r = "select_utxo u r"
  show ?case
  proof (cases "pays amt k (total_selected_bch ?r) (utxo_count ?r)")
    case True
    then have "sel = (fold select_utxo (take 1 (u # us)) r)\<lparr>estimated_size := estimate_size (utxo_count r + 1) k\<rparr>"
      using Cons.prems(2) by (simp add: pays_def Let_def sats_per_byte_def)
    then show ?thesis using True by (intro Cons.prems(1) [of 1]) simp_all
  next
    case False
    then have "select_loop amt k us ?r = Inr sel"
      using Cons.prems(2) by (simp add: pays_def Let_def sats_per_byte_def)
    then obtain n where n: "0 < n" "n \<le> length us"
      "sel = (fold select_utxo (take n us) ?r)\<lparr>estimated_size := estimate_size (utxo_count ?r + n) k\<rparr>"
      "pays amt k (total_selected_bch ?r + (\<Sum>u \<leftarrow> take n us. utxo_amount u)) (utxo_count ?r + n)"
      "\<And>m. 0 < m \<Longrightarrow> m < n \<Longrightarrow> \<not> pays amt k (total_selected_bch ?r + (\<Sum>u \<leftarrow> take m us. utxo_amount u)) (utxo_count ?r + m)"
      using Cons.IH by blast
    show ?thesis
    proof (rule Cons.prems(1) [of "Suc n"])
      fix m assume m: "0 < m" "m < Suc n"
      then obtain l where l: "m = Suc l" by (cases m) simp_all
      show "\<not> pays amt k (total_selected_bch r + (\<Sum>u \<leftarrow> take m (u # us). utxo_amount u)) (utxo_count r + m)"
        using False n(5) [of l] m by (cases "l = 0") (simp_all add: l algebra_simps)
    qed (use n in \<open>simp_all add: algebra_simps\<close>)
  qed
qed

lemma mset_sort_utxos [simp]: "mset (sort_utxos algo us) = mset us"
  by (simp add: sort_utxos_def)

lemma set_sort_utxos [simp]: "set (sort_utxos algo us) = set us"
  by (simp add: sort_utxos_def)

lemma length_sort_utxos [simp]: "length (sort_utxos algo us) = length us"
  by (simp add: sort_utxos_def)

lemma amounts_sum_sort [simp]: "amounts_sum (sort_utxos algo us) = amounts_sum us"
  unfolding amounts_sum_def sum_mset_sum_list [symmetric] mset_map by simp

lemma amounts_sum_take: "amounts_sum (take n us) \<le> amounts_sum us"
  by (metis amounts_sum_simps(3) append_take_drop_id le_add1)

section \<open>Lemmas on the template\<close>

abbreviation spends_all :: "u64 \<Rightarrow> coin_selection_algorithm \<Rightarrow> bool" where
  "spends_all hint algo \<equiv> hint = 0 \<or> algo = send_all \<or> algo = manual"

lemma fold_amounts: "fold (\<lambda>u sum. sum + utxo_amount u) us a = a + (\<Sum>u \<leftarrow> us. utxo_amount u)"
  by (induction us arbitrary: a) simp_all

lemma create_template_all:
  assumes "create_template available hint destination addresses ratios algo = Some (Inr t)" "spends_all hint algo"
  obtains sel where "select_utxos_all available (length addresses + 1) = Inr sel"
    "t = make_template available (utxo_positions available) sel [(destination, amount_to_send sel)] (hd addresses)"
    "addresses \<noteq> []" "available \<noteq> []"
  using assms by (auto simp: create_template_def Let_def split: if_splits sum.splits bind_splits)

lemma create_template_simple:
  assumes "create_template available hint destination addresses ratios algo = Some (Inr t)" "\<not> spends_all hint algo"
  obtains sel change where "select_loop hint (length addresses + 1) (sort_utxos algo available) (empty_selection hint) = Inr sel"
    "t = make_template (sort_utxos algo available) (utxo_positions available) sel
      ((destination, amount_to_send sel) # change) (hd addresses)"
    "sum_list (map snd change) = total_selected_bch sel - (amount_to_send sel + estimated_size sel)"
    "addresses \<noteq> []" "available \<noteq> []"
  using assms
  by (auto simp: create_template_def select_utxos_simple_def sats_per_byte_def Let_def
    split: if_splits sum.splits bind_splits)

text \<open>Both ways, with the true amounts.\<close>

lemma create_template_selected:
  assumes "create_template available hint destination addresses ratios algo = Some (Inr t)"
    "amounts_sum available + unat hint + fee_of (length available) (length addresses + 1) < 2 ^ 64"
    "(\<Sum>v \<leftarrow> tr_amounts t. unat v) < 2 ^ 64"
  obtains sorted sel payments where "mset sorted = mset available" "utxo_count sel \<le> length available"
    "t = make_template sorted (utxo_positions available) sel payments (hd addresses)"
    "amounts_sum (take (utxo_count sel) sorted) =
      (\<Sum>v \<leftarrow> tr_amounts t. unat v) + fee_of (utxo_count sel) (length addresses + 1)"
    "\<not> spends_all hint algo \<Longrightarrow> tr_amounts t \<noteq> [] \<and> hd (tr_amounts t) = hint"
proof (cases "spends_all hint algo")
  case True
  let ?n = "length available" and ?k = "length addresses + 1"
  from create_template_all [OF assms(1) True] obtain sel where
    sel: "select_utxos_all available ?k = Inr sel"
    and t: "t = make_template available (utxo_positions available) sel [(destination, amount_to_send sel)] (hd addresses)"
    by blast
  let ?total = "\<Sum>u \<leftarrow> available. utxo_amount u"
  have total: "unat ?total = amounts_sum available"
    unfolding amounts_sum_def using assms(2) by (intro unat_sum_list) (simp add: amounts_sum_def)
  have fee: "unat (estimate_size ?n ?k) = fee_of ?n ?k" using assms(2) by (intro unat_estimate_size) simp
  have count: "utxo_count sel = ?n" and more: "estimate_size ?n ?k < ?total"
    and amt: "amount_to_send sel = ?total - estimate_size ?n ?k"
    using sel by (auto simp: select_utxos_all_def fold_amounts sats_per_byte_def Let_def split: if_splits)
  have "unat (amount_to_send sel) = amounts_sum available - fee_of ?n ?k"
    using more unfolding amt total [symmetric] fee [symmetric] by (intro unat_sub) simp
  moreover have "fee_of ?n ?k < amounts_sum available" using more unfolding word_less_nat_alt total fee .
  ultimately show thesis
    using True by (intro that [of available sel "[(destination, amount_to_send sel)]"])
      (simp_all add: count t make_template_def Let_def)
next
  case False
  let ?k = "length addresses + 1" and ?s = "sort_utxos algo available"
  from create_template_simple [OF assms(1) False] obtain sel change where
    sel: "select_loop hint ?k ?s (empty_selection hint) = Inr sel"
    and t: "t = make_template ?s (utxo_positions available) sel ((destination, amount_to_send sel) # change) (hd addresses)"
    and change: "sum_list (map snd change) = total_selected_bch sel - (amount_to_send sel + estimated_size sel)"
    by blast
  from sel obtain n where n: "0 < n" "n \<le> length ?s"
    and sel_eq: "sel = (fold select_utxo (take n ?s) (empty_selection hint))\<lparr>estimated_size := estimate_size n ?k\<rparr>"
    and pays: "pays hint ?k (\<Sum>u \<leftarrow> take n ?s. utxo_amount u) n"
    by (elim select_loop_Inr) (simp add: empty_selection_def)
  have sums: "amounts_sum (take n ?s) \<le> amounts_sum available"
    using amounts_sum_take [of n ?s] by simp
  have fee_le: "fee_of n ?k \<le> fee_of (length available) ?k" using n(2) by (simp add: fee_of_def)
  let ?total = "\<Sum>u \<leftarrow> take n ?s. utxo_amount u"
  have total: "unat ?total = amounts_sum (take n ?s)"
    unfolding amounts_sum_def using assms(2) sums by (intro unat_sum_list) (simp add: amounts_sum_def)
  have needed: "unat (hint + estimate_size n ?k) = unat hint + fee_of n ?k"
    using assms(2) fee_le by (intro unat_needed) simp
  have count: "utxo_count sel = n" and sel_total: "total_selected_bch sel = ?total"
    and amt: "amount_to_send sel = hint" and est: "estimated_size sel = estimate_size n ?k"
    using n(2) by (simp_all add: sel_eq fold_select_utxo empty_selection_def)
  have amounts: "tr_amounts t = hint # map snd change"
    by (simp add: t make_template_def amt Let_def)
  have "unat (sum_list (map snd change)) = (\<Sum>v \<leftarrow> map snd change. unat v)"
    using unat_sum_list [of "\<lambda>v. v" "map snd change"] assms(3) unfolding amounts by simp
  moreover have "unat (sum_list (map snd change)) = amounts_sum (take n ?s) - (unat hint + fee_of n ?k)"
    unfolding change sel_total amt est total [symmetric] needed [symmetric] using pays unfolding pays_def by (rule unat_sub)
  moreover have "unat hint + fee_of n ?k \<le> amounts_sum (take n ?s)"
    using pays unfolding pays_def word_le_nat_alt total needed .
  ultimately show thesis
    using n(2) by (intro that [of ?s sel "(destination, hint) # change"])
      (simp_all add: count amounts t amt make_template_def Let_def)
qed

lemma utxo_positions_nth:
  assumes "distinct (map utxo_key us)" "i < length us"
  shows "utxo_positions us (utxo_key (us ! i)) = Some i"
proof -
  have "distinct (map fst (rev (zip (map utxo_key us) [0..<length us])))"
    using assms(1) by (simp add: rev_map [symmetric])
  then show ?thesis
    using assms(2) unfolding utxo_positions_def by (subst map_of_eq_Some_iff) (auto simp: in_set_zip intro!: exI [of _ i])
qed

lemma selected_indices:
  assumes "distinct (map utxo_key us)" "set vs \<subseteq> set us" "distinct vs"
  defines "is \<equiv> List.map_filter (\<lambda>u. utxo_positions us (utxo_key u)) vs"
  shows "map ((!) us) is = vs" "distinct is" "set is \<subseteq> {..<length us}"
proof -
  have found: "\<exists>i. utxo_positions us (utxo_key v) = Some i \<and> i < length us \<and> us ! i = v" if "v \<in> set us" for v
    using that utxo_positions_nth [OF assms(1)] by (metis in_set_conv_nth)
  show eq: "map ((!) us) is = vs" and "set is \<subseteq> {..<length us}"
    unfolding is_def using assms(2) found by (induction vs) (fastforce simp: map_filter_simps)+
  show "distinct is" using eq assms(3) by (metis distinct_map)
qed

section \<open>Lemmas on floating point\<close>

lemma bit_length_le: "n < 2 ^ k \<Longrightarrow> bit_length n \<le> k"
proof (induction n arbitrary: k rule: bit_length.induct)
  case (1 n)
  show ?case
  proof (cases "n = 0")
    case False
    then obtain j where j: "k = Suc j" using "1.prems" by (cases k) simp_all
    then have "bit_length (n div 2) \<le> j" using "1.IH" [of j] "1.prems" False by simp
    then show ?thesis using False j bit_length.simps [of n] by simp
  qed (simp add: bit_length.simps)
qed

lemma round_exact:
  assumes "0 \<le> m" "m < 2 ^ 53"
  shows "round_double (m, e) = (m, e)"
proof -
  have "nat m < 2 ^ 53" using assms by (simp add: nat_less_iff)
  then have "bit_length (nat m) - 53 = 0" using bit_length_le [of "nat m" 53] by simp
  then have "round_magnitude (nat \<bar>m\<bar>) = (nat m, 0)" using assms(1) by (simp only: round_magnitude_def abs_of_nonneg Let_def) simp
  then show ?thesis using assms(1) by (simp add: sgn_if)
qed

lemma exact_one: "equal_double (add_double (0, 0) (1, 0)) (1, 0)"
  by (simp add: round_exact del: round_double.simps)

lemma exact_product:
  assumes "unat v < 2 ^ 53"
  shows "u64_of_double (mult_double (double_of_u64 v) (1, 0)) = Some v"
proof -
  have "int (unat v) < int (2 ^ 53)" using assms by (simp only: of_nat_less_iff)
  then have v: "uint v < 2 ^ 53" by (simp only: uint_nat of_nat_power of_nat_numeral)
  have "double_of_u64 v = (uint v, 0)"
    unfolding double_of_u64_def by (rule round_exact [OF uint_ge_0 v])
  then have "mult_double (double_of_u64 v) (1, 0) = (uint v, 0)"
    using round_exact [OF uint_ge_0 v, of 0] by (simp only: mult_double.simps mult_1_right add_0_right)
  moreover have "uint v < 2 ^ 64" using unsigned_less [of v, where ?'a = int] by simp
  ultimately show ?thesis by simp
qed

section \<open>Lemmas on tokens\<close>

definition tokens_of_outputs :: "transaction \<Rightarrow> token_data list" where
  "tokens_of_outputs tx = List.map_filter out_token (tx_outputs tx)"

definition tokens_of_utxos :: "utxo list \<Rightarrow> token_data list" where
  "tokens_of_utxos us = List.map_filter utxo_token us"

definition is_fungible :: "token_data \<Rightarrow> bool" where
  "is_fungible t \<longleftrightarrow> (case token_kind t of fungible a \<Rightarrow> True | _ \<Rightarrow> False)"

text \<open>The amount of a category, with the wrap-around of 64 bits.\<close>

definition fungible_total :: "bytes \<Rightarrow> token_data list \<Rightarrow> u64" where
  "fungible_total c ts =
     (\<Sum>t \<leftarrow> ts. case token_kind t of fungible a \<Rightarrow> if token_id t = c then a else 0 | _ \<Rightarrow> 0)"

definition entry_total :: "bytes \<Rightarrow> (bytes \<times> u64) list \<Rightarrow> u64" where
  "entry_total c m = (\<Sum>(k, a) \<leftarrow> m. if k = c then a else 0)"

lemma entry_total_add: "entry_total c (add_fungible d a m) = entry_total c m + (if d = c then a else 0)"
  by (induction m) (auto simp: entry_total_def)

lemma select_utxo_tokens:
  "entry_total c (fungible_tokens (fold select_utxo us r)) =
     entry_total c (fungible_tokens r) + fungible_total c (tokens_of_utxos us)"
  "non_fungible_and_both_tokens (fold select_utxo us r) =
     non_fungible_and_both_tokens r @ filter (\<lambda>t. \<not> is_fungible t) (tokens_of_utxos us)"
proof (induction us arbitrary: r)
  case Nil
  { case 1 show ?case by (simp add: tokens_of_utxos_def fungible_total_def map_filter_simps) }
  { case 2 show ?case by (simp add: tokens_of_utxos_def map_filter_simps) }
next
  case (Cons u us)
  { case 1 show ?case using Cons.IH(1) [of "select_utxo u r"]
      by (auto simp: tokens_of_utxos_def fungible_total_def map_filter_simps select_utxo_def entry_total_add Let_def
          split: option.splits token_kind.splits) }
  { case 2 show ?case using Cons.IH(2) [of "select_utxo u r"]
      by (auto simp: tokens_of_utxos_def map_filter_simps select_utxo_def is_fungible_def Let_def
          split: option.splits token_kind.splits) }
qed

lemma template_tokens:
  "tokens_of_outputs (tr_transaction (make_template us f sel payments a)) =
     map (\<lambda>(c, v). \<lparr>token_id = c, token_kind = fungible v\<rparr>) (fungible_tokens sel) @ non_fungible_and_both_tokens sel"
proof -
  have "List.map_filter out_token (map (\<lambda>(address, v). pay_to address v None) xs @ ys) = List.map_filter out_token ys" for xs ys
    by (induction xs) (auto simp: map_filter_simps pay_to_def)
  moreover have "List.map_filter out_token (map (\<lambda>(c, v). pay_to a 0 (Some \<lparr>token_id = c, token_kind = fungible v\<rparr>)) xs @ ys) =
      map (\<lambda>(c, v). \<lparr>token_id = c, token_kind = fungible v\<rparr>) xs @ List.map_filter out_token ys" for xs ys
    by (induction xs) (auto simp: map_filter_simps pay_to_def)
  moreover have "List.map_filter out_token (map (\<lambda>t. pay_to a 0 (Some t)) xs) = xs" for xs
    by (induction xs) (auto simp: map_filter_simps pay_to_def)
  ultimately show ?thesis by (simp add: tokens_of_outputs_def make_template_def token_outputs_def Let_def)
qed

lemma fungible_total_entries:
  "fungible_total c (map (\<lambda>(c, v). \<lparr>token_id = c, token_kind = fungible v\<rparr>) m @ ts) = entry_total c m + fungible_total c ts"
  by (induction m) (auto simp: fungible_total_def entry_total_def)

lemma fungible_total_filter: "fungible_total c (filter (\<lambda>t. \<not> is_fungible t) ts) = 0"
  by (induction ts) (auto simp: fungible_total_def is_fungible_def split: token_kind.splits)

section \<open>Lemmas on the largest coins\<close>

lemma largest_coins:
  assumes "sorted (map (\<lambda>x. - int (f x)) xs)" "M \<subseteq># mset xs"
  shows "(\<Sum>x \<in># M. f x) \<le> (\<Sum>x \<leftarrow> take (size M) xs. f x)"
  using assms
proof (induction xs arbitrary: M)
  case (Cons x xs)
  show ?case
  proof (cases "M = {#}")
    case False
    then obtain y where y: "y \<in># M" "x \<in># M \<longrightarrow> y = x" by (cases "x \<in># M") auto
    have sub: "M - {#y#} \<subseteq># mset xs"
    proof (cases "x \<in># M")
      case True
      then show ?thesis using Cons.prems(2) y(2) by (simp add: subset_eq_diff_conv)
    next
      case False
      have "count M z \<le> count (mset xs) z" for z
        using Cons.prems(2) False by (cases "z = x") (auto simp: subseteq_mset_def not_in_iff dest: spec [of _ z])
      then have "M \<subseteq># mset xs" by (simp add: subseteq_mset_def)
      then show ?thesis by (meson diff_subset_eq_self subset_mset.order_trans)
    qed
    have "y \<in> set (x # xs)" using Cons.prems(2) y(1) by (metis mset_subset_eqD set_mset_mset)
    then have "f y \<le> f x" using Cons.prems(1) by auto
    moreover have "(\<Sum>x \<in># M - {#y#}. f x) \<le> (\<Sum>x \<leftarrow> take (size (M - {#y#})) xs. f x)"
      using Cons.prems(1) sub by (intro Cons.IH) simp_all
    moreover have "M = add_mset y (M - {#y#})" using y(1) by simp
    then have "(\<Sum>x \<in># M. f x) = f y + (\<Sum>x \<in># M - {#y#}. f x)" "size M = Suc (size (M - {#y#}))"
      by (metis image_mset_add_mset sum_mset.add_mset, metis size_add_mset)
    ultimately show ?thesis by simp
  qed simp
qed simp

lemma select_loop_Inl:
  assumes "select_loop amt k us r = Inl e" "0 < m" "m \<le> length us"
  shows "\<not> pays amt k (total_selected_bch r + (\<Sum>u \<leftarrow> take m us. utxo_amount u)) (utxo_count r + m)"
  using assms
proof (induction us arbitrary: r m)
  case (Cons u us)
  let ?r = "select_utxo u r"
  have np: "\<not> pays amt k (total_selected_bch ?r) (utxo_count ?r)" and rest: "select_loop amt k us ?r = Inl e"
    using Cons.prems(1) by (auto simp: pays_def sats_per_byte_def Let_def split: if_splits)
  obtain l where l: "m = Suc l" using Cons.prems(2) by (cases m) simp_all
  show ?case
    using np Cons.IH [OF rest, of l] Cons.prems(3) by (cases "l = 0") (simp_all add: l algebra_simps)
qed simp

section \<open>An example\<close>

definition example_coin :: "nat \<Rightarrow> utxo" where
  "example_coin n = \<lparr>utxo_height = 0, utxo_point = output_point_of (make_point (replicate 32 1) (of_nat n)),
     utxo_amount = of_nat n, utxo_token = Some \<lparr>token_id = replicate 32 2, token_kind = fungible (of_nat n)\<rparr>\<rparr>"

abbreviation example_coins :: "utxo list" where "example_coins \<equiv> [example_coin 1000, example_coin 2000]"

abbreviation example_template :: "u64 \<Rightarrow> (template_error + template_result) option" where
  "example_template hint \<equiv>
     create_template example_coins hint (replicate 20 1) [replicate 20 2] [(1, 0)] largest_first"

lemma example_templates:
  "\<exists>t. example_template 1500 = Some (Inr t) \<and> tr_amounts t = [1500, 274] \<and> tr_selected_utxo_indices t = [1]"
  "\<exists>t. example_template 2200 = Some (Inr t) \<and> length (tx_inputs (tr_transaction t)) = 2"
  by (simp_all add: create_template_def select_utxos_simple_def sort_utxos_def example_coin_def Let_def
      empty_selection_def select_utxo_def estimate_size_def base_tx_size_def approx_input_size_def
      approx_output_size_def sats_per_byte_def exact_one exact_product make_template_def utxo_positions_def
      utxo_key_def output_point_of_def make_point_def point.defs map_filter_simps upt_rec
      del: add_double.simps equal_double.simps mult_double.simps u64_of_double.simps)

lemma example_coins_distinct: "distinct (map utxo_key example_coins)"
  by (simp add: example_coin_def utxo_key_def output_point_of_def make_point_def point.defs)

lemma example_amounts: "amounts_sum example_coins = 3000"
  by (simp add: example_coin_def)

section \<open>Properties\<close>

text \<open>C32: A template is balanced: with coins at different points and no sum over 64 bits, it spends the coins that the
  indices select, each of them once, and the values of its outputs are the amounts of those coins less a
  fee of one satoshi for each byte of the estimate, which has one output for the payment and one for each address of
  the change. Unless it sends everything, the payment is the amount that was asked for.\<close>

theorem template_balanced:
  assumes "create_template available hint destination addresses ratios algo = Some (Inr t)"
    "distinct (map utxo_key available)"
    "amounts_sum available + unat hint + fee_of (length available) (length addresses + 1) < 2 ^ 64"
    "(\<Sum>v \<leftarrow> tr_amounts t. unat v) < 2 ^ 64"
  defines "selected \<equiv> map ((!) available) (tr_selected_utxo_indices t)"
  shows "distinct (tr_selected_utxo_indices t) \<and> set (tr_selected_utxo_indices t) \<subseteq> {..<length available} \<and>
    tx_inputs (tr_transaction t) = map template_input selected \<and>
    amounts_sum selected =
      (\<Sum>out \<leftarrow> tx_outputs (tr_transaction t). unat (out_value out)) + fee_of (length selected) (length addresses + 1) \<and>
    (spends_all hint algo \<or> out_value (hd (tx_outputs (tr_transaction t))) = hint)"
proof -
  obtain sorted sel payments where perm: "mset sorted = mset available" and count: "utxo_count sel \<le> length available"
    and t: "t = make_template sorted (utxo_positions available) sel payments (hd addresses)"
    and balance: "amounts_sum (take (utxo_count sel) sorted) =
      (\<Sum>v \<leftarrow> tr_amounts t. unat v) + fee_of (utxo_count sel) (length addresses + 1)"
    and payment: "\<not> spends_all hint algo \<Longrightarrow> tr_amounts t \<noteq> [] \<and> hd (tr_amounts t) = hint"
    using create_template_selected [OF assms(1,3,4)] by metis
  let ?s = "take (utxo_count sel) sorted"
  have "distinct available" using assms(2) by (simp add: distinct_map)
  then have "distinct ?s" "set ?s \<subseteq> set available" "length ?s = utxo_count sel"
    using perm count by (metis distinct_take mset_eq_imp_distinct_iff, metis set_take_subset set_mset_mset, metis length_take min.absorb2 size_mset)
  note indices = selected_indices [OF assms(2) this(2,1)] and this
  moreover have "tr_selected_utxo_indices t = List.map_filter (\<lambda>u. utxo_positions available (utxo_key u)) ?s"
    "tx_inputs (tr_transaction t) = map template_input ?s" "tr_amounts t = map snd payments"
    by (simp_all add: t make_template_def Let_def)
  moreover have "(\<Sum>out \<leftarrow> tx_outputs (tr_transaction t). unat (out_value out)) = (\<Sum>v \<leftarrow> tr_amounts t. unat v)"
    by (simp add: t make_template_def token_outputs_def pay_to_def Let_def o_def case_prod_beta')
  moreover have "tr_amounts t \<noteq> [] \<Longrightarrow> out_value (hd (tx_outputs (tr_transaction t))) = hd (tr_amounts t)"
    by (cases payments) (simp_all add: t make_template_def pay_to_def Let_def case_prod_beta')
  ultimately show ?thesis using balance payment by (auto simp: selected_def)
qed

theorem template_balanced_witness:
  "\<exists>t. example_template 1500 = Some (Inr t) \<and> tx_inputs (tr_transaction t) = [template_input (example_coin 2000)] \<and>
     (\<Sum>out \<leftarrow> tx_outputs (tr_transaction t). unat (out_value out)) + fee_of 1 2 = 2000"
proof -
  obtain t where t: "example_template 1500 = Some (Inr t)" "tr_amounts t = [1500, 274]" "tr_selected_utxo_indices t = [1]"
    using example_templates(1) by blast
  have "amounts_sum example_coins + unat (1500 :: u64) + fee_of (length example_coins) (length [replicate 20 (2 :: u8)] + 1) < 2 ^ 64"
    unfolding example_amounts by (simp add: fee_of_def)
  moreover have "(\<Sum>v \<leftarrow> tr_amounts t. unat v) < 2 ^ 64" by (simp add: t(2))
  ultimately show ?thesis
    using template_balanced [OF t(1) example_coins_distinct] t by (simp add: example_coin_def fee_of_def)
qed

text \<open>C33: Tokens: a template that pays an amount returns the tokens of the coins that it spends, those that are not
  fungible one by one and the fungible ones with the total of their category. A template that sends everything has no
  output with a token: the tokens of its coins are lost.\<close>

theorem template_tokens_returned:
  assumes "create_template available hint destination addresses ratios algo = Some (Inr t)"
    "distinct (map utxo_key available)"
  defines "spent \<equiv> tokens_of_utxos (map ((!) available) (tr_selected_utxo_indices t))"
    and "returned \<equiv> tokens_of_outputs (tr_transaction t)"
  shows "if spends_all hint algo
    then length (tx_inputs (tr_transaction t)) = length available \<and> returned = []
    else filter (\<lambda>t. \<not> is_fungible t) returned = filter (\<lambda>t. \<not> is_fungible t) spent \<and>
      fungible_total c returned = fungible_total c spent"
proof (cases "spends_all hint algo")
  case True
  from create_template_all [OF assms(1) this] obtain sel where
    sel: "select_utxos_all available (length addresses + 1) = Inr sel"
    and t: "t = make_template available (utxo_positions available) sel [(destination, amount_to_send sel)] (hd addresses)"
    by blast
  have "fungible_tokens sel = []" "non_fungible_and_both_tokens sel = []" "utxo_count sel = length available"
    using sel by (auto simp: select_utxos_all_def Let_def split: if_splits)
  then show ?thesis
    using True by (simp add: returned_def t template_tokens) (simp add: make_template_def Let_def)
next
  case False
  let ?s = "sort_utxos algo available"
  from create_template_simple [OF assms(1) False] obtain sel change where
    sel: "select_loop hint (length addresses + 1) ?s (empty_selection hint) = Inr sel"
    and t: "t = make_template ?s (utxo_positions available) sel ((destination, amount_to_send sel) # change) (hd addresses)"
    by blast
  from sel obtain n where n: "n \<le> length ?s"
    and sel_eq: "sel = (fold select_utxo (take n ?s) (empty_selection hint))\<lparr>estimated_size := estimate_size n (length addresses + 1)\<rparr>"
    by (elim select_loop_Inr) (simp add: empty_selection_def)
  have "distinct available" using assms(2) by (simp add: distinct_map)
  then have "distinct (take n ?s)" "set (take n ?s) \<subseteq> set available"
    by (metis distinct_take mset_eq_imp_distinct_iff mset_sort_utxos, metis set_take_subset set_sort_utxos)
  note indices = selected_indices [OF assms(2) this(2,1)]
  have "utxo_count sel = n" using n by (simp add: sel_eq fold_select_utxo empty_selection_def)
  then have spent: "spent = tokens_of_utxos (take n ?s)"
    by (simp add: spent_def t make_template_def Let_def indices(1))
  have tokens: "entry_total c (fungible_tokens sel) = fungible_total c spent"
    "non_fungible_and_both_tokens sel = filter (\<lambda>t. \<not> is_fungible t) spent"
    by (simp_all add: sel_eq spent select_utxo_tokens) (simp_all add: empty_selection_def entry_total_def)
  have "filter (\<lambda>t. \<not> is_fungible t) (map (\<lambda>(c, v). \<lparr>token_id = c, token_kind = fungible v\<rparr>) m) = []" for m
    by (induction m) (auto simp: is_fungible_def)
  then show ?thesis
    using False by (simp add: returned_def t template_tokens tokens fungible_total_entries fungible_total_filter)
qed

theorem template_tokens_returned_witness:
  "\<exists>t. example_template 1500 = Some (Inr t) \<and> fungible_total (replicate 32 2) (tokens_of_outputs (tr_transaction t)) = 2000"
proof -
  obtain t where t: "example_template 1500 = Some (Inr t)" "tr_selected_utxo_indices t = [1]"
    using example_templates(1) by blast
  then show ?thesis
    using template_tokens_returned [OF t(1) example_coins_distinct, of "replicate 32 2"]
    by (simp add: example_coin_def tokens_of_utxos_def fungible_total_def map_filter_simps)
qed

text \<open>Spending the largest coins first is optimal: with no sum over 64 bits, no selection of fewer coins pays the
  amount and its fee, and where the template fails for want of money no selection of any of the coins does.\<close>

theorem largest_first_optimal:
  assumes "amounts_sum available + unat hint + fee_of (length available) (length addresses + 1) < 2 ^ 64" "hint \<noteq> 0"
    "create_template available hint destination addresses ratios largest_first = Some r"
    "r = Inr t \<and> length coins < length (tx_inputs (tr_transaction t)) \<or> r = Inl insufficient_amount"
    "mset coins \<subseteq># mset available"
  shows "amounts_sum coins < unat hint + fee_of (length coins) (length addresses + 1)"
proof (cases "coins = []")
  case True
  then show ?thesis by (simp add: fee_of_def)
next
  case False
  let ?s = "sort_utxos largest_first available" and ?k = "length addresses + 1" and ?m = "length coins"
  have m: "0 < ?m" "?m \<le> length ?s" using False size_mset_mono [OF assms(5)] by simp_all
  have "\<not> pays hint ?k (\<Sum>u \<leftarrow> take ?m ?s. utxo_amount u) ?m"
    using assms(4)
  proof (elim disjE conjE)
    assume r: "r = Inr t" and less: "?m < length (tx_inputs (tr_transaction t))"
    have "create_template available hint destination addresses ratios largest_first = Some (Inr t)"
      "\<not> spends_all hint largest_first" using assms(2,3) r by simp_all
    from create_template_simple [OF this]
    obtain sel change where sel: "select_loop hint ?k ?s (empty_selection hint) = Inr sel"
      and t: "t = make_template ?s (utxo_positions available) sel ((destination, amount_to_send sel) # change) (hd addresses)"
      by blast
    from sel obtain n where n: "n \<le> length ?s"
      "sel = (fold select_utxo (take n ?s) (empty_selection hint))\<lparr>estimated_size := estimate_size n ?k\<rparr>"
      "\<And>m. 0 < m \<Longrightarrow> m < n \<Longrightarrow> \<not> pays hint ?k (\<Sum>u \<leftarrow> take m ?s. utxo_amount u) m"
      by (elim select_loop_Inr) (simp add: empty_selection_def)
    have "length (tx_inputs (tr_transaction t)) = n"
      using n(1) by (simp add: t make_template_def Let_def n(2) fold_select_utxo empty_selection_def)
    then show ?thesis using n(3) [of ?m] m less by simp
  next
    assume "r = Inl insufficient_amount"
    then have "select_loop hint ?k ?s (empty_selection hint) = Inl insufficient_amount"
      using assms(2,3) by (auto simp: create_template_def select_utxos_simple_def Let_def
          split: if_splits sum.splits bind_splits)
    from select_loop_Inl [OF this m] show ?thesis by (simp add: empty_selection_def)
  qed
  moreover have sums: "amounts_sum (take ?m ?s) \<le> amounts_sum available" using amounts_sum_take [of ?m ?s] by simp
  then have "unat (\<Sum>u \<leftarrow> take ?m ?s. utxo_amount u) = amounts_sum (take ?m ?s)"
    unfolding amounts_sum_def using assms(1) by (intro unat_sum_list) (simp add: amounts_sum_def)
  moreover have "fee_of ?m ?k \<le> fee_of (length available) ?k" using m by (simp add: fee_of_def)
  then have "unat (hint + estimate_size ?m ?k) = unat hint + fee_of ?m ?k"
    using assms(1) by (intro unat_needed) simp
  ultimately have "amounts_sum (take ?m ?s) < unat hint + fee_of ?m ?k"
    unfolding pays_def word_le_nat_alt by simp
  moreover have "amounts_sum coins \<le> amounts_sum (take ?m ?s)"
    using largest_coins [of "\<lambda>u. unat (utxo_amount u)" ?s "mset coins"] assms(5)
    by (simp add: amounts_sum_def sum_mset_sum_list sort_utxos_def flip: mset_map)
  ultimately show ?thesis by simp
qed

theorem largest_first_optimal_witness:
  "\<exists>t. example_template 2200 = Some (Inr t) \<and> length (tx_inputs (tr_transaction t)) = 2 \<and>
     amounts_sum [example_coin 2000] < 2200 + fee_of 1 2"
proof -
  obtain t where t: "example_template 2200 = Some (Inr t)" "length (tx_inputs (tr_transaction t)) = 2"
    using example_templates(2) by blast
  have "amounts_sum example_coins + unat (2200 :: u64) + fee_of (length example_coins) (length [replicate 20 (2 :: u8)] + 1) < 2 ^ 64"
    unfolding example_amounts by (simp add: fee_of_def)
  moreover have "mset [example_coin 2000] \<subseteq># mset example_coins" by simp
  ultimately show ?thesis
    using largest_first_optimal [OF _ _ t(1), of t "[example_coin 2000]"] t by (simp add: fee_of_def)
qed

text \<open>Overdraft: the amount and its fee are added in 64 bits without a check, and the checks of the totals that
  follow hold whatever the sum is. For each of the 226 largest amounts a single coin of 226 satoshi or more gives a template
  that pays that amount, more than the coin has.\<close>

theorem template_overdraft:
  assumes "2 ^ 64 - 226 \<le> unat hint" "226 \<le> unat (utxo_amount coin)" "unat (utxo_amount coin) < 2 ^ 53"
  shows "\<exists>t. create_template [coin] hint destination [change_address] [(1, 0)] largest_first = Some (Inr t) \<and>
    tx_inputs (tr_transaction t) = [template_input coin] \<and>
    out_value (hd (tx_outputs (tr_transaction t))) = hint \<and> unat (utxo_amount coin) < unat hint"
proof -
  let ?a = "utxo_amount coin" and ?needed = "hint + estimate_size 1 2"
  have "unat hint < 2 ^ 64" using unsigned_less [of hint, where ?'a = nat] by simp
  moreover have "(n + 226) mod 2 ^ 64 < 226" if "n < 2 ^ 64" "2 ^ 64 - 226 \<le> n" for n :: nat
    using that by (simp add: le_mod_geq)
  moreover have "?needed = hint + 226"
    by (simp add: estimate_size_def base_tx_size_def approx_input_size_def approx_output_size_def)
  ultimately have "unat ?needed < 226" using assms(1) by (simp add: unat_word_ariths)
  then have le: "?needed \<le> ?a" using assms(2) by (simp add: word_le_nat_alt)
  then have change: "unat (?a - ?needed) < 2 ^ 53" using assms(3) by (simp add: unat_sub)
  then have "u64_of_double (mult_double (double_of_u64 (?a - ?needed)) (1, 0)) = Some (?a - ?needed)"
    by (rule exact_product)
  then have outs: "change_outputs (?a - ?needed) (zip [change_address] [(1, 0)]) = Some [(change_address, ?a - ?needed)]"
    by simp
  define sel where "sel = (select_utxo coin (empty_selection hint))\<lparr>estimated_size := estimate_size 1 2\<rparr>"
  have sort: "sort_utxos largest_first [coin] = [coin]" by (simp add: sort_utxos_def)
  have sel: "select_loop hint 2 [coin] (empty_selection hint) = Inr sel"
    using le by (simp add: sel_def empty_selection_def sats_per_byte_def Let_def)
  have fields: "total_selected_bch sel = ?a" "amount_to_send sel = hint" "estimated_size sel = estimate_size 1 2"
    "utxo_count sel = 1"
    by (simp_all add: sel_def empty_selection_def)
  have "0 < unat hint" using assms(1) by simp
  then have "hint \<noteq> 0" by auto
  have "0 < ?a - ?needed \<or> ?a - ?needed = 0" by (simp add: word_gt_0)
  then have "\<exists>change. create_template [coin] hint destination [change_address] [(1, 0)] largest_first =
      Some (Inr (make_template [coin] (utxo_positions [coin]) sel ((destination, hint) # change) change_address))"
  proof (elim disjE)
    assume "0 < ?a - ?needed"
    then show ?thesis
      using outs \<open>hint \<noteq> 0\<close>
      by (simp add: create_template_def select_utxos_simple_def sort Let_def sel sel [unfolded numeral_2_eq_2] fields
        sats_per_byte_def exact_one del: select_loop.simps zip_Cons_Cons change_outputs.simps add_double.simps equal_double.simps) (rule exI, rule refl)
  next
    assume "?a - ?needed = 0"
    then show ?thesis
      using \<open>hint \<noteq> 0\<close>
      by (simp add: create_template_def select_utxos_simple_def sort Let_def sel sel [unfolded numeral_2_eq_2] fields
        sats_per_byte_def exact_one del: select_loop.simps zip_Cons_Cons change_outputs.simps add_double.simps equal_double.simps) (rule exI, rule refl)
  qed
  then show ?thesis using assms by (auto simp: make_template_def fields pay_to_def Let_def)
qed

theorem template_overdraft_witness:
  "\<exists>t. create_template [example_coin 1000] 0xffffffffffffffff (replicate 20 1) [replicate 20 2] [(1, 0)] largest_first =
     Some (Inr t) \<and> out_value (hd (tx_outputs (tr_transaction t))) = 0xffffffffffffffff"
  using template_overdraft [of "0xffffffffffffffff" "example_coin 1000" "replicate 20 1" "replicate 20 2"]
  by (auto simp: example_coin_def)

end
