(* ===== verification/Block_Pool.thy ===== *)
theory Block_Pool
  imports Branch
begin

text \<open>
  The pool of blocks that have too little work to reorganise the chain (blockchain/src/pools/block_pool.cpp and
  block_entry.cpp): a forest whose roots are connected to the chain.
\<close>

section \<open>Entries\<close>

text \<open>A block with the height of its validation state, which is zero until the block is organised.\<close>

record pool_block =
  pb_block :: block
  pb_height :: nat

record pool_entry =
  pe_hash :: bytes
  pe_block :: pool_block
  pe_children :: "bytes list"
  pe_position :: nat

text \<open>The bidirectional map is the list of its entries in the order of insertion.\<close>

type_synonym pool_entries = "pool_entry list"

record block_pool =
  bp_maximum_depth :: nat
  bp_entries :: pool_entries

definition new_block_pool :: "nat \<Rightarrow> block_pool" where
  "new_block_pool maximum_depth =
     \<lparr>bp_maximum_depth = (if maximum_depth = 0 then max_uint64 else maximum_depth), bp_entries = []\<rparr>"

definition new_entry :: "crypto \<Rightarrow> pool_block \<Rightarrow> nat \<Rightarrow> pool_entry" where
  "new_entry c b pos =
     \<lparr>pe_hash = block_hash c (pb_block b), pe_block = b, pe_children = [], pe_position = pos\<rparr>"

definition pe_parent :: "pool_entry \<Rightarrow> bytes" where
  "pe_parent e = previous_block_hash (blk_header (pb_block (pe_block e)))"

definition find_entry :: "bytes \<Rightarrow> pool_entries \<Rightarrow> pool_entry option" where
  "find_entry h es = List.find (\<lambda>e. pe_hash e = h) es"

definition erase_entry :: "bytes \<Rightarrow> pool_entries \<Rightarrow> pool_entries" where
  "erase_entry h es = filter (\<lambda>e. pe_hash e \<noteq> h) es"

text \<open>An entry of a hash that is already there is rejected.\<close>

definition insert_entry :: "pool_entry \<Rightarrow> pool_entries \<Rightarrow> pool_entries" where
  "insert_entry e es = (if find_entry (pe_hash e) es = None then es @ [e] else es)"

definition add_child :: "bytes \<Rightarrow> bytes \<Rightarrow> pool_entries \<Rightarrow> pool_entries" where
  "add_child parent child es =
     map (\<lambda>e. if pe_hash e = parent then e\<lparr>pe_children := pe_children e @ [child]\<rparr> else e) es"

section \<open>Operations\<close>

definition pool_add :: "crypto \<Rightarrow> pool_block \<Rightarrow> pool_entries \<Rightarrow> pool_entries" where
  "pool_add c b es =
     (let parent = previous_block_hash (blk_header (pb_block b))
      in if find_entry parent es \<noteq> None
         then insert_entry (new_entry c b 0) (add_child parent (block_hash c (pb_block b)) es)
         else insert_entry (new_entry c b (pb_height b)) es)"

definition pool_add_all :: "crypto \<Rightarrow> pool_block list \<Rightarrow> pool_entries \<Rightarrow> pool_entries" where
  "pool_add_all c bs es = fold (pool_add c) bs es"

fun remove_accepted :: "bytes list \<Rightarrow> pool_entries \<Rightarrow> bytes list \<Rightarrow> pool_entries \<times> bytes list" where
  "remove_accepted [] es child_hashes = (es, child_hashes)"
| "remove_accepted (h # hs) es child_hashes =
     (case find_entry h es of
        None \<Rightarrow> remove_accepted hs es child_hashes
      | Some e \<Rightarrow> remove_accepted hs (erase_entry h es) (child_hashes @ pe_children e))"

definition replant :: "bytes \<Rightarrow> pool_entries \<Rightarrow> pool_entries" where
  "replant h es =
     (case find_entry h es of
        None \<Rightarrow> es
      | Some e \<Rightarrow> insert_entry (e\<lparr>pe_position := pb_height (pe_block e)\<rparr>) (erase_entry h es))"

definition pool_remove :: "bytes list \<Rightarrow> pool_entries \<Rightarrow> pool_entries" where
  "pool_remove accepted es =
     (case remove_accepted accepted es [] of (es, child_hashes) \<Rightarrow> fold replant child_hashes es)"

text \<open>One level of the forest; \<open>None\<close> where an entry that is not there is accessed.\<close>

fun prune_level :: "nat \<Rightarrow> bytes list \<Rightarrow> pool_entries \<Rightarrow> bytes list \<Rightarrow> (pool_entries \<times> bytes list) option" where
  "prune_level minimum_height [] es child_hashes = Some (es, child_hashes)"
| "prune_level minimum_height (h # hs) es child_hashes =
     (case find_entry h es of
        None \<Rightarrow> None
      | Some e \<Rightarrow>
          if pe_position e \<noteq> 0 \<or> pb_height (pe_block e) < minimum_height
          then prune_level minimum_height hs (erase_entry h es) (child_hashes @ pe_children e)
          else prune_level minimum_height hs (replant h es) child_hashes)"

lemma length_erase: "length (erase_entry h es) \<le> length es"
  by (simp add: erase_entry_def)

lemma length_erase_found: "find_entry h es = Some e \<Longrightarrow> length (erase_entry h es) < length es"
  unfolding erase_entry_def find_entry_def find_Some_iff by (auto intro!: length_filter_less)

lemma length_replant: "length (replant h es) \<le> length es"
  by (auto simp: replant_def insert_entry_def Suc_le_eq length_erase length_erase_found split: option.split
      intro: order.trans [OF length_erase])

lemma prune_level_length:
  "prune_level m hs es ch = Some (es', ch') \<Longrightarrow> length es' \<le> length es \<and> (length es' < length es \<or> ch' = ch)"
proof (induction m hs es ch rule: prune_level.induct)
  case (2 m h hs es ch)
  then obtain e where e: "find_entry h es = Some e" by (cases "find_entry h es") simp_all
  show ?case
  proof (cases "pe_position e \<noteq> 0 \<or> pb_height (pe_block e) < m")
    case True
    then show ?thesis using "2.IH"(1) [OF e True] "2.prems" length_erase_found [OF e] by (simp add: e)
  next
    case False
    then have "length es' \<le> length (replant h es) \<and> (length es' < length (replant h es) \<or> ch' = ch)"
      using "2.IH"(2) [OF e False] "2.prems" by (simp add: e)
    then show ?thesis using length_replant [of h es] by linarith
  qed
qed simp

function prune_hashes :: "nat \<Rightarrow> bytes list \<Rightarrow> pool_entries \<Rightarrow> pool_entries option" where
  "prune_hashes minimum_height hs es =
     (case prune_level minimum_height hs es [] of
        None \<Rightarrow> None
      | Some (es, child_hashes) \<Rightarrow>
          if child_hashes \<noteq> [] then prune_hashes minimum_height child_hashes es else Some es)"
  by pat_completeness auto
termination
  by (relation "measure (\<lambda>(_, _, es). length es)") (use prune_level_length in fastforce)+

declare prune_hashes.simps [simp del]

definition pool_prune :: "nat \<Rightarrow> block_pool \<Rightarrow> block_pool option" where
  "pool_prune chain_top pool =
     (let minimum_height = floor_subtract chain_top (bp_maximum_depth pool);
          hs = map pe_hash (filter (\<lambda>e. pe_position e \<noteq> 0 \<and> pe_position e < minimum_height)
            (sort_key pe_position (bp_entries pool)))
      in if hs \<noteq> []
         then map_option (\<lambda>es. pool\<lparr>bp_entries := es\<rparr>) (prune_hashes minimum_height hs (bp_entries pool))
         else Some pool)"

datatype inventory_type =
  inv_error | inv_transaction | inv_block | inv_filtered_block | inv_compact_block | inv_double_spend_proof

record inventory_vector =
  inv_type :: inventory_type
  inv_hash :: bytes

definition is_block_type :: "inventory_vector \<Rightarrow> bool" where
  "is_block_type i \<longleftrightarrow> inv_type i = inv_block \<or> inv_type i = inv_compact_block \<or> inv_type i = inv_filtered_block"

fun pool_filter :: "pool_entries \<Rightarrow> inventory_vector list \<Rightarrow> inventory_vector list" where
  "pool_filter es [] = []"
| "pool_filter es (i # is) =
     (if \<not> is_block_type i then i # pool_filter es is
      else if find_entry (inv_hash i) es \<noteq> None then pool_filter es is
      else i # pool_filter es is)"

definition pool_exists :: "crypto \<Rightarrow> pool_entries \<Rightarrow> block \<Rightarrow> bool" where
  "pool_exists c es b \<longleftrightarrow> find_entry (block_hash c b) es \<noteq> None"

definition pool_parent :: "pool_entries \<Rightarrow> block \<Rightarrow> block option" where
  "pool_parent es b = map_option (\<lambda>e. pb_block (pe_block e)) (find_entry (previous_block_hash (blk_header b)) es)"

text \<open>The loop may not end if blocks name each other.\<close>

partial_function (option) path_loop :: "crypto \<Rightarrow> pool_entries \<Rightarrow> block \<Rightarrow> branch \<Rightarrow> branch option" where
  "path_loop c es b trace =
     (let trace = snd (push_front c b trace)
      in case pool_parent es b of None \<Rightarrow> Some trace | Some p \<Rightarrow> path_loop c es p trace)"

definition get_path :: "crypto \<Rightarrow> pool_entries \<Rightarrow> block \<Rightarrow> branch option" where
  "get_path c es b = (if pool_exists c es b then Some (new_branch 0) else path_loop c es b (new_branch 0))"

section \<open>Lemmas on entries\<close>

definition unique :: "pool_entries \<Rightarrow> bool" where
  "unique es \<longleftrightarrow> distinct (map pe_hash es)"

lemma find_entry_Some: "find_entry h es = Some e \<Longrightarrow> e \<in> set es \<and> pe_hash e = h"
  by (auto simp: find_entry_def find_Some_iff)

lemma find_entry_None: "find_entry h es = None \<longleftrightarrow> h \<notin> pe_hash ` set es"
  by (auto simp: find_entry_def find_None_iff)

lemma find_entry_mem: "unique es \<Longrightarrow> e \<in> set es \<Longrightarrow> find_entry (pe_hash e) es = Some e"
  unfolding unique_def find_entry_def by (induction es) auto

lemma unique_eq: "unique es \<Longrightarrow> e \<in> set es \<Longrightarrow> e' \<in> set es \<Longrightarrow> pe_hash e = pe_hash e' \<Longrightarrow> e = e'"
  using find_entry_mem by (metis option.inject)

lemma set_erase [simp]: "set (erase_entry h es) = {e \<in> set es. pe_hash e \<noteq> h}"
  by (simp add: erase_entry_def)

lemma unique_erase: "unique es \<Longrightarrow> unique (erase_entry h es)"
  by (simp add: unique_def erase_entry_def distinct_map_filter)

lemma unique_insert: "unique es \<Longrightarrow> unique (insert_entry e es)"
  by (auto simp: unique_def insert_entry_def find_entry_None)

lemma set_insert_new: "pe_hash e \<notin> pe_hash ` set es \<Longrightarrow> set (insert_entry e es) = insert e (set es)"
  by (simp add: insert_entry_def find_entry_None)

lemma hashes_add_child [simp]: "map pe_hash (add_child p h es) = map pe_hash es"
  by (simp add: add_child_def)

lemma unique_add_child: "unique (add_child p h es) \<longleftrightarrow> unique es"
  by (simp add: unique_def)

text \<open>The entry that takes the place of another one.\<close>

definition moved :: "pool_entry \<Rightarrow> pool_entry" where
  "moved e = e\<lparr>pe_position := pb_height (pe_block e)\<rparr>"

lemma moved_simps [simp]:
  "pe_hash (moved e) = pe_hash e" "pe_block (moved e) = pe_block e" "pe_children (moved e) = pe_children e"
  "pe_position (moved e) = pb_height (pe_block e)" "pe_parent (moved e) = pe_parent e"
  by (simp_all add: moved_def pe_parent_def)

lemma set_replant:
  assumes "unique es" "find_entry h es = Some e"
  shows "set (replant h es) = insert (moved e) {e' \<in> set es. pe_hash e' \<noteq> h}"
proof -
  have "pe_hash e = h" using find_entry_Some [OF assms(2)] by simp
  then have "pe_hash (moved e) \<notin> pe_hash ` set (erase_entry h es)" by auto
  from set_insert_new [OF this] show ?thesis by (simp add: replant_def assms(2) moved_def)
qed

lemma unique_replant: "unique es \<Longrightarrow> unique (replant h es)"
  by (auto simp: replant_def unique_insert unique_erase split: option.split)

section \<open>The invariant\<close>

text \<open>
  Entries have the hash of their block, and heights grow from a block to the blocks that name it. The children of an entry
  are entries below no root, which name it. With \<open>orphans\<close> the set of the hashes of entries whose parent has been
  deleted, every other entry that is not a root is a child of an entry, and no orphan is.
\<close>

definition entries_ok :: "crypto \<Rightarrow> pool_entries \<Rightarrow> bool" where
  "entries_ok c es \<longleftrightarrow> unique es \<and>
     (\<forall>e \<in> set es. pe_hash e = block_hash c (pb_block (pe_block e)) \<and> distinct (pe_children e) \<and>
       (pe_position e \<noteq> 0 \<longrightarrow> pe_position e = pb_height (pe_block e))) \<and>
     (\<forall>e \<in> set es. \<forall>e' \<in> set es. pe_parent e' = pe_hash e \<longrightarrow> pb_height (pe_block e) < pb_height (pe_block e')) \<and>
     (\<forall>e \<in> set es. \<forall>h \<in> set (pe_children e). \<exists>e' \<in> set es. pe_hash e' = h \<and> pe_parent e' = pe_hash e \<and> pe_position e' = 0)"

definition forest :: "pool_entries \<Rightarrow> bytes set \<Rightarrow> bool" where
  "forest es orphans \<longleftrightarrow>
     (\<forall>e \<in> set es. \<forall>h \<in> orphans. h \<notin> set (pe_children e)) \<and>
     (\<forall>e' \<in> set es. pe_position e' = 0 \<longrightarrow> pe_hash e' \<in> orphans \<or> (\<exists>e \<in> set es. pe_hash e' \<in> set (pe_children e)))"

definition pool_ok :: "crypto \<Rightarrow> pool_entries \<Rightarrow> bool" where
  "pool_ok c es \<longleftrightarrow> entries_ok c es \<and> forest es {}"

lemma entries_okD:
  assumes "entries_ok c es"
  shows "unique es"
    "e \<in> set es \<Longrightarrow> pe_hash e = block_hash c (pb_block (pe_block e))"
    "e \<in> set es \<Longrightarrow> distinct (pe_children e)"
    "e \<in> set es \<Longrightarrow> pe_position e \<noteq> 0 \<Longrightarrow> pe_position e = pb_height (pe_block e)"
    "e \<in> set es \<Longrightarrow> e' \<in> set es \<Longrightarrow> pe_parent e' = pe_hash e \<Longrightarrow> pb_height (pe_block e) < pb_height (pe_block e')"
    "e \<in> set es \<Longrightarrow> h \<in> set (pe_children e) \<Longrightarrow>
      \<exists>e' \<in> set es. pe_hash e' = h \<and> pe_parent e' = pe_hash e \<and> pe_position e' = 0"
  using assms by (auto simp: entries_ok_def)

text \<open>A hash is the child of one entry at most.\<close>

lemma child_once:
  assumes "entries_ok c es" "e \<in> set es" "e' \<in> set es" "h \<in> set (pe_children e)" "h \<in> set (pe_children e')"
  shows "e = e'"
proof -
  from entries_okD(6) [OF assms(1,2,4)] entries_okD(6) [OF assms(1,3,5)] entries_okD(1) [OF assms(1)]
  have "pe_hash e = pe_hash e'" by (metis unique_eq)
  then show ?thesis using unique_eq [OF entries_okD(1) [OF assms(1)] assms(2,3)] by simp
qed

text \<open>Deleting an entry that is no child leaves its children as orphans.\<close>

lemma erase_ok:
  assumes ok: "entries_ok c es" and e: "find_entry h es = Some e" and free: "\<forall>e' \<in> set es. h \<notin> set (pe_children e')"
  shows "entries_ok c (erase_entry h es)"
    "forest es orphans \<Longrightarrow> forest (erase_entry h es) (orphans - {h} \<union> set (pe_children e))"
proof -
  show "entries_ok c (erase_entry h es)"
    unfolding entries_ok_def
  proof (intro conjI ballI)
    fix x k assume x: "x \<in> set (erase_entry h es)" "k \<in> set (pe_children x)"
    then show "\<exists>e' \<in> set (erase_entry h es). pe_hash e' = k \<and> pe_parent e' = pe_hash x \<and> pe_position e' = 0"
      using entries_okD(6) [OF ok, of x k] free by auto
  qed (use ok in \<open>auto simp: entries_ok_def unique_erase\<close>)
  assume f: "forest es orphans"
  have e_mem: "e \<in> set es" "pe_hash e = h" using find_entry_Some [OF e] by simp_all
  show "forest (erase_entry h es) (orphans - {h} \<union> set (pe_children e))"
    unfolding forest_def
  proof (intro conjI ballI impI)
    fix x k assume "x \<in> set (erase_entry h es)" "k \<in> orphans - {h} \<union> set (pe_children e)"
    then show "k \<notin> set (pe_children x)"
      using f child_once [OF ok e_mem(1), of x k] e_mem(2) by (auto simp: forest_def)
  next
    fix x assume x: "x \<in> set (erase_entry h es)" "pe_position x = 0"
    then have "pe_hash x \<in> orphans \<or> (\<exists>y \<in> set es. pe_hash x \<in> set (pe_children y))" "pe_hash x \<noteq> h"
      using f by (auto simp: forest_def)
    then show "pe_hash x \<in> orphans - {h} \<union> set (pe_children e) \<or>
        (\<exists>y \<in> set (erase_entry h es). pe_hash x \<in> set (pe_children y))"
    proof (elim disjE bexE)
      fix y assume y: "y \<in> set es" "pe_hash x \<in> set (pe_children y)"
      show ?thesis
      proof (cases "pe_hash y = h")
        case True
        then have "y = e" using unique_eq [OF entries_okD(1) [OF ok] y(1) e_mem(1)] e_mem(2) by simp
        then show ?thesis using y(2) by simp
      qed (use y in auto)
    qed auto
  qed
qed

text \<open>Replanting an orphan makes it a root.\<close>

lemma replant_ok:
  assumes ok: "entries_ok c es" and e: "find_entry h es = Some e" and free: "\<forall>e' \<in> set es. h \<notin> set (pe_children e')"
  shows "entries_ok c (replant h es)"
    "forest es orphans \<Longrightarrow> 0 < pb_height (pe_block e) \<Longrightarrow> forest (replant h es) (orphans - {h})"
proof -
  have e_mem: "e \<in> set es" "pe_hash e = h" using find_entry_Some [OF e] by simp_all
  note set_r = set_replant [OF entries_okD(1) [OF ok] e]
  have orig: "\<exists>y \<in> set es. pe_hash y = pe_hash x \<and> pe_block y = pe_block x \<and> pe_children y = pe_children x \<and>
      (pe_hash x \<noteq> h \<longrightarrow> y = x)" if "x \<in> set (replant h es)" for x
    using that e_mem unfolding set_r by auto
  show "entries_ok c (replant h es)"
    unfolding entries_ok_def
  proof (intro conjI ballI impI)
    fix x k assume x: "x \<in> set (replant h es)" "k \<in> set (pe_children x)"
    obtain y where y: "y \<in> set es" "pe_hash y = pe_hash x" "pe_children y = pe_children x" using orig [OF x(1)] by metis
    obtain z where z: "z \<in> set es" "pe_hash z = k" "pe_parent z = pe_hash y" "pe_position z = 0"
      using entries_okD(6) [OF ok y(1)] y x(2) by metis
    have "k \<noteq> h" using free y x(2) by auto
    then have "z \<in> set (replant h es)" using z unfolding set_r by auto
    then show "\<exists>e' \<in> set (replant h es). pe_hash e' = k \<and> pe_parent e' = pe_hash x \<and> pe_position e' = 0"
      using z y by auto
  next
    fix x y assume "x \<in> set (replant h es)" "y \<in> set (replant h es)" "pe_parent y = pe_hash x"
    then show "pb_height (pe_block x) < pb_height (pe_block y)"
      using entries_okD(5) [OF ok] orig by (metis pe_parent_def)
  next
    show "unique (replant h es)" using entries_okD(1) [OF ok] by (rule unique_replant)
  next
    fix x assume "x \<in> set (replant h es)"
    then show "pe_hash x = block_hash c (pb_block (pe_block x))" "distinct (pe_children x)"
      using orig entries_okD(2,3) [OF ok] by metis+
  next
    fix x assume "x \<in> set (replant h es)" "pe_position x \<noteq> 0"
    then show "pe_position x = pb_height (pe_block x)" using entries_okD(4) [OF ok] unfolding set_r by auto
  qed
  assume f: "forest es orphans" and height: "0 < pb_height (pe_block e)"
  show "forest (replant h es) (orphans - {h})"
    unfolding forest_def
  proof (intro conjI ballI impI)
    fix x k assume "x \<in> set (replant h es)" "k \<in> orphans - {h}"
    then show "k \<notin> set (pe_children x)" using f orig by (metis DiffD1 forest_def)
  next
    fix x assume x: "x \<in> set (replant h es)" "pe_position x = 0"
    then have "x \<in> set es" "pe_hash x \<noteq> h" using height unfolding set_r by auto
    then consider "pe_hash x \<in> orphans - {h}" | y where "y \<in> set es" "pe_hash x \<in> set (pe_children y)"
      using f x(2) by (auto simp: forest_def)
    then show "pe_hash x \<in> orphans - {h} \<or> (\<exists>y \<in> set (replant h es). pe_hash x \<in> set (pe_children y))"
    proof cases
      case (2 y)
      have m: "moved e \<in> set (replant h es)" unfolding set_r by simp
      show ?thesis
      proof (cases "pe_hash y = h")
        case True
        then have "y = e" using unique_eq [OF entries_okD(1) [OF ok] 2(1) e_mem(1)] e_mem(2) by simp
        then show ?thesis using m 2(2) by (intro disjI2 bexI [OF _ m]) simp
      next
        case False
        then have "y \<in> set (replant h es)" using 2(1) unfolding set_r by simp
        then show ?thesis using 2(2) by blast
      qed
    qed simp
  qed
qed

section \<open>Lemmas on growth and removal\<close>

definition pool_blocks :: "pool_entries \<Rightarrow> pool_block set" where
  "pool_blocks es = pe_block ` set es"

definition with_child :: "bytes \<Rightarrow> bytes \<Rightarrow> pool_entry \<Rightarrow> pool_entry" where
  "with_child p h e = (if pe_hash e = p then e\<lparr>pe_children := pe_children e @ [h]\<rparr> else e)"

lemma with_child_simps [simp]:
  "pe_hash (with_child p h e) = pe_hash e" "pe_block (with_child p h e) = pe_block e"
  "pe_position (with_child p h e) = pe_position e" "pe_parent (with_child p h e) = pe_parent e"
  "set (pe_children (with_child p h e)) = (if pe_hash e = p then insert h (set (pe_children e)) else set (pe_children e))"
  "distinct (pe_children (with_child p h e)) \<longleftrightarrow>
     distinct (pe_children e) \<and> (pe_hash e = p \<longrightarrow> h \<notin> set (pe_children e))"
  by (auto simp: with_child_def pe_parent_def)

text \<open>The new block fits the heights of the pool.\<close>

definition fits_pool :: "crypto \<Rightarrow> pool_block \<Rightarrow> pool_entries \<Rightarrow> bool" where
  "fits_pool c b es \<longleftrightarrow>
     (let h = block_hash c (pb_block b); p = previous_block_hash (blk_header (pb_block b))
      in h \<notin> pe_hash ` set es \<and> h \<noteq> p \<and>
        (\<forall>e \<in> set es. (pe_hash e = p \<longrightarrow> pb_height (pe_block e) < pb_height b) \<and>
          (pe_parent e = h \<longrightarrow> pb_height b < pb_height (pe_block e))))"

lemma set_pool_add:
  fixes c :: crypto and b :: pool_block
  defines "h \<equiv> block_hash c (pb_block b)" and "p \<equiv> previous_block_hash (blk_header (pb_block b))"
  assumes "h \<notin> pe_hash ` set es"
  shows "set (pool_add c b es) =
    insert (new_entry c b (if p \<in> pe_hash ` set es then 0 else pb_height b)) (with_child p h ` set es)"
proof -
  have hash: "pe_hash (new_entry c b n) = h" for n by (simp add: new_entry_def h_def)
  have "pe_hash ` set (add_child p h es) = pe_hash ` set es" by (metis hashes_add_child set_map)
  moreover have "set (add_child p h es) = with_child p h ` set es" by (simp add: add_child_def with_child_def)
  moreover have "with_child p h ` set es = set es" if "p \<notin> pe_hash ` set es"
    using that by (auto simp: with_child_def image_iff)
  ultimately show ?thesis
    using assms(3) find_entry_None [of p es] hash
    by (cases "find_entry p es") (simp_all add: pool_add_def set_insert_new flip: h_def p_def)
qed

lemma pool_add_ok:
  assumes ok: "entries_ok c es" and fit: "fits_pool c b es"
  shows "entries_ok c (pool_add c b es)"
    "forest es orphans \<Longrightarrow> block_hash c (pb_block b) \<notin> orphans \<Longrightarrow>
      forest (pool_add c b es) (if pb_height b = 0 \<and> previous_block_hash (blk_header (pb_block b)) \<notin> pe_hash ` set es
        then insert (block_hash c (pb_block b)) orphans else orphans)"
proof -
  let ?h = "block_hash c (pb_block b)" and ?p = "previous_block_hash (blk_header (pb_block b))"
  let ?n = "new_entry c b (if ?p \<in> pe_hash ` set es then 0 else pb_height b)"
  have fresh: "?h \<notin> pe_hash ` set es" "?h \<noteq> ?p" using fit by (simp_all add: fits_pool_def Let_def)
  note set_a = set_pool_add [of c b es, OF fresh(1)]
  have n: "pe_hash ?n = ?h" "pe_block ?n = b" "pe_children ?n = []" "pe_parent ?n = ?p"
    "pe_position ?n = (if ?p \<in> pe_hash ` set es then 0 else pb_height b)"
    by (simp_all add: new_entry_def pe_parent_def)
  have no_child: "?h \<notin> set (pe_children e)" if "e \<in> set es" for e
    using entries_okD(6) [OF ok that, of ?h] fresh(1) by (metis imageI)
  show "entries_ok c (pool_add c b es)"
    unfolding entries_ok_def
  proof (intro conjI ballI impI)
    show "unique (pool_add c b es)"
      using entries_okD(1) [OF ok] by (simp add: pool_add_def unique_insert unique_add_child Let_def)
  next
    fix x assume "x \<in> set (pool_add c b es)"
    then show "pe_hash x = block_hash c (pb_block (pe_block x))" "distinct (pe_children x)"
      using n entries_okD(2,3) [OF ok] no_child unfolding set_a by auto
  next
    fix x assume "x \<in> set (pool_add c b es)" "pe_position x \<noteq> 0"
    then show "pe_position x = pb_height (pe_block x)"
      using n entries_okD(4) [OF ok] unfolding set_a by auto
  next
    fix x y assume "x \<in> set (pool_add c b es)" "y \<in> set (pool_add c b es)" "pe_parent y = pe_hash x"
    then show "pb_height (pe_block x) < pb_height (pe_block y)"
      using n entries_okD(5) [OF ok] fit fresh(2) unfolding set_a by (auto simp: fits_pool_def Let_def)
  next
    fix x k assume x: "x \<in> set (pool_add c b es)" "k \<in> set (pe_children x)"
    then obtain e where e: "e \<in> set es" "x = with_child ?p ?h e" using n unfolding set_a by auto
    show "\<exists>y \<in> set (pool_add c b es). pe_hash y = k \<and> pe_parent y = pe_hash x \<and> pe_position y = 0"
    proof (cases "k \<in> set (pe_children e)")
      case True
      then obtain z where "z \<in> set es" "pe_hash z = k" "pe_parent z = pe_hash e" "pe_position z = 0"
        using entries_okD(6) [OF ok e(1)] by blast
      then show ?thesis unfolding set_a by (intro bexI [of _ "with_child ?p ?h z"]) (simp_all add: e(2))
    next
      case False
      then have "k = ?h" "pe_hash e = ?p" using x(2) by (auto simp: e(2) split: if_splits)
      moreover have "?p \<in> pe_hash ` set es" using \<open>pe_hash e = ?p\<close> e(1) by (metis imageI)
      ultimately show ?thesis using n unfolding set_a by (intro bexI [of _ ?n]) (simp_all add: e(2))
    qed
  qed
  assume f: "forest es orphans" and stray: "?h \<notin> orphans"
  let ?o = "if pb_height b = 0 \<and> ?p \<notin> pe_hash ` set es then insert ?h orphans else orphans"
  show "forest (pool_add c b es) ?o"
    unfolding forest_def
  proof (intro conjI ballI impI)
    fix x k assume "x \<in> set (pool_add c b es)" "k \<in> ?o"
    then show "k \<notin> set (pe_children x)"
      using f n stray no_child unfolding set_a by (auto simp: forest_def image_iff split: if_splits)
  next
    fix x assume x: "x \<in> set (pool_add c b es)" "pe_position x = 0"
    show "pe_hash x \<in> ?o \<or> (\<exists>y \<in> set (pool_add c b es). pe_hash x \<in> set (pe_children y))"
    proof (cases "x = ?n")
      case True
      show ?thesis
      proof (cases "?p \<in> pe_hash ` set es")
        case True
        then obtain e where "e \<in> set es" "pe_hash e = ?p" by auto
        then have "with_child ?p ?h e \<in> set (pool_add c b es)" "?h \<in> set (pe_children (with_child ?p ?h e))"
          unfolding set_a by auto
        then show ?thesis using \<open>x = ?n\<close> n(1) by metis
      next
        case False
        then show ?thesis using x(2) \<open>x = ?n\<close> n by simp
      qed
    next
      case False
      then obtain e where e: "e \<in> set es" "x = with_child ?p ?h e" using x(1) unfolding set_a by auto
      then have "pe_position e = 0" using x(2) by simp
      then consider "pe_hash e \<in> orphans" | y where "y \<in> set es" "pe_hash e \<in> set (pe_children y)"
        using f e(1) by (auto simp: forest_def)
      then show ?thesis
      proof cases
        case (2 y)
        then have "with_child ?p ?h y \<in> set (pool_add c b es)" "pe_hash x \<in> set (pe_children (with_child ?p ?h y))"
          unfolding set_a e(2) by auto
        then show ?thesis by blast
      qed (simp add: e(2))
    qed
  qed
qed

lemma forest_mem: "forest es orphans \<Longrightarrow> h \<in> orphans \<Longrightarrow> \<forall>e \<in> set es. h \<notin> set (pe_children e)"
  by (simp add: forest_def)

lemma hashes_erase: "pe_hash ` set (erase_entry h es) = pe_hash ` set es - {h}"
  by auto

lemma hashes_replant: "entries_ok c es \<Longrightarrow> pe_hash ` set (replant h es) = pe_hash ` set es"
proof (cases "find_entry h es")
  case (Some e)
  assume "entries_ok c es"
  then show ?thesis using set_replant [OF entries_okD(1) Some] find_entry_Some [OF Some] by auto
qed (simp add: replant_def)

lemma blocks_replant: "entries_ok c es \<Longrightarrow> pool_blocks (replant h es) = pool_blocks es"
proof (cases "find_entry h es")
  case (Some e)
  assume ok: "entries_ok c es"
  have "e' = e" if "e' \<in> set es" "pe_hash e' = h" for e'
    using that unique_eq [OF entries_okD(1) [OF ok]] find_entry_Some [OF Some] by metis
  then show ?thesis
    using set_replant [OF entries_okD(1) [OF ok] Some] find_entry_Some [OF Some] unfolding pool_blocks_def by force
qed (simp add: replant_def)

lemma children_mem: "entries_ok c es \<Longrightarrow> e \<in> set es \<Longrightarrow> set (pe_children e) \<subseteq> pe_hash ` set es - {pe_hash e}"
proof
  fix h assume ok: "entries_ok c es" and e: "e \<in> set es" and h: "h \<in> set (pe_children e)"
  obtain e' where e': "e' \<in> set es" "pe_hash e' = h" "pe_parent e' = pe_hash e" using entries_okD(6) [OF ok e h] by blast
  then have "pb_height (pe_block e) < pb_height (pe_block e')" using entries_okD(5) [OF ok e] by blast
  then have "h \<noteq> pe_hash e" using e' unique_eq [OF entries_okD(1) [OF ok] e'(1) e] by auto
  then show "h \<in> pe_hash ` set es - {pe_hash e}" using e' by blast
qed

text \<open>The hashes are accepted in the order of a path from a root: each one after its parent, unless it is a root.\<close>

definition path_order :: "bytes list \<Rightarrow> bytes set \<Rightarrow> pool_entries \<Rightarrow> bool" where
  "path_order hs gone es \<longleftrightarrow>
     (\<forall>i < length hs. \<forall>e \<in> set es. pe_hash e = hs ! i \<and> pe_position e = 0 \<longrightarrow> pe_parent e \<in> gone \<union> set (take i hs))"

lemma path_order_Cons: "path_order (h # hs) gone es \<Longrightarrow> set es' \<subseteq> set es \<Longrightarrow> path_order hs (insert h gone) es'"
  unfolding path_order_def
proof (intro allI ballI impI)
  fix i e assume all: "\<forall>i < length (h # hs). \<forall>e \<in> set es. pe_hash e = (h # hs) ! i \<and> pe_position e = 0 \<longrightarrow>
      pe_parent e \<in> gone \<union> set (take i (h # hs))" and sub: "set es' \<subseteq> set es"
    and i: "i < length hs" "e \<in> set es'" "pe_hash e = hs ! i \<and> pe_position e = 0"
  from all [rule_format, of "Suc i" e] i sub show "pe_parent e \<in> insert h gone \<union> set (take i hs)" by auto
qed

lemma remove_accepted_ok:
  assumes "entries_ok c es" "forest es (set ch \<inter> pe_hash ` set es)" "distinct ch"
    "path_order hs gone es" "gone \<inter> pe_hash ` set es = {}"
  shows "\<exists>es' ch'. remove_accepted hs es ch = (es', ch') \<and> entries_ok c es' \<and> forest es' (set ch' \<inter> pe_hash ` set es') \<and>
    distinct ch' \<and> set es' = {e \<in> set es. pe_hash e \<notin> set hs}"
  using assms
proof (induction hs arbitrary: es ch gone)
  case (Cons h hs)
  note ok = Cons.prems(1) and f = Cons.prems(2)
  show ?case
  proof (cases "find_entry h es")
    case None
    then have "insert h gone \<inter> pe_hash ` set es = {}" "\<forall>e \<in> set es. pe_hash e \<noteq> h"
      using Cons.prems(5) by (auto simp: find_entry_None)
    then show ?thesis
      using Cons.IH [OF ok f Cons.prems(3) path_order_Cons [OF Cons.prems(4)]] None by fastforce
  next
    case (Some e)
    note e = find_entry_Some [OF Some]
    have free: "\<forall>y \<in> set es. h \<notin> set (pe_children y)"
    proof
      fix y assume y: "y \<in> set es"
      show "h \<notin> set (pe_children y)"
      proof
        assume "h \<in> set (pe_children y)"
        then obtain z where z: "z \<in> set es" "pe_hash z = h" "pe_parent z = pe_hash y" "pe_position z = 0"
          using entries_okD(6) [OF ok y] by blast
        then have "pe_parent z \<in> gone" using Cons.prems(4) unfolding path_order_def by force
        then show False using Cons.prems(5) y z(3) by auto
      qed
    qed
    let ?es = "erase_entry h es" and ?ch = "ch @ pe_children e"
    have sub: "set (pe_children e) \<subseteq> pe_hash ` set es - {h}" using children_mem [OF ok, of e] e by simp
    have "set ch \<inter> set (pe_children e) = {}" using f e sub by (auto simp: forest_def)
    then have dist: "distinct ?ch" using Cons.prems(3) entries_okD(3) [OF ok, of e] e by simp
    have "set ch \<inter> pe_hash ` set es - {h} \<union> set (pe_children e) = set ?ch \<inter> pe_hash ` set ?es"
      using sub unfolding hashes_erase by auto
    then have forest': "forest ?es (set ?ch \<inter> pe_hash ` set ?es)"
      using erase_ok(2) [OF ok Some free f] by simp
    have gone': "insert h gone \<inter> pe_hash ` set ?es = {}" using Cons.prems(5) unfolding hashes_erase by auto
    have "path_order hs (insert h gone) ?es" using Cons.prems(4) by (rule path_order_Cons) auto
    from Cons.IH [OF erase_ok(1) [OF ok Some free] forest' dist this gone']
    show ?thesis by (auto simp: Some)
  qed
qed simp

lemma replant_all_ok:
  assumes "entries_ok c es" "forest es (set ch \<inter> pe_hash ` set es)" "distinct ch" "\<forall>e \<in> set es. 0 < pb_height (pe_block e)"
  shows "entries_ok c (fold replant ch es) \<and> forest (fold replant ch es) {} \<and>
    pool_blocks (fold replant ch es) = pool_blocks es"
  using assms
proof (induction ch arbitrary: es)
  case (Cons h ch)
  note ok = Cons.prems(1)
  show ?case
  proof (cases "find_entry h es")
    case None
    then have "replant h es = es" by (simp add: replant_def)
    moreover have "set (h # ch) \<inter> pe_hash ` set es = set ch \<inter> pe_hash ` set es"
      using None by (auto simp: find_entry_None)
    ultimately show ?thesis using Cons by simp
  next
    case (Some e)
    have h: "h \<in> set (h # ch) \<inter> pe_hash ` set es" using find_entry_Some [OF Some] by auto
    note free = forest_mem [OF Cons.prems(2) this]
    have "forest (replant h es) (set (h # ch) \<inter> pe_hash ` set es - {h})"
      using Cons.prems(4) find_entry_Some [OF Some] by (intro replant_ok(2) [OF ok Some free Cons.prems(2)]) auto
    also have "set (h # ch) \<inter> pe_hash ` set es - {h} = set ch \<inter> pe_hash ` set (replant h es)"
      using Cons.prems(3) unfolding hashes_replant [OF ok] by auto
    finally have "forest (replant h es) (set ch \<inter> pe_hash ` set (replant h es))" .
    moreover have "\<forall>x \<in> set (replant h es). 0 < pb_height (pe_block x)"
      using Cons.prems(4) blocks_replant [OF ok, of h] by (auto simp: pool_blocks_def)
        (metis (no_types, lifting) imageE imageI)
    ultimately show ?thesis
      using Cons.IH [OF replant_ok(1) [OF ok Some free]] Cons.prems(3) blocks_replant [OF ok, of h] by simp
  qed
qed simp

section \<open>Lemmas on pruning\<close>

text \<open>What holds between the steps: the hashes to be processed are those of orphans and of expired roots, and every
  expired root is to be processed. The set \<open>stray\<close> has further orphans, which are never processed.\<close>

definition pruning :: "crypto \<Rightarrow> nat \<Rightarrow> bytes set \<Rightarrow> bytes list \<Rightarrow> pool_entries \<Rightarrow> bool" where
  "pruning c m stray hs es \<longleftrightarrow> entries_ok c es \<and> forest es (set hs \<union> stray) \<and> distinct hs \<and>
     set hs \<subseteq> pe_hash ` set es \<and> set hs \<inter> stray = {} \<and>
     (\<forall>e \<in> set es. pe_position e \<noteq> 0 \<longrightarrow> (pe_hash e \<in> set hs \<longleftrightarrow> pb_height (pe_block e) < m)) \<and>
     (\<forall>e \<in> set es. pe_hash e \<in> stray \<longrightarrow> pe_position e = 0)"

text \<open>What is kept: the blocks that are not expired and the stray ones.\<close>

definition kept :: "nat \<Rightarrow> bytes set \<Rightarrow> pool_entries \<Rightarrow> pool_entries \<Rightarrow> bool" where
  "kept m stray es es' \<longleftrightarrow> pool_blocks es' \<subseteq> pool_blocks es \<and>
     (\<forall>e \<in> set es. m \<le> pb_height (pe_block e) \<or> pe_hash e \<in> stray \<longrightarrow> (\<exists>e' \<in> set es'. pe_hash e' = pe_hash e \<and> pe_block e' = pe_block e))"

lemma kept_refl: "kept m stray es es"
  by (auto simp: kept_def)

lemma kept_trans: "kept m stray es es' \<Longrightarrow> kept m stray es' es'' \<Longrightarrow> kept m stray es es''"
  unfolding kept_def by (metis order.trans)

lemma prune_step:
  assumes inv: "pruning c m stray (h # hs @ ch) es" and m: "0 < m" and e: "find_entry h es = Some e"
  shows "pe_position e \<noteq> 0 \<or> pb_height (pe_block e) < m \<Longrightarrow>
      pruning c m stray (hs @ ch @ pe_children e) (erase_entry h es) \<and> kept m stray es (erase_entry h es)"
    "pe_position e = 0 \<Longrightarrow> m \<le> pb_height (pe_block e) \<Longrightarrow>
      pruning c m stray (hs @ ch) (replant h es) \<and> kept m stray es (replant h es)"
proof -
  have ok: "entries_ok c es" and f: "forest es (set (h # hs @ ch) \<union> stray)" using inv by (simp_all add: pruning_def)
  have free: "\<forall>y \<in> set es. h \<notin> set (pe_children y)" using forest_mem [OF f, of h] by simp
  have e_mem: "e \<in> set es" "pe_hash e = h" using find_entry_Some [OF e] by simp_all
  have only: "y = e" if "y \<in> set es" "pe_hash y = h" for y
    using that unique_eq [OF entries_okD(1) [OF ok]] e_mem by metis
  have h: "h \<notin> set hs" "h \<notin> set ch" "h \<notin> stray" "distinct (hs @ ch)" using inv by (auto simp: pruning_def)
  {
    assume expired: "pe_position e \<noteq> 0 \<or> pb_height (pe_block e) < m"
    then have low: "pb_height (pe_block e) < m" using inv e_mem by (auto simp: pruning_def)
    let ?es = "erase_entry h es"
    have sub: "set (pe_children e) \<subseteq> pe_hash ` set es - {h}" using children_mem [OF ok e_mem(1)] e_mem(2) by simp
    have apart: "set (pe_children e) \<inter> (set (h # hs @ ch) \<union> stray) = {}" using f e_mem by (auto simp: forest_def)
    have "set (h # hs @ ch) \<union> stray - {h} \<union> set (pe_children e) = set (hs @ ch @ pe_children e) \<union> stray"
      using h by auto
    then have "forest ?es (set (hs @ ch @ pe_children e) \<union> stray)" using erase_ok(2) [OF ok e free f] by simp
    moreover have "distinct (hs @ ch @ pe_children e)" "set (hs @ ch @ pe_children e) \<inter> stray = {}"
      using h apart entries_okD(3) [OF ok e_mem(1)] inv by (auto simp: pruning_def)
    moreover have "set (hs @ ch @ pe_children e) \<subseteq> pe_hash ` set ?es"
      using sub h inv unfolding hashes_erase by (auto simp: pruning_def)
    moreover have "\<forall>y \<in> set ?es. pe_position y \<noteq> 0 \<longrightarrow>
        (pe_hash y \<in> set (hs @ ch @ pe_children e) \<longleftrightarrow> pb_height (pe_block y) < m)"
    proof (intro ballI impI)
      fix y assume y: "y \<in> set ?es" "pe_position y \<noteq> 0"
      have "pe_hash y \<notin> set (pe_children e)"
      proof
        assume "pe_hash y \<in> set (pe_children e)"
        then obtain z where "z \<in> set es" "pe_hash z = pe_hash y" "pe_position z = 0"
          using entries_okD(6) [OF ok e_mem(1)] by blast
        then show False using y unique_eq [OF entries_okD(1) [OF ok], of z y] by auto
      qed
      then show "pe_hash y \<in> set (hs @ ch @ pe_children e) \<longleftrightarrow> pb_height (pe_block y) < m"
        using inv y by (auto simp: pruning_def)
    qed
    moreover have "\<forall>y \<in> set ?es. pe_hash y \<in> stray \<longrightarrow> pe_position y = 0" using inv by (auto simp: pruning_def)
    ultimately have "pruning c m stray (hs @ ch @ pe_children e) ?es"
      using erase_ok(1) [OF ok e free] unfolding pruning_def by blast
    moreover have "kept m stray es ?es"
      unfolding kept_def
    proof (intro conjI ballI impI)
      show "pool_blocks ?es \<subseteq> pool_blocks es" by (auto simp: pool_blocks_def)
      fix y assume "y \<in> set es" "m \<le> pb_height (pe_block y) \<or> pe_hash y \<in> stray"
      then show "\<exists>y' \<in> set ?es. pe_hash y' = pe_hash y \<and> pe_block y' = pe_block y"
        using only [of y] low h(3) e_mem(2) by (intro bexI [of _ y]) auto
    qed
    ultimately show "pruning c m stray (hs @ ch @ pe_children e) ?es \<and> kept m stray es ?es" ..
  }
  assume pos: "pe_position e = 0" and high: "m \<le> pb_height (pe_block e)"
  let ?es = "replant h es"
  note set_r = set_replant [OF entries_okD(1) [OF ok] e]
  have "set (h # hs @ ch) \<union> stray - {h} = set (hs @ ch) \<union> stray" using h by auto
  moreover have "0 < pb_height (pe_block e)" using m high by simp
  ultimately have "forest ?es (set (hs @ ch) \<union> stray)" using replant_ok(2) [OF ok e free f] by simp
  moreover have "set (hs @ ch) \<subseteq> pe_hash ` set ?es" "set (hs @ ch) \<inter> stray = {}"
    using inv unfolding hashes_replant [OF ok] by (auto simp: pruning_def)
  moreover have "\<forall>y \<in> set ?es. pe_position y \<noteq> 0 \<longrightarrow> (pe_hash y \<in> set (hs @ ch) \<longleftrightarrow> pb_height (pe_block y) < m)"
    using inv h e_mem high unfolding set_r by (auto simp: pruning_def)
  moreover have "\<forall>y \<in> set ?es. pe_hash y \<in> stray \<longrightarrow> pe_position y = 0"
    using inv h e_mem unfolding set_r by (auto simp: pruning_def)
  ultimately have "pruning c m stray (hs @ ch) ?es"
    using replant_ok(1) [OF ok e free] h(4) unfolding pruning_def by blast
  moreover have "kept m stray es ?es"
    unfolding kept_def
  proof (intro conjI ballI impI)
    show "pool_blocks ?es \<subseteq> pool_blocks es" using blocks_replant [OF ok] by simp
    fix y assume "y \<in> set es"
    then show "\<exists>y' \<in> set ?es. pe_hash y' = pe_hash y \<and> pe_block y' = pe_block y"
      using only [of y] e_mem unfolding set_r by (cases "pe_hash y = h") auto
  qed
  ultimately show "pruning c m stray (hs @ ch) ?es \<and> kept m stray es ?es" ..
qed

lemma prune_level_ok:
  assumes "pruning c m stray (hs @ ch) es" "0 < m"
  shows "\<exists>es' ch'. prune_level m hs es ch = Some (es', ch') \<and> pruning c m stray ch' es' \<and> kept m stray es es'"
  using assms
proof (induction m hs es ch rule: prune_level.induct)
  case (1 m es ch)
  then show ?case by (simp add: kept_refl)
next
  case (2 m h hs es ch)
  have "h \<in> pe_hash ` set es" using "2.prems"(1) by (simp add: pruning_def)
  then obtain e where e: "find_entry h es = Some e" using find_entry_None [of h es] by (cases "find_entry h es") auto
  note step = prune_step [OF "2.prems"(1) [simplified] "2.prems"(2) e]
  show ?case
  proof (cases "pe_position e \<noteq> 0 \<or> pb_height (pe_block e) < m")
    case True
    have inv: "pruning c m stray (hs @ ch @ pe_children e) (erase_entry h es)" "kept m stray es (erase_entry h es)"
      using step(1) [OF True] by simp_all
    obtain es' ch' where "prune_level m hs (erase_entry h es) (ch @ pe_children e) = Some (es', ch')"
      "pruning c m stray ch' es'" "kept m stray (erase_entry h es) es'"
      using "2.IH"(1) [OF e True inv(1) "2.prems"(2)] by blast
    then show ?thesis using True kept_trans [OF inv(2)] by (simp add: e)
  next
    case False
    then have inv: "pruning c m stray (hs @ ch) (replant h es)" "kept m stray es (replant h es)"
      using step(2) by simp_all
    obtain es' ch' where "prune_level m hs (replant h es) ch = Some (es', ch')"
      "pruning c m stray ch' es'" "kept m stray (replant h es) es'"
      using "2.IH"(2) [OF e False inv(1) "2.prems"(2)] by blast
    then show ?thesis using False kept_trans [OF inv(2)] by (simp add: e)
  qed
qed

lemma prune_hashes_ok:
  assumes "pruning c m stray hs es" "0 < m"
  shows "\<exists>es'. prune_hashes m hs es = Some es' \<and> pruning c m stray [] es' \<and> kept m stray es es'"
  using assms
proof (induction m hs es rule: prune_hashes.induct)
  case (1 m hs es)
  obtain es' ch where level: "prune_level m hs es [] = Some (es', ch)" "pruning c m stray ch es'" "kept m stray es es'"
    using prune_level_ok [of c m stray hs "[]" es] "1.prems" by auto
  show ?case
  proof (cases "ch = []")
    case True
    then show ?thesis using level by (simp add: prune_hashes.simps [of m hs es])
  next
    case False
    from "1.IH" [OF level(1) refl False level(2) "1.prems"(2)] obtain es'' where
      "prune_hashes m ch es' = Some es''" "pruning c m stray [] es''" "kept m stray es' es''"
      by blast
    then show ?thesis using level(1) False kept_trans [OF level(3)] by (simp add: prune_hashes.simps [of m hs es])
  qed
qed

text \<open>With nothing left to process, no block is expired: the lowest one of them would be below another.\<close>

lemma pruned_high:
  assumes "pruning c m {} [] es" "e \<in> set es"
  shows "m \<le> pb_height (pe_block e)"
  using assms(2)
proof (induction "pb_height (pe_block e)" arbitrary: e rule: less_induct)
  case less
  have ok: "entries_ok c es" and f: "forest es {}" using assms(1) by (simp_all add: pruning_def)
  show ?case
  proof (cases "pe_position e = 0")
    case True
    then obtain y where y: "y \<in> set es" "pe_hash e \<in> set (pe_children y)" using f less.prems by (auto simp: forest_def)
    obtain z where "z \<in> set es" "pe_hash z = pe_hash e" "pe_parent z = pe_hash y"
      using entries_okD(6) [OF ok y] by blast
    then have "pe_parent e = pe_hash y" using unique_eq [OF entries_okD(1) [OF ok] _ less.prems] by metis
    then have "pb_height (pe_block y) < pb_height (pe_block e)" using entries_okD(5) [OF ok y(1) less.prems] by simp
    then show ?thesis using less.hyps [of y] y(1) by simp
  next
    case False
    then show ?thesis using assms(1) less.prems by (auto simp: pruning_def not_less)
  qed
qed

definition expired_roots :: "nat \<Rightarrow> pool_entries \<Rightarrow> bytes list" where
  "expired_roots m es =
     map pe_hash (filter (\<lambda>e. pe_position e \<noteq> 0 \<and> pe_position e < m) (sort_key pe_position es))"

lemma set_expired: "set (expired_roots m es) = pe_hash ` {e \<in> set es. pe_position e \<noteq> 0 \<and> pe_position e < m}"
  by (auto simp: expired_roots_def)

lemma prune_start:
  assumes ok: "entries_ok c es" and f: "forest es stray" and zero: "\<forall>e \<in> set es. pe_hash e \<in> stray \<longrightarrow> pe_position e = 0"
  shows "pruning c m stray (expired_roots m es) es"
proof -
  have root: "pe_hash e \<notin> set (pe_children y)" if y: "e \<in> set es" "pe_position e \<noteq> 0" "y \<in> set es" for e y
  proof
    assume "pe_hash e \<in> set (pe_children y)"
    then obtain z where "z \<in> set es" "pe_hash z = pe_hash e" "pe_position z = 0"
      using entries_okD(6) [OF ok y(3)] by blast
    then show False using y unique_eq [OF entries_okD(1) [OF ok], of z e] by simp
  qed
  have "forest es (set (expired_roots m es) \<union> stray)"
    using f root unfolding forest_def set_expired by auto
  moreover have "distinct (map pe_hash (sort_key pe_position es))"
    using entries_okD(1) [OF ok] unfolding unique_def distinct_map by (simp add: distinct_sort)
  then have "distinct (expired_roots m es)"
    unfolding expired_roots_def by (rule distinct_map_filter)
  moreover have "set (expired_roots m es) \<inter> stray = {}" using zero unfolding set_expired by auto
  moreover have "pe_hash e \<in> set (expired_roots m es) \<longleftrightarrow> pb_height (pe_block e) < m"
    if "e \<in> set es" "pe_position e \<noteq> 0" for e
  proof -
    have "pe_hash e \<in> set (expired_roots m es) \<longleftrightarrow> pe_position e < m"
    proof
      assume "pe_hash e \<in> set (expired_roots m es)"
      then obtain y where y: "y \<in> set es" "pe_hash e = pe_hash y" "pe_position y < m" unfolding set_expired by auto
      then show "pe_position e < m" using unique_eq [OF entries_okD(1) [OF ok] \<open>e \<in> set es\<close> y(1)] by simp
    qed (use that in \<open>auto simp: set_expired\<close>)
    then show ?thesis using entries_okD(4) [OF ok that] by simp
  qed
  ultimately show ?thesis using ok zero unfolding pruning_def set_expired by auto
qed

lemma pool_prune_ok:
  assumes ok: "entries_ok c es" and f: "forest es stray" and zero: "\<forall>e \<in> set es. pe_hash e \<in> stray \<longrightarrow> pe_position e = 0"
  defines "m t d \<equiv> floor_subtract t d"
  shows "\<exists>es'. pool_prune t \<lparr>bp_maximum_depth = d, bp_entries = es\<rparr> = Some \<lparr>bp_maximum_depth = d, bp_entries = es'\<rparr> \<and>
    pruning c (m t d) stray [] es' \<and> kept (m t d) stray es es'"
proof -
  note start = prune_start [OF ok f zero, of "m t d"]
  have prune: "pool_prune t \<lparr>bp_maximum_depth = d, bp_entries = es\<rparr> =
      (if expired_roots (m t d) es \<noteq> []
       then map_option (\<lambda>es. \<lparr>bp_maximum_depth = d, bp_entries = es\<rparr>) (prune_hashes (m t d) (expired_roots (m t d) es) es)
       else Some \<lparr>bp_maximum_depth = d, bp_entries = es\<rparr>)"
    by (simp add: pool_prune_def expired_roots_def m_def Let_def)
  show ?thesis
  proof (cases "expired_roots (m t d) es = []")
    case True
    then show ?thesis using start kept_refl by (simp add: prune)
  next
    case False
    then have "0 < m t d" by (auto simp: expired_roots_def filter_empty_conv)
    from prune_hashes_ok [OF start this] False show ?thesis by (auto simp: prune)
  qed
qed

section \<open>Reachable pools\<close>

text \<open>The steps as the organizer makes them: it adds blocks that fit, with their height, removes a path, and prunes.\<close>

inductive pool_step :: "crypto \<Rightarrow> pool_entries \<Rightarrow> pool_entries \<Rightarrow> bool" for c where
  step_add: "fits_pool c b es \<Longrightarrow> 0 < pb_height b \<Longrightarrow> pool_step c es (pool_add c b es)"
| step_remove: "path_order hs {} es \<Longrightarrow> pool_step c es (pool_remove hs es)"
| step_prune: "pool_prune t \<lparr>bp_maximum_depth = d, bp_entries = es\<rparr> = Some p \<Longrightarrow> pool_step c es (bp_entries p)"

definition pool_reachable :: "crypto \<Rightarrow> pool_entries \<Rightarrow> bool" where
  "pool_reachable c = (pool_step c)\<^sup>*\<^sup>* []"

definition healthy :: "crypto \<Rightarrow> pool_entries \<Rightarrow> bool" where
  "healthy c es \<longleftrightarrow> entries_ok c es \<and> forest es {} \<and> (\<forall>e \<in> set es. 0 < pb_height (pe_block e))"

lemma healthy_blocks: "(\<forall>e \<in> set es. 0 < pb_height (pe_block e)) \<longleftrightarrow> (\<forall>b \<in> pool_blocks es. 0 < pb_height b)"
  by (auto simp: pool_blocks_def)

lemma pool_remove_ok:
  assumes ok: "healthy c es" and path: "path_order hs {} es"
  shows "healthy c (pool_remove hs es)" "pool_blocks (pool_remove hs es) = {b \<in> pool_blocks es. block_hash c (pb_block b) \<notin> set hs}"
proof -
  have "forest es (set [] \<inter> pe_hash ` set es)" using ok by (simp add: healthy_def)
  then obtain es' ch where r: "remove_accepted hs es [] = (es', ch)" "entries_ok c es'" "forest es' (set ch \<inter> pe_hash ` set es')"
    "distinct ch" "set es' = {e \<in> set es. pe_hash e \<notin> set hs}"
    using remove_accepted_ok [of c es "[]" hs "{}"] ok path by (auto simp: healthy_def)
  have "\<forall>e \<in> set es'. 0 < pb_height (pe_block e)" using ok r(5) by (simp add: healthy_def)
  note planted = replant_all_ok [OF r(2-4) this]
  have blocks: "pool_blocks (pool_remove hs es) = pool_blocks es'" using planted by (simp add: pool_remove_def r(1))
  then have "\<forall>b \<in> pool_blocks (pool_remove hs es). 0 < pb_height b"
    using ok r(5) unfolding healthy_def healthy_blocks by (auto simp: pool_blocks_def)
  then show "healthy c (pool_remove hs es)" using planted unfolding healthy_def healthy_blocks by (simp add: pool_remove_def r(1))
  have "pool_blocks es' = {b \<in> pool_blocks es. block_hash c (pb_block b) \<notin> set hs}"
    using ok entries_okD(2) unfolding pool_blocks_def r(5) healthy_def by fastforce
  then show "pool_blocks (pool_remove hs es) = {b \<in> pool_blocks es. block_hash c (pb_block b) \<notin> set hs}"
    using blocks by simp
qed

lemma pool_step_healthy: "pool_step c es es' \<Longrightarrow> healthy c es \<Longrightarrow> healthy c es'"
proof (induction rule: pool_step.induct)
  case (step_add b es)
  then have "entries_ok c es" "forest es {}" by (simp_all add: healthy_def)
  from pool_add_ok [OF this(1) step_add(1)] this(2) have "entries_ok c (pool_add c b es)" "forest (pool_add c b es) {}"
    using step_add(2) by simp_all
  moreover have "pool_blocks (pool_add c b es) \<subseteq> insert b (pool_blocks es)"
    using step_add(1) set_pool_add [of c b es]
    by (auto simp: fits_pool_def Let_def pool_blocks_def new_entry_def)
  ultimately show ?case using step_add(2,3) unfolding healthy_def healthy_blocks by blast
next
  case (step_remove hs es)
  then show ?case by (intro pool_remove_ok(1))
next
  case (step_prune t d es p)
  from pool_prune_ok [of c es "{}" t d] step_prune obtain es' where
    p: "p = \<lparr>bp_maximum_depth = d, bp_entries = es'\<rparr>" "pruning c (floor_subtract t d) {} [] es'"
    "kept (floor_subtract t d) {} es es'"
    by (auto simp: healthy_def)
  then have "\<forall>b \<in> pool_blocks es'. 0 < pb_height b"
    using step_prune(2) unfolding healthy_def healthy_blocks kept_def by blast
  then show ?case using p unfolding healthy_def healthy_blocks by (simp add: pruning_def)
qed

lemma reachable_healthy: "pool_reachable c es \<Longrightarrow> healthy c es"
  unfolding pool_reachable_def
proof (induction rule: rtranclp_induct)
  case base
  show ?case by (simp add: healthy_def entries_ok_def forest_def unique_def)
next
  case (step y z)
  show ?case by (rule pool_step_healthy [OF step(2,3)])
qed

section \<open>Lemmas on paths\<close>

definition path_to :: "crypto \<Rightarrow> pool_entries \<Rightarrow> branch \<Rightarrow> block list \<Rightarrow> bool" where
  "path_to c es b suffix \<longleftrightarrow>
     (\<exists>pre. br_blocks b = pre @ suffix \<and> (\<forall>x \<in> set pre. \<exists>e \<in> set es. pb_block (pe_block e) = x)) \<and>
     linked c (br_blocks b) \<and> br_height b = 0 \<and> \<not> branch_empty b \<and> branch_hash b \<notin> pe_hash ` set es"

lemma path_loop_ok:
  assumes ok: "entries_ok c es"
  shows "e \<in> set es \<Longrightarrow> linked c suffix \<Longrightarrow> suffix \<noteq> [] \<Longrightarrow>
    previous_block_hash (blk_header (hd suffix)) = pe_hash e \<Longrightarrow>
    \<exists>b. path_loop c es (pb_block (pe_block e)) \<lparr>br_height = 0, br_blocks = suffix\<rparr> = Some b \<and> path_to c es b suffix"
proof (induction "pb_height (pe_block e)" arbitrary: e suffix rule: less_induct)
  case less
  let ?x = "pb_block (pe_block e)"
  have hash: "block_hash c ?x = pe_hash e" using entries_okD(2) [OF ok less.prems(1)] by simp
  have push: "snd (push_front c ?x \<lparr>br_height = 0, br_blocks = suffix\<rparr>) = \<lparr>br_height = 0, br_blocks = ?x # suffix\<rparr>"
    using less.prems(4) hash by (simp add: push_front_def)
  have link: "linked c (?x # suffix)"
    using less.prems(2-4) hash by (cases suffix) (simp_all add: linked_def)
  show ?case
  proof (cases "find_entry (pe_parent e) es")
    case None
    then have "path_loop c es ?x \<lparr>br_height = 0, br_blocks = suffix\<rparr> = Some \<lparr>br_height = 0, br_blocks = ?x # suffix\<rparr>"
      by (subst path_loop.simps) (simp add: push pool_parent_def pe_parent_def)
    moreover have "path_to c es \<lparr>br_height = 0, br_blocks = ?x # suffix\<rparr> suffix"
      using None link less.prems(1) find_entry_None [of "pe_parent e" es]
      by (auto simp: path_to_def branch_empty_def branch_hash_def pe_parent_def)
    ultimately show ?thesis by blast
  next
    case (Some y)
    note y = find_entry_Some [OF Some]
    have step: "path_loop c es ?x \<lparr>br_height = 0, br_blocks = suffix\<rparr> =
        path_loop c es (pb_block (pe_block y)) \<lparr>br_height = 0, br_blocks = ?x # suffix\<rparr>"
      using Some by (subst path_loop.simps) (simp add: push pool_parent_def pe_parent_def)
    have "pb_height (pe_block y) < pb_height (pe_block e)"
      using entries_okD(5) [OF ok _ less.prems(1), of y] y by simp
    from less.hyps [OF this, of "?x # suffix"] obtain b where
      b: "path_loop c es (pb_block (pe_block y)) \<lparr>br_height = 0, br_blocks = ?x # suffix\<rparr> = Some b" "path_to c es b (?x # suffix)"
      using y link by (auto simp: pe_parent_def)
    obtain pre where pre: "br_blocks b = pre @ ?x # suffix" "\<forall>x \<in> set pre. \<exists>e \<in> set es. pb_block (pe_block e) = x"
      using b(2) by (auto simp: path_to_def)
    have "path_to c es b suffix"
      using b(2) pre less.prems(1) unfolding path_to_def by (intro conjI exI [of _ "pre @ [?x]"]) auto
    then show ?thesis using b(1) step by auto
  qed
qed

section \<open>An example\<close>

definition example_next_block :: block where
  "example_next_block = example_block\<lparr>blk_header := (blk_header example_block)\<lparr>previous_block_hash := replicate 32 1\<rparr>\<rparr>"

definition example_pool_block :: "nat \<Rightarrow> pool_block" where
  "example_pool_block n = \<lparr>pb_block = example_next_block, pb_height = n\<rparr>"

lemma example_block_hash: "block_hash constant_crypto example_next_block = replicate 32 0"
  by (simp add: block_hash_def header_hash_def bitcoin_hash_def constant_crypto_def)

lemma example_fits: "fits_pool constant_crypto (example_pool_block n) []"
  by (simp add: fits_pool_def example_pool_block_def example_block_hash) (simp add: example_next_block_def)

definition example_pool :: pool_entries where
  "example_pool = pool_add constant_crypto (example_pool_block 5) []"

lemma example_pool_reachable: "pool_reachable constant_crypto example_pool" "pool_reachable constant_crypto []"
  unfolding pool_reachable_def example_pool_def
  by (rule r_into_rtranclp, rule step_add [OF example_fits]) (simp_all add: example_pool_block_def)

section \<open>Properties\<close>

text \<open>C29: The pool is a forest: however blocks that fit are added, paths removed and expired roots pruned, an entry is below a
  root exactly if its parent is in the pool with it among its children; heights grow along the trees. Pruning then reads
  no entry that is not there, and leaves exactly the blocks that are not below the minimum height.\<close>

theorem pool_forest:
  assumes "pool_reachable c es"
  shows "(\<forall>e \<in> set es. pe_position e = 0 \<longleftrightarrow> (\<exists>p \<in> set es. pe_hash e \<in> set (pe_children p))) \<and>
    (\<forall>p \<in> set es. \<forall>h \<in> set (pe_children p). \<exists>e \<in> set es. pe_hash e = h \<and> pe_parent e = pe_hash p \<and>
      pb_height (pe_block p) < pb_height (pe_block e)) \<and>
    (\<exists>es'. pool_prune t \<lparr>bp_maximum_depth = d, bp_entries = es\<rparr> = Some \<lparr>bp_maximum_depth = d, bp_entries = es'\<rparr> \<and>
      pool_blocks es' = {b \<in> pool_blocks es. t - d \<le> pb_height b})"
proof (intro conjI)
  have ok: "entries_ok c es" and f: "forest es {}" using reachable_healthy [OF assms] by (simp_all add: healthy_def)
  show "\<forall>p \<in> set es. \<forall>h \<in> set (pe_children p). \<exists>e \<in> set es. pe_hash e = h \<and> pe_parent e = pe_hash p \<and>
      pb_height (pe_block p) < pb_height (pe_block e)"
    using entries_okD(5,6) [OF ok] by metis
  show "\<forall>e \<in> set es. pe_position e = 0 \<longleftrightarrow> (\<exists>p \<in> set es. pe_hash e \<in> set (pe_children p))"
  proof (intro ballI iffI)
    fix e assume e: "e \<in> set es" "\<exists>p \<in> set es. pe_hash e \<in> set (pe_children p)"
    then obtain z where "z \<in> set es" "pe_hash z = pe_hash e" "pe_position z = 0" using entries_okD(6) [OF ok] by blast
    then show "pe_position e = 0" using unique_eq [OF entries_okD(1) [OF ok] _ e(1)] by metis
  qed (use f in \<open>auto simp: forest_def\<close>)
  have m: "floor_subtract t d = t - d" by (simp add: floor_subtract_def)
  from pool_prune_ok [OF ok f, of t d] obtain es' where
    es': "pool_prune t \<lparr>bp_maximum_depth = d, bp_entries = es\<rparr> = Some \<lparr>bp_maximum_depth = d, bp_entries = es'\<rparr>"
    "pruning c (t - d) {} [] es'" "kept (t - d) {} es es'"
    by (auto simp: m)
  have "pool_blocks es' = {b \<in> pool_blocks es. t - d \<le> pb_height b}"
    using es'(3) pruned_high [OF es'(2)] unfolding kept_def pool_blocks_def by (auto simp: image_iff) metis
  with es'(1) show "\<exists>es'. pool_prune t \<lparr>bp_maximum_depth = d, bp_entries = es\<rparr> = Some \<lparr>bp_maximum_depth = d, bp_entries = es'\<rparr> \<and>
      pool_blocks es' = {b \<in> pool_blocks es. t - d \<le> pb_height b}"
    by blast
qed

theorem pool_forest_witness:
  "\<exists>es'. pool_prune 10 \<lparr>bp_maximum_depth = 3, bp_entries = example_pool\<rparr> = Some \<lparr>bp_maximum_depth = 3, bp_entries = es'\<rparr> \<and>
     pool_blocks es' = {b \<in> pool_blocks example_pool. 7 \<le> pb_height b}"
  using pool_forest [OF example_pool_reachable(1), of 10 3] by simp

text \<open>C30: The path of a block ends and is complete: for a block that is not in a reachable pool, the loop over the parents
  ends with a branch of linked blocks whose top is the block, whose other blocks are in the pool and whose first block has
  no parent there; for a block in the pool it is the empty branch.\<close>

theorem get_path_complete:
  assumes "pool_reachable c es"
  shows "\<exists>b. get_path c es block = Some b \<and>
    (if pool_exists c es block then branch_empty b
     else branch_top b = Some block \<and> linked c (br_blocks b) \<and> br_height b = 0 \<and> branch_hash b \<notin> pe_hash ` set es \<and>
       (\<forall>x \<in> set (butlast (br_blocks b)). x \<in> pb_block ` pool_blocks es))"
proof (cases "pool_exists c es block")
  case True
  then show ?thesis by (simp add: get_path_def new_branch_def branch_empty_def)
next
  case False
  have ok: "entries_ok c es" using reachable_healthy [OF assms] by (simp add: healthy_def)
  let ?one = "\<lparr>br_height = 0, br_blocks = [block]\<rparr>" and ?p = "previous_block_hash (blk_header block)"
  have push: "snd (push_front c block (new_branch 0)) = ?one" by (simp add: push_front_def branch_empty_def new_branch_def)
  have single: "linked c [block]" by (simp add: linked_def)
  have "\<exists>b. path_loop c es block (new_branch 0) = Some b \<and> path_to c es b [block]"
  proof (cases "find_entry ?p es")
    case None
    then have "path_loop c es block (new_branch 0) = Some ?one"
      by (subst path_loop.simps) (simp add: push pool_parent_def)
    moreover have "path_to c es ?one [block]"
      using None find_entry_None [of ?p es] by (simp add: path_to_def linked_def branch_empty_def branch_hash_def)
    ultimately show ?thesis by blast
  next
    case (Some e)
    then have "path_loop c es block (new_branch 0) = path_loop c es (pb_block (pe_block e)) ?one"
      by (subst path_loop.simps) (simp add: push pool_parent_def)
    then show ?thesis using path_loop_ok [OF ok _ single, of e] find_entry_Some [OF Some] by simp
  qed
  then obtain b pre where "path_loop c es block (new_branch 0) = Some b" "br_blocks b = pre @ [block]"
    "\<forall>x \<in> set pre. \<exists>e \<in> set es. pb_block (pe_block e) = x" "linked c (br_blocks b)" "br_height b = 0"
    "branch_hash b \<notin> pe_hash ` set es"
    by (auto simp: path_to_def)
  then show ?thesis
    using False by (auto simp: get_path_def branch_top_def branch_empty_def pool_blocks_def image_iff)
qed

theorem get_path_complete_witness:
  "\<exists>b. get_path constant_crypto example_pool example_next_block = Some b \<and> branch_empty b"
proof -
  have "pool_exists constant_crypto example_pool example_next_block"
    by (simp add: pool_exists_def example_pool_def pool_add_def find_entry_def insert_entry_def new_entry_def
      example_pool_block_def Let_def)
  then show ?thesis using get_path_complete [OF example_pool_reachable(1), of example_next_block] by auto
qed

text \<open>Blocks that a reorganisation takes out of the chain come back without a height. Such a block, if its parent is not in
  the pool, is entered as if it were below a root and is never pruned, however far the chain grows.\<close>

theorem unprunable:
  assumes "pool_reachable c es" "fits_pool c b es" "pb_height b = 0"
    "previous_block_hash (blk_header (pb_block b)) \<notin> pe_hash ` set es"
  shows "\<exists>es'. pool_prune t \<lparr>bp_maximum_depth = d, bp_entries = pool_add c b es\<rparr> =
      Some \<lparr>bp_maximum_depth = d, bp_entries = es'\<rparr> \<and> b \<in> pool_blocks es'"
proof -
  let ?h = "block_hash c (pb_block b)"
  have healthy: "entries_ok c es" "forest es {}" using reachable_healthy [OF assms(1)] by (simp_all add: healthy_def)
  have fresh: "?h \<notin> pe_hash ` set es" using assms(2) by (simp add: fits_pool_def Let_def)
  have ok: "entries_ok c (pool_add c b es)" by (rule pool_add_ok(1) [OF healthy(1) assms(2)])
  have f: "forest (pool_add c b es) {?h}"
    using pool_add_ok(2) [OF healthy(1) assms(2) healthy(2)] assms(3,4) by simp
  note set_a = set_pool_add [OF fresh]
  let ?n = "new_entry c b 0"
  have n: "?n \<in> set (pool_add c b es)" "pe_hash ?n = ?h" "pe_block ?n = b" "pe_position ?n = 0"
    using assms(3,4) unfolding set_a by (simp_all add: new_entry_def)
  have "\<forall>e \<in> set (pool_add c b es). pe_hash e \<in> {?h} \<longrightarrow> pe_position e = 0"
    using unique_eq [OF entries_okD(1) [OF ok] n(1)] n(2,4) by fastforce
  from pool_prune_ok [OF ok f this, of t d] obtain es' where
    "pool_prune t \<lparr>bp_maximum_depth = d, bp_entries = pool_add c b es\<rparr> = Some \<lparr>bp_maximum_depth = d, bp_entries = es'\<rparr>"
    "kept (floor_subtract t d) {?h} (pool_add c b es) es'"
    by blast
  moreover from this(2) n have "b \<in> pool_blocks es'" unfolding kept_def pool_blocks_def by force
  ultimately show ?thesis by blast
qed

theorem unprunable_witness:
  "\<exists>es'. pool_prune 1000000 \<lparr>bp_maximum_depth = 3, bp_entries = pool_add constant_crypto (example_pool_block 0) []\<rparr> =
      Some \<lparr>bp_maximum_depth = 3, bp_entries = es'\<rparr> \<and> example_pool_block 0 \<in> pool_blocks es'"
  using unprunable [OF example_pool_reachable(2) example_fits, of 0 1000000 3]
  by (simp add: example_pool_block_def)

end
