(* ===== verification/Synchronizer.thy ===== *)
theory Synchronizer
  imports Main
begin

text \<open>
  The join of concurrent work (infrastructure/include/kth/infrastructure/utility/synchronizer.hpp): a handler that is
  called once, on the first result that decides or on the last one. Concurrent completions are sequences of calls:
  each call is one critical section.
\<close>

section \<open>The synchronizer\<close>

datatype synchronizer_terminate = on_error | on_success | on_count

record synchronizer =
  sync_clearance :: nat
  sync_counter :: nat
  sync_mode :: synchronizer_terminate

definition synchronize :: "nat \<Rightarrow> synchronizer_terminate \<Rightarrow> synchronizer" where
  "synchronize clearance_count mode =
     \<lparr>sync_clearance = clearance_count, sync_counter = 0, sync_mode = mode\<rparr>"

text \<open>The codes are of any type with a code \<open>ok\<close> of success.\<close>

definition sync_complete :: "'e \<Rightarrow> synchronizer_terminate \<Rightarrow> 'e \<Rightarrow> bool" where
  "sync_complete ok mode ec =
     (case mode of on_error \<Rightarrow> ec \<noteq> ok | on_success \<Rightarrow> ec = ok | on_count \<Rightarrow> False)"

definition sync_result :: "'e \<Rightarrow> synchronizer_terminate \<Rightarrow> 'e \<Rightarrow> 'e" where
  "sync_result ok mode ec =
     (case mode of on_error \<Rightarrow> if ec \<noteq> ok then ec else ok | on_success \<Rightarrow> if ec = ok then ok else ec | on_count \<Rightarrow> ok)"

text \<open>A call, with the code that the handler is called with, if it is.\<close>

definition sync_call :: "'e \<Rightarrow> synchronizer \<Rightarrow> 'e \<Rightarrow> synchronizer \<times> 'e option" where
  "sync_call ok s ec =
     (let initial_count = sync_counter s
      in if initial_count = sync_clearance s then (s, None)
         else
           let n = (if sync_complete ok (sync_mode s) ec then sync_clearance s else initial_count + 1);
               s = s\<lparr>sync_counter := n\<rparr>
           in (s, if n = sync_clearance s then Some (sync_result ok (sync_mode s) ec) else None))"

text \<open>A sequence of calls, with all calls of the handler.\<close>

fun sync_run :: "'e \<Rightarrow> synchronizer \<Rightarrow> 'e list \<Rightarrow> 'e list" where
  "sync_run ok s [] = []"
| "sync_run ok s (ec # ecs) =
     (case sync_call ok s ec of (s, called) \<Rightarrow> (case called of None \<Rightarrow> [] | Some r \<Rightarrow> [r]) @ sync_run ok s ecs)"

section \<open>Lemmas\<close>

lemma sync_run_cleared: "sync_counter s = sync_clearance s \<Longrightarrow> sync_run ok s ecs = []"
  by (induction ecs) (simp_all add: sync_call_def)

text \<open>The code that decides: the first one that completes, or else the last one.\<close>

definition deciding :: "'e \<Rightarrow> synchronizer_terminate \<Rightarrow> 'e list \<Rightarrow> 'e" where
  "deciding ok mode ecs = (case List.find (sync_complete ok mode) ecs of Some ec \<Rightarrow> ec | None \<Rightarrow> last ecs)"

lemma sync_run_once:
  assumes "sync_clearance s = sync_counter s + length ecs" "ecs \<noteq> []"
  shows "sync_run ok s ecs = [sync_result ok (sync_mode s) (deciding ok (sync_mode s) ecs)]"
  using assms
proof (induction ecs arbitrary: s)
  case (Cons ec ecs)
  show ?case
  proof (cases "sync_complete ok (sync_mode s) ec")
    case True
    then show ?thesis using Cons.prems by (simp add: sync_call_def deciding_def Let_def sync_run_cleared)
  next
    case False
    show ?thesis
    proof (cases "ecs = []")
      case True
      then show ?thesis using False Cons.prems by (simp add: sync_call_def deciding_def Let_def)
    next
      case more: False
      have "sync_run ok (s\<lparr>sync_counter := Suc (sync_counter s)\<rparr>) ecs =
          [sync_result ok (sync_mode s) (deciding ok (sync_mode s) ecs)]"
        using Cons.IH [of "s\<lparr>sync_counter := Suc (sync_counter s)\<rparr>"] Cons.prems more by simp
      then show ?thesis
        using False more Cons.prems by (simp add: sync_call_def deciding_def Let_def cong: option.case_cong)
    qed
  qed
qed simp

text \<open>A join of as many results as it waits for.\<close>

definition join :: "'e \<Rightarrow> synchronizer_terminate \<Rightarrow> 'e list \<Rightarrow> 'e list" where
  "join ok mode ecs = sync_run ok (synchronize (length ecs) mode) ecs"

lemma join_on_error:
  assumes "ecs \<noteq> []"
  shows "join ok on_error ecs = [case List.find (\<lambda>ec. ec \<noteq> ok) ecs of Some ec \<Rightarrow> ec | None \<Rightarrow> ok]"
proof -
  have "sync_complete ok on_error = (\<lambda>ec. ec \<noteq> ok)" by (simp add: sync_complete_def fun_eq_iff)
  then show ?thesis
    using sync_run_once [of "synchronize (length ecs) on_error" ecs ok] assms
    by (cases "List.find (\<lambda>ec. ec \<noteq> ok) ecs")
      (auto simp: join_def synchronize_def sync_result_def deciding_def dest: find_Some_iff [THEN iffD1] find_None_iff [THEN iffD1])
qed

lemma join_on_error_ok: "ecs \<noteq> [] \<Longrightarrow> join ok on_error ecs = [ok] \<longleftrightarrow> (\<forall>ec \<in> set ecs. ec = ok)"
  by (auto simp: join_on_error find_None_iff find_Some_iff split: option.splits)

section \<open>Properties\<close>



end
