(* ===== verification/Validation.thy ===== *)
theory Validation
  imports Synchronizer Branch
begin

text \<open>
  The validation of a block and of a transaction in parallel (blockchain/src/validate/validate_block.cpp and
  validate_transaction.cpp, blockchain/src/populate/populate_block.cpp): the work is split over buckets, one for each
  thread, whose results are joined in the order in which they come.
\<close>

section \<open>Codes and buckets\<close>

text \<open>The code of a handler: that the service has stopped, one of the numbered failures of an operation, or a code of
  the validation.\<close>

datatype handler_code = Service_stopped | Operation_failed nat | Handled error_code

abbreviation handled_success :: handler_code where "handled_success \<equiv> Handled success"

text \<open>The positions \<open>first\<close>, \<open>first + buckets\<close> and so on, with the addition that stops at the maximum. There is at least
  one bucket.\<close>

function bucket_positions :: "nat \<Rightarrow> nat \<Rightarrow> nat \<Rightarrow> nat list" where
  "bucket_positions first buckets n =
     (if first < n \<and> 0 < buckets \<and> n \<le> max_uint64 then first # bucket_positions (ceiling_add first buckets) buckets n
      else [])"
  by pat_completeness auto
termination
  by (relation "measure (\<lambda>(first, _, n). n - first)") (auto simp: ceiling_add_def split: if_splits)

declare bucket_positions.simps [simp del]

text \<open>The join of the buckets, whose results come in the order of \<open>order\<close>. It has none if a bucket does not return.\<close>

definition join_buckets :: "nat list \<Rightarrow> (nat \<Rightarrow> handler_code option) \<Rightarrow> handler_code option" where
  "join_buckets order result =
     (if list_ex (\<lambda>b. result b = None) order then None
      else case join handled_success on_error (map (\<lambda>b. the (result b)) order) of
          [] \<Rightarrow> None
        | ec # _ \<Rightarrow> Some ec)"

section \<open>Checking\<close>

text \<open>A block without transactions is not checked. The hashes of the transactions, which are computed before, are
  functions here.\<close>

definition validate_check :: "crypto \<Rightarrow> u256 option \<Rightarrow> nat \<Rightarrow> bool \<Rightarrow> block \<Rightarrow> handler_code \<times> u256 option" where
  "validate_check c limit now stopped b =
     (if blk_txs b = [] then (handled_success, limit)
      else if stopped then (Service_stopped, limit)
      else case block_check c limit now b of (ec, limit) \<Rightarrow> (Handled ec, limit))"

section \<open>Accepting\<close>

text \<open>The positions of a bucket: its first error and the count of signature operations.\<close>

fun accept_bucket :: "chain_state \<Rightarrow> bool \<Rightarrow> block_tx list \<Rightarrow> nat list \<Rightarrow> nat \<Rightarrow> (error_code \<times> nat) option" where
  "accept_bucket s bip16 txs [] ops = Some (success, ops)"
| "accept_bucket s bip16 txs (i # is) ops = do {
     let t = txs ! i;
     ec \<leftarrow> (if \<not> bt_validated t then transaction_accept (bt_tx t) s (bt_duplicate t) False else Some success);
     n \<leftarrow> tx_signature_operations (bt_tx t) bip16;
     if ec \<noteq> success then Some (ec, ops + n) else accept_bucket s bip16 txs is (ops + n) }"

definition handle_accepted :: "chain_state \<Rightarrow> nat \<Rightarrow> nat \<Rightarrow> handler_code \<Rightarrow> handler_code" where
  "handle_accepted s serialized_size ops ec =
     (if ec \<noteq> handled_success then ec
      else if state_fermat_enabled s then handled_success
      else Handled (if ops > get_allowed_sigops serialized_size then Block_error err_block_embedded_sigop_limit
        else success))"

text \<open>The sequence of the buckets is the order in which they complete. Each one reads whether the service has stopped.\<close>

definition accept_buckets ::
  "chain_state \<Rightarrow> block \<Rightarrow> nat \<Rightarrow> (nat \<Rightarrow> bool) \<Rightarrow> nat \<Rightarrow> nat list \<Rightarrow> handler_code option" where
  "accept_buckets s b serialized_size stopped buckets order =
     (let bip16 = state_is_enabled s bip16_rule;
          run = (\<lambda>i. accept_bucket s bip16 (blk_txs b) (bucket_positions i buckets (length (blk_txs b))) 0);
          result = (\<lambda>i. if stopped i then Some Service_stopped else map_option (\<lambda>r. Handled (fst r)) (run i));
          ops = sum_list (map (\<lambda>i. if stopped i then 0 else case run i of None \<Rightarrow> 0 | Some r \<Rightarrow> snd r) order) mod size_t_range
      in map_option (handle_accepted s serialized_size ops) (join_buckets order result))"

definition handle_populated ::
  "crypto \<Rightarrow> chain_state \<Rightarrow> block \<Rightarrow> bool \<Rightarrow> (nat \<Rightarrow> bool) \<Rightarrow> nat \<Rightarrow> nat list \<Rightarrow> handler_code option" where
  "handle_populated c s b stopped_before stopped buckets order =
     (if stopped_before then Some Service_stopped else do {
       ec \<leftarrow> block_accept c b s (block_serialized_size b) False;
       if ec \<noteq> success then Some (Handled ec)
       else if is_under_checkpoint s then Some (handle_accepted s (block_serialized_size b) 0 handled_success)
       else accept_buckets s b (block_serialized_size b) stopped buckets order })"

section \<open>Connecting\<close>

text \<open>The verification of a script, with its count of signature checks: that of the consensus library, or that of the
  interpreter without a count, is a parameter. \<open>None\<close> is an end of the process.\<close>

type_synonym script_verifier = "transaction \<Rightarrow> u32 \<Rightarrow> forks \<Rightarrow> (handler_code \<times> nat) option"

definition interpreter_verifier :: "crypto \<Rightarrow> script_verifier" where
  "interpreter_verifier c tx i forks =
     (case chain_verify c tx i forks of Some (Returned ec) \<Rightarrow> Some (Handled ec, 0) | _ \<Rightarrow> None)"

record connect_job =
  job_verify :: script_verifier
  job_limit :: nat
  job_forks :: forks
  job_stopped :: "nat \<Rightarrow> bool"
  job_buckets :: nat

text \<open>The inputs of a transaction from an index on, with the position among all inputs and the count of checks.\<close>

fun connect_tx_inputs ::
  "connect_job \<Rightarrow> nat \<Rightarrow> transaction \<Rightarrow> tx_input list \<Rightarrow> nat \<Rightarrow> nat \<Rightarrow> nat \<Rightarrow> (handler_code \<times> nat \<times> nat) option" where
  "connect_tx_inputs j bucket tx [] index pos checks = Some (handled_success, pos, checks)"
| "connect_tx_inputs j bucket tx (i # is) index pos checks =
     (if pos mod job_buckets j \<noteq> bucket then connect_tx_inputs j bucket tx is (index + 1) (pos + 1) checks
      else if job_stopped j pos then Some (Service_stopped, pos, checks)
      else if \<not> output_is_valid (pv_cache (validation (in_prevout i)))
      then Some (Handled (Tx_error err_missing_previous_output), pos, checks)
      else do {
        r \<leftarrow> job_verify j tx (of_nat index) (job_forks j);
        if fst r \<noteq> handled_success then Some (fst r, pos, checks)
        else if checks + snd r > job_limit j then Some (Handled (Block_error err_block_sigchecks_limit), pos, checks + snd r)
        else connect_tx_inputs j bucket tx is (index + 1) (pos + 1) (checks + snd r) })"

text \<open>Transactions of the pool that were validated under the same rules are skipped.\<close>

fun connect_bucket ::
  "connect_job \<Rightarrow> (block_tx \<Rightarrow> bool) \<Rightarrow> nat \<Rightarrow> block_tx list \<Rightarrow> nat \<Rightarrow> nat \<Rightarrow> handler_code option" where
  "connect_bucket j current bucket [] pos checks = Some handled_success"
| "connect_bucket j current bucket (t # ts) pos checks =
     (if current t \<or> bt_validated t then connect_bucket j current bucket ts pos checks
      else do {
        (ec, pos, checks) \<leftarrow> connect_tx_inputs j bucket (bt_tx t) (tx_inputs (bt_tx t)) 0 pos checks;
        if ec \<noteq> handled_success then Some ec else connect_bucket j current bucket ts pos checks })"

definition connect_block ::
  "chain_state \<Rightarrow> script_verifier \<Rightarrow> (nat \<Rightarrow> bool) \<Rightarrow> (block_tx \<Rightarrow> bool) \<Rightarrow> block \<Rightarrow> nat \<Rightarrow> nat list \<Rightarrow> handler_code option" where
  "connect_block s verifier stopped current b buckets order =
     (if is_under_checkpoint s then Some handled_success
      else if total_inputs b False = 0 then Some handled_success
      else
        let j = \<lparr>job_verify = verifier, job_limit = dynamic_max_block_sigchecks s, job_forks = act_forks (cs_active s),
              job_stopped = stopped, job_buckets = buckets\<rparr>
        in join_buckets order (\<lambda>i. connect_bucket j current i (tl (blk_txs b)) 0 0))"

text \<open>The buckets are one for each thread, or fewer.\<close>

definition bucket_count :: "nat \<Rightarrow> nat \<Rightarrow> nat" where
  "bucket_count threads n = min threads n"

section \<open>Lemmas on buckets\<close>

lemma filter_mod_gap:
  fixes n :: nat
  assumes "0 < k"
  shows "filter (\<lambda>p. p mod k = a mod k) [a..<n] =
    (if a < n then a # filter (\<lambda>p. p mod k = a mod k) [a + k..<n] else [])"
proof (cases "a < n")
  case True
  define m where "m = min n (a + k)"
  have "[a..<n] = a # [Suc a..<m] @ [m..<n]"
    using True assms upt_add_eq_append [of "Suc a" m "n - m"] by (simp add: m_def upt_conv_Cons)
  moreover have "filter (\<lambda>p. p mod k = a mod k) [Suc a..<m] = []"
  proof (rule filter_False, rule ballI, rule notI)
    fix p assume "p \<in> set [Suc a..<m]" "p mod k = a mod k"
    then have "a < p" "p < a + k" "k dvd p - a" by (auto simp: m_def simp flip: mod_eq_dvd_iff_nat)
    then show False using dvd_imp_le [of k "p - a"] by simp
  qed
  moreover have "[m..<n] = [a + k..<n]" by (simp add: m_def min_def)
  ultimately show ?thesis using True by simp
qed simp

lemma bucket_positions_filter:
  assumes "n \<le> max_uint64" "0 < k"
  shows "bucket_positions a k n = filter (\<lambda>p. p mod k = a mod k) [a..<n]"
  using assms
proof (induction a k n rule: bucket_positions.induct)
  case (1 a k n)
  show ?case
  proof (cases "a < n")
    case True
    then have "bucket_positions a k n = a # bucket_positions (ceiling_add a k) k n"
      using 1 by (subst bucket_positions.simps) simp
    moreover have "bucket_positions (ceiling_add a k) k n = filter (\<lambda>p. p mod k = a mod k) [a + k..<n]"
    proof (cases "ceiling_add a k = a + k")
      case same: True
      then show ?thesis using 1 True by simp
    next
      case False
      then have "ceiling_add a k = max_uint64" "max_uint64 \<le> a + k" by (auto simp: ceiling_add_def split: if_splits)
      then show ?thesis using 1(2) by (simp add: bucket_positions.simps)
    qed
    ultimately show ?thesis using True 1 filter_mod_gap [of k a n] by simp
  qed (simp add: bucket_positions.simps)
qed

lemma bucket_positions_of:
  assumes "n \<le> max_uint64" "i < k"
  shows "bucket_positions i k n = filter (\<lambda>p. p mod k = i) [0..<n]"
proof (cases "i \<le> n")
  case True
  then have "[0..<n] = [0..<i] @ [i..<n]" using upt_add_eq_append [of 0 i "n - i"] by simp
  moreover have "filter (\<lambda>p. p mod k = i) [0..<i] = []" using assms by (auto simp: filter_empty_conv)
  ultimately show ?thesis using assms bucket_positions_filter [of n k i] by simp
next
  case False
  then show ?thesis using assms bucket_positions_filter [of n k i] by (auto simp: filter_empty_conv)
qed

text \<open>Sums and conditions over all buckets, in any order, are over all positions.\<close>

lemma sum_buckets:
  fixes f :: "nat \<Rightarrow> nat"
  assumes "mset order = mset [0..<k]" "0 < k"
  shows "(\<Sum>i \<leftarrow> order. \<Sum>p \<leftarrow> filter (\<lambda>p. p mod k = i) [0..<n]. f p) = (\<Sum>p \<leftarrow> [0..<n]. f p)"
proof -
  let ?g = "\<lambda>i. \<Sum>p \<leftarrow> filter (\<lambda>p. p mod k = i) [0..<n]. f p"
  have "sum_list (map ?g order) = sum_list (map ?g [0..<k])"
    using arg_cong [OF assms(1), of "\<lambda>m. sum_mset (image_mset ?g m)"] by (simp flip: sum_mset_sum_list)
  also have "\<dots> = (\<Sum>i \<in> {..<k}. \<Sum>p \<in> {p \<in> {..<n}. p mod k = i}. f p)"
    by (simp add: interv_sum_list_conv_sum_set_nat sum_list_distinct_conv_sum_set atLeast0LessThan lessThan_def
        conj_commute)
  also have "\<dots> = (\<Sum>p \<in> {..<n}. f p)"
    using assms(2) by (intro sum.group) auto
  finally show ?thesis by (simp add: interv_sum_list_conv_sum_set_nat atLeast0LessThan)
qed

lemma all_buckets:
  assumes "mset order = mset [0..<k]" "0 < k"
  shows "(\<forall>i \<in> set order. \<forall>p \<in> set (filter (\<lambda>p. p mod k = i) [0..<n]). P p) \<longleftrightarrow> (\<forall>p < n. P p)"
proof -
  have "set order = {0..<k}" using mset_eq_setD [OF assms(1)] by simp
  then show ?thesis using assms(2) by auto
qed

lemma join_buckets_success:
  assumes "order \<noteq> []"
  shows "join_buckets order result = Some handled_success \<longleftrightarrow> (\<forall>i \<in> set order. result i = Some handled_success)"
proof (cases "list_ex (\<lambda>i. result i = None) order")
  case True
  then show ?thesis by (auto simp: join_buckets_def list_ex_iff intro!: bexI)
next
  case False
  let ?codes = "map (\<lambda>i. the (result i)) order"
  have "join_buckets order result = Some handled_success \<longleftrightarrow> join handled_success on_error ?codes = [handled_success]"
    using False assms by (simp add: join_buckets_def join_on_error)
  also have "\<dots> \<longleftrightarrow> (\<forall>i \<in> set order. the (result i) = handled_success)"
    using assms by (subst join_on_error_ok) simp_all
  also have "\<dots> \<longleftrightarrow> (\<forall>i \<in> set order. result i = Some handled_success)"
    using False by (fastforce simp: list_ex_iff)
  finally show ?thesis .
qed

section \<open>Lemmas on acceptance\<close>

lemma accept_bucket_success:
  assumes "\<forall>i \<in> set is. tx_signature_operations (bt_tx (txs ! i)) bip16 \<noteq> None"
  shows "accept_bucket s bip16 txs is ops = Some (success, m) \<longleftrightarrow>
    (\<forall>i \<in> set is. bt_validated (txs ! i) \<or>
      transaction_accept (bt_tx (txs ! i)) s (bt_duplicate (txs ! i)) False = Some success) \<and>
    m = ops + (\<Sum>i \<leftarrow> is. the (tx_signature_operations (bt_tx (txs ! i)) bip16))"
  using assms
proof (induction "is" arbitrary: ops)
  case (Cons i "is")
  then obtain n where "tx_signature_operations (bt_tx (txs ! i)) bip16 = Some n" by auto
  with Cons show ?case by (auto simp: Let_def split: bind_splits)
qed auto

lemma block_signature_operations_sum:
  assumes "\<forall>t \<in> set (blk_txs b). tx_signature_operations (bt_tx t) bip16 \<noteq> None"
  shows "block_signature_operations b bip16 =
    Some (min max_uint64 (\<Sum>t \<leftarrow> blk_txs b. the (tx_signature_operations (bt_tx t) bip16)))"
proof -
  let ?f = "\<lambda>t. the (tx_signature_operations (bt_tx t) bip16)"
  have le: "?f t \<le> max_uint64" if t: "t \<in> set (blk_txs b)" for t
  proof -
    obtain n where n: "tx_signature_operations (bt_tx t) bip16 = Some n" using assms t by blast
    then have "n < size_t_range" by (auto simp: tx_signature_operations_def split: bind_splits)
    with n show ?thesis by simp
  qed
  have "fold (\<lambda>t sum. do { s \<leftarrow> sum; n \<leftarrow> tx_signature_operations (bt_tx t) bip16; Some (ceiling_add s n) }) ts (Some a) =
      Some (fold (\<lambda>t sum. ceiling_add sum (?f t)) ts a)" if "set ts \<subseteq> set (blk_txs b)" for ts a
    using that
  proof (induction ts arbitrary: a)
    case (Cons t ts)
    then obtain n where "tx_signature_operations (bt_tx t) bip16 = Some n" using assms by auto
    with Cons show ?case by simp
  qed simp
  then show ?thesis
    using fold_ceiling_add [of "blk_txs b" ?f 0] le by (simp add: block_signature_operations_def)
qed

text \<open>Acceptance with transactions is acceptance without them, the limit of signature operations and theirs.\<close>

lemma block_accept_transactions:
  assumes "\<not> is_under_checkpoint s"
    "\<forall>t \<in> set (blk_txs b). tx_signature_operations (bt_tx t) (state_is_enabled s bip16_rule) \<noteq> None"
    "(\<Sum>t \<leftarrow> blk_txs b. the (tx_signature_operations (bt_tx t) (state_is_enabled s bip16_rule))) \<le> max_uint64"
  shows "block_accept c b s n True = Some success \<longleftrightarrow>
    block_accept c b s n False = Some success \<and>
    (state_fermat_enabled s \<or>
      (\<Sum>t \<leftarrow> blk_txs b. the (tx_signature_operations (bt_tx t) (state_is_enabled s bip16_rule))) \<le> get_allowed_sigops n) \<and>
    accept_transactions s (blk_txs b) = Some success"
  using assms(1,3)
  by (auto simp: block_accept_def Let_def block_signature_operations_sum [OF assms(2)] not_less split: bind_splits if_splits)

lemma accept_buckets_success:
  assumes "mset order = mset [0..<k]" "0 < k" "length (blk_txs b) \<le> max_uint64"
    and ops: "\<forall>t \<in> set (blk_txs b). tx_signature_operations (bt_tx t) (state_is_enabled s bip16_rule) \<noteq> None"
    and sum: "(\<Sum>t \<leftarrow> blk_txs b. the (tx_signature_operations (bt_tx t) (state_is_enabled s bip16_rule))) \<le> max_uint64"
  shows "accept_buckets s b n (\<lambda>_. False) k order = Some handled_success \<longleftrightarrow>
    accept_transactions s (blk_txs b) = Some success \<and>
    (state_fermat_enabled s \<or>
      (\<Sum>t \<leftarrow> blk_txs b. the (tx_signature_operations (bt_tx t) (state_is_enabled s bip16_rule))) \<le> get_allowed_sigops n)"
proof -
  define bip16 where "bip16 = state_is_enabled s bip16_rule"
  define txs where "txs = blk_txs b"
  define bk where "bk = (\<lambda>i. filter (\<lambda>p. p mod k = i) [0..<length txs])"
  define f where "f = (\<lambda>p. the (tx_signature_operations (bt_tx (txs ! p)) bip16))"
  define good where "good = (\<lambda>p. bt_validated (txs ! p) \<or>
      transaction_accept (bt_tx (txs ! p)) s (bt_duplicate (txs ! p)) False = Some success)"
  define run where "run = (\<lambda>i. accept_bucket s bip16 txs (bk i) 0)"
  have set: "set order = {0..<k}" using mset_eq_setD [OF assms(1)] by simp
  then have order: "order \<noteq> []" using assms(2) by auto
  have positions: "bucket_positions i k (length txs) = bk i" if "i \<in> set order" for i
    using bucket_positions_of [of "length txs" i k] assms(3) that set by (simp add: bk_def txs_def)
  have defined: "\<forall>p \<in> set (bk i). tx_signature_operations (bt_tx (txs ! p)) bip16 \<noteq> None" for i
    using ops by (auto simp: bk_def txs_def bip16_def)
  have run: "run i = Some (success, m) \<longleftrightarrow> (\<forall>p \<in> set (bk i). good p) \<and> m = (\<Sum>p \<leftarrow> bk i. f p)" for i m
    using accept_bucket_success [OF defined, of s i 0 m] by (simp add: run_def good_def f_def)
  define result where "result = (\<lambda>i. map_option (\<lambda>r. Handled (fst r)) (run i))"
  define total where "total = sum_list (map (\<lambda>i. case run i of None \<Rightarrow> 0 | Some r \<Rightarrow> snd r) order) mod size_t_range"
  have model: "accept_buckets s b n (\<lambda>_. False) k order =
      map_option (handle_accepted s n total) (join_buckets order result)"
  proof -
    have "join_buckets order (\<lambda>i. if False then Some Service_stopped else map_option (\<lambda>r. Handled (fst r))
        (accept_bucket s bip16 txs (bucket_positions i k (length txs)) 0)) = join_buckets order result"
      using positions by (auto simp: join_buckets_def result_def run_def list_ex_iff cong: map_cong)
    moreover have "sum_list (map (\<lambda>i. case accept_bucket s bip16 txs (bucket_positions i k (length txs)) 0 of None \<Rightarrow> 0 | Some r \<Rightarrow> snd r) order)
        = sum_list (map (\<lambda>i. case run i of None \<Rightarrow> 0 | Some r \<Rightarrow> snd r) order)"
      using positions by (intro arg_cong [of _ _ sum_list] map_cong refl) (simp add: run_def)
    ultimately show ?thesis by (simp add: accept_buckets_def Let_def total_def bip16_def txs_def)
  qed
  have joined: "join_buckets order result = Some handled_success \<longleftrightarrow> (\<forall>p < length txs. good p)"
  proof -
    have "result i = Some handled_success \<longleftrightarrow> (\<exists>m. run i = Some (success, m))" for i by (auto simp: result_def)
    then have "join_buckets order result = Some handled_success \<longleftrightarrow> (\<forall>i \<in> set order. \<forall>p \<in> set (bk i). good p)"
      by (simp add: join_buckets_success [OF order] run)
    then show ?thesis using all_buckets [OF assms(1,2), of "length txs" good] by (simp add: bk_def)
  qed
  have accept: "accept_transactions s txs = Some success \<longleftrightarrow> (\<forall>p < length txs. good p)"
    by (auto simp: accept_transactions_success good_def all_set_conv_all_nth)
  have total: "total = (\<Sum>t \<leftarrow> txs. the (tx_signature_operations (bt_tx t) bip16))" if all: "\<forall>p < length txs. good p"
  proof -
    have "run i = Some (success, \<Sum>p \<leftarrow> bk i. f p)" for i using all by (auto simp: run bk_def)
    then have "total = (\<Sum>i \<leftarrow> order. \<Sum>p \<leftarrow> bk i. f p) mod size_t_range" by (simp add: total_def)
    also have "(\<Sum>i \<leftarrow> order. \<Sum>p \<leftarrow> bk i. f p) = (\<Sum>p \<leftarrow> [0..<length txs]. f p)"
      unfolding bk_def by (rule sum_buckets [OF assms(1,2)])
    also have "map f [0..<length txs] = map (\<lambda>t. the (tx_signature_operations (bt_tx t) bip16)) txs"
      by (rule nth_equalityI) (simp_all add: f_def)
    finally show ?thesis using sum by (simp add: txs_def bip16_def)
  qed
  have "handle_accepted s n total ec = handled_success \<longleftrightarrow>
      ec = handled_success \<and> (state_fermat_enabled s \<or> total \<le> get_allowed_sigops n)" for ec
    by (auto simp: handle_accepted_def)
  then have "accept_buckets s b n (\<lambda>_. False) k order = Some handled_success \<longleftrightarrow>
      (\<forall>p < length txs. good p) \<and> (state_fermat_enabled s \<or> total \<le> get_allowed_sigops n)"
    using joined by (auto simp: model)
  with total accept show ?thesis by (auto simp: txs_def bip16_def)
qed

section \<open>Lemmas on connection\<close>

text \<open>The work of a block: the inputs of its transactions that are not skipped, with their transactions and indexes. A
  bucket has those at the positions that leave its number as the rest.\<close>

definition connect_work :: "(block_tx \<Rightarrow> bool) \<Rightarrow> block_tx list \<Rightarrow> (transaction \<times> nat \<times> tx_input) list" where
  "connect_work current txs =
     concat (map (\<lambda>t. if current t \<or> bt_validated t then []
       else map (\<lambda>(n, i). (bt_tx t, n, i)) (enumerate 0 (tx_inputs (bt_tx t)))) txs)"

definition bucket_work :: "nat \<Rightarrow> nat \<Rightarrow> nat \<Rightarrow> 'a list \<Rightarrow> 'a list" where
  "bucket_work k bucket pos ws = map snd (filter (\<lambda>(p, _). p mod k = bucket) (enumerate pos ws))"

definition work_verifies :: "script_verifier \<Rightarrow> forks \<Rightarrow> transaction \<times> nat \<times> tx_input \<Rightarrow> bool" where
  "work_verifies verifier forks w =
     (case w of (tx, n, i) \<Rightarrow> output_is_valid (pv_cache (validation (in_prevout i))) \<and>
       (case verifier tx (of_nat n) forks of None \<Rightarrow> False | Some (ec, _) \<Rightarrow> ec = handled_success))"

definition work_checks :: "script_verifier \<Rightarrow> forks \<Rightarrow> transaction \<times> nat \<times> tx_input \<Rightarrow> nat" where
  "work_checks verifier forks w =
     (case w of (tx, n, i) \<Rightarrow> (case verifier tx (of_nat n) forks of None \<Rightarrow> 0 | Some (_, checks) \<Rightarrow> checks))"

lemma bucket_work_simps [simp]:
  "bucket_work k bucket pos [] = []"
  "bucket_work k bucket pos (w # ws) =
     (if pos mod k = bucket then w # bucket_work k bucket (pos + 1) ws else bucket_work k bucket (pos + 1) ws)"
  "bucket_work k bucket pos (ws @ vs) = bucket_work k bucket pos ws @ bucket_work k bucket (pos + length ws) vs"
  by (simp_all add: bucket_work_def enumerate_append_eq)

lemma connect_tx_inputs_success:
  assumes "checks \<le> job_limit j" "job_stopped j = (\<lambda>_. False)"
  shows "connect_tx_inputs j bucket tx is index pos checks = Some (handled_success, p, n) \<longleftrightarrow>
    (let ws = bucket_work (job_buckets j) bucket pos (map (\<lambda>(n, i). (tx, n, i)) (enumerate index is))
     in (\<forall>w \<in> set ws. work_verifies (job_verify j) (job_forks j) w) \<and> p = pos + length is \<and>
       n = checks + sum_list (map (work_checks (job_verify j) (job_forks j)) ws) \<and> n \<le> job_limit j)"
  using assms(1)
proof (induction "is" arbitrary: index pos checks)
  case (Cons i "is")
  show ?case
  proof (cases "pos mod job_buckets j = bucket")
    case False
    then show ?thesis using Cons.IH [OF Cons.prems] by (simp add: Let_def)
  next
    case True
    show ?thesis
    proof (cases "job_verify j tx (of_nat index) (job_forks j)")
      case None
      then show ?thesis using True assms(2) by (auto simp: Let_def work_verifies_def)
    next
      case (Some r)
      show ?thesis
      proof (cases "checks + snd r \<le> job_limit j")
        case fits: True
        show ?thesis
          using Cons.IH [OF fits] True Some assms(2)
          by (auto simp: Let_def work_verifies_def work_checks_def add.assoc split: prod.splits)
      next
        case False
        then show ?thesis
          using True Some assms(2) by (auto simp: Let_def work_verifies_def work_checks_def split: prod.splits)
      qed
    qed
  qed
qed (auto simp: Let_def)

lemma connect_bucket_success:
  assumes "checks \<le> job_limit j" "job_stopped j = (\<lambda>_. False)"
  shows "connect_bucket j current bucket ts pos checks = Some handled_success \<longleftrightarrow>
    (let ws = bucket_work (job_buckets j) bucket pos (connect_work current ts)
     in (\<forall>w \<in> set ws. work_verifies (job_verify j) (job_forks j) w) \<and>
       checks + sum_list (map (work_checks (job_verify j) (job_forks j)) ws) \<le> job_limit j)"
  using assms(1)
proof (induction ts arbitrary: pos checks)
  case (Cons t ts)
  show ?case
  proof (cases "current t \<or> bt_validated t")
    case True
    then show ?thesis using Cons.IH [OF Cons.prems] by (simp add: connect_work_def)
  next
    case False
    define work where "work = map (\<lambda>(n, i). (bt_tx t, n, i)) (enumerate 0 (tx_inputs (bt_tx t)))"
    define ws where "ws = bucket_work (job_buckets j) bucket pos work"
    define vs where "vs = bucket_work (job_buckets j) bucket (pos + length work) (connect_work current ts)"
    define n where "n = checks + sum_list (map (work_checks (job_verify j) (job_forks j)) ws)"
    have split: "bucket_work (job_buckets j) bucket pos (connect_work current (t # ts)) = ws @ vs"
      using False by (simp add: connect_work_def work_def ws_def vs_def)
    have inputs: "connect_tx_inputs j bucket (bt_tx t) (tx_inputs (bt_tx t)) 0 pos checks = Some (handled_success, p, m) \<longleftrightarrow>
        (\<forall>w \<in> set ws. work_verifies (job_verify j) (job_forks j) w) \<and> p = pos + length work \<and> m = n \<and> n \<le> job_limit j" for p m
      unfolding connect_tx_inputs_success [OF Cons.prems assms(2)] Let_def work_def [symmetric] ws_def [symmetric] n_def [symmetric]
      by (auto simp: work_def)
    have "connect_bucket j current bucket (t # ts) pos checks = Some handled_success \<longleftrightarrow>
        (\<exists>p m. connect_tx_inputs j bucket (bt_tx t) (tx_inputs (bt_tx t)) 0 pos checks = Some (handled_success, p, m) \<and>
          connect_bucket j current bucket ts p m = Some handled_success)"
      using False
      by (cases "connect_tx_inputs j bucket (bt_tx t) (tx_inputs (bt_tx t)) 0 pos checks") (auto split: if_splits)
    also have "\<dots> \<longleftrightarrow> (\<forall>w \<in> set ws. work_verifies (job_verify j) (job_forks j) w) \<and> n \<le> job_limit j \<and>
        connect_bucket j current bucket ts (pos + length work) n = Some handled_success"
      by (auto simp: inputs)
    finally show ?thesis
      using Cons.IH [of n "pos + length work"]
      by (auto simp: split Let_def n_def add.assoc simp flip: vs_def)
  qed
qed (auto simp: Let_def connect_work_def)

lemma set_bucket_work: "set (bucket_work k bucket 0 ws) = {ws ! p | p. p < length ws \<and> p mod k = bucket}"
  by (force simp: bucket_work_def in_set_enumerate_eq image_iff)

lemma bucket_work_cover:
  assumes "0 < k"
  shows "(\<forall>i < k. \<forall>w \<in> set (bucket_work k i 0 ws). P w) \<longleftrightarrow> (\<forall>w \<in> set ws. P w)"
proof
  assume all: "\<forall>i < k. \<forall>w \<in> set (bucket_work k i 0 ws). P w"
  have "P (ws ! p)" if "p < length ws" for p
    using all [rule_format, of "p mod k" "ws ! p"] assms that by (auto simp: set_bucket_work)
  then show "\<forall>w \<in> set ws. P w" by (simp add: all_set_conv_all_nth)
qed (auto simp: set_bucket_work)

section \<open>Blocks without scripts\<close>

lemma parsed_sigops:
  assumes "fits bytes"
  shows "\<exists>ops. script_operations (script_of_bytes bytes) = Some ops \<and> sigops ops accurate = 0"
proof -
  obtain ops where ops: "parse_operations bytes = Some ops" "\<forall>op \<in> set ops. op = invalid_operation \<or> nominal op"
    using parse_operations_total [OF assms] by blast
  then have "sigops ops accurate = 0" using parsed_ops_codes [OF ops(2)] by (intro sigops_quiet) auto
  with ops show ?thesis by (simp add: script_operations_def script_of_bytes_def)
qed

lemma example_coinbase_sigops: "tx_signature_operations example_coinbase False = Some 0"
  using parsed_sigops [of "replicate 90 0x51" False] parsed_sigops [of "[0x51]" False]
  by (auto simp: tx_signature_operations_def example_coinbase_def input_signature_operations_def
      output_signature_operations_def ceiling_add_def)

lemma example_block_serialized_size: "block_serialized_size example_block = 232"
  by (simp add: block_serialized_size_def header_fixed_size_def header_serialized_size_def variable_uint_size_def
      example_block_def new_block_tx_def example_coinbase_size)

lemma example_block_accept_own: "block_accept constant_crypto example_block example_state 232 True = Some success"
proof -
  have "state_fermat_enabled example_state" by (simp add: example_state_rules)
  then show ?thesis
    using example_block_accept by (auto simp: block_accept_def Let_def split: if_splits bind_splits)
qed

text \<open>A transaction whose two inputs spend outputs, in a block.\<close>

definition example_spent :: tx_input where
  "example_spent = \<lparr>in_prevout = point.extend (make_point (replicate 32 1) 0)
       \<lparr>validation = prevout_default\<lparr>pv_cache := \<lparr>out_value = 1, out_script = script_of_bytes [0x51], out_token = None\<rparr>\<rparr>\<rparr>,
     in_script = script_of_bytes [0x51], in_sequence = max_input_sequence\<rparr>"

definition example_spending :: transaction where
  "example_spending = example_coinbase\<lparr>tx_inputs := [example_spent, example_spent]\<rparr>"

definition example_block_2 :: block where
  "example_block_2 = example_block\<lparr>blk_txs := [new_block_tx example_coinbase, new_block_tx example_spending]\<rparr>"

definition counting_verifier :: "nat \<Rightarrow> script_verifier" where
  "counting_verifier n tx i forks = Some (handled_success, n)"

lemma example_work:
  "connect_work (\<lambda>_. False) (tl (blk_txs example_block_2)) =
     [(example_spending, 0, example_spent), (example_spending, 1, example_spent)]"
  "total_inputs example_block_2 False = 2"
  "work_verifies (counting_verifier n) forks (example_spending, k, example_spent)"
  "work_checks (counting_verifier n) forks (example_spending, k, example_spent) = n"
  by (simp_all add: connect_work_def total_inputs_def work_verifies_def work_checks_def example_block_2_def new_block_tx_def
      example_spending_def counting_verifier_def example_spent_def output_is_valid_def point.defs)

text \<open>A block without inputs to verify has no work.\<close>

lemma connect_work_none: "total_inputs b False = 0 \<Longrightarrow> connect_work current (tl (blk_txs b)) = []"
  by (auto simp: total_inputs_def connect_work_def fold_add drop_Suc sum_list_eq_0_iff)

section \<open>Properties\<close>

text \<open>C11: Parallel acceptance of a block decides as the sequential one does: for every number of threads and every order in
  which the buckets complete, the contextual validation of a block that has been populated succeeds exactly when the
  block's own acceptance with its transactions does, as long as the signature operations of its scripts are defined and
  their sum fits 64 bits.\<close>

theorem accept_parallel:
  assumes "mset order = mset [0..<bucket_count threads (length (blk_txs b))]" "0 < threads"
    "blk_txs b \<noteq> []" "length (blk_txs b) \<le> max_uint64"
    "\<forall>t \<in> set (blk_txs b). tx_signature_operations (bt_tx t) (state_is_enabled s bip16_rule) \<noteq> None"
    "(\<Sum>t \<leftarrow> blk_txs b. the (tx_signature_operations (bt_tx t) (state_is_enabled s bip16_rule))) \<le> max_uint64"
  shows "handle_populated c s b False (\<lambda>_. False) (bucket_count threads (length (blk_txs b))) order = Some handled_success \<longleftrightarrow>
    block_accept c b s (block_serialized_size b) True = Some success"
proof (cases "is_under_checkpoint s")
  case True
  then have "block_accept c b s n True = block_accept c b s n False" for n by (simp add: block_accept_def Let_def)
  with True show ?thesis
    by (cases "block_accept c b s (block_serialized_size b) False") (auto simp: handle_populated_def handle_accepted_def)
next
  case False
  have "0 < bucket_count threads (length (blk_txs b))" using assms(2,3) by (simp add: bucket_count_def)
  note buckets = accept_buckets_success [OF assms(1) this assms(4,5,6), of "block_serialized_size b"]
  show ?thesis
    using False buckets block_accept_transactions [OF False assms(5,6), of c "block_serialized_size b"]
    by (cases "block_accept c b s (block_serialized_size b) False") (auto simp: handle_populated_def)
qed

theorem accept_parallel_witness:
  "handle_populated constant_crypto example_state example_block False (\<lambda>_. False) (bucket_count 4 1) [0] = Some handled_success"
proof -
  have txs: "blk_txs example_block = [new_block_tx example_coinbase]" by (simp add: example_block_def)
  have bip16: "\<not> state_is_enabled example_state bip16_rule" by (simp add: example_state_rules)
  show ?thesis
    using accept_parallel [of "[0]" 4 example_block example_state constant_crypto]
    by (simp add: txs bip16 bucket_count_def new_block_tx_def example_coinbase_sigops example_block_serialized_size
        example_block_accept_own)
qed

text \<open>C12: Connection of a block in parallel, while the service is not stopped, with at least one thread and in every order in
  which the buckets complete. It succeeds exactly when the block is under a checkpoint, where nothing is verified, or
  every input of a transaction that is not skipped has an output to spend and its script verifies, and in every bucket on
  its own the signature checks are within the limit of the block. The limit does not bound the sum over the
  buckets, so the decision depends on the number of threads.\<close>

theorem connect_buckets_iff:
  assumes "mset order = mset [0..<bucket_count threads (total_inputs b False)]" "0 < threads"
  shows "connect_block s verifier (\<lambda>_. False) current b (bucket_count threads (total_inputs b False)) order = Some handled_success \<longleftrightarrow>
    is_under_checkpoint s \<or>
    (let work = connect_work current (tl (blk_txs b)); forks = act_forks (cs_active s)
     in (\<forall>w \<in> set work. work_verifies verifier forks w) \<and>
       (\<forall>i < bucket_count threads (total_inputs b False).
          sum_list (map (work_checks verifier forks) (bucket_work (bucket_count threads (total_inputs b False)) i 0 work))
            \<le> dynamic_max_block_sigchecks s))"
proof (cases "total_inputs b False = 0")
  case True
  then have "connect_work current (tl (blk_txs b)) = []" by (rule connect_work_none)
  with True show ?thesis by (simp add: connect_block_def bucket_count_def)
next
  case False
  define k where "k = bucket_count threads (total_inputs b False)"
  have k: "0 < k" using assms(2) False by (simp add: k_def bucket_count_def)
  have set: "set order = {0..<k}" using mset_eq_setD [OF assms(1)] by (simp add: k_def)
  then have ball: "(\<forall>i \<in> set order. Q i) \<longleftrightarrow> (\<forall>i < k. Q i)" for Q by auto
  have "order \<noteq> []" using set k by auto
  then show ?thesis
    using False k
    by (simp add: connect_block_def join_buckets_success connect_bucket_success Let_def ball all_conj_distrib imp_conjR
        bucket_work_cover flip: k_def)
qed

text \<open>Two inputs, each of which uses up the limit, pass with two threads and fail with one.\<close>

theorem connect_buckets_iff_witness:
  "connect_block example_state (counting_verifier (dynamic_max_block_sigchecks example_state)) (\<lambda>_. False) (\<lambda>_. False)
     example_block_2 2 [1, 0] = Some handled_success \<and>
   connect_block example_state (counting_verifier (dynamic_max_block_sigchecks example_state)) (\<lambda>_. False) (\<lambda>_. False)
     example_block_2 1 [0] \<noteq> Some handled_success"
proof -
  have order: "mset [Suc 0, 0] = mset [0..<(2 :: nat)]" by (simp add: numeral_2_eq_2 add_mset_commute)
  have two: "(\<forall>i < (2 :: nat). P i) \<longleftrightarrow> P 0 \<and> P 1" for P by (auto simp: less_Suc_eq numeral_2_eq_2)
  have "\<not> is_under_checkpoint example_state" "0 < dynamic_max_block_sigchecks example_state"
    by (simp_all add: example_state_rules dynamic_max_block_sigchecks_def dynamic_max_block_size_def static_max_block_size_def)
  then show ?thesis
    using connect_buckets_iff [of "[1, 0]" 2 example_block_2 example_state "counting_verifier (dynamic_max_block_sigchecks example_state)" "\<lambda>_. False"]
      connect_buckets_iff [of "[0]" 1 example_block_2 example_state "counting_verifier (dynamic_max_block_sigchecks example_state)" "\<lambda>_. False"]
    by (simp add: bucket_count_def example_work two order del: mset.simps mset_upt)
qed

end
