(* ===== verification/Consensus_Adaptor.thy ===== *)
theory Consensus_Adaptor
  imports Validation
begin

text \<open>
  The call of the consensus library for a script (blockchain/src/validate/validate_input.cpp): the flags for the active
  rules, the data that is handed over and the codes of the results. The library itself is a parameter.
\<close>

section \<open>Flags\<close>

type_synonym verify_flags = u32

abbreviation (input) verify_flags_p2sh :: verify_flags where "verify_flags_p2sh \<equiv> 0x1"
abbreviation (input) verify_flags_strictenc :: verify_flags where "verify_flags_strictenc \<equiv> 0x2"
abbreviation (input) verify_flags_dersig :: verify_flags where "verify_flags_dersig \<equiv> 0x4"
abbreviation (input) verify_flags_low_s :: verify_flags where "verify_flags_low_s \<equiv> 0x8"
abbreviation (input) verify_flags_sigpushonly :: verify_flags where "verify_flags_sigpushonly \<equiv> 0x20"
abbreviation (input) verify_flags_minimaldata :: verify_flags where "verify_flags_minimaldata \<equiv> 0x40"
abbreviation (input) verify_flags_cleanstack :: verify_flags where "verify_flags_cleanstack \<equiv> 0x100"
abbreviation (input) verify_flags_checklocktimeverify :: verify_flags where "verify_flags_checklocktimeverify \<equiv> 0x200"
abbreviation (input) verify_flags_checksequenceverify :: verify_flags where "verify_flags_checksequenceverify \<equiv> 0x400"
abbreviation (input) verify_flags_null_fail :: verify_flags where "verify_flags_null_fail \<equiv> 0x4000"
abbreviation (input) verify_flags_enable_sighash_forkid :: verify_flags where "verify_flags_enable_sighash_forkid \<equiv> 0x10000"
abbreviation (input) verify_flags_enable_schnorr_multisig :: verify_flags where
  "verify_flags_enable_schnorr_multisig \<equiv> 0x200000"
abbreviation (input) verify_flags_enforce_sigchecks :: verify_flags where "verify_flags_enforce_sigchecks \<equiv> 0x800000"
abbreviation (input) verify_flags_64_bit_integers :: verify_flags where "verify_flags_64_bit_integers \<equiv> 0x1000000"
abbreviation (input) verify_flags_native_introspection :: verify_flags where
  "verify_flags_native_introspection \<equiv> 0x2000000"
abbreviation (input) verify_flags_enable_p2sh_32 :: verify_flags where "verify_flags_enable_p2sh_32 \<equiv> 0x4000000"
abbreviation (input) verify_flags_enable_tokens :: verify_flags where "verify_flags_enable_tokens \<equiv> 0x8000000"
abbreviation (input) verify_flags_enable_may2025 :: verify_flags where "verify_flags_enable_may2025 \<equiv> 0x10000000"

text \<open>The statements of the function in their order: a rule and the flags that it adds.\<close>

definition rule_flags :: "(forks \<times> verify_flags) list" where
  "rule_flags =
     [(bip16_rule, verify_flags_p2sh),
      (bip65_rule, verify_flags_checklocktimeverify),
      (bip66_rule, verify_flags_dersig),
      (bip112_rule, verify_flags_checksequenceverify),
      (bch_uahf, verify_flags_strictenc OR verify_flags_enable_sighash_forkid),
      (bch_daa_cw144, verify_flags_low_s OR verify_flags_null_fail),
      (bch_euclid, verify_flags_sigpushonly OR verify_flags_cleanstack),
      (bch_mersenne, verify_flags_enable_schnorr_multisig OR verify_flags_minimaldata),
      (bch_fermat, verify_flags_enforce_sigchecks),
      (bch_gauss, verify_flags_64_bit_integers OR verify_flags_native_introspection),
      (bch_descartes, verify_flags_enable_p2sh_32 OR verify_flags_enable_tokens),
      (bch_galois, verify_flags_enable_may2025)]"

definition convert_flags :: "forks \<Rightarrow> verify_flags" where
  "convert_flags forks = fold (\<lambda>(rule, new) flags. if is_enabled forks rule then flags OR new else flags) rule_flags 0"

section \<open>Results\<close>

datatype verify_result =
    eval_false | eval_true
  | script_size | push_size | op_count | stack_size | sig_count | pubkey_count
  | result_verify | equalverify | checkmultisigverify | checksigverify | numequalverify
  | bad_opcode | disabled_opcode | invalid_stack_operation | invalid_altstack_operation | unbalanced_conditional
  | sig_hashtype | sig_der | minimaldata | sig_pushonly | sig_high_s
  | pubkeytype | cleanstack | minimalif | sig_nullfail | minimalnum
  | discourage_upgradable_nops
  | result_op_return | unknown_error
  | tx_invalid | tx_size_invalid | tx_input_invalid
  | negative_locktime | unsatisfied_locktime
  | input_sigchecks
  | invalid_operand_size | invalid_number_range | impossible_encoding | invalid_split_range | invalid_bit_count
  | checkdatasigverify
  | div_by_zero | mod_by_zero
  | invalid_bitfield_size | invalid_bit_range
  | sig_badlength | sig_nonschnorr
  | illegal_forkid | must_use_forkid
  | sigchecks_limit_exceeded

text \<open>The results that the function does not name are those of its default.\<close>

definition convert_result :: "verify_result \<Rightarrow> handler_code" where
  "convert_result r =
     (case r of
        eval_true \<Rightarrow> handled_success
      | eval_false \<Rightarrow> Handled (Connect_error err_stack_false)
      | discourage_upgradable_nops \<Rightarrow> Handled (Connect_error err_operation_failed)
      | sig_hashtype \<Rightarrow> Operation_failed 21
      | minimaldata \<Rightarrow> Operation_failed 21
      | sig_pushonly \<Rightarrow> Operation_failed 21
      | sig_high_s \<Rightarrow> Operation_failed 21
      | pubkeytype \<Rightarrow> Operation_failed 21
      | cleanstack \<Rightarrow> Operation_failed 21
      | _ \<Rightarrow> Handled (Connect_error err_invalid_script))"

section \<open>Verification\<close>

text \<open>The library takes the transaction, the locking and the unlocking script, the index of the input, the flags, the
  amount and the spent outputs; it gives its result and the count of signature checks.\<close>

type_synonym consensus_library =
  "bytes \<Rightarrow> bytes \<Rightarrow> bytes \<Rightarrow> u32 \<Rightarrow> verify_flags \<Rightarrow> u64 \<Rightarrow> bytes list \<Rightarrow> verify_result \<times> nat"

definition create_context_data :: "transaction \<Rightarrow> bool \<Rightarrow> bytes list" where
  "create_context_data tx should_create_context =
     (if \<not> should_create_context then []
      else map (\<lambda>i. chain_output_to_data True (pv_cache (validation (in_prevout i)))) (tx_inputs tx))"

text \<open>\<open>None\<close> is the access to an input that is not there.\<close>

definition consensus_verifier :: "consensus_library \<Rightarrow> script_verifier" where
  "consensus_verifier verify_script tx input_index forks =
     (if unat input_index \<ge> length (tx_inputs tx) then None
      else
        let i = tx_inputs tx ! unat input_index;
            prevout = pv_cache (validation (in_prevout i));
            coins = create_context_data tx (is_enabled forks bch_gauss);
            (res, sig_checks) = verify_script (tx_to_data True tx) (script_to_data False (out_script prevout))
              (script_to_data False (in_script i)) input_index (convert_flags forks) (out_value prevout) coins
        in Some (convert_result res, sig_checks))"

section \<open>Lemmas\<close>

lemma fold_flags_and:
  "fold (\<lambda>(rule, new) flags. if is_enabled forks rule then flags OR new else flags) [] a AND m = a AND m"
  "fold (\<lambda>(rule, new) flags. if is_enabled forks rule then flags OR new else flags) ((r, n) # xs) a AND m =
   fold (\<lambda>(rule, new) flags. if is_enabled forks rule then flags OR new else flags) xs
     (a OR (if is_enabled forks r then n else 0)) AND m"
  "((a :: verify_flags) OR (if c then n else 0)) AND m = (a AND m) OR (if c then n AND m else 0)"
  by simp_all (auto intro!: bit_eqI simp: bit_simps)

lemma convert_result_success: "convert_result r = handled_success \<longleftrightarrow> r = eval_true"
  by (cases r) (simp_all add: convert_result_def)

section \<open>Properties\<close>

text \<open>The flags handed to the consensus library are exactly those of the enabled rules: the flags of a rule are all set
  if the rule is enabled and none of them is set if it is not, and no other flag is ever set.\<close>

theorem convert_flags_exact:
  assumes "(rule, new) \<in> set rule_flags"
  shows "convert_flags forks AND new = (if is_enabled forks rule then new else 0) \<and>
    convert_flags forks AND NOT 0x1FA1476F = 0"
proof
  show "convert_flags forks AND new = (if is_enabled forks rule then new else 0)"
    using assms [unfolded rule_flags_def, simplified] unfolding convert_flags_def rule_flags_def
    by (elim disjE conjE) (simp_all only: fold_flags_and, simp_all)
  show "convert_flags forks AND NOT 0x1FA1476F = 0"
    unfolding convert_flags_def rule_flags_def by (simp only: fold_flags_and) simp
qed

theorem convert_flags_exact_witness:
  "convert_flags 0x80000 AND 0x3000000 = 0x3000000 \<and> convert_flags 0x40000 AND 0x3000000 = 0"
  using convert_flags_exact [of bch_gauss "0x3000000" "0x80000"] convert_flags_exact [of bch_gauss "0x3000000" "0x40000"]
  by (simp add: rule_flags_def is_enabled_def)

text \<open>An input verifies with a count of signature checks exactly when it exists and the consensus library evaluates to
  true with this count, for the scripts and the value of the spent output and the flags of the rules.\<close>

theorem consensus_verifier_accepts:
  "consensus_verifier verify_script tx input_index forks = Some (handled_success, n) \<longleftrightarrow>
    unat input_index < length (tx_inputs tx) \<and>
    (let i = tx_inputs tx ! unat input_index; prevout = pv_cache (validation (in_prevout i))
     in verify_script (tx_to_data True tx) (script_bytes (out_script prevout)) (script_bytes (in_script i)) input_index
          (convert_flags forks) (out_value prevout)
          (if is_enabled forks bch_gauss then map (\<lambda>i. output_to_data (pv_cache (validation (in_prevout i)))) (tx_inputs tx)
           else []) = (eval_true, n))"
  by (auto simp: consensus_verifier_def Let_def convert_result_success script_to_data_parts create_context_data_def
      chain_output_to_data_def split: prod.splits)

end
