(* ===== verification/Store_Tables.thy ===== *)
theory Store_Tables
  imports Block "HOL-Library.Finite_Map" "HOL-Library.Product_Lexorder" "HOL-Library.List_Lexorder"
begin

text \<open>
  The tables of the store (database/include/kth/database/databases): the codes of results, the entries of unspent
  outputs and of headers as bytes, and the operations on single tables. The key value library under them is not part of
  the repository: its calls are a parameter, and what they promise is the locale \<open>key_value_store\<close>.
\<close>

section \<open>Keys, values and codes\<close>

datatype table = Block_header | Block_header_by_hash | Utxo | Reorg_pool | Reorg_index | Reorg_block

text \<open>A height, which keys compare as a number, or a string of bytes.\<close>

datatype datum = Number u32 | Data bytes

instantiation datum :: linorder
begin

definition less_eq_datum :: "datum \<Rightarrow> datum \<Rightarrow> bool" where
  "less_eq_datum a b =
     (case (a, b) of (Number m, Number n) \<Rightarrow> m \<le> n | (Number m, Data ys) \<Rightarrow> True | (Data xs, Number n) \<Rightarrow> False
        | (Data xs, Data ys) \<Rightarrow> xs \<le> ys)"

definition less_datum :: "datum \<Rightarrow> datum \<Rightarrow> bool" where
  "less_datum a b \<longleftrightarrow> a \<le> b \<and> \<not> b \<le> a"

instance
proof
  fix x y z :: datum
  show "x < y \<longleftrightarrow> x \<le> y \<and> \<not> y \<le> x" by (rule less_datum_def)
  show "x \<le> x" by (cases x) (simp_all add: less_eq_datum_def)
  show "x \<le> y \<Longrightarrow> y \<le> z \<Longrightarrow> x \<le> z"
    by (cases x; cases y; cases z) (auto simp: less_eq_datum_def)
  show "x \<le> y \<Longrightarrow> y \<le> x \<Longrightarrow> x = y"
    by (cases x; cases y) (auto simp: less_eq_datum_def)
  show "x \<le> y \<or> y \<le> x"
    by (cases x; cases y) (auto simp: less_eq_datum_def)
qed

end

datatype result_code =
    rc_success | rc_success_duplicate_coinbase | rc_duplicated_key | rc_key_not_found | rc_db_empty
  | rc_no_data_to_prune | rc_db_corrupt | rc_prune_error | rc_other

definition succeed :: "result_code \<Rightarrow> bool" where
  "succeed c \<longleftrightarrow> c = rc_success \<or> c = rc_success_duplicate_coinbase"

definition succeed_prune :: "result_code \<Rightarrow> bool" where
  "succeed_prune c \<longleftrightarrow> c = rc_success \<or> c = rc_no_data_to_prune"

section \<open>The library\<close>

datatype 'a db_result = Db_success 'a | Db_key_exist | Db_not_found | Db_failure

datatype put_flag = Put_plain | Put_no_overwrite | Put_append

text \<open>
  The calls on a state of type \<open>'s\<close>. A cursor is the list of the pairs of a table in its order; it is read from its
  first pair, its last one or the first one with a key that is not less than a given one. A transaction is aborted by
  going on with the state before it.
\<close>

record 's lmdb =
  mdb_txn_begin :: "'s \<Rightarrow> bool"
  mdb_txn_commit :: "'s \<Rightarrow> bool"
  mdb_get :: "'s \<Rightarrow> table \<Rightarrow> datum \<Rightarrow> datum db_result"
  mdb_put :: "put_flag \<Rightarrow> 's \<Rightarrow> table \<Rightarrow> datum \<Rightarrow> datum \<Rightarrow> 's db_result"
  mdb_del :: "'s \<Rightarrow> table \<Rightarrow> datum \<Rightarrow> 's db_result"
  mdb_cursor :: "'s \<Rightarrow> table \<Rightarrow> (datum \<times> datum) list db_result"
  mdb_cursor_del :: "'s \<Rightarrow> table \<Rightarrow> datum \<times> datum \<Rightarrow> 's db_result"

type_synonym 's outcome = "result_code \<times> 's"

text \<open>The codes of a call that stores and of one that deletes.\<close>

definition put_result :: "'s db_result \<Rightarrow> 's \<Rightarrow> 's outcome" where
  "put_result r s =
     (case r of Db_success s \<Rightarrow> (rc_success, s) | Db_key_exist \<Rightarrow> (rc_duplicated_key, s) | _ \<Rightarrow> (rc_other, s))"

definition del_result :: "'s db_result \<Rightarrow> 's \<Rightarrow> 's outcome" where
  "del_result r s =
     (case r of Db_success s \<Rightarrow> (rc_success, s) | Db_not_found \<Rightarrow> (rc_key_not_found, s) | _ \<Rightarrow> (rc_other, s))"

text \<open>A step and, if its code is success, the next one.\<close>

definition db_then :: "'s outcome \<Rightarrow> ('s \<Rightarrow> 's outcome) \<Rightarrow> 's outcome" where
  "db_then r f = (if fst r = rc_success then f (snd r) else r)"

lemma db_then_success: "db_then r f = (rc_success, s') \<longleftrightarrow> (\<exists>s1. r = (rc_success, s1) \<and> f s1 = (rc_success, s'))"
  by (cases r) (auto simp: db_then_def)

lemma db_then_go: "db_then (rc_success, s) f = f s"
  by (simp add: db_then_def)

section \<open>Entries of unspent outputs\<close>

record utxo_entry =
  ue_output :: tx_output
  ue_spender :: u32
  ue_height :: u32
  ue_median_time_past :: u32
  ue_coinbase :: bool

definition utxo_entry_default :: utxo_entry where
  "utxo_entry_default = \<lparr>ue_output = output_default, ue_spender = not_spent, ue_height = 0xffffffff,
     ue_median_time_past = 0xffffffff, ue_coinbase = False\<rparr>"

definition utxo_entry_is_valid :: "utxo_entry \<Rightarrow> bool" where
  "utxo_entry_is_valid e \<longleftrightarrow>
     output_is_valid (ue_output e) \<and> ue_height e \<noteq> 0xffffffff \<and> ue_median_time_past e \<noteq> 0xffffffff"

definition to_data_fixed :: "u32 \<Rightarrow> u32 \<Rightarrow> bool \<Rightarrow> bytes" where
  "to_data_fixed height mtp coinbase =
     write_4_bytes_little_endian height @ write_4_bytes_little_endian mtp @ [if coinbase then 1 else 0]"

definition to_data_with_fixed :: "tx_output \<Rightarrow> bytes \<Rightarrow> bytes" where
  "to_data_with_fixed out fixed = chain_output_to_data False out @ fixed"

definition utxo_entry_from_data :: "utxo_entry reader" where
  "utxo_entry_from_data =
     rbind stored_output_from_data (\<lambda>out.
     rbind (read_little_endian 4) (\<lambda>height.
     rbind (read_little_endian 4) (\<lambda>mtp.
     rbind read_byte (\<lambda>coinbase.
       rreturn \<lparr>ue_output = fst out, ue_spender = snd out, ue_height = height,
         ue_median_time_past = mtp, ue_coinbase = (coinbase \<noteq> 0)\<rparr>))))"

section \<open>Entries of headers\<close>

text \<open>The state of the block size, if the block has a chain state.\<close>

definition header_abla_to_data :: "validated_header \<Rightarrow> abla_state option \<Rightarrow> bytes" where
  "header_abla_to_data h state =
     header_to_data True h @
     (case state of
        Some a \<Rightarrow> write_8_bytes_little_endian (block_size a) @ write_8_bytes_little_endian (control_block_size a) @
          write_8_bytes_little_endian (elastic_buffer_size a)
      | None \<Rightarrow> write_8_bytes_little_endian 0 @ write_8_bytes_little_endian 0 @ write_8_bytes_little_endian 0)"

definition header_abla_from_data :: "(validated_header \<times> u64 \<times> u64 \<times> u64) reader" where
  "header_abla_from_data =
     rbind (header_from_data True) (\<lambda>h r.
       case read_little_endian 8 r of
         Got size_1 r \<Rightarrow>
           (case read_little_endian 8 r of
              Got control r \<Rightarrow>
                (case read_little_endian 8 r of
                   Got elastic r \<Rightarrow> Got (h, size_1, control, elastic) r
                 | Fail _ r \<Rightarrow> Got (h, 0, 0, 0) r
                 | Undef \<Rightarrow> Undef)
            | Fail _ r \<Rightarrow> Got (h, 0, 0, 0) r
            | Undef \<Rightarrow> Undef)
       | Fail _ r \<Rightarrow> Got (h, 0, 0, 0) r
       | Undef \<Rightarrow> Undef)"

section \<open>Operations on single tables\<close>

text \<open>Points are written with an index of two bytes unless the build asks for four.\<close>

definition internal_db_wire :: bool where
  "internal_db_wire = False"

definition point_key_data :: "'a point_scheme \<Rightarrow> datum" where
  "point_key_data p = Data (point_to_data internal_db_wire p)"

definition insert_reorg_pool :: "'s lmdb \<Rightarrow> u32 \<Rightarrow> datum \<Rightarrow> 's \<Rightarrow> 's outcome" where
  "insert_reorg_pool db height key s =
     (case mdb_get db s Utxo key of
        Db_not_found \<Rightarrow> (rc_key_not_found, s)
      | Db_success val \<Rightarrow>
          db_then (put_result (mdb_put db Put_no_overwrite s Reorg_pool key val) s)
            (\<lambda>s. put_result (mdb_put db Put_plain s Reorg_index (Number height) key) s)
      | _ \<Rightarrow> (rc_other, s))"

definition remove_utxo :: "'s lmdb \<Rightarrow> u32 \<Rightarrow> 'a point_scheme \<Rightarrow> bool \<Rightarrow> 's \<Rightarrow> 's outcome" where
  "remove_utxo db height p insert_reorg s =
     db_then (if insert_reorg then insert_reorg_pool db height (point_key_data p) s else (rc_success, s))
       (\<lambda>s. del_result (mdb_del db s Utxo (point_key_data p)) s)"

definition insert_utxo :: "'s lmdb \<Rightarrow> 'a point_scheme \<Rightarrow> tx_output \<Rightarrow> bytes \<Rightarrow> 's \<Rightarrow> 's outcome" where
  "insert_utxo db p out fixed s =
     put_result (mdb_put db Put_no_overwrite s Utxo (point_key_data p) (Data (to_data_with_fixed out fixed))) s"

definition push_block_reorg :: "'s lmdb \<Rightarrow> block \<Rightarrow> u32 \<Rightarrow> 's \<Rightarrow> 's outcome" where
  "push_block_reorg db b height s =
     put_result (mdb_put db Put_no_overwrite s Reorg_block (Number height) (Data (block_to_data b))) s"

definition insert_output_from_reorg_and_remove :: "'s lmdb \<Rightarrow> 'a point_scheme \<Rightarrow> 's \<Rightarrow> 's outcome" where
  "insert_output_from_reorg_and_remove db p s =
     (case mdb_get db s Reorg_pool (point_key_data p) of
        Db_not_found \<Rightarrow> (rc_key_not_found, s)
      | Db_success val \<Rightarrow>
          db_then (put_result (mdb_put db Put_no_overwrite s Utxo (point_key_data p) val) s)
            (\<lambda>s. del_result (mdb_del db s Reorg_pool (point_key_data p)) s)
      | _ \<Rightarrow> (rc_other, s))"

definition remove_block_reorg :: "'s lmdb \<Rightarrow> u32 \<Rightarrow> 's \<Rightarrow> 's outcome" where
  "remove_block_reorg db height s = del_result (mdb_del db s Reorg_block (Number height)) s"

definition remove_reorg_index :: "'s lmdb \<Rightarrow> u32 \<Rightarrow> 's \<Rightarrow> 's outcome" where
  "remove_reorg_index db height s = del_result (mdb_del db s Reorg_index (Number height)) s"

definition push_block_header ::
  "'s lmdb \<Rightarrow> crypto \<Rightarrow> block \<Rightarrow> abla_state option \<Rightarrow> u32 \<Rightarrow> 's \<Rightarrow> 's outcome" where
  "push_block_header db c b state height s =
     db_then (put_result (mdb_put db Put_append s Block_header (Number height)
         (Data (header_abla_to_data (blk_header b) state))) s)
       (\<lambda>s. put_result (mdb_put db Put_no_overwrite s Block_header_by_hash (Data (block_hash c b)) (Number height)) s)"

definition remove_block_header :: "'s lmdb \<Rightarrow> bytes \<Rightarrow> u32 \<Rightarrow> 's \<Rightarrow> 's outcome" where
  "remove_block_header db hash height s =
     db_then (del_result (mdb_del db s Block_header (Number height)) s)
       (\<lambda>s. del_result (mdb_del db s Block_header_by_hash (Data hash)) s)"

section \<open>What the library promises\<close>

text \<open>
  A table with one value for a key is seen as a map, the index of the reorganizations, which has several values for a
  key, as a set of pairs. A call changes the table that it is for and no other one; a cursor goes through the pairs in
  the order of their keys and values. Failures of the system are left out.
\<close>

locale key_value_store =
  fixes db :: "'s lmdb" and look :: "'s \<Rightarrow> table \<Rightarrow> datum \<rightharpoonup> datum" and dups :: "'s \<Rightarrow> (datum \<times> datum) set"
  assumes txn: "mdb_txn_begin db s" "mdb_txn_commit db s"
    and finite_look: "finite (dom (look s t))" and finite_dups: "finite (dups s)"
    and get: "t \<noteq> Reorg_index \<Longrightarrow> mdb_get db s t k = (case look s t k of None \<Rightarrow> Db_not_found | Some v \<Rightarrow> Db_success v)"
    and put_new: "t \<noteq> Reorg_index \<Longrightarrow> look s t k = None \<Longrightarrow>
      \<exists>s'. mdb_put db Put_no_overwrite s t k v = Db_success s' \<and> look s' = (look s)(t := (look s t)(k \<mapsto> v)) \<and> dups s' = dups s"
    and put_old: "t \<noteq> Reorg_index \<Longrightarrow> look s t k \<noteq> None \<Longrightarrow> mdb_put db Put_no_overwrite s t k v = Db_key_exist"
    and append_new: "t \<noteq> Reorg_index \<Longrightarrow> \<forall>k' \<in> dom (look s t). k' < k \<Longrightarrow>
      \<exists>s'. mdb_put db Put_append s t k v = Db_success s' \<and> look s' = (look s)(t := (look s t)(k \<mapsto> v)) \<and> dups s' = dups s"
    and append_old: "t \<noteq> Reorg_index \<Longrightarrow> \<not> (\<forall>k' \<in> dom (look s t). k' < k) \<Longrightarrow> mdb_put db Put_append s t k v = Db_key_exist"
    and put_dup: "\<exists>s'. mdb_put db Put_plain s Reorg_index k v = Db_success s' \<and> look s' = look s \<and> dups s' = insert (k, v) (dups s)"
    and del_old: "t \<noteq> Reorg_index \<Longrightarrow> look s t k \<noteq> None \<Longrightarrow>
      \<exists>s'. mdb_del db s t k = Db_success s' \<and> look s' = (look s)(t := (look s t)(k := None)) \<and> dups s' = dups s"
    and del_new: "t \<noteq> Reorg_index \<Longrightarrow> look s t k = None \<Longrightarrow> mdb_del db s t k = Db_not_found"
    and del_dups_old: "k \<in> fst ` dups s \<Longrightarrow>
      \<exists>s'. mdb_del db s Reorg_index k = Db_success s' \<and> look s' = look s \<and> dups s' = {p \<in> dups s. fst p \<noteq> k}"
    and del_dups_new: "k \<notin> fst ` dups s \<Longrightarrow> mdb_del db s Reorg_index k = Db_not_found"
    and cursor: "t \<noteq> Reorg_index \<Longrightarrow> mdb_cursor db s t = Db_success (sorted_list_of_set (Map.graph (look s t)))"
    and cursor_dups: "mdb_cursor db s Reorg_index = Db_success (sorted_list_of_set (dups s))"
    and cursor_del: "t \<noteq> Reorg_index \<Longrightarrow> look s t k = Some v \<Longrightarrow>
      \<exists>s'. mdb_cursor_del db s t (k, v) = Db_success s' \<and> look s' = (look s)(t := (look s t)(k := None)) \<and> dups s' = dups s"
    and cursor_del_dups: "p \<in> dups s \<Longrightarrow>
      \<exists>s'. mdb_cursor_del db s Reorg_index p = Db_success s' \<and> look s' = look s \<and> dups s' = dups s - {p}"
begin

lemma put_success:
  assumes "put_result (mdb_put db Put_no_overwrite s t k v) s = (rc_success, s')" "t \<noteq> Reorg_index"
  shows "look s t k = None \<and> look s' = (look s)(t := (look s t)(k \<mapsto> v)) \<and> dups s' = dups s"
proof (cases "look s t k")
  case None
  obtain s1 where new: "mdb_put db Put_no_overwrite s t k v = Db_success s1"
    and post: "look s1 = (look s)(t := (look s t)(k \<mapsto> v)) \<and> dups s1 = dups s"
    using put_new [OF assms(2) None, of v] by blast
  have "s1 = s'" using assms(1) new by (simp add: put_result_def)
  with None post show ?thesis by blast
next
  case (Some w)
  with put_old [OF assms(2), of s k v] assms(1) show ?thesis by (simp add: put_result_def)
qed

lemma append_success:
  assumes "put_result (mdb_put db Put_append s t k v) s = (rc_success, s')" "t \<noteq> Reorg_index"
  shows "(\<forall>k' \<in> dom (look s t). k' < k) \<and> look s' = (look s)(t := (look s t)(k \<mapsto> v)) \<and> dups s' = dups s"
proof (cases "\<forall>k' \<in> dom (look s t). k' < k")
  case True
  obtain s1 where new: "mdb_put db Put_append s t k v = Db_success s1"
    and post: "look s1 = (look s)(t := (look s t)(k \<mapsto> v)) \<and> dups s1 = dups s"
    using append_new [OF assms(2) True, of v] by blast
  have "s1 = s'" using assms(1) new by (simp add: put_result_def)
  with True post show ?thesis by blast
next
  case False
  with append_old [OF assms(2) False, of v] assms(1) show ?thesis by (simp add: put_result_def)
qed

lemma index_success:
  assumes "put_result (mdb_put db Put_plain s Reorg_index k v) s = (rc_success, s')"
  shows "look s' = look s \<and> dups s' = insert (k, v) (dups s)"
  using assms put_dup [of s k v] by (auto simp: put_result_def)

lemma del_success:
  assumes "del_result (mdb_del db s t k) s = (rc_success, s')" "t \<noteq> Reorg_index"
  shows "look s t k \<noteq> None \<and> look s' = (look s)(t := (look s t)(k := None)) \<and> dups s' = dups s"
proof (cases "look s t k")
  case None
  with del_new [OF assms(2) None] assms(1) show ?thesis by (simp add: del_result_def)
next
  case (Some w)
  then have old: "look s t k \<noteq> None" by simp
  obtain s1 where new: "mdb_del db s t k = Db_success s1"
    and post: "look s1 = (look s)(t := (look s t)(k := None)) \<and> dups s1 = dups s"
    using del_old [OF assms(2) old] by blast
  have "s1 = s'" using assms(1) new by (simp add: del_result_def)
  with old post show ?thesis by blast
qed

lemma put_stays:
  assumes "t \<noteq> Reorg_index" "look s t k \<noteq> None"
  shows "put_result (mdb_put db Put_no_overwrite s t k v) s = (rc_duplicated_key, s)"
  using put_old [OF assms] by (simp add: put_result_def)

lemma put_go:
  assumes "t \<noteq> Reorg_index" "look s t k = None"
  shows "\<exists>s'. put_result (mdb_put db Put_no_overwrite s t k v) s = (rc_success, s') \<and>
    look s' = (look s)(t := (look s t)(k \<mapsto> v)) \<and> dups s' = dups s"
  using put_new [OF assms, of v] by (auto simp: put_result_def)

lemma del_go:
  assumes "t \<noteq> Reorg_index" "look s t k \<noteq> None"
  shows "\<exists>s'. del_result (mdb_del db s t k) s = (rc_success, s') \<and>
    look s' = (look s)(t := (look s t)(k := None)) \<and> dups s' = dups s"
  using del_old [OF assms] by (auto simp: del_result_def)

lemma insert_reorg_pool_success:
  assumes "insert_reorg_pool db height key s = (rc_success, s')"
  shows "\<exists>v. look s Utxo key = Some v \<and> look s Reorg_pool key = None \<and>
    look s' = (look s)(Reorg_pool := (look s Reorg_pool)(key \<mapsto> v)) \<and> dups s' = insert (Number height, key) (dups s)"
proof (cases "look s Utxo key")
  case None
  then show ?thesis using assms by (simp add: insert_reorg_pool_def get)
next
  case (Some v)
  obtain code s1 where s1: "put_result (mdb_put db Put_no_overwrite s Reorg_pool key v) s = (code, s1)"
    by (cases "put_result (mdb_put db Put_no_overwrite s Reorg_pool key v) s")
  with assms Some have "code = rc_success" and
    step: "put_result (mdb_put db Put_plain s1 Reorg_index (Number height) key) s1 = (rc_success, s')"
    by (auto simp: insert_reorg_pool_def get db_then_def split: if_splits)
  with s1 put_success [of s Reorg_pool key v s1] index_success [OF step] Some show ?thesis by auto
qed

lemma remove_utxo_success:
  assumes "remove_utxo db height p insert_reorg s = (rc_success, s')"
  shows "\<exists>v. look s Utxo (point_key_data p) = Some v \<and>
    (insert_reorg \<longrightarrow> look s Reorg_pool (point_key_data p) = None) \<and>
    look s' = (look s)(Utxo := (look s Utxo)(point_key_data p := None),
      Reorg_pool := if insert_reorg then (look s Reorg_pool)(point_key_data p \<mapsto> v) else look s Reorg_pool) \<and>
    dups s' = (if insert_reorg then insert (Number height, point_key_data p) (dups s) else dups s)"
proof -
  let ?k = "point_key_data p"
  obtain code s1 where s1: "(if insert_reorg then insert_reorg_pool db height ?k s else (rc_success, s)) = (code, s1)"
    by (cases "if insert_reorg then insert_reorg_pool db height ?k s else (rc_success, s)")
  with assms have code: "code = rc_success" and del: "del_result (mdb_del db s1 Utxo ?k) s1 = (rc_success, s')"
    by (auto simp: remove_utxo_def db_then_def split: if_splits)
  show ?thesis
  proof (cases insert_reorg)
    case True
    with s1 code have "insert_reorg_pool db height ?k s = (rc_success, s1)" by simp
    from insert_reorg_pool_success [OF this] del_success [OF del] True show ?thesis
      by (auto simp: fun_upd_twist)
  next
    case False
    with s1 code del_success [OF del] show ?thesis by (auto simp: fun_eq_iff)
  qed
qed

lemma remove_utxo_go:
  assumes "look s Utxo (point_key_data p) \<noteq> None"
  shows "\<exists>s'. remove_utxo db height p False s = (rc_success, s') \<and>
    look s' = (look s)(Utxo := (look s Utxo)(point_key_data p := None)) \<and> dups s' = dups s"
  using del_go [of Utxo s "point_key_data p"] assms by (auto simp: remove_utxo_def db_then_def)

lemma insert_output_from_reorg_go:
  assumes "look s Reorg_pool (point_key_data p) = Some v" "look s Utxo (point_key_data p) = None"
  shows "\<exists>s'. insert_output_from_reorg_and_remove db p s = (rc_success, s') \<and>
    look s' = (look s)(Utxo := (look s Utxo)(point_key_data p \<mapsto> v),
      Reorg_pool := (look s Reorg_pool)(point_key_data p := None)) \<and> dups s' = dups s"
proof -
  obtain s1 where s1: "put_result (mdb_put db Put_no_overwrite s Utxo (point_key_data p) v) s = (rc_success, s1)"
    "look s1 = (look s)(Utxo := (look s Utxo)(point_key_data p \<mapsto> v))" "dups s1 = dups s"
    using put_go [of Utxo s "point_key_data p" v] assms by auto
  then show ?thesis
    using del_go [of Reorg_pool s1 "point_key_data p"] assms
    by (auto simp: insert_output_from_reorg_and_remove_def get db_then_def)
qed

end

section \<open>A store in memory\<close>

text \<open>Finite maps, and a finite set of pairs for the index, keep the promises.\<close>

record memory_store =
  ms_tables :: "table \<Rightarrow> (datum, datum) fmap"
  ms_index :: "(datum \<times> datum) fset"

definition memory_look :: "memory_store \<Rightarrow> table \<Rightarrow> datum \<rightharpoonup> datum" where
  "memory_look s t = fmlookup (ms_tables s t)"

definition memory_dups :: "memory_store \<Rightarrow> (datum \<times> datum) set" where
  "memory_dups s = fset (ms_index s)"

definition memory_update :: "memory_store \<Rightarrow> table \<Rightarrow> (datum, datum) fmap \<Rightarrow> memory_store" where
  "memory_update s t m = s\<lparr>ms_tables := (ms_tables s)(t := m)\<rparr>"

definition memory_put :: "put_flag \<Rightarrow> memory_store \<Rightarrow> table \<Rightarrow> datum \<Rightarrow> datum \<Rightarrow> memory_store db_result" where
  "memory_put flag s t k v =
     (if t = Reorg_index then Db_success (s\<lparr>ms_index := finsert (k, v) (ms_index s)\<rparr>)
      else if flag = Put_no_overwrite \<and> fmlookup (ms_tables s t) k \<noteq> None then Db_key_exist
      else if flag = Put_append \<and> \<not> fBall (fmdom (ms_tables s t)) (\<lambda>k'. k' < k) then Db_key_exist
      else Db_success (memory_update s t (fmupd k v (ms_tables s t))))"

definition memory_del :: "memory_store \<Rightarrow> table \<Rightarrow> datum \<Rightarrow> memory_store db_result" where
  "memory_del s t k =
     (if t = Reorg_index then
        if k |\<in>| fst |`| ms_index s then Db_success (s\<lparr>ms_index := ffilter (\<lambda>p. fst p \<noteq> k) (ms_index s)\<rparr>)
        else Db_not_found
      else if fmlookup (ms_tables s t) k = None then Db_not_found
      else Db_success (memory_update s t (fmdrop k (ms_tables s t))))"

definition memory_cursor :: "memory_store \<Rightarrow> table \<Rightarrow> (datum \<times> datum) list" where
  "memory_cursor s t =
     sorted_list_of_set (if t = Reorg_index then fset (ms_index s) else Map.graph (fmlookup (ms_tables s t)))"

definition memory_lmdb :: "memory_store lmdb" where
  "memory_lmdb =
     \<lparr>mdb_txn_begin = (\<lambda>s. True), mdb_txn_commit = (\<lambda>s. True),
      mdb_get = (\<lambda>s t k. case fmlookup (ms_tables s t) k of None \<Rightarrow> Db_not_found | Some v \<Rightarrow> Db_success v),
      mdb_put = memory_put, mdb_del = memory_del, mdb_cursor = (\<lambda>s t. Db_success (memory_cursor s t)),
      mdb_cursor_del = (\<lambda>s t p. if t = Reorg_index then Db_success (s\<lparr>ms_index := ms_index s |-| {|p|}\<rparr>)
        else memory_del s t (fst p))\<rparr>"

definition empty_store :: memory_store where
  "empty_store = \<lparr>ms_tables = (\<lambda>t. fmempty), ms_index = {||}\<rparr>"

interpretation memory: key_value_store memory_lmdb memory_look memory_dups
proof unfold_locales
  note defs [simp] = memory_lmdb_def memory_look_def memory_dups_def memory_put_def memory_del_def memory_update_def
    memory_cursor_def fun_eq_iff
  fix s t k v p
  show "mdb_txn_begin memory_lmdb s" "mdb_txn_commit memory_lmdb s" by simp_all
  show "finite (dom (memory_look s t))" "finite (memory_dups s)" by simp_all
  show "mdb_get memory_lmdb s t k = (case memory_look s t k of None \<Rightarrow> Db_not_found | Some v \<Rightarrow> Db_success v)" by simp
  show "t \<noteq> Reorg_index \<Longrightarrow> memory_look s t k = None \<Longrightarrow>
      \<exists>s'. mdb_put memory_lmdb Put_no_overwrite s t k v = Db_success s' \<and>
        memory_look s' = (memory_look s)(t := (memory_look s t)(k \<mapsto> v)) \<and> memory_dups s' = memory_dups s" by simp
  show "t \<noteq> Reorg_index \<Longrightarrow> memory_look s t k \<noteq> None \<Longrightarrow> mdb_put memory_lmdb Put_no_overwrite s t k v = Db_key_exist"
    by simp
  show "t \<noteq> Reorg_index \<Longrightarrow> \<forall>k' \<in> dom (memory_look s t). k' < k \<Longrightarrow>
      \<exists>s'. mdb_put memory_lmdb Put_append s t k v = Db_success s' \<and>
        memory_look s' = (memory_look s)(t := (memory_look s t)(k \<mapsto> v)) \<and> memory_dups s' = memory_dups s"
    by (simp add: fmlookup_dom_iff dom_def)
  show "t \<noteq> Reorg_index \<Longrightarrow> \<not> (\<forall>k' \<in> dom (memory_look s t). k' < k) \<Longrightarrow>
      mdb_put memory_lmdb Put_append s t k v = Db_key_exist"
    by (auto simp: fmlookup_dom_iff dom_def)
  show "\<exists>s'. mdb_put memory_lmdb Put_plain s Reorg_index k v = Db_success s' \<and> memory_look s' = memory_look s \<and>
      memory_dups s' = insert (k, v) (memory_dups s)" by simp
  show "t \<noteq> Reorg_index \<Longrightarrow> memory_look s t k \<noteq> None \<Longrightarrow>
      \<exists>s'. mdb_del memory_lmdb s t k = Db_success s' \<and>
        memory_look s' = (memory_look s)(t := (memory_look s t)(k := None)) \<and> memory_dups s' = memory_dups s" by auto
  show "t \<noteq> Reorg_index \<Longrightarrow> memory_look s t k = None \<Longrightarrow> mdb_del memory_lmdb s t k = Db_not_found" by simp
  show "k \<in> fst ` memory_dups s \<Longrightarrow>
      \<exists>s'. mdb_del memory_lmdb s Reorg_index k = Db_success s' \<and> memory_look s' = memory_look s \<and>
        memory_dups s' = {p \<in> memory_dups s. fst p \<noteq> k}" by (auto simp: fimage_iff)
  show "k \<notin> fst ` memory_dups s \<Longrightarrow> mdb_del memory_lmdb s Reorg_index k = Db_not_found" by (auto simp: fimage_iff)
  show "t \<noteq> Reorg_index \<Longrightarrow> mdb_cursor memory_lmdb s t = Db_success (sorted_list_of_set (Map.graph (memory_look s t)))"
    by simp
  show "mdb_cursor memory_lmdb s Reorg_index = Db_success (sorted_list_of_set (memory_dups s))" by simp
  show "t \<noteq> Reorg_index \<Longrightarrow> memory_look s t k = Some v \<Longrightarrow>
      \<exists>s'. mdb_cursor_del memory_lmdb s t (k, v) = Db_success s' \<and>
        memory_look s' = (memory_look s)(t := (memory_look s t)(k := None)) \<and> memory_dups s' = memory_dups s" by auto
  show "p \<in> memory_dups s \<Longrightarrow>
      \<exists>s'. mdb_cursor_del memory_lmdb s Reorg_index p = Db_success s' \<and> memory_look s' = memory_look s \<and>
        memory_dups s' = memory_dups s - {p}" by simp
qed

end
