(* ===== verification/Utxo_Database.thy ===== *)
theory Utxo_Database
  imports Store_Tables
begin

text \<open>
  The store of the pruned mode (database/include/kth/database/databases/internal_database.ipp): pushing a block, popping
  the top block, pruning what was kept for reorganizations, and the queries of the chain.
\<close>

section \<open>Queries\<close>

text \<open>A query in a transaction of its own. The outer option is a failure of the library.\<close>

definition read_txn :: "'s lmdb \<Rightarrow> 's \<Rightarrow> 'a \<Rightarrow> 'a \<Rightarrow> 'a" where
  "read_txn db s failure result = (if mdb_txn_begin db s \<and> mdb_txn_commit db s then result else failure)"

text \<open>Undefined behaviour of a reader is \<open>None\<close>.\<close>

definition parsed :: "'a reader \<Rightarrow> 'a \<Rightarrow> bytes \<Rightarrow> 'a option" where
  "parsed reader failure bytes =
     (case reader \<lparr>buffer = bytes, position = 0\<rparr> of Got x _ \<Rightarrow> Some x | Fail _ _ \<Rightarrow> Some failure | Undef \<Rightarrow> None)"

definition datum_bytes :: "datum \<Rightarrow> bytes" where
  "datum_bytes d = (case d of Data bs \<Rightarrow> bs | Number n \<Rightarrow> to_little_endian 4 n)"

definition datum_height :: "datum \<Rightarrow> u32" where
  "datum_height d = (case d of Number n \<Rightarrow> n | Data bs \<Rightarrow> from_little_endian_unsafe (take 4 bs))"

definition get_utxo_txn :: "'s lmdb \<Rightarrow> 's \<Rightarrow> 'a point_scheme \<Rightarrow> utxo_entry option" where
  "get_utxo_txn db s p =
     (case mdb_get db s Utxo (point_key_data p) of
        Db_success val \<Rightarrow> parsed utxo_entry_from_data utxo_entry_default (datum_bytes val)
      | _ \<Rightarrow> Some utxo_entry_default)"

definition get_utxo :: "'s lmdb \<Rightarrow> 's \<Rightarrow> 'a point_scheme \<Rightarrow> utxo_entry option" where
  "get_utxo db s p = read_txn db s (Some utxo_entry_default) (get_utxo_txn db s p)"

definition get_last_height :: "'s lmdb \<Rightarrow> 's \<Rightarrow> result_code + u32" where
  "get_last_height db s =
     (if \<not> mdb_txn_begin db s then Inl rc_other
      else case mdb_cursor db s Block_header of
          Db_success pairs \<Rightarrow>
            if pairs = [] then Inl rc_db_empty
            else if \<not> mdb_txn_commit db s then Inl rc_other
            else Inr (datum_height (fst (last pairs)))
        | _ \<Rightarrow> Inl rc_other)"

definition get_first_reorg_block_height :: "'s lmdb \<Rightarrow> 's \<Rightarrow> result_code + u32" where
  "get_first_reorg_block_height db s =
     (if \<not> mdb_txn_begin db s then Inl rc_other
      else case mdb_cursor db s Reorg_block of
          Db_success pairs \<Rightarrow>
            if pairs = [] then Inl rc_db_empty
            else if \<not> mdb_txn_commit db s then Inl rc_other
            else Inr (datum_height (fst (hd pairs)))
        | _ \<Rightarrow> Inl rc_other)"

definition validated_header_default :: validated_header where
  "validated_header_default = header.extend header_default \<lparr>hd_median_time_past = 0\<rparr>"

definition get_header_and_abla_state_txn ::
  "'s lmdb \<Rightarrow> 's \<Rightarrow> u32 \<Rightarrow> (validated_header \<times> u64 \<times> u64 \<times> u64) option option" where
  "get_header_and_abla_state_txn db s height =
     (case mdb_get db s Block_header (Number height) of
        Db_success val \<Rightarrow> parsed (rbind header_abla_from_data (\<lambda>x. rreturn (Some x))) None (datum_bytes val)
      | _ \<Rightarrow> Some None)"

definition get_header_txn :: "'s lmdb \<Rightarrow> 's \<Rightarrow> u32 \<Rightarrow> validated_header option" where
  "get_header_txn db s height =
     map_option (\<lambda>r. case r of None \<Rightarrow> validated_header_default | Some x \<Rightarrow> fst x) (get_header_and_abla_state_txn db s height)"

definition get_header :: "'s lmdb \<Rightarrow> 's \<Rightarrow> u32 \<Rightarrow> validated_header option" where
  "get_header db s height = read_txn db s (Some validated_header_default) (get_header_txn db s height)"

definition get_header_by_hash :: "'s lmdb \<Rightarrow> 's \<Rightarrow> bytes \<Rightarrow> (validated_header \<times> u32) option" where
  "get_header_by_hash db s hash =
     read_txn db s (Some (validated_header_default, 0))
       (case mdb_get db s Block_header_by_hash (Data hash) of
          Db_success val \<Rightarrow>
            map_option (\<lambda>h. (h, datum_height val)) (get_header_txn db s (datum_height val))
        | _ \<Rightarrow> Some (validated_header_default, 0))"

text \<open>The headers from a height that is in the table up to another one; a value that does not parse is left out.\<close>

definition stored_header :: "datum \<Rightarrow> validated_header list option" where
  "stored_header val = parsed (rbind (header_from_data True) (\<lambda>h. rreturn [h])) [] (datum_bytes val)"

fun headers_up_to :: "u32 \<Rightarrow> (datum \<times> datum) list \<Rightarrow> validated_header list option" where
  "headers_up_to to_height [] = Some []"
| "headers_up_to to_height ((k, val) # pairs) =
     (if datum_height k > to_height then Some []
      else do { hs \<leftarrow> stored_header val; rest \<leftarrow> headers_up_to to_height pairs; Some (hs @ rest) })"

definition get_headers :: "'s lmdb \<Rightarrow> 's \<Rightarrow> u32 \<Rightarrow> u32 \<Rightarrow> validated_header list option" where
  "get_headers db s from to_height =
     (if \<not> mdb_txn_begin db s then Some []
      else case mdb_cursor db s Block_header of
          Db_success pairs \<Rightarrow>
            (case dropWhile (\<lambda>(k, _). k \<noteq> Number from) pairs of
               [] \<Rightarrow> Some []
             | (_, val) # rest \<Rightarrow>
                 do { hs \<leftarrow> stored_header val; tail \<leftarrow> headers_up_to to_height rest; Some (hs @ tail) })
        | _ \<Rightarrow> Some [])"

text \<open>The default block, which is not valid.\<close>

definition block_default :: block where
  "block_default = \<lparr>blk_header = validated_header_default, blk_txs = []\<rparr>"

definition get_block_reorg :: "'s lmdb \<Rightarrow> 's \<Rightarrow> u32 \<Rightarrow> block option" where
  "get_block_reorg db s height =
     read_txn db s (Some block_default)
       (case mdb_get db s Reorg_block (Number height) of
          Db_success val \<Rightarrow> parsed (block_from_data True) block_default (datum_bytes val)
        | _ \<Rightarrow> Some block_default)"

text \<open>The pool of the outputs that the blocks from a height up to another one spent. A height above the range is a
  failure.\<close>

definition insert_reorg_into_pool ::
  "'s lmdb \<Rightarrow> 's \<Rightarrow> (u32 \<times> bytes \<rightharpoonup> utxo_entry) \<Rightarrow> datum \<Rightarrow> (result_code \<times> (u32 \<times> bytes \<rightharpoonup> utxo_entry)) option" where
  "insert_reorg_into_pool db s pool key_point =
     (case mdb_get db s Reorg_pool key_point of
        Db_not_found \<Rightarrow> Some (rc_key_not_found, pool)
      | Db_success val \<Rightarrow> do {
          entry \<leftarrow> parsed (rbind utxo_entry_from_data (\<lambda>e. rreturn (Some e))) None (datum_bytes val);
          point \<leftarrow> parsed (rbind (point_from_data internal_db_wire) (\<lambda>p. rreturn (Some p))) None (datum_bytes key_point);
          case (entry, point) of
            (Some e, Some p) \<Rightarrow>
              Some (rc_success,
                if pool (point_key p) = None then pool(point_key p \<mapsto> e) else pool)
          | _ \<Rightarrow> Some (rc_other, pool) }
      | _ \<Rightarrow> Some (rc_other, pool))"

fun pool_from_pairs ::
  "'s lmdb \<Rightarrow> 's \<Rightarrow> u32 \<Rightarrow> (u32 \<times> bytes \<rightharpoonup> utxo_entry) \<Rightarrow> (datum \<times> datum) list \<Rightarrow>
   (result_code \<times> (u32 \<times> bytes \<rightharpoonup> utxo_entry)) option" where
  "pool_from_pairs db s to_height pool [] = Some (rc_success, pool)"
| "pool_from_pairs db s to_height pool ((k, p) # pairs) =
     (if datum_height k > to_height then Some (rc_other, pool)
      else do {
        (code, pool) \<leftarrow> insert_reorg_into_pool db s pool p;
        if code \<noteq> rc_success then Some (code, pool) else pool_from_pairs db s to_height pool pairs })"

definition get_utxo_pool_from ::
  "'s lmdb \<Rightarrow> 's \<Rightarrow> u32 \<Rightarrow> u32 \<Rightarrow> (result_code \<times> (u32 \<times> bytes \<rightharpoonup> utxo_entry)) option" where
  "get_utxo_pool_from db s from to_height =
     (if \<not> mdb_txn_begin db s then Some (rc_other, Map.empty)
      else case mdb_cursor db s Reorg_index of
          Db_success pairs \<Rightarrow>
            (case dropWhile (\<lambda>(k, _). k < Number from) pairs of
               [] \<Rightarrow> Some (rc_key_not_found, Map.empty)
             | ps \<Rightarrow> do {
                 (code, pool) \<leftarrow> pool_from_pairs db s to_height Map.empty ps;
                 Some (if code = rc_success \<and> \<not> mdb_txn_commit db s then rc_other else code, pool) })
        | _ \<Rightarrow> Some (rc_other, Map.empty))"

section \<open>Pushing a block\<close>

fun remove_inputs :: "'s lmdb \<Rightarrow> u32 \<Rightarrow> tx_input list \<Rightarrow> bool \<Rightarrow> 's \<Rightarrow> 's outcome" where
  "remove_inputs db height [] insert_reorg s = (rc_success, s)"
| "remove_inputs db height (i # is) insert_reorg s =
     db_then (remove_utxo db height (in_prevout i) insert_reorg s) (\<lambda>s. remove_inputs db height is insert_reorg s)"

fun insert_outputs_from :: "'s lmdb \<Rightarrow> bytes \<Rightarrow> tx_output list \<Rightarrow> bytes \<Rightarrow> u32 \<Rightarrow> 's \<Rightarrow> 's outcome" where
  "insert_outputs_from db txid [] fixed pos s = (rc_success, s)"
| "insert_outputs_from db txid (out # outs) fixed pos s =
     db_then (insert_utxo db (make_point txid pos) out fixed s) (\<lambda>s. insert_outputs_from db txid outs fixed (pos + 1) s)"

definition insert_outputs :: "'s lmdb \<Rightarrow> bytes \<Rightarrow> tx_output list \<Rightarrow> bytes \<Rightarrow> 's \<Rightarrow> 's outcome" where
  "insert_outputs db txid outs fixed s = insert_outputs_from db txid outs fixed 0 s"

definition insert_outputs_error_treatment ::
  "'s lmdb \<Rightarrow> bytes \<Rightarrow> bytes \<Rightarrow> tx_output list \<Rightarrow> 's \<Rightarrow> 's outcome" where
  "insert_outputs_error_treatment db fixed txid outs s =
     (case insert_outputs db txid outs fixed s of
        (code, s) \<Rightarrow> (if code = rc_duplicated_key then rc_success_duplicate_coinbase else code, s))"

fun push_transactions_outputs_non_coinbase ::
  "'s lmdb \<Rightarrow> crypto \<Rightarrow> bytes \<Rightarrow> block_tx list \<Rightarrow> 's \<Rightarrow> 's outcome" where
  "push_transactions_outputs_non_coinbase db c fixed [] s = (rc_success, s)"
| "push_transactions_outputs_non_coinbase db c fixed (t # ts) s =
     db_then (insert_outputs_error_treatment db fixed (block_tx_hash c t) (tx_outputs (bt_tx t)) s)
       (\<lambda>s. push_transactions_outputs_non_coinbase db c fixed ts s)"

fun remove_transactions_inputs_non_coinbase ::
  "'s lmdb \<Rightarrow> u32 \<Rightarrow> block_tx list \<Rightarrow> bool \<Rightarrow> 's \<Rightarrow> 's outcome" where
  "remove_transactions_inputs_non_coinbase db height [] insert_reorg s = (rc_success, s)"
| "remove_transactions_inputs_non_coinbase db height (t # ts) insert_reorg s =
     db_then (remove_inputs db height (tx_inputs (bt_tx t)) insert_reorg s)
       (\<lambda>s. remove_transactions_inputs_non_coinbase db height ts insert_reorg s)"

definition push_transactions_non_coinbase ::
  "'s lmdb \<Rightarrow> crypto \<Rightarrow> u32 \<Rightarrow> bytes \<Rightarrow> block_tx list \<Rightarrow> bool \<Rightarrow> 's \<Rightarrow> 's outcome" where
  "push_transactions_non_coinbase db c height fixed ts insert_reorg s =
     db_then (push_transactions_outputs_non_coinbase db c fixed ts s)
       (\<lambda>s. remove_transactions_inputs_non_coinbase db height ts insert_reorg s)"

text \<open>The last byte of the fixed part, the coinbase flag, is cleared for the other transactions. A block has at least
  one transaction.\<close>

definition push_block_txn ::
  "'s lmdb \<Rightarrow> crypto \<Rightarrow> block \<Rightarrow> abla_state option \<Rightarrow> u32 \<Rightarrow> u32 \<Rightarrow> bool \<Rightarrow> 's \<Rightarrow> 's outcome" where
  "push_block_txn db c b state height mtp insert_reorg s =
     db_then (push_block_header db c b state height s) (\<lambda>s.
     db_then (if insert_reorg then push_block_reorg db b height s else (rc_success, s)) (\<lambda>s.
       let coinbase = hd (blk_txs b);
           fixed = to_data_fixed height mtp True;
           (res0, s) = insert_outputs_error_treatment db fixed (block_tx_hash c coinbase) (tx_outputs (bt_tx coinbase)) s
       in if \<not> succeed res0 then (res0, s)
          else db_then
            (push_transactions_non_coinbase db c height (fixed[length fixed - 1 := 0]) (tl (blk_txs b)) insert_reorg s)
            (\<lambda>s. (res0, s))))"

definition blocks_to_seconds :: "u32 \<Rightarrow> u32" where
  "blocks_to_seconds blocks = blocks * 600"

definition is_old_block :: "int \<Rightarrow> u32 \<Rightarrow> block \<Rightarrow> bool" where
  "is_old_block now limit b \<longleftrightarrow> now - uint (hd_timestamp (blk_header b)) \<ge> uint (blocks_to_seconds limit)"

text \<open>A transaction that writes, with the condition under which it is committed.\<close>

definition write_txn :: "'s lmdb \<Rightarrow> (result_code \<Rightarrow> bool) \<Rightarrow> ('s \<Rightarrow> 's outcome) \<Rightarrow> 's \<Rightarrow> 's outcome" where
  "write_txn db good f s =
     (if \<not> mdb_txn_begin db s then (rc_other, s)
      else case f s of
          (res, s') \<Rightarrow>
            if \<not> good res then (res, s) else if \<not> mdb_txn_commit db s' then (rc_other, s) else (res, s'))"

definition push_block ::
  "'s lmdb \<Rightarrow> crypto \<Rightarrow> int \<Rightarrow> u32 \<Rightarrow> block \<Rightarrow> abla_state option \<Rightarrow> u32 \<Rightarrow> u32 \<Rightarrow> 's \<Rightarrow> 's outcome" where
  "push_block db c now limit b state height mtp s =
     write_txn db succeed (push_block_txn db c b state height mtp (\<not> is_old_block now limit b)) s"

definition push_genesis_block :: "'s lmdb \<Rightarrow> crypto \<Rightarrow> block \<Rightarrow> abla_state option \<Rightarrow> 's \<Rightarrow> 's outcome" where
  "push_genesis_block db c b state s = write_txn db succeed (push_block_header db c b state 0) s"

section \<open>Popping a block\<close>

text \<open>The positions go down from the last one.\<close>

fun remove_outputs_from :: "'s lmdb \<Rightarrow> bytes \<Rightarrow> tx_output list \<Rightarrow> u32 \<Rightarrow> 's \<Rightarrow> 's outcome" where
  "remove_outputs_from db txid [] pos s = (rc_success, s)"
| "remove_outputs_from db txid (out # outs) pos s =
     db_then (remove_utxo db 0 (make_point txid pos) False s) (\<lambda>s. remove_outputs_from db txid outs (pos - 1) s)"

definition remove_outputs :: "'s lmdb \<Rightarrow> bytes \<Rightarrow> tx_output list \<Rightarrow> 's \<Rightarrow> 's outcome" where
  "remove_outputs db txid outs s = remove_outputs_from db txid outs (of_nat (length outs) - 1) s"

fun insert_inputs :: "'s lmdb \<Rightarrow> tx_input list \<Rightarrow> 's \<Rightarrow> 's outcome" where
  "insert_inputs db [] s = (rc_success, s)"
| "insert_inputs db (i # is) s =
     db_then (insert_output_from_reorg_and_remove db (in_prevout i) s) (\<lambda>s. insert_inputs db is s)"

fun insert_transactions_inputs_non_coinbase :: "'s lmdb \<Rightarrow> block_tx list \<Rightarrow> 's \<Rightarrow> 's outcome" where
  "insert_transactions_inputs_non_coinbase db [] s = (rc_success, s)"
| "insert_transactions_inputs_non_coinbase db (t # ts) s =
     db_then (insert_inputs db (tx_inputs (bt_tx t)) s) (\<lambda>s. insert_transactions_inputs_non_coinbase db ts s)"

fun remove_transactions_outputs_non_coinbase :: "'s lmdb \<Rightarrow> crypto \<Rightarrow> block_tx list \<Rightarrow> 's \<Rightarrow> 's outcome" where
  "remove_transactions_outputs_non_coinbase db c [] s = (rc_success, s)"
| "remove_transactions_outputs_non_coinbase db c (t # ts) s =
     db_then (remove_outputs db (block_tx_hash c t) (tx_outputs (bt_tx t)) s)
       (\<lambda>s. remove_transactions_outputs_non_coinbase db c ts s)"

definition remove_transactions_non_coinbase :: "'s lmdb \<Rightarrow> crypto \<Rightarrow> block_tx list \<Rightarrow> 's \<Rightarrow> 's outcome" where
  "remove_transactions_non_coinbase db c ts s =
     db_then (insert_transactions_inputs_non_coinbase db ts s) (\<lambda>s. remove_transactions_outputs_non_coinbase db c ts s)"

definition remove_block_txn :: "'s lmdb \<Rightarrow> crypto \<Rightarrow> block \<Rightarrow> u32 \<Rightarrow> 's \<Rightarrow> 's outcome" where
  "remove_block_txn db c b height s =
     (let coinbase = hd (blk_txs b)
      in db_then (remove_transactions_non_coinbase db c (tl (blk_txs b)) s) (\<lambda>s.
         db_then (remove_outputs db (block_tx_hash c coinbase) (tx_outputs (bt_tx coinbase)) s) (\<lambda>s.
         db_then (remove_block_header db (block_hash c b) height s) (\<lambda>s.
         db_then (remove_block_reorg db height s) (\<lambda>s.
           case remove_reorg_index db height s of
             (res, s) \<Rightarrow> (if res \<noteq> rc_success \<and> res \<noteq> rc_key_not_found then res else rc_success, s))))))"

definition remove_block :: "'s lmdb \<Rightarrow> crypto \<Rightarrow> block \<Rightarrow> u32 \<Rightarrow> 's \<Rightarrow> 's outcome" where
  "remove_block db c b height s = write_txn db (\<lambda>res. res = rc_success) (remove_block_txn db c b height) s"

text \<open>The code, the block and the state; \<open>None\<close> is undefined behaviour of a reader.\<close>

definition pop_block :: "'s lmdb \<Rightarrow> crypto \<Rightarrow> 's \<Rightarrow> (result_code \<times> block \<times> 's) option" where
  "pop_block db c s =
     (case get_last_height db s of
        Inl code \<Rightarrow> Some (code, block_default, s)
      | Inr height \<Rightarrow> do {
          out_block \<leftarrow> get_block_reorg db s height;
          if \<not> block_is_valid out_block then Some (rc_key_not_found, out_block, s)
          else case remove_block db c out_block height s of (res, s) \<Rightarrow> Some (res, out_block, s) })"

section \<open>Pruning\<close>

text \<open>The heights are read from the cursor, which goes on behind each deletion. The amount is at least one.\<close>

fun prune_reorg_block_pairs :: "'s lmdb \<Rightarrow> u32 \<Rightarrow> (datum \<times> datum) list \<Rightarrow> 's \<Rightarrow> 's outcome" where
  "prune_reorg_block_pairs db amount_left [] s = (rc_success, s)"
| "prune_reorg_block_pairs db amount_left (p # ps) s =
     (case mdb_cursor_del db s Reorg_block p of
        Db_success s \<Rightarrow>
          if amount_left - 1 = 0 then (rc_success, s) else prune_reorg_block_pairs db (amount_left - 1) ps s
      | _ \<Rightarrow> (rc_other, s))"

definition prune_reorg_block :: "'s lmdb \<Rightarrow> u32 \<Rightarrow> 's \<Rightarrow> 's outcome" where
  "prune_reorg_block db amount_left s =
     (case mdb_cursor db s Reorg_block of
        Db_success pairs \<Rightarrow> prune_reorg_block_pairs db amount_left pairs s
      | _ \<Rightarrow> (rc_other, s))"

fun prune_reorg_index_pairs :: "'s lmdb \<Rightarrow> u32 \<Rightarrow> (datum \<times> datum) list \<Rightarrow> 's \<Rightarrow> 's outcome" where
  "prune_reorg_index_pairs db remove_until [] s = (rc_success, s)"
| "prune_reorg_index_pairs db remove_until ((k, p) # ps) s =
     (if datum_height k < remove_until then
        db_then (del_result (mdb_del db s Reorg_pool p) s) (\<lambda>s.
          case mdb_cursor_del db s Reorg_index (k, p) of
            Db_success s \<Rightarrow> prune_reorg_index_pairs db remove_until ps s
          | _ \<Rightarrow> (rc_other, s))
      else (rc_success, s))"

definition prune_reorg_index :: "'s lmdb \<Rightarrow> u32 \<Rightarrow> 's \<Rightarrow> 's outcome" where
  "prune_reorg_index db remove_until s =
     (case mdb_cursor db s Reorg_index of
        Db_success pairs \<Rightarrow> prune_reorg_index_pairs db remove_until pairs s
      | _ \<Rightarrow> (rc_other, s))"

definition prune :: "'s lmdb \<Rightarrow> u32 \<Rightarrow> 's \<Rightarrow> 's outcome" where
  "prune db reorg_pool_limit s =
     (case get_last_height db s of
        Inl code \<Rightarrow> (if code = rc_db_empty then rc_no_data_to_prune else code, s)
      | Inr last_height \<Rightarrow>
          if last_height < reorg_pool_limit then (rc_no_data_to_prune, s)
          else case get_first_reorg_block_height db s of
              Inl code \<Rightarrow> (if code = rc_db_empty then rc_no_data_to_prune else code, s)
            | Inr first_height \<Rightarrow>
                if first_height > last_height then (rc_db_corrupt, s)
                else
                  let reorg_count = last_height - first_height + 1
                  in if reorg_count \<le> reorg_pool_limit then (rc_no_data_to_prune, s)
                     else
                       let amount_left = reorg_count - reorg_pool_limit;
                           remove_until = first_height + amount_left
                       in write_txn db (\<lambda>res. res = rc_success)
                            (\<lambda>s. db_then (prune_reorg_block db amount_left s) (\<lambda>s. prune_reorg_index db remove_until s)) s)"

section \<open>What a block creates and spends\<close>

text \<open>The entries of the outputs of transactions, and the keys of the outputs that they spend.\<close>

fun output_pairs :: "bytes \<Rightarrow> bytes \<Rightarrow> u32 \<Rightarrow> tx_output list \<Rightarrow> (datum \<times> datum) list" where
  "output_pairs txid fixed pos [] = []"
| "output_pairs txid fixed pos (out # outs) =
     (point_key_data (make_point txid pos), Data (to_data_with_fixed out fixed)) # output_pairs txid fixed (pos + 1) outs"

definition created_pairs :: "crypto \<Rightarrow> bytes \<Rightarrow> block_tx list \<Rightarrow> (datum \<times> datum) list" where
  "created_pairs c fixed ts =
     concat (map (\<lambda>t. output_pairs (block_tx_hash c t) fixed 0 (tx_outputs (bt_tx t))) ts)"

definition input_keys :: "tx_input list \<Rightarrow> datum list" where
  "input_keys ins = map (\<lambda>i. point_key_data (in_prevout i)) ins"

definition spent_keys :: "block_tx list \<Rightarrow> datum list" where
  "spent_keys ts = concat (map (\<lambda>t. input_keys (tx_inputs (bt_tx t))) ts)"

lemma created_pairs_simps [simp]:
  "created_pairs c fixed [] = []"
  "created_pairs c fixed (t # ts) = output_pairs (block_tx_hash c t) fixed 0 (tx_outputs (bt_tx t)) @ created_pairs c fixed ts"
  by (simp_all add: created_pairs_def)

lemma spent_keys_simps [simp]:
  "spent_keys [] = []" "spent_keys (t # ts) = input_keys (tx_inputs (bt_tx t)) @ spent_keys ts"
  "input_keys [] = []" "input_keys (i # is) = point_key_data (in_prevout i) # input_keys is"
  by (simp_all add: spent_keys_def input_keys_def)

text \<open>The changes of the views \<open>look\<close> and \<open>dups\<close> of a store: entries are added, outputs are spent, spent outputs are
  restored and outputs are dropped.\<close>

type_synonym 's look = "'s \<Rightarrow> table \<Rightarrow> datum \<rightharpoonup> datum"
type_synonym 's dups = "'s \<Rightarrow> (datum \<times> datum) set"

definition others_kept :: "'s look \<Rightarrow> 's \<Rightarrow> 's \<Rightarrow> table set \<Rightarrow> bool" where
  "others_kept look s s' ts \<longleftrightarrow> (\<forall>t. t \<notin> ts \<longrightarrow> look s' t = look s t)"

definition adds :: "'s look \<Rightarrow> 's dups \<Rightarrow> 's \<Rightarrow> (datum \<times> datum) list \<Rightarrow> 's \<Rightarrow> bool" where
  "adds look dups s kvs s' \<longleftrightarrow> distinct (map fst kvs) \<and> fst ` set kvs \<inter> dom (look s Utxo) = {} \<and>
     look s' Utxo = look s Utxo ++ map_of kvs \<and> others_kept look s s' {Utxo} \<and> dups s' = dups s"

definition spends :: "'s look \<Rightarrow> 's dups \<Rightarrow> u32 \<Rightarrow> bool \<Rightarrow> 's \<Rightarrow> datum list \<Rightarrow> 's \<Rightarrow> bool" where
  "spends look dups height insert_reorg s ks s' \<longleftrightarrow> distinct ks \<and> set ks \<subseteq> dom (look s Utxo) \<and>
     (insert_reorg \<longrightarrow> set ks \<inter> dom (look s Reorg_pool) = {}) \<and>
     look s' Utxo = look s Utxo |` (- set ks) \<and>
     look s' Reorg_pool = (if insert_reorg then look s Reorg_pool ++ (look s Utxo |` set ks) else look s Reorg_pool) \<and>
     others_kept look s s' {Utxo, Reorg_pool} \<and>
     dups s' = (if insert_reorg then dups s \<union> Pair (Number height) ` set ks else dups s)"

definition restores :: "'s look \<Rightarrow> 's dups \<Rightarrow> 's \<Rightarrow> datum list \<Rightarrow> 's \<Rightarrow> bool" where
  "restores look dups s ks s' \<longleftrightarrow>
     look s' Utxo = look s Utxo ++ (look s Reorg_pool |` set ks) \<and>
     look s' Reorg_pool = look s Reorg_pool |` (- set ks) \<and>
     others_kept look s s' {Utxo, Reorg_pool} \<and> dups s' = dups s"

definition drops :: "'s look \<Rightarrow> 's dups \<Rightarrow> 's \<Rightarrow> datum list \<Rightarrow> 's \<Rightarrow> bool" where
  "drops look dups s ks s' \<longleftrightarrow>
     look s' Utxo = look s Utxo |` (- set ks) \<and> others_kept look s s' {Utxo} \<and> dups s' = dups s"

lemma restrict_UNIV [simp]: "m |` UNIV = m"
  by (simp add: restrict_map_def)

lemma restrict_added:
  assumes "fst ` set kvs \<inter> dom m = {}"
  shows "(m ++ map_of kvs) |` (- fst ` set kvs) = m"
proof
  fix x
  show "((m ++ map_of kvs) |` (- fst ` set kvs)) x = m x"
  proof (cases "x \<in> fst ` set kvs")
    case True
    then have "m x = None" using assms by blast
    with True show ?thesis by simp
  next
    case False
    then have "map_of kvs x = None" by (simp add: map_of_eq_None_iff)
    with False show ?thesis by (simp add: map_add_def)
  qed
qed

lemma others_kept_trans: "others_kept look s s1 ts \<Longrightarrow> others_kept look s1 s2 ts \<Longrightarrow> others_kept look s s2 ts"
  by (simp add: others_kept_def)

lemma adds_append:
  assumes "adds look dups s xs s1" "adds look dups s1 ys s2"
  shows "adds look dups s (xs @ ys) s2"
proof -
  have disj: "fst ` set ys \<inter> fst ` set xs = {}"
    using assms by (auto simp: adds_def dom_map_add dom_map_of_conv_image_fst)
  then have "map_of xs ++ map_of ys = map_of ys ++ map_of xs"
    by (intro map_add_comm) (auto simp: dom_map_of_conv_image_fst)
  then have "look s2 Utxo = look s Utxo ++ map_of (xs @ ys)"
    using assms by (simp add: adds_def flip: map_add_assoc)
  moreover have "fst ` set ys \<inter> dom (look s Utxo) = {}" using assms by (auto simp: adds_def)
  moreover have "others_kept look s s2 {Utxo}"
    using assms by - (rule others_kept_trans [of look s s1], simp_all add: adds_def)
  ultimately show ?thesis using assms disj by (auto simp: adds_def)
qed

lemma map_add_restrict_Un: "f ++ (m |` A) ++ (m |` B) = f ++ (m |` (A \<union> B))"
  by (auto simp: restrict_map_def map_add_def fun_eq_iff split: option.splits)

lemma spends_append:
  assumes "spends look dups h r s xs s1" "spends look dups h r s1 ys s2"
  shows "spends look dups h r s (xs @ ys) s2"
proof -
  have disj: "set ys \<inter> set xs = {}" "set ys \<subseteq> dom (look s Utxo)" "r \<longrightarrow> set ys \<inter> dom (look s Reorg_pool) = {}"
    using assms by (auto simp: spends_def dom_map_add split: if_splits)
  have "(look s Utxo |` (- set xs)) |` set ys = look s Utxo |` set ys"
    using disj by (auto simp: restrict_map_def fun_eq_iff)
  then have "look s2 Reorg_pool = (if r then look s Reorg_pool ++ (look s Utxo |` set (xs @ ys)) else look s Reorg_pool)"
    using assms by (simp add: spends_def map_add_restrict_Un del: map_add_assoc)
  moreover have "look s2 Utxo = look s Utxo |` (- set (xs @ ys))" using assms by (simp add: spends_def)
  moreover have "dups s2 = (if r then dups s \<union> Pair (Number h) ` set (xs @ ys) else dups s)"
    using assms by (auto simp: spends_def)
  moreover have "others_kept look s s2 {Utxo, Reorg_pool}"
    using assms by - (rule others_kept_trans [of look s s1], simp_all add: spends_def)
  ultimately show ?thesis using assms disj by (auto simp: spends_def)
qed

lemma restores_append:
  assumes "restores look dups s xs s1" "restores look dups s1 ys s2" "set xs \<inter> set ys = {}"
  shows "restores look dups s (xs @ ys) s2"
proof -
  have "(look s Reorg_pool |` (- set xs)) |` set ys = look s Reorg_pool |` set ys"
    using assms(3) by (auto simp: restrict_map_def fun_eq_iff)
  then have "look s2 Utxo = look s Utxo ++ (look s Reorg_pool |` set (xs @ ys))"
    using assms by (simp add: restores_def map_add_restrict_Un del: map_add_assoc)
  moreover have "others_kept look s s2 {Utxo, Reorg_pool}"
    using assms by - (rule others_kept_trans [of look s s1], simp_all add: restores_def)
  ultimately show ?thesis using assms by (simp add: restores_def)
qed

lemma drops_append:
  assumes "drops look dups s xs s1" "drops look dups s1 ys s2"
  shows "drops look dups s (xs @ ys) s2"
proof -
  have "others_kept look s s2 {Utxo}"
    using assms by - (rule others_kept_trans [of look s s1], simp_all add: drops_def)
  then show ?thesis using assms by (simp add: drops_def)
qed

section \<open>Blocks as bytes\<close>

text \<open>A block that is read back is the one written, without what the node found out about it: its previous outputs are not
  populated and its scripts have no cached operations.\<close>

definition read_input :: "tx_input \<Rightarrow> tx_input" where
  "read_input i = i\<lparr>in_prevout := output_point_of (make_point (point_hash (in_prevout i)) (point_index (in_prevout i))),
     in_script := script_of_bytes (script_bytes (in_script i))\<rparr>"

definition read_output :: "tx_output \<Rightarrow> tx_output" where
  "read_output out = out\<lparr>out_script := script_of_bytes (script_bytes (out_script out))\<rparr>"

definition read_tx :: "transaction \<Rightarrow> transaction" where
  "read_tx tx = tx\<lparr>tx_inputs := map read_input (tx_inputs tx), tx_outputs := map read_output (tx_outputs tx)\<rparr>"

definition fresh_block :: "block \<Rightarrow> block" where
  "fresh_block b = \<lparr>blk_header = (blk_header b)\<lparr>hd_median_time_past := 0\<rparr>,
     blk_txs = map (\<lambda>t. new_block_tx (read_tx (bt_tx t))) (blk_txs b)\<rparr>"

text \<open>Blocks that can be read back, whatever the node has found out about them.\<close>

definition wf_block :: "block \<Rightarrow> bool" where
  "wf_block b \<longleftrightarrow> wf_header (blk_header b) \<and> list_all (\<lambda>t. wf_tx True (read_tx (bt_tx t))) (blk_txs b) \<and>
     length (blk_txs b) \<le> Byte_Reader.static_absolute_max_block_size \<and> blk_txs b \<noteq> []"

lemma script_to_data_read: "script_to_data prefix (script_of_bytes (script_bytes s)) = script_to_data prefix s"
  by (simp add: script_to_data_def script_of_bytes_def script_serialized_size_def)

lemma read_input_data [simp]:
  "input_to_data wire (read_input i) = input_to_data wire i" "point_key_data (in_prevout (read_input i)) = point_key_data (in_prevout i)"
  by (simp_all add: input_to_data_def read_input_def script_to_data_read point_key_data_def point_to_data_def output_point_of_def
      make_point_def point.defs)

lemma read_output_data [simp]:
  "output_to_data (read_output out) = output_to_data out" "to_data_with_fixed (read_output out) fixed = to_data_with_fixed out fixed"
proof -
  show data: "output_to_data (read_output out) = output_to_data out"
    by (simp add: output_to_data_def read_output_def script_to_data_def script_serialized_size_def script_of_bytes_def
        split: option.split)
  show "to_data_with_fixed (read_output out) fixed = to_data_with_fixed out fixed"
    by (simp add: to_data_with_fixed_def chain_output_to_data_def stored_output_to_data_def data)
qed

lemma read_tx_data [simp]: "tx_to_data True (read_tx tx) = tx_to_data True tx"
proof -
  have "chain_output_to_data True (read_output out) = chain_output_to_data True out" for out by (simp add: chain_output_to_data_def)
  then show ?thesis by (simp add: tx_to_data_def read_tx_def write_collection_def comp_def)
qed

lemma read_tx_hash [simp]: "block_tx_hash c (new_block_tx (read_tx tx)) = tx_hash (bitcoin_hash c) tx"
  by (simp add: block_tx_hash_def new_block_tx_def tx_hash_def)

text \<open>A transaction that was read is the same when it is read again.\<close>

lemma read_tx_wf: "wf_tx wire tx \<Longrightarrow> wf_tx wire (read_tx tx)"
  by (auto simp: wf_tx_def read_tx_def list.pred_map list_all_iff wf_input_def wf_output_def read_input_def read_output_def
      script_of_bytes_def output_point_of_def make_point_def point.defs split: option.splits)

interpretation txs_codec: codec "write_collection (tx_to_data True)" "read_collection (tx_from_data True)"
  "\<lambda>xs. list_all (wf_tx True) xs \<and> length xs \<le> Byte_Reader.static_absolute_max_block_size"
  by (rule tx_wire.codec_collection)

lemma parsed_block:
  assumes "wf_block b" "fits (block_to_data b)"
  shows "parsed (block_from_data True) failure (block_to_data b) = Some (fresh_block b)"
proof -
  let ?h = "(blk_header b)\<lparr>hd_median_time_past := 0\<rparr>" and ?txs = "map (\<lambda>t. read_tx (bt_tx t)) (blk_txs b)"
  have data: "block_to_data b = header_to_data True ?h @ write_collection (tx_to_data True) ?txs"
    by (simp add: block_to_data_def header_to_data_def header_basis_to_data_def write_collection_def comp_def)
  have wf: "wf_header ?h" "list_all (wf_tx True) ?txs \<and> length ?txs \<le> Byte_Reader.static_absolute_max_block_size"
    using assms(1) by (simp_all add: wf_block_def wf_header_def list.pred_map comp_def)
  have "block_from_data True (reader_at [] (block_to_data b)) = Got (fresh_block b) (reader_at (block_to_data b) [])"
    using assms(2) wf unfolding data
    by (simp add: block_from_data_def wire_header.rbind_enc txs_codec.rbind_enc_end rreturn_def fresh_block_def comp_def)
  then show ?thesis by (simp add: parsed_def reader_at_def)
qed

section \<open>Effects of the operations\<close>

context key_value_store
begin

lemma insert_outputs_success:
  "insert_outputs_from db txid outs fixed pos s = (rc_success, s') \<Longrightarrow> adds look dups s (output_pairs txid fixed pos outs) s'"
proof (induction outs arbitrary: pos s)
  case Nil
  then show ?case by (simp add: adds_def others_kept_def)
next
  case (Cons out outs)
  let ?k = "point_key_data (make_point txid pos)" and ?v = "Data (to_data_with_fixed out fixed)"
  obtain s1 where "insert_utxo db (make_point txid pos) out fixed s = (rc_success, s1)"
    and rest: "insert_outputs_from db txid outs fixed (pos + 1) s1 = (rc_success, s')"
    using Cons.prems by (auto simp: db_then_success)
  then have "adds look dups s [(?k, ?v)] s1"
    using put_success [of s Utxo ?k ?v s1] by (auto simp: insert_utxo_def adds_def others_kept_def)
  from adds_append [OF this Cons.IH [OF rest]] show ?case by simp
qed

lemma push_outputs_success:
  "push_transactions_outputs_non_coinbase db c fixed ts s = (rc_success, s') \<Longrightarrow>
   adds look dups s (created_pairs c fixed ts) s'"
proof (induction ts arbitrary: s)
  case Nil
  then show ?case by (simp add: adds_def others_kept_def)
next
  case (Cons t ts)
  obtain s1 where first: "insert_outputs_error_treatment db fixed (block_tx_hash c t) (tx_outputs (bt_tx t)) s = (rc_success, s1)"
    and rest: "push_transactions_outputs_non_coinbase db c fixed ts s1 = (rc_success, s')"
    using Cons.prems by (auto simp: db_then_success)
  from first have "insert_outputs_from db (block_tx_hash c t) (tx_outputs (bt_tx t)) fixed 0 s = (rc_success, s1)"
    by (auto simp: insert_outputs_error_treatment_def insert_outputs_def split: prod.splits if_splits)
  from adds_append [OF insert_outputs_success [OF this] Cons.IH [OF rest]] show ?case by simp
qed

lemma remove_inputs_success:
  "remove_inputs db height ins insert_reorg s = (rc_success, s') \<Longrightarrow>
   spends look dups height insert_reorg s (input_keys ins) s'"
proof (induction ins arbitrary: s)
  case Nil
  then show ?case by (simp add: spends_def others_kept_def)
next
  case (Cons i ins)
  obtain s1 where first: "remove_utxo db height (in_prevout i) insert_reorg s = (rc_success, s1)"
    and rest: "remove_inputs db height ins insert_reorg s1 = (rc_success, s')"
    using Cons.prems by (auto simp: db_then_success)
  have "spends look dups height insert_reorg s [point_key_data (in_prevout i)] s1"
    using remove_utxo_success [OF first]
    by (cases insert_reorg) (auto simp: spends_def others_kept_def restrict_map_def map_add_def fun_eq_iff)
  from spends_append [OF this Cons.IH [OF rest]] show ?case by simp
qed

lemma remove_transactions_inputs_success:
  "remove_transactions_inputs_non_coinbase db height ts insert_reorg s = (rc_success, s') \<Longrightarrow>
   spends look dups height insert_reorg s (spent_keys ts) s'"
proof (induction ts arbitrary: s)
  case Nil
  then show ?case by (simp add: spends_def others_kept_def)
next
  case (Cons t ts)
  obtain s1 where first: "remove_inputs db height (tx_inputs (bt_tx t)) insert_reorg s = (rc_success, s1)"
    and rest: "remove_transactions_inputs_non_coinbase db height ts insert_reorg s1 = (rc_success, s')"
    using Cons.prems by (auto simp: db_then_success)
  from spends_append [OF remove_inputs_success [OF first] Cons.IH [OF rest]] show ?case by simp
qed

lemma insert_inputs_go:
  assumes "distinct (input_keys ins)" "set (input_keys ins) \<subseteq> dom (look s Reorg_pool)"
    "set (input_keys ins) \<inter> dom (look s Utxo) = {}"
  shows "\<exists>s'. insert_inputs db ins s = (rc_success, s') \<and> restores look dups s (input_keys ins) s'"
  using assms
proof (induction ins arbitrary: s)
  case Nil
  then show ?case by (simp add: restores_def others_kept_def)
next
  case (Cons i ins)
  let ?k = "point_key_data (in_prevout i)"
  obtain v where "look s Reorg_pool ?k = Some v" "look s Utxo ?k = None" using Cons.prems by auto
  then obtain s1 where first: "insert_output_from_reorg_and_remove db (in_prevout i) s = (rc_success, s1)"
    and s1: "look s1 = (look s)(Utxo := (look s Utxo)(?k \<mapsto> v), Reorg_pool := (look s Reorg_pool)(?k := None))"
      "dups s1 = dups s"
    using insert_output_from_reorg_go [of s "in_prevout i" v] by blast
  have "set (input_keys ins) \<subseteq> dom (look s1 Reorg_pool)" "set (input_keys ins) \<inter> dom (look s1 Utxo) = {}"
    using s1 Cons.prems by auto
  then obtain s' where rest: "insert_inputs db ins s1 = (rc_success, s')" "restores look dups s1 (input_keys ins) s'"
    using Cons.IH [of s1] Cons.prems by auto
  have "restores look dups s [?k] s1"
    using s1 \<open>look s Reorg_pool ?k = Some v\<close>
    by (auto simp: restores_def others_kept_def restrict_map_def map_add_def fun_eq_iff)
  from restores_append [OF this rest(2)] Cons.prems first rest show ?case by (auto simp: db_then_go)
qed

lemma insert_transactions_inputs_go:
  assumes "distinct (spent_keys ts)" "set (spent_keys ts) \<subseteq> dom (look s Reorg_pool)"
    "set (spent_keys ts) \<inter> dom (look s Utxo) = {}"
  shows "\<exists>s'. insert_transactions_inputs_non_coinbase db ts s = (rc_success, s') \<and> restores look dups s (spent_keys ts) s'"
  using assms
proof (induction ts arbitrary: s)
  case Nil
  then show ?case by (simp add: restores_def others_kept_def)
next
  case (Cons t ts)
  obtain s1 where first: "insert_inputs db (tx_inputs (bt_tx t)) s = (rc_success, s1)"
    "restores look dups s (input_keys (tx_inputs (bt_tx t))) s1"
    using insert_inputs_go [of "tx_inputs (bt_tx t)" s] Cons.prems by auto
  have "set (spent_keys ts) \<subseteq> dom (look s1 Reorg_pool)" "set (spent_keys ts) \<inter> dom (look s1 Utxo) = {}"
    using first(2) Cons.prems by (auto simp: restores_def dom_restrict dest!: arg_cong [of "look s1 Utxo" _ dom]
        arg_cong [of "look s1 Reorg_pool" _ dom])
  then obtain s' where rest: "insert_transactions_inputs_non_coinbase db ts s1 = (rc_success, s')"
    "restores look dups s1 (spent_keys ts) s'"
    using Cons.IH [of s1] Cons.prems by auto
  from restores_append [OF first(2) rest(2)] Cons.prems first rest show ?case by (auto simp: db_then_go)
qed

lemma remove_outputs_from_go:
  assumes "distinct (map (\<lambda>n. point_key_data (make_point txid (pos - of_nat n))) [0..<length outs])"
    "(\<lambda>n. point_key_data (make_point txid (pos - of_nat n))) ` {0..<length outs} \<subseteq> dom (look s Utxo)"
  shows "\<exists>s'. remove_outputs_from db txid outs pos s = (rc_success, s') \<and>
    drops look dups s (map (\<lambda>n. point_key_data (make_point txid (pos - of_nat n))) [0..<length outs]) s'"
  using assms
proof (induction outs arbitrary: pos s)
  case Nil
  then show ?case by (simp add: drops_def others_kept_def)
next
  case (Cons out outs)
  let ?k = "\<lambda>p n. point_key_data (make_point txid (p - of_nat n))"
  have keys: "map (?k pos) [0..<length (out # outs)] = ?k pos 0 # map (?k (pos - 1)) [0..<length outs]"
    by (simp add: upt_conv_Cons map_Suc_upt [symmetric] comp_def diff_diff_eq del: upt_Suc map_Suc_upt)
  have prems: "distinct (?k pos 0 # map (?k (pos - 1)) [0..<length outs])"
    "set (?k pos 0 # map (?k (pos - 1)) [0..<length outs]) \<subseteq> dom (look s Utxo)"
    unfolding keys [symmetric] set_map set_upt by (rule Cons.prems)+
  then have "look s Utxo (point_key_data (make_point txid pos)) \<noteq> None" by auto
  from remove_utxo_go [OF this, of 0] obtain s1 where first: "remove_utxo db 0 (make_point txid pos) False s = (rc_success, s1)"
    and s1: "look s1 = (look s)(Utxo := (look s Utxo)(?k pos 0 := None))" "dups s1 = dups s" by auto
  have "K \<subseteq> dom m \<Longrightarrow> k \<notin> K \<Longrightarrow> K \<subseteq> dom (m(k := None))" for K k and m :: "datum \<rightharpoonup> datum" by auto
  then have "set (map (?k (pos - 1)) [0..<length outs]) \<subseteq> dom (look s1 Utxo)" using prems s1 by simp
  then obtain s' where rest: "remove_outputs_from db txid outs (pos - 1) s1 = (rc_success, s')"
    "drops look dups s1 (map (?k (pos - 1)) [0..<length outs]) s'"
    using Cons.IH [of "pos - 1" s1] prems(1) by auto
  have "drops look dups s [?k pos 0] s1"
    using s1 by (auto simp: drops_def others_kept_def restrict_map_def fun_eq_iff)
  from drops_append [OF this rest(2)] first rest(1) show ?case unfolding keys by (auto simp: db_then_go)
qed

lemma output_pairs_keys:
  "map fst (output_pairs txid fixed pos outs) = map (\<lambda>n. point_key_data (make_point txid (pos + of_nat n))) [0..<length outs]"
proof (induction outs arbitrary: pos)
  case (Cons out outs)
  then show ?case
    by (simp add: upt_conv_Cons map_Suc_upt [symmetric] comp_def add.assoc del: upt_Suc map_Suc_upt)
qed simp

lemma remove_outputs_go:
  assumes "distinct (map fst (output_pairs txid fixed 0 outs))" "fst ` set (output_pairs txid fixed 0 outs) \<subseteq> dom (look s Utxo)"
  shows "\<exists>s'. remove_outputs db txid outs s = (rc_success, s') \<and>
    drops look dups s (map fst (output_pairs txid fixed 0 outs)) s'"
proof -
  let ?g = "\<lambda>i. point_key_data (make_point txid i)" and ?pos = "of_nat (length outs) - 1 :: u32"
  have "?pos - of_nat n = of_nat (length outs - Suc n)" if "n < length outs" for n
    using that by (simp add: of_nat_diff)
  then have keys: "map (\<lambda>n. ?g (?pos - of_nat n)) [0..<length outs] = rev (map fst (output_pairs txid fixed 0 outs))"
    by (intro nth_equalityI) (simp_all add: output_pairs_keys rev_nth diff_diff_eq)
  have "set (rev (map fst (output_pairs txid fixed 0 outs))) \<subseteq> dom (look s Utxo)" using assms(2) by auto
  then have "(\<lambda>n. ?g (?pos - of_nat n)) ` {0..<length outs} \<subseteq> dom (look s Utxo)"
    unfolding keys [symmetric] by simp
  moreover have "distinct (map (\<lambda>n. ?g (?pos - of_nat n)) [0..<length outs])" unfolding keys using assms(1) by simp
  ultimately obtain s' where "remove_outputs_from db txid outs ?pos s = (rc_success, s')"
    "drops look dups s (rev (map fst (output_pairs txid fixed 0 outs))) s'"
    using remove_outputs_from_go [of txid ?pos outs s] unfolding keys by blast
  then show ?thesis by (auto simp: remove_outputs_def drops_def)
qed

lemma remove_transactions_outputs_go:
  assumes "distinct (map fst (created_pairs c fixed ts))" "fst ` set (created_pairs c fixed ts) \<subseteq> dom (look s Utxo)"
  shows "\<exists>s'. remove_transactions_outputs_non_coinbase db c ts s = (rc_success, s') \<and>
    drops look dups s (map fst (created_pairs c fixed ts)) s'"
  using assms
proof (induction ts arbitrary: s)
  case Nil
  then show ?case by (simp add: drops_def others_kept_def)
next
  case (Cons t ts)
  let ?kvs = "output_pairs (block_tx_hash c t) fixed 0 (tx_outputs (bt_tx t))"
  obtain s1 where first: "remove_outputs db (block_tx_hash c t) (tx_outputs (bt_tx t)) s = (rc_success, s1)"
    "drops look dups s (map fst ?kvs) s1"
    using remove_outputs_go [of "block_tx_hash c t" fixed "tx_outputs (bt_tx t)" s] Cons.prems by auto
  have "fst ` set (created_pairs c fixed ts) \<subseteq> dom (look s1 Utxo)"
    using first(2) Cons.prems by (auto simp: drops_def dom_restrict)
  then obtain s' where rest: "remove_transactions_outputs_non_coinbase db c ts s1 = (rc_success, s')"
    "drops look dups s1 (map fst (created_pairs c fixed ts)) s'"
    using Cons.IH [of s1] Cons.prems by auto
  from drops_append [OF first(2) rest(2)] first rest show ?case by (auto simp: db_then_go)
qed

text \<open>The effect of a block that is pushed with what a reorganization needs.\<close>

lemma push_block_txn_success:
  assumes "push_block_txn db c b state height mtp insert_reorg s = (rc_success, s')"
  defines "kvs \<equiv> created_pairs c (to_data_fixed height mtp True) [hd (blk_txs b)] @
      created_pairs c ((to_data_fixed height mtp True)[length (to_data_fixed height mtp True) - 1 := 0]) (tl (blk_txs b))"
    and "ks \<equiv> spent_keys (tl (blk_txs b))"
  shows "\<exists>s2 s4. look s2 = (look s)(
        Block_header := (look s Block_header)(Number height \<mapsto> Data (header_abla_to_data (blk_header b) state)),
        Block_header_by_hash := (look s Block_header_by_hash)(Data (block_hash c b) \<mapsto> Number height),
        Reorg_block := if insert_reorg then (look s Reorg_block)(Number height \<mapsto> Data (block_to_data b)) else look s Reorg_block) \<and> dups s2 = dups s \<and>
      (\<forall>k \<in> dom (look s Block_header). k < Number height) \<and>
      look s Block_header_by_hash (Data (block_hash c b)) = None \<and> (insert_reorg \<longrightarrow> look s Reorg_block (Number height) = None) \<and>
      adds look dups s2 kvs s4 \<and> spends look dups height insert_reorg s4 ks s'"
proof -
  let ?fixed = "to_data_fixed height mtp True" and ?coinbase = "hd (blk_txs b)"
  let ?cleared = "?fixed[length ?fixed - 1 := 0]"
  obtain c1 s1 where h: "push_block_header db c b state height s = (c1, s1)"
    by (cases "push_block_header db c b state height s")
  obtain c2 s2 where r: "(if insert_reorg then push_block_reorg db b height s1 else (rc_success, s1)) = (c2, s2)"
    by (cases "if insert_reorg then push_block_reorg db b height s1 else (rc_success, s1)")
  obtain res0 s3 where o: "insert_outputs_error_treatment db ?fixed (block_tx_hash c ?coinbase) (tx_outputs (bt_tx ?coinbase)) s2 =
      (res0, s3)" by (cases "insert_outputs_error_treatment db ?fixed (block_tx_hash c ?coinbase) (tx_outputs (bt_tx ?coinbase)) s2")
  have c: "c1 = rc_success" "c2 = rc_success"
    using assms(1) h r by (auto simp: push_block_txn_def db_then_def split: if_splits)
  have res0: "res0 = rc_success" and p: "push_transactions_non_coinbase db c height ?cleared (tl (blk_txs b)) insert_reorg s3 = (rc_success, s')"
    using assms(1) h r o c by (auto simp: push_block_txn_def Let_def db_then_success db_then_go succeed_def split: if_splits)
  obtain s1' where h1: "put_result (mdb_put db Put_append s Block_header (Number height)
        (Data (header_abla_to_data (blk_header b) state))) s = (rc_success, s1')"
    and h2: "put_result (mdb_put db Put_no_overwrite s1' Block_header_by_hash (Data (block_hash c b)) (Number height)) s1' =
        (rc_success, s1)"
    using h c by (auto simp: push_block_header_def db_then_success)
  obtain s4 where p1: "push_transactions_outputs_non_coinbase db c ?cleared (tl (blk_txs b)) s3 = (rc_success, s4)"
    and p2: "remove_transactions_inputs_non_coinbase db height (tl (blk_txs b)) insert_reorg s4 = (rc_success, s')"
    using p by (auto simp: push_transactions_non_coinbase_def db_then_success)
  have "push_transactions_outputs_non_coinbase db c ?fixed [?coinbase] s2 = (rc_success, s3)"
    using o res0 by (simp add: db_then_def)
  from adds_append [OF push_outputs_success [OF this] push_outputs_success [OF p1]]
  have "adds look dups s2 kvs s4" by (simp add: kvs_def)
  moreover have "spends look dups height insert_reorg s4 ks s'"
    using remove_transactions_inputs_success [OF p2] by (simp add: ks_def)
  moreover have "look s2 = (look s)(
        Block_header := (look s Block_header)(Number height \<mapsto> Data (header_abla_to_data (blk_header b) state)),
        Block_header_by_hash := (look s Block_header_by_hash)(Data (block_hash c b) \<mapsto> Number height),
        Reorg_block := if insert_reorg then (look s Reorg_block)(Number height \<mapsto> Data (block_to_data b)) else look s Reorg_block) \<and> dups s2 = dups s \<and>
      (\<forall>k \<in> dom (look s Block_header). k < Number height) \<and>
      look s Block_header_by_hash (Data (block_hash c b)) = None \<and> (insert_reorg \<longrightarrow> look s Reorg_block (Number height) = None)"
    using append_success [OF h1] put_success [OF h2] r c put_success [of s1 Reorg_block "Number height" "Data (block_to_data b)" s2]
    by (cases insert_reorg) (simp_all add: push_block_reorg_def fun_upd_idem)
  ultimately show ?thesis by blast
qed

text \<open>Popping undoes it.\<close>

lemma read_outputs_pairs:
  "output_pairs (block_tx_hash c (new_block_tx (read_tx tx))) fixed pos (tx_outputs (bt_tx (new_block_tx (read_tx tx)))) =
     output_pairs (tx_hash (bitcoin_hash c) tx) fixed pos (tx_outputs tx)"
proof -
  have "output_pairs txid fixed pos (map read_output outs) = output_pairs txid fixed pos outs" for txid outs
    by (induction outs arbitrary: pos) simp_all
  then show ?thesis unfolding read_tx_hash by (simp add: new_block_tx_def read_tx_def)
qed

lemma created_pairs_fresh: "created_pairs c fixed (map (\<lambda>t. new_block_tx (read_tx (bt_tx t))) ts) = created_pairs c fixed ts"
  using read_outputs_pairs by (induction ts) (simp_all add: block_tx_hash_def)

lemma spent_keys_fresh: "spent_keys (map (\<lambda>t. new_block_tx (read_tx (bt_tx t))) ts) = spent_keys ts"
  by (induction ts) (simp_all add: new_block_tx_def read_tx_def input_keys_def comp_def)

lemma fresh_block_simps [simp]:
  "blk_txs b \<noteq> [] \<Longrightarrow> hd (blk_txs (fresh_block b)) = new_block_tx (read_tx (bt_tx (hd (blk_txs b))))"
  "tl (blk_txs (fresh_block b)) = map (\<lambda>t. new_block_tx (read_tx (bt_tx t))) (tl (blk_txs b))"
  "block_hash c (fresh_block b) = block_hash c b"
  by (simp_all add: fresh_block_def hd_map map_tl block_hash_def header_hash_def header_to_data_def header_basis_to_data_def)

lemma remove_block_txn_go:
  assumes pushed: "push_block_txn db c b state height mtp True s = (rc_success, s')"
    and new: "\<forall>k. (Number height, k) \<notin> dups s" and txs: "blk_txs b \<noteq> []"
  shows "\<exists>s''. remove_block_txn db c (fresh_block b) height s' = (rc_success, s'') \<and> look s'' = look s \<and> dups s'' = dups s"
proof -
  let ?cb = "created_pairs c (to_data_fixed height mtp True) [hd (blk_txs b)]"
  let ?cs = "created_pairs c ((to_data_fixed height mtp True)[length (to_data_fixed height mtp True) - 1 := 0]) (tl (blk_txs b))"
  let ?ks = "spent_keys (tl (blk_txs b))"
  obtain s2 s4 where s2: "look s2 = (look s)(
        Block_header := (look s Block_header)(Number height \<mapsto> Data (header_abla_to_data (blk_header b) state)),
        Block_header_by_hash := (look s Block_header_by_hash)(Data (block_hash c b) \<mapsto> Number height),
        Reorg_block := (look s Reorg_block)(Number height \<mapsto> Data (block_to_data b)))" "dups s2 = dups s"
    and fresh: "\<forall>k \<in> dom (look s Block_header). k < Number height"
      "look s Block_header_by_hash (Data (block_hash c b)) = None" "look s Reorg_block (Number height) = None"
    and adds: "adds look dups s2 (?cb @ ?cs) s4" and spends: "spends look dups height True s4 ?ks s'"
    using push_block_txn_success [OF pushed] by auto
  have none: "look s Block_header (Number height) = None" using fresh(1) by (auto simp: dom_def)
  define U where "U = look s4 Utxo"
  define P where "P = look s Reorg_pool"
  have kept4: "look s4 t = look s2 t" if "t \<noteq> Utxo" for t using adds that by (simp add: adds_def others_kept_def)
  have P4: "look s4 Reorg_pool = P" using kept4 s2 by (simp add: P_def)
  have sp: "distinct ?ks" "set ?ks \<subseteq> dom U" "set ?ks \<inter> dom P = {}" "look s' Utxo = U |` (- set ?ks)"
    "look s' Reorg_pool = P ++ (U |` set ?ks)" "dups s' = dups s4 \<union> Pair (Number height) ` set ?ks"
    using spends P4 by (simp_all add: spends_def U_def)
  have kept': "look s' t = look s2 t" if "t \<noteq> Utxo" "t \<noteq> Reorg_pool" for t
    using spends kept4 that by (simp add: spends_def others_kept_def)
  have "set ?ks \<subseteq> dom (look s' Reorg_pool)" "set ?ks \<inter> dom (look s' Utxo) = {}"
    using sp by (auto simp: dom_restrict)
  moreover have fresh_ks: "spent_keys (tl (blk_txs (fresh_block b))) = ?ks" by (simp add: spent_keys_fresh)
  ultimately obtain t1 where t1: "insert_transactions_inputs_non_coinbase db (tl (blk_txs (fresh_block b))) s' = (rc_success, t1)"
    "restores look dups s' ?ks t1"
    using insert_transactions_inputs_go [of "tl (blk_txs (fresh_block b))" s'] sp(1) unfolding fresh_ks by blast
  have spent_only: "P x = None" if "x \<in> set ?ks" for x using sp(3) that by blast
  have PU: "(P ++ (U |` set ?ks)) |` set ?ks = U |` set ?ks" "(P ++ (U |` set ?ks)) |` (- set ?ks) = P"
    "U |` (- set ?ks) ++ (U |` set ?ks) = U"
    using spent_only by (auto simp: restrict_map_def map_add_def fun_eq_iff split: option.splits)
  have t1U: "look t1 Utxo = U" "look t1 Reorg_pool = P" "dups t1 = dups s'"
    using t1(2) sp(4,5) PU by (simp_all add: restores_def)
  have kept_t1: "look t1 t = look s2 t" if "t \<noteq> Utxo" "t \<noteq> Reorg_pool" for t
    using t1(2) kept' that by (simp add: restores_def others_kept_def)
  have ad: "distinct (map fst (?cb @ ?cs))" "fst ` set (?cb @ ?cs) \<inter> dom (look s Utxo) = {}"
    "U = look s Utxo ++ map_of (?cb @ ?cs)" "dups s4 = dups s"
    using adds s2 by (simp_all add: adds_def U_def)
  have dU: "fst ` set (?cb @ ?cs) \<subseteq> dom U" unfolding ad(3) by (auto simp: dom_map_of_conv_image_fst simp del: map_of_append)
  obtain t2 where t2: "remove_transactions_outputs_non_coinbase db c (tl (blk_txs (fresh_block b))) t1 = (rc_success, t2)"
    "drops look dups t1 (map fst ?cs) t2"
    using remove_transactions_outputs_go [of c "(to_data_fixed height mtp True)[length (to_data_fixed height mtp True) - 1 := 0]"
        "tl (blk_txs (fresh_block b))" t1] ad(1) dU t1U(1) by (auto simp: created_pairs_fresh)
  have coinbase: "created_pairs c f [hd (blk_txs (fresh_block b))] = created_pairs c f [hd (blk_txs b)]" for f
    using created_pairs_fresh [of c f "[hd (blk_txs b)]"] txs by simp
  have "fst ` set ?cb \<subseteq> dom (look t2 Utxo)" using t2(2) t1U(1) dU ad(1) by (auto simp: drops_def dom_restrict)
  then obtain t3 where t3: "remove_transactions_outputs_non_coinbase db c [hd (blk_txs (fresh_block b))] t2 = (rc_success, t3)"
    "drops look dups t2 (map fst ?cb) t3"
    using remove_transactions_outputs_go [of c "to_data_fixed height mtp True" "[hd (blk_txs (fresh_block b))]" t2] ad(1)
    unfolding coinbase by auto
  from drops_append [OF t2(2) t3(2)] have "look t3 Utxo = U |` (- set (map fst ?cs @ map fst ?cb))"
    and kept3: "others_kept look t1 t3 {Utxo}" and dups3: "dups t3 = dups t1"
    by (simp_all add: drops_def t1U)
  moreover have "U |` (- set (map fst ?cs @ map fst ?cb)) = look s Utxo"
  proof -
    have "set (map fst ?cs @ map fst ?cb) = fst ` set (?cb @ ?cs)" by (simp add: Un_commute image_Un)
    then show ?thesis using restrict_added [OF ad(2)] unfolding ad(3) by simp
  qed
  ultimately have t3U: "look t3 Utxo = look s Utxo" by simp
  have t3P: "look t3 Reorg_pool = look s Reorg_pool" using kept3 t1U by (simp add: others_kept_def P_def)
  have kept_t3: "look t3 t = look s2 t" if "t \<noteq> Utxo" "t \<noteq> Reorg_pool" for t
    using kept3 kept_t1 that by (simp add: others_kept_def)
  obtain t4 where t4: "del_result (mdb_del db t3 Block_header (Number height)) t3 = (rc_success, t4)"
    "look t4 = (look t3)(Block_header := (look t3 Block_header)(Number height := None))" "dups t4 = dups t3"
    using del_go [of Block_header t3 "Number height"] kept_t3 s2 by auto
  obtain t5 where t5: "del_result (mdb_del db t4 Block_header_by_hash (Data (block_hash c b))) t4 = (rc_success, t5)"
    "look t5 = (look t4)(Block_header_by_hash := (look t4 Block_header_by_hash)(Data (block_hash c b) := None))" "dups t5 = dups t4"
    using del_go [of Block_header_by_hash t4 "Data (block_hash c b)"] kept_t3 t4 s2 by auto
  obtain t6 where t6: "remove_block_reorg db height t5 = (rc_success, t6)"
    "look t6 = (look t5)(Reorg_block := (look t5 Reorg_block)(Number height := None))" "dups t6 = dups t5"
    using del_go [of Reorg_block t5 "Number height"] kept_t3 t4 t5 s2 by (auto simp: remove_block_reorg_def)
  have "look t6 t = look s t" for t
    using t3U t3P kept_t3 [of t] t4(2) t5(2) t6(2) s2 none fresh by (cases t) (auto simp: fun_upd_idem)
  then have look6: "look t6 = look s" by (rule ext)
  have dups6: "dups t6 = dups s \<union> Pair (Number height) ` set ?ks"
    using t6 t5 t4 dups3 t1U sp ad by simp
  obtain code t7 where t7: "remove_reorg_index db height t6 = (code, t7)" by (cases "remove_reorg_index db height t6")
  have idx: "(code = rc_success \<or> code = rc_key_not_found) \<and> look t7 = look s \<and> dups t7 = dups s"
  proof (cases "Number height \<in> fst ` dups t6")
    case True
    obtain t7' where "mdb_del db t6 Reorg_index (Number height) = Db_success t7'" "look t7' = look t6"
      "dups t7' = {p \<in> dups t6. fst p \<noteq> Number height}"
      using del_dups_old [OF True] by blast
    with t7 look6 dups6 new show ?thesis by (auto simp: remove_reorg_index_def del_result_def)
  next
    case False
    then have "dups t6 = dups s" using dups6 by force
    with False t7 look6 del_dups_new [OF False] show ?thesis by (simp add: remove_reorg_index_def del_result_def)
  qed
  have c0: "remove_outputs db (block_tx_hash c (hd (blk_txs (fresh_block b)))) (tx_outputs (bt_tx (hd (blk_txs (fresh_block b))))) t2 =
      (rc_success, t3)"
    using t3(1) by (simp add: db_then_success)
  have "remove_block_txn db c (fresh_block b) height s' = (rc_success, t7)"
    using t1(1) t2(1) c0 t4(1) t5(1) t6(1) t7 idx
    by (simp add: remove_block_txn_def remove_transactions_non_coinbase_def remove_block_header_def db_then_go Let_def)
  with idx show ?thesis by blast
qed

lemma last_of_sorted:
  fixes A :: "'a::linorder set"
  assumes "finite A" "p \<in> A" "\<forall>q \<in> A. q \<le> p"
  shows "last (sorted_list_of_set A) = p"
proof -
  let ?xs = "sorted_list_of_set A"
  have xs: "set ?xs = A" "sorted ?xs" "?xs \<noteq> []" using assms by auto
  then have "last ?xs \<le> p" using assms(3) last_in_set by blast
  moreover have "p \<in> set (butlast ?xs @ [last ?xs])" "sorted (butlast ?xs @ [last ?xs])"
    using xs assms(2) by simp_all
  then have "p \<le> last ?xs" by (auto simp: sorted_append simp del: append_butlast_last_id)
  ultimately show ?thesis by simp
qed

lemma last_height_pushed:
  assumes "look s Block_header = m(Number height \<mapsto> v)" "\<forall>k \<in> dom m. k < Number height"
  shows "get_last_height db s = Inr height"
proof -
  let ?A = "Map.graph (look s Block_header)"
  have in_graph: "(Number height, v) \<in> ?A" using assms(1) by (simp add: in_graphI)
  have finite: "finite ?A" using finite_look [of s Block_header] by (simp add: finite_graph_iff_finite_dom)
  have "last (sorted_list_of_set ?A) = (Number height, v)"
  proof (rule last_of_sorted [OF finite in_graph], rule ballI)
    fix q assume "q \<in> ?A"
    then obtain k w where q: "q = (k, w)" "look s Block_header k = Some w" by (cases q) (auto simp: in_graphD)
    show "q \<le> (Number height, v)"
    proof (cases "k = Number height")
      case True
      then show ?thesis using q assms(1) by simp
    next
      case False
      then have "k \<in> dom m" using q(2) assms(1) by auto
      then show ?thesis using q assms(2) by (simp add: less_eq_prod_def)
    qed
  qed
  moreover have "sorted_list_of_set ?A \<noteq> []" using finite in_graph by auto
  ultimately show ?thesis
    using cursor [of Block_header s] txn by (simp add: get_last_height_def datum_height_def)
qed

lemma push_block_success:
  assumes "push_block db c now limit b state height mtp s = (rc_success, s')"
  shows "push_block_txn db c b state height mtp (\<not> is_old_block now limit b) s = (rc_success, s')"
  using assms txn
  by (auto simp: push_block_def write_txn_def succeed_def split: prod.splits if_splits)

lemma pop_go:
  assumes "push_block db c now limit b state height mtp s = (rc_success, s')" "\<not> is_old_block now limit b"
    "wf_block b" "fits (block_to_data b)" "\<forall>k. (Number height, k) \<notin> dups s"
  shows "\<exists>s''. pop_block db c s' = Some (rc_success, fresh_block b, s'') \<and> look s'' = look s \<and> dups s'' = dups s"
proof -
  have pushed: "push_block_txn db c b state height mtp True s = (rc_success, s')"
    using push_block_success [OF assms(1)] assms(2) by simp
  have txs: "blk_txs b \<noteq> []" using assms(3) by (simp add: wf_block_def)
  obtain s2 s4 where s2: "look s2 = (look s)(
        Block_header := (look s Block_header)(Number height \<mapsto> Data (header_abla_to_data (blk_header b) state)),
        Block_header_by_hash := (look s Block_header_by_hash)(Data (block_hash c b) \<mapsto> Number height),
        Reorg_block := (look s Reorg_block)(Number height \<mapsto> Data (block_to_data b)))"
    and below: "\<forall>k \<in> dom (look s Block_header). k < Number height"
    and kvs: "adds look dups s2 (created_pairs c (to_data_fixed height mtp True) [hd (blk_txs b)] @
      created_pairs c ((to_data_fixed height mtp True)[length (to_data_fixed height mtp True) - 1 := 0]) (tl (blk_txs b))) s4"
    and ks: "spends look dups height True s4 (spent_keys (tl (blk_txs b))) s'"
    using push_block_txn_success [OF pushed] by auto
  have kept: "look s' t = look s2 t" if "t \<noteq> Utxo" "t \<noteq> Reorg_pool" for t
    using kvs ks that by (simp add: adds_def spends_def others_kept_def)
  have "get_last_height db s' = Inr height" using last_height_pushed [OF _ below] kept [of Block_header] s2 by simp
  moreover have "get_block_reorg db s' height = Some (fresh_block b)"
    using kept [of Reorg_block] s2 txn parsed_block [OF assms(3,4)]
    by (simp add: get_block_reorg_def read_txn_def get datum_bytes_def)
  moreover have "block_is_valid (fresh_block b)" using txs by (simp add: block_is_valid_def fresh_block_def)
  moreover obtain s'' where "remove_block_txn db c (fresh_block b) height s' = (rc_success, s'')" "look s'' = look s" "dups s'' = dups s"
    using remove_block_txn_go [OF pushed assms(5) txs] by blast
  ultimately show ?thesis using txn by (simp add: pop_block_def remove_block_def write_txn_def)
qed

text \<open>Inserting outputs only adds to the table.\<close>

lemma insert_outputs_grows:
  "\<exists>code s'. insert_outputs_from db txid outs fixed pos s = (code, s') \<and> (code = rc_success \<or> code = rc_duplicated_key) \<and>
     look s Utxo \<subseteq>\<^sub>m look s' Utxo \<and> others_kept look s s' {Utxo}"
proof (induction outs arbitrary: pos s)
  case Nil
  then show ?case by (simp add: others_kept_def)
next
  case (Cons out outs)
  let ?k = "point_key_data (make_point txid pos)" and ?v = "Data (to_data_with_fixed out fixed)"
  show ?case
  proof (cases "look s Utxo ?k")
    case None
    from put_go [of Utxo s ?k ?v] this obtain s1 where
      s1: "insert_utxo db (make_point txid pos) out fixed s = (rc_success, s1)"
      "look s1 = (look s)(Utxo := (look s Utxo)(?k \<mapsto> ?v))" by (auto simp: insert_utxo_def)
    obtain code s' where "insert_outputs_from db txid outs fixed (pos + 1) s1 = (code, s')"
      "code = rc_success \<or> code = rc_duplicated_key" "look s1 Utxo \<subseteq>\<^sub>m look s' Utxo" "others_kept look s1 s' {Utxo}"
      using Cons.IH [of "pos + 1" s1] by blast
    moreover have "look s Utxo \<subseteq>\<^sub>m look s1 Utxo" using s1 None by (auto simp: map_le_def)
    ultimately show ?thesis using s1 by (auto simp: db_then_go others_kept_def intro: map_le_trans)
  next
    case (Some w)
    then show ?thesis using put_stays [of Utxo s ?k ?v] by (simp add: insert_utxo_def db_then_def others_kept_def)
  qed
qed

lemma insert_outputs_treated_grows:
  "\<exists>code s'. insert_outputs_error_treatment db fixed txid outs s = (code, s') \<and>
     (code = rc_success \<or> code = rc_success_duplicate_coinbase) \<and>
     look s Utxo \<subseteq>\<^sub>m look s' Utxo \<and> others_kept look s s' {Utxo}"
  using insert_outputs_grows [of txid outs fixed 0 s]
  by (auto simp: insert_outputs_error_treatment_def insert_outputs_def)

lemma push_outputs_grows:
  "\<exists>code s'. push_transactions_outputs_non_coinbase db c fixed ts s = (code, s') \<and>
     (code = rc_success \<or> code = rc_success_duplicate_coinbase) \<and>
     look s Utxo \<subseteq>\<^sub>m look s' Utxo \<and> others_kept look s s' {Utxo}"
proof (induction ts arbitrary: s)
  case Nil
  then show ?case by (simp add: others_kept_def)
next
  case (Cons t ts)
  obtain code s1 where first: "insert_outputs_error_treatment db fixed (block_tx_hash c t) (tx_outputs (bt_tx t)) s = (code, s1)"
    "code = rc_success \<or> code = rc_success_duplicate_coinbase" "look s Utxo \<subseteq>\<^sub>m look s1 Utxo" "others_kept look s s1 {Utxo}"
    using insert_outputs_treated_grows by blast
  obtain code' s' where rest: "push_transactions_outputs_non_coinbase db c fixed ts s1 = (code', s')"
    "code' = rc_success \<or> code' = rc_success_duplicate_coinbase" "look s1 Utxo \<subseteq>\<^sub>m look s' Utxo" "others_kept look s1 s' {Utxo}"
    using Cons.IH [of s1] by blast
  show ?case
    using first rest by (auto simp: db_then_def others_kept_def intro: map_le_trans)
qed

lemma wide_keys_repeat:
  assumes "65536 < length outs"
  shows "\<not> distinct (map fst (output_pairs txid fixed 0 outs))"
proof
  assume d: "distinct (map fst (output_pairs txid fixed 0 outs))"
  have wrapped: "(65536 :: u16) = 0" by simp
  have "point_key_data (make_point txid 65536) = point_key_data (make_point txid 0)"
    by (simp add: point_key_data_def point_to_data_def make_point_def internal_db_wire_def wrapped)
  then have "map fst (output_pairs txid fixed 0 outs) ! 65536 = map fst (output_pairs txid fixed 0 outs) ! 0"
    using assms unfolding output_pairs_keys by (subst (1 2) nth_map_upt) auto
  moreover have n: "65536 < length (map fst (output_pairs txid fixed 0 outs))" using assms by (simp add: output_pairs_keys)
  moreover from n have "0 < length (map fst (output_pairs txid fixed 0 outs))" by linarith
  ultimately have "(65536 :: nat) = 0" using d by (metis nth_eq_iff_index_eq)
  then show False by simp
qed

lemma wide_push:
  assumes "\<forall>k \<in> dom (look s Block_header). k < Number height" "look s Block_header_by_hash (Data (block_hash c b)) = None"
    "look s Reorg_block (Number height) = None" "t \<in> set (tl (blk_txs b))" "65536 < length (tx_outputs (bt_tx t))"
  shows "\<exists>s'. push_block_txn db c b state height mtp insert_reorg s = (rc_success_duplicate_coinbase, s') \<and>
    look s Utxo \<subseteq>\<^sub>m look s' Utxo \<and>
    look s' Block_header = (look s Block_header)(Number height \<mapsto> Data (header_abla_to_data (blk_header b) state))"
proof -
  let ?fixed = "to_data_fixed height mtp True" and ?coinbase = "hd (blk_txs b)"
  let ?cleared = "?fixed[length ?fixed - 1 := 0]"
  obtain s1 where h1: "mdb_put db Put_append s Block_header (Number height) (Data (header_abla_to_data (blk_header b) state)) = Db_success s1"
    "look s1 = (look s)(Block_header := (look s Block_header)(Number height \<mapsto> Data (header_abla_to_data (blk_header b) state)))"
    using append_new [of Block_header s "Number height"] assms(1) by blast
  obtain s2 where h2: "put_result (mdb_put db Put_no_overwrite s1 Block_header_by_hash (Data (block_hash c b)) (Number height)) s1 = (rc_success, s2)"
    "look s2 = (look s1)(Block_header_by_hash := (look s1 Block_header_by_hash)(Data (block_hash c b) \<mapsto> Number height))"
    using put_go [of Block_header_by_hash s1 "Data (block_hash c b)"] assms(2) h1(2) by auto
  have header: "push_block_header db c b state height s = (rc_success, s2)"
    using h1(1) h2(1) by (simp add: push_block_header_def db_then_go put_result_def [of "Db_success s1"])
  obtain s3 where r: "(if insert_reorg then push_block_reorg db b height s2 else (rc_success, s2)) = (rc_success, s3)"
    "look s3 Utxo = look s Utxo" "look s3 Block_header = look s1 Block_header"
  proof (cases insert_reorg)
    case True
    then show ?thesis
      using that put_go [of Reorg_block s2 "Number height" "Data (block_to_data b)"] assms(3) h1(2) h2(2)
      by (auto simp: push_block_reorg_def)
  next
    case False
    then show ?thesis using that h1(2) h2(2) by auto
  qed
  obtain res0 s4 where o: "insert_outputs_error_treatment db ?fixed (block_tx_hash c ?coinbase) (tx_outputs (bt_tx ?coinbase)) s3 = (res0, s4)"
    "res0 = rc_success \<or> res0 = rc_success_duplicate_coinbase" "look s3 Utxo \<subseteq>\<^sub>m look s4 Utxo" "others_kept look s3 s4 {Utxo}"
    using insert_outputs_treated_grows by blast
  obtain code s' where p: "push_transactions_outputs_non_coinbase db c ?cleared (tl (blk_txs b)) s4 = (code, s')"
    "code = rc_success \<or> code = rc_success_duplicate_coinbase" "look s4 Utxo \<subseteq>\<^sub>m look s' Utxo" "others_kept look s4 s' {Utxo}"
    using push_outputs_grows by blast
  have "code \<noteq> rc_success"
  proof
    assume "code = rc_success"
    with p(1) have "distinct (map fst (created_pairs c ?cleared (tl (blk_txs b))))"
      using push_outputs_success by (auto simp: adds_def)
    then have "distinct (map fst (output_pairs (block_tx_hash c t) ?cleared 0 (tx_outputs (bt_tx t))))"
      using split_list [OF assms(4)] by (auto simp: created_pairs_def)
    with wide_keys_repeat [OF assms(5)] show False by blast
  qed
  with p have "push_transactions_non_coinbase db c height ?cleared (tl (blk_txs b)) insert_reorg s4 = (rc_success_duplicate_coinbase, s')"
    by (auto simp: push_transactions_non_coinbase_def db_then_def)
  then have "push_block_txn db c b state height mtp insert_reorg s = (rc_success_duplicate_coinbase, s')"
    using o(2) unfolding push_block_txn_def header db_then_go r(1) Let_def o(1)
    by (auto simp: succeed_def db_then_def)
  moreover have "look s Utxo \<subseteq>\<^sub>m look s' Utxo" using r(2) o(3) p(3) by (metis map_le_trans)
  moreover have "look s' Block_header = look s1 Block_header" using r(3) o(4) p(4) by (simp add: others_kept_def)
  ultimately show ?thesis using h1(2) by auto
qed

end

section \<open>Examples\<close>

definition wide_tx :: block_tx where
  "wide_tx = new_block_tx (example_coinbase\<lparr>tx_outputs := replicate 65537 (hd (tx_outputs example_coinbase))\<rparr>)"

definition wide_block :: block where
  "wide_block = example_block\<lparr>blk_txs := [new_block_tx example_coinbase, wide_tx]\<rparr>"

lemma example_not_old: "\<not> is_old_block 2000 100 example_block"
  by (simp add: is_old_block_def blocks_to_seconds_def example_block_def)

lemma example_output_wf: "wf_output (hd (tx_outputs example_coinbase))"
  by (simp add: wf_output_def example_coinbase_def script_of_bytes_def)

lemma example_output_fits: "fits (to_data_with_fixed (hd (tx_outputs example_coinbase)) (to_data_fixed height mtp coinbase))"
  by (simp add: to_data_with_fixed_def to_data_fixed_def chain_output_to_data_def stored_output_to_data_def length_output_to_data
      output_serialized_size_def script_serialized_size_def script_of_bytes_def variable_uint_size_def token_opt_size_def
      example_coinbase_def)

lemma example_wf_tx: "wf_tx True example_coinbase"
  using example_output_wf
  by (simp add: wf_tx_def wf_input_def example_coinbase_def output_point_of_def point.defs make_point_def script_of_bytes_def
      null_hash_def)

lemma example_wf_block: "wf_block example_block"
  using read_tx_wf [OF example_wf_tx] by (simp add: wf_block_def wf_header_def example_block_def new_block_tx_def)

lemma example_block_fits: "fits (block_to_data example_block)"
proof -
  have "length (header_basis_to_data (blk_header example_block)) = 80"
    by (simp add: length_header_basis wf_header_def example_block_def header_fixed_size_def)
  moreover have "length (tx_to_data True example_coinbase) = 151"
    using example_coinbase_size
    by (subst length_tx_to_data) (simp_all add: example_coinbase_def output_point_of_def point.defs make_point_def null_hash_def)
  ultimately show ?thesis
    by (simp add: block_to_data_def header_to_data_def write_collection_def length_write_size variable_uint_size_def
        example_block_def new_block_tx_def)
qed

lemma example_push:
  "\<exists>s'. push_block memory_lmdb constant_crypto 2000 100 example_block None 5 7 empty_store = (rc_success, s')"
  by (simp add: push_block_def write_txn_def example_not_old push_block_txn_def push_block_header_def put_result_def db_then_def
      memory_lmdb_def memory_put_def memory_update_def memory_cursor_def push_block_reorg_def example_block_def new_block_tx_def
      insert_outputs_error_treatment_def insert_outputs_def insert_utxo_def push_transactions_non_coinbase_def
      push_transactions_outputs_non_coinbase.simps remove_transactions_inputs_non_coinbase.simps succeed_def empty_store_def
      example_coinbase_def Let_def)

section \<open>Properties\<close>

text \<open>C3: Popping undoes pushing: after a block was pushed with success as the new top, with what a reorganization needs,
  popping succeeds, returns the block as it is read from its bytes (without populated previous outputs and cached scripts)
  and leaves every table as it was before, whichever outputs its transactions spend, those of the block included, and
  whatever the node has found out about it. This is for a block that is not too old to be kept and that can be read back:
  it has a transaction, its hashes and token categories are of 32 bytes, its lists and scripts are no longer than a reader
  takes, and the scripts of its outputs without a token are not empty and do not begin with the byte 0xef, which a reader
  takes for the prefix of a token. There is no entry of the reorganization index at its height before.\<close>

theorem pop_undoes_push:
  assumes "key_value_store db look dups"
    and "push_block db c now limit b state height mtp s = (rc_success, s')"
    and "\<not> is_old_block now limit b" "wf_block b" "fits (block_to_data b)" "\<forall>k. (Number height, k) \<notin> dups s"
  shows "\<exists>s''. pop_block db c s' = Some (rc_success, fresh_block b, s'') \<and> look s'' = look s \<and> dups s'' = dups s"
  by (rule key_value_store.pop_go [OF assms])

theorem pop_undoes_push_witness:
  "\<exists>s' s''. push_block memory_lmdb constant_crypto 2000 100 example_block None 5 7 empty_store = (rc_success, s') \<and>
     pop_block memory_lmdb constant_crypto s' = Some (rc_success, fresh_block example_block, s'') \<and>
     memory_look s'' = memory_look empty_store"
proof -
  obtain s' where s': "push_block memory_lmdb constant_crypto 2000 100 example_block None 5 7 empty_store = (rc_success, s')"
    using example_push by blast
  then show ?thesis
    using pop_undoes_push [OF memory.key_value_store_axioms s' example_not_old example_wf_block]
    by (auto simp: example_block_fits memory_dups_def empty_store_def)
qed

text \<open>C4: The ledger: a block that is pushed with success creates the entries of all its outputs under new keys, and each of
  its inputs spends an entry that was there before or is one of the block's own, no two inputs the same one; the
  unspent outputs afterwards are exactly those before and the created ones without the spent ones.\<close>

theorem push_updates_ledger:
  assumes "key_value_store db look dups"
    and "push_block db c now limit b state height mtp s = (rc_success, s')"
  defines "created \<equiv> created_pairs c (to_data_fixed height mtp True) [hd (blk_txs b)] @
      created_pairs c (to_data_fixed height mtp False) (tl (blk_txs b))"
    and "spent \<equiv> spent_keys (tl (blk_txs b))"
  shows "look s' Utxo = (look s Utxo ++ map_of created) |` (- set spent) \<and>
    distinct (map fst created) \<and> fst ` set created \<inter> dom (look s Utxo) = {} \<and>
    distinct spent \<and> set spent \<subseteq> dom (look s Utxo) \<union> fst ` set created"
proof -
  have fixed: "(to_data_fixed height mtp True)[length (to_data_fixed height mtp True) - 1 := 0] = to_data_fixed height mtp False"
    by (simp add: to_data_fixed_def list_update_append)
  obtain s2 s4 where "look s2 = (look s)(
        Block_header := (look s Block_header)(Number height \<mapsto> Data (header_abla_to_data (blk_header b) state)),
        Block_header_by_hash := (look s Block_header_by_hash)(Data (block_hash c b) \<mapsto> Number height),
        Reorg_block := if \<not> is_old_block now limit b then (look s Reorg_block)(Number height \<mapsto> Data (block_to_data b))
          else look s Reorg_block)"
    and a: "adds look dups s2 created s4"
    and sp: "spends look dups height (\<not> is_old_block now limit b) s4 spent s'"
    using key_value_store.push_block_txn_success [OF assms(1) key_value_store.push_block_success [OF assms(1,2)]]
    unfolding created_def spent_def fixed by blast
  then have s2: "look s2 Utxo = look s Utxo" by simp
  have "set spent \<subseteq> dom (look s Utxo) \<union> fst ` set created"
    using a sp s2 by (auto simp: adds_def spends_def dom_map_of_conv_image_fst)
  with a sp s2 show ?thesis by (simp add: adds_def spends_def)
qed

theorem push_updates_ledger_witness:
  "\<exists>s'. push_block memory_lmdb constant_crypto 2000 100 example_block None 5 7 empty_store = (rc_success, s') \<and>
     memory_look s' Utxo = (memory_look empty_store Utxo ++ map_of (created_pairs constant_crypto (to_data_fixed 5 7 True)
       [hd (blk_txs example_block)] @ created_pairs constant_crypto (to_data_fixed 5 7 False) (tl (blk_txs example_block)))) |`
       (- set (spent_keys (tl (blk_txs example_block))))"
proof -
  obtain s' where s': "push_block memory_lmdb constant_crypto 2000 100 example_block None 5 7 empty_store = (rc_success, s')"
    using example_push by blast
  then show ?thesis using push_updates_ledger [OF memory.key_value_store_axioms s'] by blast
qed

text \<open>C13: A block with a transaction other than the coinbase that has more than 65536 outputs is stored without its
  spends, in a build without assertions: two of the outputs have the same key, since the index is written in two bytes; the
  code of the duplicate is taken for that of a duplicate coinbase, the block is committed, and every output that was
  unspent before is still unspent. The block is a new top: its height is above all stored ones, its hash is new, and no
  block is kept for a reorganization at its height.\<close>

theorem wide_transaction_spends_nothing:
  assumes "key_value_store db look dups"
    and "\<forall>k \<in> dom (look s Block_header). k < Number height" "look s Block_header_by_hash (Data (block_hash c b)) = None"
    and "look s Reorg_block (Number height) = None" "t \<in> set (tl (blk_txs b))" "65536 < length (tx_outputs (bt_tx t))"
  shows "\<exists>s'. push_block db c now limit b state height mtp s = (rc_success_duplicate_coinbase, s') \<and>
    look s Utxo \<subseteq>\<^sub>m look s' Utxo \<and> get_last_height db s' = Inr height"
proof -
  obtain s' where "push_block_txn db c b state height mtp (\<not> is_old_block now limit b) s = (rc_success_duplicate_coinbase, s')"
    and "look s Utxo \<subseteq>\<^sub>m look s' Utxo"
    and "look s' Block_header = (look s Block_header)(Number height \<mapsto> Data (header_abla_to_data (blk_header b) state))"
    using key_value_store.wide_push [OF assms] by blast
  then show ?thesis
    using key_value_store.txn [OF assms(1)] key_value_store.last_height_pushed [OF assms(1) _ assms(2)]
    by (simp add: push_block_def write_txn_def succeed_def)
qed

theorem wide_transaction_spends_nothing_witness:
  "\<exists>s'. push_block memory_lmdb constant_crypto 2000 100 wide_block None 5 7 empty_store = (rc_success_duplicate_coinbase, s') \<and>
     memory_look empty_store Utxo \<subseteq>\<^sub>m memory_look s' Utxo \<and> get_last_height memory_lmdb s' = Inr 5"
  by (rule wide_transaction_spends_nothing [OF memory.key_value_store_axioms, where t = wide_tx])
    (simp_all add: memory_look_def empty_store_def wide_block_def wide_tx_def new_block_tx_def)

text \<open>C35: An entry of an unspent output is read back as it was written, up to the cache of its script, if the output has a
  token with a category of 32 bytes, or no token and a script that is neither empty nor begins with the byte 0xef of the
  token prefix, and the script is no longer than a reader takes. An entry with an empty script and no token at a height
  whose low byte is 0xef is not read back as it was written (unless a failed read happens to leave the same entry).\<close>

theorem utxo_entry_round_trip:
  assumes "fits (to_data_with_fixed out (to_data_fixed height mtp coinbase))"
  shows "(wf_output (read_output out) \<longrightarrow>
      parsed utxo_entry_from_data failure (to_data_with_fixed out (to_data_fixed height mtp coinbase)) =
        Some \<lparr>ue_output = read_output out, ue_spender = not_spent, ue_height = height, ue_median_time_past = mtp, ue_coinbase = coinbase\<rparr>) \<and>
    (out_token out = None \<and> script_bytes (out_script out) = [] \<and> ucast height = (0xef :: u8) \<and>
      failure \<noteq> \<lparr>ue_output = out, ue_spender = not_spent, ue_height = height, ue_median_time_past = mtp, ue_coinbase = coinbase\<rparr> \<longrightarrow>
      parsed utxo_entry_from_data failure (to_data_with_fixed out (to_data_fixed height mtp coinbase)) \<noteq>
        Some \<lparr>ue_output = out, ue_spender = not_spent, ue_height = height, ue_median_time_past = mtp, ue_coinbase = coinbase\<rparr>)"
proof -
  let ?data = "to_data_with_fixed out (to_data_fixed height mtp coinbase)"
  have data: "?data = stored_output_to_data (out, not_spent) @ write_4_bytes_little_endian height @
      write_4_bytes_little_endian mtp @ [if coinbase then 1 else 0]"
    by (simp add: to_data_with_fixed_def to_data_fixed_def chain_output_to_data_def)
  have start: "\<lparr>buffer = xs, position = 0\<rparr> = reader_at [] xs" for xs by (simp add: reader_at_def)
  have read: "?data = stored_output_to_data (read_output out, not_spent) @ write_4_bytes_little_endian height @
      write_4_bytes_little_endian mtp @ [if coinbase then 1 else 0]"
    by (simp add: data stored_output_to_data_def)
  have "parsed utxo_entry_from_data failure ?data = Some \<lparr>ue_output = read_output out, ue_spender = not_spent,
      ue_height = height, ue_median_time_past = mtp, ue_coinbase = coinbase\<rparr>"
    if "wf_output (read_output out)"
    using assms that unfolding parsed_def start read utxo_entry_from_data_def
    by (simp add: stored_output.rbind_enc codec_simps rbind_def [of read_byte] rreturn_def)
  moreover have "parsed utxo_entry_from_data failure ?data \<noteq>
      Some \<lparr>ue_output = out, ue_spender = not_spent, ue_height = height, ue_median_time_past = mtp, ue_coinbase = coinbase\<rparr>"
    if empty: "out_token out = None" "script_bytes (out_script out) = []" "ucast height = (0xef :: u8)"
      and failure: "failure \<noteq> \<lparr>ue_output = out, ue_spender = not_spent, ue_height = height, ue_median_time_past = mtp, ue_coinbase = coinbase\<rparr>"
  proof
    assume parsed: "parsed utxo_entry_from_data failure ?data =
      Some \<lparr>ue_output = out, ue_spender = not_spent, ue_height = height, ue_median_time_past = mtp, ue_coinbase = coinbase\<rparr>"
    define post where "post = tl (write_4_bytes_little_endian height) @ write_4_bytes_little_endian mtp @ [if coinbase then 1 else 0]"
    have prefix: "write_4_bytes_little_endian height = PREFIX_BYTE # tl (write_4_bytes_little_endian height)"
      using empty(3) by (simp add: write_4_bytes_little_endian_def numeral_eq_Suc)
    have shape: "?data = write_4_bytes_little_endian not_spent @ output_to_data out @ PREFIX_BYTE # post"
      by (subst data, subst prefix) (simp add: stored_output_to_data_def post_def)
    obtain r where "output_from_data (reader_at (write_4_bytes_little_endian not_spent) (output_to_data out @ PREFIX_BYTE # post)) = Got out r"
      using parsed failure assms unfolding parsed_def start shape utxo_entry_from_data_def stored_output_from_data_def
      by (auto simp: rbind_Got_iff codec_simps rreturn_def split: parse.splits)
    then show False
      using empty_script_output_misread [of out "write_4_bytes_little_endian not_spent" post r] empty assms unfolding shape by simp
  qed
  ultimately show ?thesis by blast
qed

theorem utxo_entry_round_trip_witness:
  "parsed utxo_entry_from_data utxo_entry_default
     (to_data_with_fixed (hd (tx_outputs example_coinbase)) (to_data_fixed 5 7 True)) =
     Some \<lparr>ue_output = hd (tx_outputs example_coinbase), ue_spender = not_spent, ue_height = 5, ue_median_time_past = 7,
       ue_coinbase = True\<rparr>"
proof -
  have "read_output (hd (tx_outputs example_coinbase)) = hd (tx_outputs example_coinbase)"
    by (simp add: read_output_def example_coinbase_def script_of_bytes_def)
  then show ?thesis
    using utxo_entry_round_trip [of "hd (tx_outputs example_coinbase)" 5 7 True utxo_entry_default]
    by (simp add: example_output_wf example_output_fits)
qed

end
