(* ===== verification/Data_Base.thy ===== *)
theory Data_Base
  imports Utxo_Database Validation
begin

text \<open>
  The store as the chain uses it (database/src/data_base.cpp): the checks before a block is added, pushing and popping
  of blocks, and the reorganization, which pops the blocks above the fork and pushes those of the branch.
\<close>

section \<open>The store\<close>

text \<open>The codes of the store, besides those of the handlers of the validation.\<close>

datatype store_code =
  Store_code handler_code | Store_block_duplicate | Store_block_invalid_height | Store_block_missing_parent | Store_unknown

abbreviation store_success :: store_code where "store_success \<equiv> Store_code handled_success"

abbreviation store_failed :: "nat \<Rightarrow> store_code" where "store_failed n \<equiv> Store_code (Operation_failed n)"

text \<open>The library, the hash functions, the clock, the limit of the reorganization pool, and the state of the block size
  in the chain state of a block, if it has one. The clock is read once.\<close>

record 's data_base =
  dbs_lmdb :: "'s lmdb"
  dbs_crypto :: crypto
  dbs_now :: int
  dbs_limit :: u32
  dbs_abla :: "block \<Rightarrow> abla_state option"

section \<open>Checks\<close>

definition get_next_height :: "'s data_base \<Rightarrow> 's \<Rightarrow> u32" where
  "get_next_height d s = (case get_last_height (dbs_lmdb d) s of Inl _ \<Rightarrow> 0 | Inr height \<Rightarrow> height + 1)"

definition get_previous_hash :: "'s data_base \<Rightarrow> nat \<Rightarrow> 's \<Rightarrow> bytes option" where
  "get_previous_hash d height s =
     (if height = 0 then Some null_hash
      else map_option (header_hash (dbs_crypto d)) (get_header (dbs_lmdb d) s (of_nat (height - 1))))"

definition verify_insert :: "'s data_base \<Rightarrow> block \<Rightarrow> nat \<Rightarrow> 's \<Rightarrow> store_code option" where
  "verify_insert d b height s =
     (if blk_txs b = [] then Some (Store_code (Handled (Block_error err_empty_block)))
      else do {
        h \<leftarrow> get_header (dbs_lmdb d) s (of_nat height);
        Some (if header_is_valid h then Store_block_duplicate else store_success) })"

definition verify_push :: "'s data_base \<Rightarrow> bool \<Rightarrow> block \<Rightarrow> nat \<Rightarrow> 's \<Rightarrow> store_code option" where
  "verify_push d pruned b height s =
     (if blk_txs b = [] then Some (Store_code (Handled (Block_error err_empty_block)))
      else if pruned then Some store_success
      else if unat (get_next_height d s) \<noteq> height then Some Store_block_invalid_height
      else do {
        hash \<leftarrow> get_previous_hash d height s;
        Some (if previous_block_hash (blk_header b) \<noteq> hash then Store_block_missing_parent else store_success) })"

section \<open>Adding and removing a block\<close>

text \<open>A block with the median time past that its header has by then.\<close>

definition store_block :: "'s data_base \<Rightarrow> block \<Rightarrow> nat \<Rightarrow> 's \<Rightarrow> 's outcome" where
  "store_block d b height s =
     push_block (dbs_lmdb d) (dbs_crypto d) (dbs_now d) (dbs_limit d) b (dbs_abla d b) (of_nat height)
       (hd_median_time_past (blk_header b)) s"

definition db_insert :: "'s data_base \<Rightarrow> block \<Rightarrow> nat \<Rightarrow> 's \<Rightarrow> (store_code \<times> 's) option" where
  "db_insert d b height s = do {
     ec \<leftarrow> verify_insert d b height s;
     if ec \<noteq> store_success then Some (ec, s)
     else case store_block d b height s of (res, s) \<Rightarrow>
       Some (if \<not> succeed res then store_failed 1 else store_success, s) }"

definition db_push :: "'s data_base \<Rightarrow> block \<Rightarrow> nat \<Rightarrow> 's \<Rightarrow> store_code \<times> 's" where
  "db_push d b height s =
     (case store_block d b height s of (res, s) \<Rightarrow> (if \<not> succeed res then store_failed 6 else store_success, s))"

definition db_push_genesis :: "'s data_base \<Rightarrow> block \<Rightarrow> 's \<Rightarrow> store_code \<times> 's" where
  "db_push_genesis d b s =
     (case push_genesis_block (dbs_lmdb d) (dbs_crypto d) b (dbs_abla d b) s of (res, s) \<Rightarrow>
       (if \<not> succeed res then store_failed 6 else store_success, s))"

text \<open>The block that was popped, if it was; the outer option is undefined behaviour of a reader.\<close>

definition db_pop :: "'s data_base \<Rightarrow> 's \<Rightarrow> (block option \<times> 's) option" where
  "db_pop d s = do {
     (res, b, s) \<leftarrow> pop_block (dbs_lmdb d) (dbs_crypto d) s;
     Some (if res \<noteq> rc_success then None else Some b, s) }"

definition prune_reorg :: "'s data_base \<Rightarrow> 's \<Rightarrow> store_code \<times> 's" where
  "prune_reorg d s =
     (case prune (dbs_lmdb d) (dbs_limit d) s of (res, s) \<Rightarrow>
       (if \<not> succeed_prune res then Store_unknown else store_success, s))"

section \<open>Reorganization\<close>

definition do_push :: "'s data_base \<Rightarrow> block \<Rightarrow> nat \<Rightarrow> 's \<Rightarrow> store_code \<times> 's" where
  "do_push d b height s =
     (case store_block d b height s of (res, s) \<Rightarrow> (if \<not> succeed res then store_failed 7 else store_success, s))"

text \<open>The blocks from an index on. The first error ends the loop.\<close>

fun push_next :: "'s data_base \<Rightarrow> block list \<Rightarrow> nat \<Rightarrow> 's \<Rightarrow> store_code \<times> 's" where
  "push_next d [] height s = (store_success, s)"
| "push_next d (b # bs) height s =
     (case do_push d b height s of (ec, s) \<Rightarrow>
       if ec \<noteq> store_success then (ec, s) else push_next d bs (height + 1) s)"

text \<open>The loop down to the fork: blocks left to pop and the blocks popped so far, the last one in front.\<close>

fun pop_blocks :: "'s data_base \<Rightarrow> nat \<Rightarrow> block list \<Rightarrow> 's \<Rightarrow> (store_code \<times> block list \<times> 's) option" where
  "pop_blocks d 0 out_blocks s = Some (store_success, out_blocks, s)"
| "pop_blocks d (Suc n) out_blocks s = do {
     (next, s) \<leftarrow> db_pop d s;
     case next of
       None \<Rightarrow> Some (store_failed 10, out_blocks, s)
     | Some b \<Rightarrow> pop_blocks d n (b # out_blocks) s }"

definition pop_above :: "'s data_base \<Rightarrow> bytes \<Rightarrow> 's \<Rightarrow> (store_code \<times> block list \<times> 's) option" where
  "pop_above d fork_hash s = do {
     (header, fork) \<leftarrow> get_header_by_hash (dbs_lmdb d) s fork_hash;
     if \<not> header_is_valid header then Some (store_failed 9, [], s)
     else case get_last_height (dbs_lmdb d) s of
         Inl _ \<Rightarrow> Some (store_failed 9, [], s)
       | Inr chain_top \<Rightarrow>
           if chain_top - fork = 0 then Some (store_success, [], s) else pop_blocks d (unat chain_top - unat fork) [] s }"

text \<open>The height above the fork is undefined when it overflows.\<close>

definition reorganize ::
  "'s data_base \<Rightarrow> checkpoint \<Rightarrow> block list \<Rightarrow> 's \<Rightarrow> (store_code \<times> block list \<times> 's) option" where
  "reorganize d fork incoming s =
     (if cp_height fork + 1 > max_uint64 then None
      else do {
        (ec, outgoing, s) \<leftarrow> pop_above d (cp_hash fork) s;
        if ec \<noteq> store_success then Some (ec, outgoing, s)
        else case push_next d incoming (cp_height fork + 1) s of (ec, s) \<Rightarrow> Some (ec, outgoing, s) })"

section \<open>Headers as bytes\<close>

definition abla_sizes :: "abla_state option \<Rightarrow> u64 \<times> u64 \<times> u64" where
  "abla_sizes state =
     (case state of None \<Rightarrow> (0, 0, 0) | Some a \<Rightarrow> (block_size a, control_block_size a, elastic_buffer_size a))"

lemma header_abla_round_trip:
  assumes "wf_header h"
  shows "parsed (rbind header_abla_from_data (\<lambda>x. rreturn (Some x))) failure (header_abla_to_data h state) =
    Some (Some (h\<lparr>hd_median_time_past := 0\<rparr>, abla_sizes state))"
proof -
  obtain x y z where sizes: "abla_sizes state = (x, y, z)" by (cases "abla_sizes state")
  let ?h = "h\<lparr>hd_median_time_past := 0\<rparr>"
  have data: "header_abla_to_data h state =
      header_to_data True ?h @ write_8_bytes_little_endian x @ write_8_bytes_little_endian y @ write_8_bytes_little_endian z"
    using sizes by (cases state) (simp_all add: header_abla_to_data_def abla_sizes_def header_to_data_def header_basis_to_data_def)
  have fits: "fits (header_to_data True ?h @ write_8_bytes_little_endian x @ write_8_bytes_little_endian y @ write_8_bytes_little_endian z)"
    using assms by (simp add: header_to_data_def length_header_basis wf_header_def header_fixed_size_def)
  have start: "\<lparr>buffer = xs, position = 0\<rparr> = reader_at [] xs" for xs by (simp add: reader_at_def)
  have "header_abla_from_data (reader_at [] (header_abla_to_data h state)) =
      Got (?h, x, y, z) (reader_at (header_abla_to_data h state) [])"
    using assms fits le64.dec_enc [of _ z "[]"] unfolding data header_abla_from_data_def
    by (simp add: wire_header.rbind_enc le64.dec_enc wf_header_def)
  then show ?thesis using sizes by (simp add: parsed_def start rbind_Got)
qed

section \<open>Stores with the same content\<close>

definition same_store :: "'s look \<Rightarrow> 's dups \<Rightarrow> 's \<Rightarrow> 's \<Rightarrow> bool" where
  "same_store look dups s s' \<longleftrightarrow> look s' = look s \<and> dups s' = dups s"

definition same_outcome :: "'s look \<Rightarrow> 's dups \<Rightarrow> 'a \<times> 's \<Rightarrow> 'a \<times> 's \<Rightarrow> bool" where
  "same_outcome look dups r r' \<longleftrightarrow> fst r' = fst r \<and> same_store look dups (snd r) (snd r')"

lemma unat_of_height: "n < 2 ^ 32 \<Longrightarrow> unat (of_nat n :: u32) = n"
  by (simp add: unat_of_nat)

lemma same_refl [simp]: "same_store look dups s s" "same_outcome look dups r r"
  by (simp_all add: same_store_def same_outcome_def)

lemma same_pair [simp]:
  "same_outcome look dups (x, s) (y, s') \<longleftrightarrow> y = x \<and> same_store look dups s s'"
  by (simp add: same_outcome_def)

lemma same_trans: "same_store look dups s s1 \<Longrightarrow> same_store look dups s1 s2 \<Longrightarrow> same_store look dups s s2"
  by (simp add: same_store_def)

lemma same_db_then:
  assumes "same_outcome look dups r r'" "\<And>s s'. same_store look dups s s' \<Longrightarrow> same_outcome look dups (f s) (f' s')"
  shows "same_outcome look dups (db_then r f) (db_then r' f')"
  using assms by (auto simp: same_outcome_def db_then_def)

context key_value_store
begin

text \<open>What an operation does depends on the content only.\<close>

lemma same_put:
  assumes "same_store look dups s s'" "t \<noteq> Reorg_index"
  shows "same_outcome look dups (put_result (mdb_put db Put_no_overwrite s t k v) s) (put_result (mdb_put db Put_no_overwrite s' t k v) s')"
proof (cases "look s t k")
  case None
  then show ?thesis
    using assms put_go [OF assms(2), of s k v] put_go [OF assms(2), of s' k v] by (auto simp: same_store_def)
next
  case (Some w)
  then show ?thesis
    using assms put_stays [OF assms(2), of s k v] put_stays [OF assms(2), of s' k v] by (auto simp: same_store_def)
qed

lemma same_append:
  assumes "same_store look dups s s'" "t \<noteq> Reorg_index"
  shows "same_outcome look dups (put_result (mdb_put db Put_append s t k v) s) (put_result (mdb_put db Put_append s' t k v) s')"
proof (cases "\<forall>k' \<in> dom (look s t). k' < k")
  case True
  then show ?thesis
    using assms append_new [OF assms(2), of s k v] append_new [OF assms(2), of s' k v]
    by (auto simp: same_store_def put_result_def)
next
  case False
  then show ?thesis
    using assms append_old [OF assms(2), of s k v] append_old [OF assms(2), of s' k v]
    by (auto simp: same_store_def put_result_def)
qed

lemma same_index:
  assumes "same_store look dups s s'"
  shows "same_outcome look dups (put_result (mdb_put db Put_plain s Reorg_index k v) s) (put_result (mdb_put db Put_plain s' Reorg_index k v) s')"
  using assms put_dup [of s k v] put_dup [of s' k v] by (auto simp: same_store_def put_result_def)

lemma same_del:
  assumes "same_store look dups s s'" "t \<noteq> Reorg_index"
  shows "same_outcome look dups (del_result (mdb_del db s t k) s) (del_result (mdb_del db s' t k) s')"
proof (cases "look s t k")
  case None
  then show ?thesis
    using assms del_new [OF assms(2), of s k] del_new [OF assms(2), of s' k] by (auto simp: same_store_def del_result_def)
next
  case (Some w)
  then show ?thesis
    using assms del_go [OF assms(2), of s k] del_go [OF assms(2), of s' k] by (auto simp: same_store_def)
qed

lemma same_insert_reorg_pool:
  assumes "same_store look dups s s'"
  shows "same_outcome look dups (insert_reorg_pool db height key s) (insert_reorg_pool db height key s')"
proof -
  have "look s' = look s" using assms by (simp add: same_store_def)
  then show ?thesis
    using assms by (auto simp: insert_reorg_pool_def get intro!: same_db_then same_put same_index split: option.splits)
qed

lemma same_remove_utxo:
  assumes "same_store look dups s s'"
  shows "same_outcome look dups (remove_utxo db height p insert_reorg s) (remove_utxo db height p insert_reorg s')"
  unfolding remove_utxo_def
  by (rule same_db_then) (auto simp: assms intro!: same_insert_reorg_pool same_del)

lemma same_remove_inputs:
  "same_store look dups s s' \<Longrightarrow>
   same_outcome look dups (remove_inputs db height ins insert_reorg s) (remove_inputs db height ins insert_reorg s')"
  by (induction ins arbitrary: s s') (auto intro!: same_db_then same_remove_utxo)

lemma same_insert_outputs_from:
  "same_store look dups s s' \<Longrightarrow>
   same_outcome look dups (insert_outputs_from db txid outs fixed pos s) (insert_outputs_from db txid outs fixed pos s')"
  by (induction outs arbitrary: pos s s') (auto simp: insert_utxo_def intro!: same_db_then same_put)

lemma same_insert_outputs:
  "same_store look dups s s' \<Longrightarrow>
   same_outcome look dups (insert_outputs_error_treatment db fixed txid outs s) (insert_outputs_error_treatment db fixed txid outs s')"
  using same_insert_outputs_from [of s s' txid outs fixed 0]
  by (auto simp: insert_outputs_error_treatment_def insert_outputs_def same_outcome_def split: prod.splits)

lemma same_push_outputs:
  "same_store look dups s s' \<Longrightarrow>
   same_outcome look dups (push_transactions_outputs_non_coinbase db c fixed ts s) (push_transactions_outputs_non_coinbase db c fixed ts s')"
  by (induction ts arbitrary: s s') (auto intro!: same_db_then same_insert_outputs)

lemma same_remove_transactions_inputs:
  "same_store look dups s s' \<Longrightarrow>
   same_outcome look dups (remove_transactions_inputs_non_coinbase db height ts insert_reorg s)
     (remove_transactions_inputs_non_coinbase db height ts insert_reorg s')"
  by (induction ts arbitrary: s s') (auto intro!: same_db_then same_remove_inputs)

lemma same_push_block_header:
  "same_store look dups s s' \<Longrightarrow>
   same_outcome look dups (push_block_header db c b state height s) (push_block_header db c b state height s')"
  unfolding push_block_header_def by (rule same_db_then) (auto intro!: same_append same_put)

lemma same_push_block_txn:
  assumes "same_store look dups s s'"
  shows "same_outcome look dups (push_block_txn db c b state height mtp insert_reorg s) (push_block_txn db c b state height mtp insert_reorg s')"
proof -
  have coinbase: "same_outcome look dups
      (case insert_outputs_error_treatment db fixed txid outs s of (res0, s) \<Rightarrow>
        if \<not> succeed res0 then (res0, s) else db_then (push_transactions_non_coinbase db c height f ts insert_reorg s) (\<lambda>s. (res0, s)))
      (case insert_outputs_error_treatment db fixed txid outs s' of (res0, s) \<Rightarrow>
        if \<not> succeed res0 then (res0, s) else db_then (push_transactions_non_coinbase db c height f ts insert_reorg s) (\<lambda>s. (res0, s)))"
    if same: "same_store look dups s s'" for fixed txid outs f ts s s'
    using same_insert_outputs [OF same, of fixed txid outs]
    by (auto simp: push_transactions_non_coinbase_def intro!: same_db_then same_push_outputs same_remove_transactions_inputs
        split: prod.splits)
  show ?thesis
    unfolding push_block_txn_def Let_def push_block_reorg_def
    by (rule same_db_then, rule same_push_block_header [OF assms], rule same_db_then) (auto intro!: same_put coinbase)
qed

lemma same_write_txn:
  assumes "same_store look dups s s'" "same_outcome look dups (f s) (f s')"
  shows "same_outcome look dups (write_txn db good f s) (write_txn db good f s')"
  using assms txn by (auto simp: write_txn_def same_outcome_def split: prod.splits)

lemma same_push_next:
  "dbs_lmdb d = db \<Longrightarrow> same_store look dups s s' \<Longrightarrow>
   same_outcome look dups (push_next d bs height s) (push_next d bs height s')"
proof (induction bs arbitrary: height s s')
  case (Cons b bs)
  have "same_outcome look dups (store_block d b height s) (store_block d b height s')"
    unfolding store_block_def push_block_def Cons.prems(1)
    by (intro same_write_txn same_push_block_txn Cons.prems(2))
  with Cons show ?case by (auto simp: do_push_def split: prod.splits)
qed simp

lemma same_reads:
  assumes "same_store look dups s s'"
  shows "get_last_height db s' = get_last_height db s" "get_block_reorg db s' height = get_block_reorg db s height"
    "get_header_by_hash db s' hash = get_header_by_hash db s hash"
proof -
  have look: "look s' = look s" using assms by (simp add: same_store_def)
  then have "get_header_txn db s' = get_header_txn db s"
    by (simp add: fun_eq_iff get_header_txn_def get_header_and_abla_state_txn_def get)
  then show "get_last_height db s' = get_last_height db s" "get_block_reorg db s' height = get_block_reorg db s height"
    "get_header_by_hash db s' hash = get_header_by_hash db s hash"
    by (simp_all add: look get_last_height_def get_block_reorg_def get_header_by_hash_def read_txn_def get cursor txn
        split: option.split)
qed

lemma same_insert_output_from_reorg:
  assumes "same_store look dups s s'"
  shows "same_outcome look dups (insert_output_from_reorg_and_remove db p s) (insert_output_from_reorg_and_remove db p s')"
proof -
  have "look s' = look s" using assms by (simp add: same_store_def)
  then show ?thesis
    using assms by (auto simp: insert_output_from_reorg_and_remove_def get intro!: same_db_then same_put same_del split: option.splits)
qed

lemma same_insert_inputs:
  "same_store look dups s s' \<Longrightarrow> same_outcome look dups (insert_inputs db ins s) (insert_inputs db ins s')"
  by (induction ins arbitrary: s s') (auto intro!: same_db_then same_insert_output_from_reorg)

lemma same_insert_transactions_inputs:
  "same_store look dups s s' \<Longrightarrow>
   same_outcome look dups (insert_transactions_inputs_non_coinbase db ts s) (insert_transactions_inputs_non_coinbase db ts s')"
  by (induction ts arbitrary: s s') (auto intro!: same_db_then same_insert_inputs)

lemma same_remove_outputs:
  "same_store look dups s s' \<Longrightarrow> same_outcome look dups (remove_outputs db txid outs s) (remove_outputs db txid outs s')"
proof -
  have "same_store look dups s s' \<Longrightarrow>
      same_outcome look dups (remove_outputs_from db txid outs pos s) (remove_outputs_from db txid outs pos s')" for pos s s'
    by (induction outs arbitrary: pos s s') (auto intro!: same_db_then same_remove_utxo)
  then show "same_store look dups s s' \<Longrightarrow> same_outcome look dups (remove_outputs db txid outs s) (remove_outputs db txid outs s')"
    by (simp add: remove_outputs_def)
qed

lemma same_remove_transactions_outputs:
  "same_store look dups s s' \<Longrightarrow>
   same_outcome look dups (remove_transactions_outputs_non_coinbase db c ts s) (remove_transactions_outputs_non_coinbase db c ts s')"
  by (induction ts arbitrary: s s') (auto intro!: same_db_then same_remove_outputs)

lemma same_remove_reorg_index:
  assumes "same_store look dups s s'"
  shows "same_outcome look dups (remove_reorg_index db height s) (remove_reorg_index db height s')"
proof (cases "Number height \<in> fst ` dups s")
  case True
  then show ?thesis
    using assms del_dups_old [of "Number height" s] del_dups_old [of "Number height" s']
    by (auto simp: remove_reorg_index_def del_result_def same_store_def)
next
  case False
  then show ?thesis
    using assms del_dups_new [of "Number height" s] del_dups_new [of "Number height" s']
    by (auto simp: remove_reorg_index_def del_result_def same_store_def)
qed

lemma same_remove_block_txn:
  assumes "same_store look dups s s'"
  shows "same_outcome look dups (remove_block_txn db c b height s) (remove_block_txn db c b height s')"
proof -
  have index: "same_outcome look dups
      (case remove_reorg_index db height s of (res, s) \<Rightarrow> (if res \<noteq> rc_success \<and> res \<noteq> rc_key_not_found then res else rc_success, s))
      (case remove_reorg_index db height s' of (res, s) \<Rightarrow> (if res \<noteq> rc_success \<and> res \<noteq> rc_key_not_found then res else rc_success, s))"
    if same: "same_store look dups s s'" for s s'
    using same_remove_reorg_index [OF same, of height] by (auto simp: same_outcome_def split: prod.splits)
  show ?thesis
    unfolding remove_block_txn_def Let_def remove_transactions_non_coinbase_def remove_block_header_def remove_block_reorg_def
    by (intro same_db_then same_insert_transactions_inputs same_remove_transactions_outputs same_remove_outputs same_del index assms)
      simp_all
qed

lemma same_pop_block:
  assumes "same_store look dups s s'" "pop_block db c s = Some (res, b, t)"
  shows "\<exists>t'. pop_block db c s' = Some (res, b, t') \<and> same_store look dups t t'"
proof -
  have removed: "same_outcome look dups (remove_block db c b height s) (remove_block db c b height s')" for b height
    unfolding remove_block_def by (intro same_write_txn same_remove_block_txn assms(1))
  show ?thesis
  proof (cases "get_last_height db s")
    case (Inl code)
    then show ?thesis using assms by (auto simp: pop_block_def same_reads)
  next
    case (Inr height)
    then obtain ob where ob: "get_block_reorg db s height = Some ob"
      using assms(2) by (auto simp: pop_block_def split: bind_splits)
    obtain r1 t1 r2 t2 where "remove_block db c ob height s = (r1, t1)" "remove_block db c ob height s' = (r2, t2)"
      by (cases "remove_block db c ob height s", cases "remove_block db c ob height s'")
    then show ?thesis
      using assms Inr ob removed [of ob height] by (auto simp: pop_block_def same_reads split: if_splits)
  qed
qed

text \<open>What a block adds to the tables of headers.\<close>

lemma store_block_tables:
  assumes "dbs_lmdb d = db" "store_block d b height s = (rc_success, s')"
  shows "look s' Block_header = (look s Block_header)(Number (of_nat height) \<mapsto> Data (header_abla_to_data (blk_header b) (dbs_abla d b)))"
    "look s' Block_header_by_hash = (look s Block_header_by_hash)(Data (block_hash (dbs_crypto d) b) \<mapsto> Number (of_nat height))"
    "\<forall>k \<in> dom (look s Block_header). k < Number (of_nat height)"
    "look s Block_header_by_hash (Data (block_hash (dbs_crypto d) b)) = None"
    "dups s' \<subseteq> dups s \<union> Pair (Number (of_nat height)) ` set (spent_keys (tl (blk_txs b)))"
proof -
  have "push_block_txn db (dbs_crypto d) b (dbs_abla d b) (of_nat height) (hd_median_time_past (blk_header b))
      (\<not> is_old_block (dbs_now d) (dbs_limit d) b) s = (rc_success, s')"
    using push_block_success assms unfolding store_block_def by blast
  from push_block_txn_success [OF this] obtain s2 s4 where s2: "look s2 = (look s)(
        Block_header := (look s Block_header)(Number (of_nat height) \<mapsto> Data (header_abla_to_data (blk_header b) (dbs_abla d b))),
        Block_header_by_hash := (look s Block_header_by_hash)(Data (block_hash (dbs_crypto d) b) \<mapsto> Number (of_nat height)),
        Reorg_block := if \<not> is_old_block (dbs_now d) (dbs_limit d) b
          then (look s Reorg_block)(Number (of_nat height) \<mapsto> Data (block_to_data b)) else look s Reorg_block)" "dups s2 = dups s"
    and fresh: "\<forall>k \<in> dom (look s Block_header). k < Number (of_nat height)"
      "look s Block_header_by_hash (Data (block_hash (dbs_crypto d) b)) = None"
    and kvs: "adds look dups s2 (created_pairs (dbs_crypto d) (to_data_fixed (of_nat height) (hd_median_time_past (blk_header b)) True)
        [hd (blk_txs b)] @ created_pairs (dbs_crypto d) ((to_data_fixed (of_nat height) (hd_median_time_past (blk_header b)) True)
        [length (to_data_fixed (of_nat height) (hd_median_time_past (blk_header b)) True) - 1 := 0]) (tl (blk_txs b))) s4"
    and ks: "spends look dups (of_nat height) (\<not> is_old_block (dbs_now d) (dbs_limit d) b) s4 (spent_keys (tl (blk_txs b))) s'"
    by blast
  have kept: "look s' t = look s2 t" if "t \<noteq> Utxo" "t \<noteq> Reorg_pool" for t
    using kvs ks that by (simp add: adds_def spends_def others_kept_def)
  show "look s' Block_header = (look s Block_header)(Number (of_nat height) \<mapsto> Data (header_abla_to_data (blk_header b) (dbs_abla d b)))"
    "look s' Block_header_by_hash = (look s Block_header_by_hash)(Data (block_hash (dbs_crypto d) b) \<mapsto> Number (of_nat height))"
    using kept s2 by simp_all
  show "dups s' \<subseteq> dups s \<union> Pair (Number (of_nat height)) ` set (spent_keys (tl (blk_txs b)))"
    using kvs ks s2 by (auto simp: adds_def spends_def split: if_splits)
  show "\<forall>k \<in> dom (look s Block_header). k < Number (of_nat height)"
    "look s Block_header_by_hash (Data (block_hash (dbs_crypto d) b)) = None" by (fact fresh)+
qed

lemma store_block_success:
  assumes "dbs_lmdb d = db" "store_block d b height s = (rc_success, s')"
  shows "get_last_height db s' = Inr (of_nat height)"
    "look s Block_header \<subseteq>\<^sub>m look s' Block_header" "look s Block_header_by_hash \<subseteq>\<^sub>m look s' Block_header_by_hash"
    "dups s' \<subseteq> dups s \<union> range (Pair (Number (of_nat height)))"
proof -
  note tables = store_block_tables [OF assms]
  show "get_last_height db s' = Inr (of_nat height)" by (rule last_height_pushed [OF tables(1,3)])
  have "look s Block_header (Number (of_nat height)) = None" using tables(3) by (auto simp: dom_def)
  then show "look s Block_header \<subseteq>\<^sub>m look s' Block_header" "look s Block_header_by_hash \<subseteq>\<^sub>m look s' Block_header_by_hash"
    using tables(1,2,4) by (auto simp: map_le_def)
  show "dups s' \<subseteq> dups s \<union> range (Pair (Number (of_nat height)))" using tables(5) by auto
qed

end

text \<open>Blocks that were stored one above the other, and the blocks for which everything was kept that a reorganization
  needs.\<close>

fun stacked :: "'s data_base \<Rightarrow> block list \<Rightarrow> nat \<Rightarrow> 's \<Rightarrow> 's \<Rightarrow> bool" where
  "stacked d [] height s s' \<longleftrightarrow> s' = s"
| "stacked d (b # bs) height s s' \<longleftrightarrow>
     (\<exists>s1. store_block d b height s = (rc_success, s1) \<and> stacked d bs (height + 1) s1 s')"

definition reorganizable :: "'s data_base \<Rightarrow> block \<Rightarrow> bool" where
  "reorganizable d b \<longleftrightarrow> \<not> is_old_block (dbs_now d) (dbs_limit d) b \<and> wf_block b \<and> fits (block_to_data b)"

lemma stacked_append:
  "stacked d (as @ bs) height s s' \<longleftrightarrow>
   (\<exists>s1. stacked d as height s s1 \<and> stacked d bs (height + length as) s1 s')"
  by (induction as arbitrary: height s) auto

context key_value_store
begin

lemma stacked_tables:
  assumes "dbs_lmdb d = db" "stacked d bs height s s'"
  shows "look s Block_header \<subseteq>\<^sub>m look s' Block_header \<and> look s Block_header_by_hash \<subseteq>\<^sub>m look s' Block_header_by_hash \<and>
    (bs \<noteq> [] \<longrightarrow> get_last_height db s' = Inr (of_nat (height + length bs - 1))) \<and>
    dups s' \<subseteq> dups s \<union> {p. \<exists>i < length bs. fst p = Number (of_nat (height + i))}"
  using assms(2)
proof (induction bs arbitrary: s' rule: rev_induct)
  case (snoc b bs)
  then obtain s1 where s1: "stacked d bs height s s1" "store_block d b (height + length bs) s1 = (rc_success, s')"
    by (auto simp: stacked_append)
  note IH = snoc.IH [OF s1(1)] and step = store_block_success [OF assms(1) s1(2)]
  have "dups s' \<subseteq> dups s \<union> {p. \<exists>i < length (bs @ [b]). fst p = Number (of_nat (height + i))}"
  proof
    fix p assume "p \<in> dups s'"
    with step(4) consider "p \<in> dups s1" | "fst p = Number (of_nat (height + length bs))" by auto
    then show "p \<in> dups s \<union> {p. \<exists>i < length (bs @ [b]). fst p = Number (of_nat (height + i))}"
    proof cases
      case 1
      with IH show ?thesis by (auto intro: less_SucI)
    qed auto
  qed
  moreover have "look s Block_header \<subseteq>\<^sub>m look s' Block_header" "look s Block_header_by_hash \<subseteq>\<^sub>m look s' Block_header_by_hash"
    using IH step(2,3) map_le_trans by blast+
  ultimately show ?case using step(1) by simp
qed (simp add: map_le_def)

text \<open>Popping the blocks gives back the content before them.\<close>

lemma pop_stacked:
  assumes "dbs_lmdb d = db" "stacked d bs height s s'" "\<forall>b \<in> set bs. reorganizable d b"
    "\<forall>p \<in> dups s. fst p < Number (of_nat height)" "height + length bs \<le> 2 ^ 32" "same_store look dups s' t"
  shows "\<exists>t'. pop_blocks d (length bs) out t = Some (store_success, map fresh_block bs @ out, t') \<and> same_store look dups s t'"
  using assms(2-)
proof (induction bs arbitrary: s' t out rule: rev_induct)
  case Nil
  then show ?case by simp
next
  case (snoc b bs)
  then obtain s1 where s1: "stacked d bs height s s1" "store_block d b (height + length bs) s1 = (rc_success, s')"
    by (auto simp: stacked_append)
  have keep: "\<not> is_old_block (dbs_now d) (dbs_limit d) b" "wf_block b" "fits (block_to_data b)"
    using snoc.prems(2) by (simp_all add: reorganizable_def)
  have new: "\<forall>k. (Number (of_nat (height + length bs)), k) \<notin> dups s1"
  proof (intro allI notI)
    fix k assume "(Number (of_nat (height + length bs)), k) \<in> dups s1"
    with stacked_tables [OF assms(1) s1(1)] consider "(Number (of_nat (height + length bs)), k) \<in> dups s"
      | i where "i < length bs" "(of_nat (height + length bs) :: u32) = of_nat (height + i)" by fastforce
    then show False
    proof cases
      case 1
      then have "(of_nat (height + length bs) :: u32) < of_nat height" 
        using bspec [OF snoc.prems(3) 1] by (auto simp: less_datum_def less_eq_datum_def simp del: of_nat_add)
      moreover have "unat (of_nat (height + length bs) :: u32) = height + length bs" "unat (of_nat height :: u32) = height"
        using snoc.prems(4) by (simp_all add: unat_of_height del: of_nat_add)
      ultimately show False by (simp add: word_less_nat_alt del: of_nat_add)
    next
      case 2
      then have "unat (of_nat (height + length bs) :: u32) = unat (of_nat (height + i) :: u32)" by simp
      then show False using 2(1) snoc.prems(4) by (simp add: unat_of_height del: of_nat_add)
    qed
  qed
  obtain s2 where s2: "pop_block db (dbs_crypto d) s' = Some (rc_success, fresh_block b, s2)" "same_store look dups s1 s2"
    using pop_go [OF s1(2) [unfolded store_block_def assms(1)] keep new] by (auto simp: same_store_def)
  from same_pop_block [OF snoc.prems(5) s2(1)] obtain t1 where
    t1: "pop_block db (dbs_crypto d) t = Some (rc_success, fresh_block b, t1)" "same_store look dups s2 t1" by blast
  have "\<exists>t'. pop_blocks d (length bs) (fresh_block b # out) t1 = Some (store_success, map fresh_block bs @ fresh_block b # out, t') \<and>
      same_store look dups s t'"
    using snoc.IH [OF s1(1)] snoc.prems same_trans [OF s2(2) t1(2)] by simp
  then show ?case using t1(1) assms(1) by (simp add: db_pop_def)
qed

text \<open>A header that is found by its hash is found in a larger store.\<close>

lemma header_found:
  assumes "get_header_by_hash db s hash = Some (h, n)" "header_is_valid h"
    and "look s Block_header \<subseteq>\<^sub>m look s' Block_header" "look s Block_header_by_hash \<subseteq>\<^sub>m look s' Block_header_by_hash"
  shows "get_header_by_hash db s' hash = Some (h, n)"
proof -
  have invalid: "\<not> header_is_valid validated_header_default"
    by (simp add: header_is_valid_def validated_header_default_def header_default_def header.defs)
  then have some: "look s Block_header_by_hash (Data hash) \<noteq> None"
    using assms(1,2) txn
    by (cases "look s Block_header_by_hash (Data hash)") (auto simp: get_header_by_hash_def read_txn_def get)
  then obtain v where v: "look s Block_header_by_hash (Data hash) = Some v" by blast
  then have h: "get_header_txn db s (datum_height v) = Some h" and n: "n = datum_height v"
    using assms(1) txn by (auto simp: get_header_by_hash_def read_txn_def get)
  have "look s Block_header (Number (datum_height v)) \<noteq> None"
    using h assms(2) invalid
    by (cases "look s Block_header (Number (datum_height v))") (auto simp: get_header_txn_def get_header_and_abla_state_txn_def get)
  then have "look s' Block_header (Number (datum_height v)) = look s Block_header (Number (datum_height v))"
    using assms(3) by (auto simp: map_le_def dom_def)
  then have "get_header_txn db s' (datum_height v) = get_header_txn db s (datum_height v)"
    by (simp add: get_header_txn_def get_header_and_abla_state_txn_def get)
  moreover have "look s' Block_header_by_hash (Data hash) = Some v" using v assms(4) by (auto simp: map_le_def dom_def)
  ultimately show ?thesis using v h n txn by (simp add: get_header_by_hash_def read_txn_def get)
qed

lemma reorganize_go:
  assumes db: "dbs_lmdb d = db"
    and header: "get_header_by_hash db s fork_hash = Some (h, of_nat fork)" "header_is_valid h"
    and last: "get_last_height db s = Inr (of_nat fork)" and index: "\<forall>p \<in> dups s. fst p \<le> Number (of_nat fork)"
    and old: "stacked d old (fork + 1) s chain" "\<forall>b \<in> set old. reorganizable d b" and range: "fork + length old < 2 ^ 32"
  shows "\<exists>s'. reorganize d \<lparr>cp_hash = fork_hash, cp_height = fork\<rparr> incoming chain =
      Some (fst (push_next d incoming (fork + 1) s), map fresh_block old, s') \<and>
    look s' = look (snd (push_next d incoming (fork + 1) s)) \<and> dups s' = dups (snd (push_next d incoming (fork + 1) s))"
proof -
  note tables = stacked_tables [OF db old(1)]
  have below: "\<forall>p \<in> dups s. fst p < Number (of_nat (fork + 1))" if "old \<noteq> []"
  proof
    fix p assume "p \<in> dups s"
    then have "fst p \<le> Number (of_nat fork)" using index by blast
    moreover have "fork + 1 < 2 ^ 32" using range that by (cases old) simp_all
    then have "unat (of_nat (fork + 1) :: u32) = fork + 1" "unat (of_nat fork :: u32) = fork"
      by (rule unat_of_height, intro unat_of_height) simp
    then have "Number (of_nat fork) < Number (of_nat (fork + 1))"
      by (simp add: less_datum_def less_eq_datum_def word_le_nat_alt del: of_nat_add of_nat_Suc)
    ultimately show "fst p < Number (of_nat (fork + 1))" by (rule order_le_less_trans)
  qed
  obtain t where t: "pop_blocks d (length old) [] chain = Some (store_success, map fresh_block old, t)" "same_store look dups s t"
  proof (cases "old = []")
    case False
    then have "fork + 1 + length old \<le> 2 ^ 32" using range by simp
    with pop_stacked [OF db old below [OF False] this, of chain "[]"] that show ?thesis by auto
  qed (use old that in simp)
  obtain chain_top :: u32 and n :: u32 where top: "get_last_height db chain = Inr chain_top" "n = of_nat fork"
    and level: "chain_top - n = 0 \<longleftrightarrow> old = []" and count: "unat chain_top - unat n = length old"
  proof
    show "get_last_height db chain = Inr (of_nat (fork + length old))" using tables last old(1) by (cases old) auto
    have heights: "unat (of_nat (fork + length old) :: u32) = fork + length old" "unat (of_nat fork :: u32) = fork"
      using range by (simp_all add: unat_of_height del: of_nat_add)
    then show "(of_nat (fork + length old) - of_nat fork :: u32) = 0 \<longleftrightarrow> old = []"
      by (metis add_cancel_right_right eq_iff_diff_eq_0 length_0_conv)
    show "unat (of_nat (fork + length old) :: u32) - unat (of_nat fork :: u32) = length old" unfolding heights by simp
  qed simp
  have "get_header_by_hash db chain fork_hash = Some (h, n)" using header_found [OF header] tables top(2) by blast
  then have "pop_above d fork_hash chain = Some (store_success, map fresh_block old, t)"
    using level count header(2) top(1) t(1) db by (cases "old = []") (simp_all add: pop_above_def)
  moreover obtain ec t' where pushed: "push_next d incoming (fork + 1) t = (ec, t')"
    by (cases "push_next d incoming (fork + 1) t")
  moreover have "\<not> fork + 1 > max_uint64" using range by simp
  ultimately have "reorganize d \<lparr>cp_hash = fork_hash, cp_height = fork\<rparr> incoming chain = Some (ec, map fresh_block old, t')"
    unfolding reorganize_def by simp
  moreover have "same_outcome look dups (push_next d incoming (fork + 1) s) (ec, t')"
    using same_push_next [OF db t(2), of incoming "fork + 1"] unfolding pushed .
  ultimately show ?thesis by (simp add: same_outcome_def same_store_def)
qed

text \<open>A block that was stored is found by its hash.\<close>

lemma stored_header_found:
  assumes "dbs_lmdb d = db" "store_block d b height s = (rc_success, s')" "wf_header (blk_header b)"
  shows "get_header_by_hash db s' (block_hash (dbs_crypto d) b) = Some ((blk_header b)\<lparr>hd_median_time_past := 0\<rparr>, of_nat height)"
proof -
  have "look s' Block_header (Number (of_nat height)) = Some (Data (header_abla_to_data (blk_header b) (dbs_abla d b)))"
    "look s' Block_header_by_hash (Data (block_hash (dbs_crypto d) b)) = Some (Number (of_nat height))"
    using store_block_tables [OF assms(1,2)] by simp_all
  then show ?thesis
    using header_abla_round_trip [OF assms(3), of None "dbs_abla d b"] txn
    by (simp add: get_header_by_hash_def read_txn_def get get_header_txn_def get_header_and_abla_state_txn_def datum_height_def
        datum_bytes_def)
qed

text \<open>The push of a block with one transaction and one output.\<close>

lemma push_single:
  assumes "blk_txs b = [t]" "tx_outputs (bt_tx t) = [out]" "\<forall>k \<in> dom (look s Block_header). k < Number height"
    and "look s Block_header_by_hash (Data (block_hash c b)) = None" "look s Reorg_block (Number height) = None"
    and "look s Utxo (point_key_data (make_point (block_tx_hash c t) 0)) = None"
  shows "\<exists>s'. push_block db c now limit b state height mtp s = (rc_success, s')"
proof -
  obtain s1 where s1: "mdb_put db Put_append s Block_header (Number height) (Data (header_abla_to_data (blk_header b) state)) = Db_success s1"
    "look s1 = (look s)(Block_header := (look s Block_header)(Number height \<mapsto> Data (header_abla_to_data (blk_header b) state)))"
    using append_new [of Block_header s "Number height"] assms(3) by blast
  obtain s2 where s2: "put_result (mdb_put db Put_no_overwrite s1 Block_header_by_hash (Data (block_hash c b)) (Number height)) s1 = (rc_success, s2)"
    "look s2 = (look s1)(Block_header_by_hash := (look s1 Block_header_by_hash)(Data (block_hash c b) \<mapsto> Number height))"
    using put_go [of Block_header_by_hash s1 "Data (block_hash c b)"] assms(4) s1(2) by auto
  obtain s3 where s3: "(if r then push_block_reorg db b height s2 else (rc_success, s2)) = (rc_success, s3)"
    "look s3 Utxo = look s Utxo" if "r = (\<not> is_old_block now limit b)" for r
    using that put_go [of Reorg_block s2 "Number height" "Data (block_to_data b)"] assms(5) s1(2) s2(2)
    by (cases "is_old_block now limit b") (auto simp: push_block_reorg_def)
  obtain s4 where s4: "insert_utxo db (make_point (block_tx_hash c t) 0) out (to_data_fixed height mtp True) s3 = (rc_success, s4)"
    using put_go [of Utxo s3 "point_key_data (make_point (block_tx_hash c t) 0)"] assms(6) s3(2) by (auto simp: insert_utxo_def)
  have "push_block_header db c b state height s = (rc_success, s2)"
    using s1(1) s2(1) by (simp add: push_block_header_def db_then_go put_result_def [of "Db_success s1"])
  then have "push_block_txn db c b state height mtp (\<not> is_old_block now limit b) s = (rc_success, s4)"
    using s3(1) s4 assms(1,2)
    by (simp add: push_block_txn_def db_then_go insert_outputs_error_treatment_def insert_outputs_def
        push_transactions_non_coinbase_def succeed_def)
  then show ?thesis using txn by (simp add: push_block_def write_txn_def succeed_def)
qed

end

section \<open>An example\<close>

text \<open>Hash functions that return the last bytes, so that blocks and transactions that end differently have other hashes.\<close>

definition tail_crypto :: crypto where
  "tail_crypto = constant_crypto\<lparr>sha256_hash := \<lambda>m. replicate 28 0 @ take 4 (rev m @ replicate 4 0)\<rparr>"

definition example_access :: "memory_store data_base" where
  "example_access = \<lparr>dbs_lmdb = memory_lmdb, dbs_crypto = tail_crypto, dbs_now = 2000, dbs_limit = 100, dbs_abla = \<lambda>_. None\<rparr>"

definition second_block :: block where
  "second_block = example_block\<lparr>blk_header := (blk_header example_block)\<lparr>hd_nonce := 1\<rparr>,
     blk_txs := [new_block_tx (example_coinbase\<lparr>tx_locktime := 7\<rparr>)]\<rparr>"

lemma tail_hash: "bitcoin_hash tail_crypto (m @ write_4_bytes_little_endian v) = replicate 28 0 @ write_4_bytes_little_endian v"
  by (simp add: bitcoin_hash_def tail_crypto_def)

lemma example_hashes_tail:
  "block_hash tail_crypto example_block = replicate 28 0 @ write_4_bytes_little_endian 0"
  "block_hash tail_crypto second_block = replicate 28 0 @ write_4_bytes_little_endian 1"
  "block_tx_hash tail_crypto (new_block_tx example_coinbase) = replicate 28 0 @ write_4_bytes_little_endian 0"
  "block_tx_hash tail_crypto (new_block_tx (example_coinbase\<lparr>tx_locktime := 7\<rparr>)) = replicate 28 0 @ write_4_bytes_little_endian 7"
  by (simp_all add: block_hash_def header_hash_def header_to_data_def header_basis_to_data_def second_block_def example_block_def
      block_tx_hash_def tx_hash_def tx_to_data_def new_block_tx_def example_coinbase_def tail_hash flip: append_assoc)

lemma write_4_inject: "write_4_bytes_little_endian x = write_4_bytes_little_endian y \<longleftrightarrow> x = y"
  using le32.enc_prefix_free [where x = x and y = y and s = "[]" and t = "[]"] by auto

lemma example_second: "\<not> is_old_block 2000 100 second_block" "wf_block second_block" "fits (block_to_data second_block)"
proof -
  let ?tx = "example_coinbase\<lparr>tx_locktime := 7\<rparr>"
  show "\<not> is_old_block 2000 100 second_block" by (simp add: is_old_block_def blocks_to_seconds_def second_block_def example_block_def)
  have header: "wf_header (blk_header second_block)" by (simp add: wf_header_def second_block_def example_block_def)
  have "wf_tx True ?tx"
    using example_wf_tx by (simp add: wf_tx_def)
  with header show "wf_block second_block" using read_tx_wf by (simp add: wf_block_def second_block_def new_block_tx_def)
  have "length (tx_to_data True ?tx) = 151"
    using example_coinbase_size
    by (subst length_tx_to_data) (simp_all add: example_coinbase_def output_point_of_def point.defs make_point_def null_hash_def
        tx_serialized_size_def)
  moreover have "length (header_basis_to_data (blk_header second_block)) = 80"
    using header by (simp add: length_header_basis header_fixed_size_def)
  ultimately show "fits (block_to_data second_block)"
    by (simp add: block_to_data_def header_to_data_def write_collection_def length_write_size variable_uint_size_def
        second_block_def new_block_tx_def)
qed

lemma example_stack:
  "\<exists>s chain. store_block example_access example_block 5 empty_store = (rc_success, s) \<and>
     store_block example_access second_block 6 s = (rc_success, chain)"
proof -
  let ?push = "\<lambda>b height s. push_block memory_lmdb tail_crypto 2000 100 b None height (hd_median_time_past (blk_header b)) s"
  have "\<exists>s. ?push example_block 5 empty_store = (rc_success, s)"
    by (rule memory.push_single [where t = "new_block_tx example_coinbase" and out = "hd (tx_outputs example_coinbase)"])
      (simp_all add: example_block_def new_block_tx_def example_coinbase_def memory_look_def empty_store_def)
  then obtain s where s: "?push example_block 5 empty_store = (rc_success, s)" by blast
  have "push_block_txn memory_lmdb tail_crypto example_block None 5 (hd_median_time_past (blk_header example_block))
      (\<not> is_old_block 2000 100 example_block) empty_store = (rc_success, s)"
    by (rule memory.push_block_success [OF s])
  from memory.push_block_txn_success [OF this] obtain s2 s4 where s2: "memory_look s2 = (memory_look empty_store)(
      Block_header := (memory_look empty_store Block_header)(Number 5 \<mapsto> Data (header_abla_to_data (blk_header example_block) None)),
      Block_header_by_hash := (memory_look empty_store Block_header_by_hash)(Data (block_hash tail_crypto example_block) \<mapsto> Number 5),
      Reorg_block := if \<not> is_old_block 2000 100 example_block
        then (memory_look empty_store Reorg_block)(Number 5 \<mapsto> Data (block_to_data example_block)) else memory_look empty_store Reorg_block)"
    and adds: "adds memory_look memory_dups s2 (created_pairs tail_crypto (to_data_fixed 5 (hd_median_time_past (blk_header example_block)) True)
        [hd (blk_txs example_block)] @ created_pairs tail_crypto ((to_data_fixed 5 (hd_median_time_past (blk_header example_block)) True)
        [length (to_data_fixed 5 (hd_median_time_past (blk_header example_block)) True) - 1 := 0]) (tl (blk_txs example_block))) s4"
    and spends: "spends memory_look memory_dups 5 (\<not> is_old_block 2000 100 example_block) s4 (spent_keys (tl (blk_txs example_block))) s"
    by blast
  have one: "tl (blk_txs example_block) = []" "hd (blk_txs example_block) = new_block_tx example_coinbase"
    by (simp_all add: example_block_def)
  have kept: "memory_look s t = memory_look s2 t" if "t \<noteq> Utxo" for t
    using adds spends that one by (cases "t = Reorg_pool") (auto simp: adds_def spends_def others_kept_def)
  have empty: "memory_look empty_store t = Map.empty" for t by (simp add: memory_look_def empty_store_def fun_eq_iff)
  have utxo: "dom (memory_look s Utxo) = {point_key_data (make_point (block_tx_hash tail_crypto (new_block_tx example_coinbase)) 0)}"
    using adds spends s2 one empty
    by (simp add: adds_def spends_def) (simp add: new_block_tx_def example_coinbase_def)
  have "\<exists>chain. ?push second_block 6 s = (rc_success, chain)"
  proof (rule memory.push_single)
    show "blk_txs second_block = [new_block_tx (example_coinbase\<lparr>tx_locktime := 7\<rparr>)]" by (simp add: second_block_def)
    show "tx_outputs (bt_tx (new_block_tx (example_coinbase\<lparr>tx_locktime := 7\<rparr>))) = [hd (tx_outputs example_coinbase)]"
      by (simp add: new_block_tx_def example_coinbase_def)
    show "\<forall>k \<in> dom (memory_look s Block_header). k < Number 6"
      using kept s2 empty by (simp add: less_datum_def less_eq_datum_def)
    show "memory_look s Block_header_by_hash (Data (block_hash tail_crypto second_block)) = None"
      using kept s2 empty by (simp add: example_hashes_tail write_4_inject)
    show "memory_look s Reorg_block (Number 6) = None" using kept s2 empty by simp
    have "point_key_data (make_point (block_tx_hash tail_crypto (new_block_tx (example_coinbase\<lparr>tx_locktime := 7\<rparr>))) 0) \<noteq>
        point_key_data (make_point (block_tx_hash tail_crypto (new_block_tx example_coinbase)) 0)"
      by (simp add: example_hashes_tail write_4_inject point_key_data_def point_to_data_def make_point_def)
    then show "memory_look s Utxo (point_key_data (make_point (block_tx_hash tail_crypto
        (new_block_tx (example_coinbase\<lparr>tx_locktime := 7\<rparr>))) 0)) = None"
      using utxo by blast
  qed
  with s show ?thesis by (auto simp: store_block_def example_access_def)
qed

section \<open>Properties\<close>



end
