(* ===== verification/Populate_Block.thy ===== *)
theory Populate_Block
  imports Data_Base
begin

text \<open>
  What a block of a branch spends (blockchain/src/populate/populate_base.cpp and populate_block.cpp, the queries of
  blockchain/src/interface/block_chain.cpp): for each input the output in the store as of the fork, in the blocks of the
  branch, or among what the blocks above the fork spent, with the work split over buckets.
\<close>

section \<open>Queries\<close>

text \<open>The entry of an unspent output up to a height. The outer option is undefined behaviour of a reader.\<close>

definition chain_get_utxo :: "'s lmdb \<Rightarrow> 's \<Rightarrow> 'a point_scheme \<Rightarrow> nat \<Rightarrow> utxo_entry option option" where
  "chain_get_utxo db s outpoint branch_height = do {
     entry \<leftarrow> get_utxo db s outpoint;
     Some (if \<not> utxo_entry_is_valid entry then None
       else if unat (ue_height entry) > branch_height then None else Some entry) }"

definition chain_get_last_height :: "'s lmdb \<Rightarrow> 's \<Rightarrow> nat option" where
  "chain_get_last_height db s = (case get_last_height db s of Inl _ \<Rightarrow> None | Inr height \<Rightarrow> Some (unat height))"

type_synonym utxo_pool = "u32 \<times> bytes \<rightharpoonup> utxo_entry"

definition chain_get_utxo_pool_from :: "'s lmdb \<Rightarrow> 's \<Rightarrow> u32 \<Rightarrow> u32 \<Rightarrow> (bool \<times> utxo_pool) option" where
  "chain_get_utxo_pool_from db s from to_height =
     map_option (\<lambda>(code, pool). (code = rc_success, pool)) (get_utxo_pool_from db s from to_height)"

section \<open>A previous output in the store\<close>

definition base_populate_prevout ::
  "'s lmdb \<Rightarrow> 's \<Rightarrow> nat \<Rightarrow> 'a point_scheme \<Rightarrow> prevout_metadata \<Rightarrow> prevout_metadata option" where
  "base_populate_prevout db s branch_height outpoint pv =
     (let pv = pv\<lparr>pv_spent := False, pv_confirmed := False, pv_cache := output_default\<rparr>
      in if point_is_null outpoint then Some pv
         else do {
           found \<leftarrow> chain_get_utxo db s outpoint branch_height;
           Some (case found of
               None \<Rightarrow> pv
             | Some e \<Rightarrow>
                 let pv = pv\<lparr>pv_cache := ue_output e, pv_height := unat (ue_height e),
                       pv_median_time_past := ue_median_time_past e, pv_coinbase := ue_coinbase e\<rparr>
                 in if unat (ue_spender e) \<le> branch_height \<and> ue_spender e \<noteq> not_spent
                    then pv\<lparr>pv_spent := True, pv_confirmed := True, pv_cache := output_default\<rparr> else pv) })"

section \<open>A previous output in the branch and in the displaced blocks\<close>

definition populate_branch_prevout ::
  "crypto \<Rightarrow> branch \<Rightarrow> local_utxo list \<Rightarrow> 'a point_scheme \<Rightarrow> prevout_metadata \<Rightarrow> prevout_metadata option" where
  "populate_branch_prevout c b utxos outpoint pv =
     (let pv = (if \<not> pv_spent pv then populate_spent b outpoint pv else pv)
      in if \<not> output_is_valid (pv_cache pv) then populate_prevout_utxo c b utxos outpoint pv else Some pv)"

definition populate_from_reorg_subset :: "utxo_pool \<Rightarrow> 'a point_scheme \<Rightarrow> prevout_metadata \<Rightarrow> prevout_metadata" where
  "populate_from_reorg_subset displaced outpoint pv =
     (if output_is_valid (pv_cache pv) then pv
      else case displaced (point_key outpoint) of
          None \<Rightarrow> pv
        | Some e \<Rightarrow> pv\<lparr>pv_height := unat (ue_height e), pv_median_time_past := ue_median_time_past e,
            pv_cache := ue_output e, pv_coinbase := ue_coinbase e\<rparr>)"

text \<open>The top of the chain, and what its blocks from a height on spent, if there are any.\<close>

definition get_reorg_subset_conditionally :: "'s lmdb \<Rightarrow> 's \<Rightarrow> nat \<Rightarrow> (nat \<times> utxo_pool) option" where
  "get_reorg_subset_conditionally db s first_height =
     (case chain_get_last_height db s of
        None \<Rightarrow> Some (0, Map.empty)
      | Some chain_top \<Rightarrow>
          if first_height > chain_top then Some (chain_top, Map.empty)
          else do {
            (good, pool) \<leftarrow> chain_get_utxo_pool_from db s (of_nat first_height) (of_nat chain_top);
            Some (chain_top, if good then pool else Map.empty) })"

section \<open>The inputs of a block\<close>

text \<open>What is the same for all inputs.\<close>

record 's populate_job =
  pj_lmdb :: "'s lmdb"
  pj_store :: 's
  pj_crypto :: crypto
  pj_branch :: branch
  pj_utxos :: "local_utxo list"
  pj_first :: nat
  pj_top :: nat
  pj_subset :: utxo_pool

definition populate_job_of :: "'s lmdb \<Rightarrow> 's \<Rightarrow> crypto \<Rightarrow> branch \<Rightarrow> 's populate_job option" where
  "populate_job_of db s c b = do {
     let first = br_height b + 1;
     (chain_top, displaced) \<leftarrow> get_reorg_subset_conditionally db s first;
     Some \<lparr>pj_lmdb = db, pj_store = s, pj_crypto = c, pj_branch = b, pj_utxos = create_branch_utxo_set c b,
       pj_first = first, pj_top = chain_top, pj_subset = displaced\<rparr> }"

definition populate_prevout_data :: "'s populate_job \<Rightarrow> 'a point_scheme \<Rightarrow> prevout_metadata \<Rightarrow> prevout_metadata option" where
  "populate_prevout_data j outpoint pv = do {
     pv \<leftarrow> base_populate_prevout (pj_lmdb j) (pj_store j) (br_height (pj_branch j)) outpoint pv;
     pv \<leftarrow> populate_branch_prevout (pj_crypto j) (pj_branch j) (pj_utxos j) outpoint pv;
     Some (if pj_first j \<le> pj_top j then populate_from_reorg_subset (pj_subset j) outpoint pv else pv) }"

definition populate_input :: "'s populate_job \<Rightarrow> tx_input \<Rightarrow> tx_input option" where
  "populate_input j i = do {
     pv \<leftarrow> populate_prevout_data j (in_prevout i) (validation (in_prevout i));
     Some (i\<lparr>in_prevout := (in_prevout i)\<lparr>validation := pv\<rparr>\<rparr>) }"

text \<open>The inputs of a transaction at the positions of a bucket, counted from the first input of the transaction: the
  position is passed by value.\<close>

fun populate_transaction_inputs :: "'s populate_job \<Rightarrow> nat \<Rightarrow> nat \<Rightarrow> nat \<Rightarrow> tx_input list \<Rightarrow> tx_input list option" where
  "populate_transaction_inputs j bucket buckets pos [] = Some []"
| "populate_transaction_inputs j bucket buckets pos (i # is) = do {
     i \<leftarrow> (if pos mod buckets \<noteq> bucket then Some i else populate_input j i);
     is \<leftarrow> populate_transaction_inputs j bucket buckets (pos + 1) is;
     Some (i # is) }"

fun populate_transactions :: "'s populate_job \<Rightarrow> nat \<Rightarrow> nat \<Rightarrow> block_tx list \<Rightarrow> block_tx list option" where
  "populate_transactions j bucket buckets [] = Some []"
| "populate_transactions j bucket buckets (t # ts) = do {
     is \<leftarrow> populate_transaction_inputs j bucket buckets 0 (tx_inputs (bt_tx t));
     ts \<leftarrow> populate_transactions j bucket buckets ts;
     Some (t\<lparr>bt_tx := (bt_tx t)\<lparr>tx_inputs := is\<rparr>\<rparr> # ts) }"

text \<open>The coinbase spends nothing. Duplicates of transactions are not looked for.\<close>

definition populate_duplicate :: "block_tx \<Rightarrow> block_tx" where
  "populate_duplicate t = t\<lparr>bt_duplicate := False\<rparr>"

definition populate_coinbase :: "chain_state \<Rightarrow> block_tx \<Rightarrow> block_tx" where
  "populate_coinbase s t =
     (let i = hd (tx_inputs (bt_tx t));
          pv = (validation (in_prevout i))\<lparr>pv_spent := False, pv_confirmed := True, pv_cache := output_default,
            pv_coinbase := False, pv_height := 0, pv_median_time_past := 0\<rparr>;
          t = t\<lparr>bt_tx := (bt_tx t)\<lparr>tx_inputs := i\<lparr>in_prevout := (in_prevout i)\<lparr>validation := pv\<rparr>\<rparr> # tl (tx_inputs (bt_tx t))\<rparr>\<rparr>
      in if \<not> state_is_enabled s allow_collisions then populate_duplicate t else t)"

text \<open>The buckets one after the other, in the order in which they complete. A block under a checkpoint is left as it is;
  what all inputs share is only computed when there are inputs, and a block without transactions is read out of range.\<close>

fun populate_buckets :: "'s populate_job \<Rightarrow> nat \<Rightarrow> nat list \<Rightarrow> block_tx list \<Rightarrow> block_tx list option" where
  "populate_buckets j buckets [] ts = Some ts"
| "populate_buckets j buckets (bucket # order) ts = do {
     ts \<leftarrow> populate_transactions j bucket buckets ts;
     populate_buckets j buckets order ts }"

definition populate_block :: "'s populate_job option \<Rightarrow> chain_state \<Rightarrow> nat \<Rightarrow> nat list \<Rightarrow> block \<Rightarrow> block option" where
  "populate_block job s buckets order b =
     (if is_under_checkpoint s then Some b
      else if blk_txs b = [] then None
      else
        let coinbase = populate_coinbase s (hd (blk_txs b))
        in if total_inputs b False = 0 then Some (b\<lparr>blk_txs := coinbase # tl (blk_txs b)\<rparr>)
           else do {
             j \<leftarrow> job;
             ts \<leftarrow> populate_buckets j buckets order (tl (blk_txs b));
             Some (b\<lparr>blk_txs := coinbase # ts\<rparr>) })"

section \<open>Lemmas on buckets\<close>

text \<open>The transactions whose inputs at the positions of some buckets are populated.\<close>

definition populated :: "'s populate_job \<Rightarrow> nat \<Rightarrow> nat set \<Rightarrow> block_tx list \<Rightarrow> block_tx list" where
  "populated j k B ts =
     map (\<lambda>t. t\<lparr>bt_tx := (bt_tx t)\<lparr>tx_inputs :=
       map (\<lambda>(p, i). if p mod k \<in> B then the (populate_input j i) else i) (enumerate 0 (tx_inputs (bt_tx t)))\<rparr>\<rparr>) ts"

lemma populate_transaction_inputs_step:
  assumes "\<forall>i \<in> set is. populate_input j i \<noteq> None" "bucket \<notin> B"
  shows "populate_transaction_inputs j bucket k pos
      (map (\<lambda>(p, i). if p mod k \<in> B then the (populate_input j i) else i) (enumerate pos is)) =
    Some (map (\<lambda>(p, i). if p mod k \<in> insert bucket B then the (populate_input j i) else i) (enumerate pos is))"
  using assms by (induction "is" arbitrary: pos) auto

lemma populate_transactions_step:
  assumes "\<forall>t \<in> set ts. \<forall>i \<in> set (tx_inputs (bt_tx t)). populate_input j i \<noteq> None" "bucket \<notin> B"
  shows "populate_transactions j bucket k (populated j k B ts) = Some (populated j k (insert bucket B) ts)"
  using assms by (induction ts) (auto simp: populated_def populate_transaction_inputs_step simp del: insert_iff)

lemma populate_buckets_step:
  assumes "\<forall>t \<in> set ts. \<forall>i \<in> set (tx_inputs (bt_tx t)). populate_input j i \<noteq> None"
    and "distinct order" "set order \<inter> B = {}"
  shows "populate_buckets j k order (populated j k B ts) = Some (populated j k (B \<union> set order) ts)"
  using assms by (induction order arbitrary: B) (auto simp: populate_transactions_step)

lemma map_enumerate: "map (\<lambda>(p, i). f i) (enumerate n xs) = map f xs"
  by (induction xs arbitrary: n) simp_all

lemma populated_none: "populated j k {} ts = ts"
  using map_enumerate [of "\<lambda>i :: tx_input. i"] by (simp add: populated_def)

section \<open>Entries\<close>

definition reads :: "datum \<Rightarrow> utxo_entry \<Rightarrow> bool" where
  "reads v e \<longleftrightarrow> (\<exists>r. utxo_entry_from_data (reader_at [] (datum_bytes v)) = Got e r)"

definition entry_of :: "datum \<Rightarrow> utxo_entry" where
  "entry_of v = (case utxo_entry_from_data (reader_at [] (datum_bytes v)) of Got e _ \<Rightarrow> e | _ \<Rightarrow> utxo_entry_default)"

lemma reads_entry_of: "reads v e \<Longrightarrow> entry_of v = e"
  by (auto simp: reads_def entry_of_def)

lemma parsed_reads:
  assumes "reads v e"
  shows "parsed utxo_entry_from_data failure (datum_bytes v) = Some e"
    "parsed (rbind utxo_entry_from_data (\<lambda>e. rreturn (Some e))) None (datum_bytes v) = Some (Some e)"
proof -
  have start: "\<lparr>buffer = xs, position = 0\<rparr> = reader_at [] xs" for xs by (simp add: reader_at_def)
  show "parsed utxo_entry_from_data failure (datum_bytes v) = Some e"
    "parsed (rbind utxo_entry_from_data (\<lambda>e. rreturn (Some e))) None (datum_bytes v) = Some (Some e)"
    using assms by (auto simp: reads_def parsed_def start rbind_Got)
qed

text \<open>An entry above a height.\<close>

definition entry_above :: "nat \<Rightarrow> datum \<Rightarrow> bool" where
  "entry_above fork v \<longleftrightarrow> (\<exists>e. reads v e \<and> fork < unat (ue_height e))"

lemma reads_entry:
  assumes "wf_output out" "fits (to_data_with_fixed out (to_data_fixed height mtp coinbase))"
  shows "reads (Data (to_data_with_fixed out (to_data_fixed height mtp coinbase)))
    \<lparr>ue_output = out, ue_spender = not_spent, ue_height = height, ue_median_time_past = mtp, ue_coinbase = coinbase\<rparr>"
proof -
  let ?data = "to_data_with_fixed out (to_data_fixed height mtp coinbase)"
  have data: "?data = stored_output_to_data (out, not_spent) @ write_4_bytes_little_endian height @
      write_4_bytes_little_endian mtp @ [if coinbase then 1 else 0]"
    by (simp add: to_data_with_fixed_def to_data_fixed_def chain_output_to_data_def)
  show ?thesis
    using assms unfolding reads_def datum_bytes_def datum.case data utxo_entry_from_data_def
    by (simp add: stored_output.rbind_enc codec_simps rbind_def [of read_byte] rreturn_def)
qed

text \<open>Small blocks, whose parts fit into a buffer with room to spare, and blocks whose spends have keys that read back.\<close>

definition roomy :: "block \<Rightarrow> bool" where
  "roomy b \<longleftrightarrow> length (block_to_data b) < 2 ^ 62"

definition storable_spends :: "block \<Rightarrow> bool" where
  "storable_spends b \<longleftrightarrow>
     (\<forall>t \<in> set (tl (blk_txs b)). \<forall>i \<in> set (tx_inputs (bt_tx t)). store_point (point.truncate (in_prevout i)))"

lemma length_in_concat: "x \<in> set xs \<Longrightarrow> length (f x) \<le> length (concat (map f xs))"
  by (auto simp: length_concat comp_def intro!: member_le_sum_list)

lemma length_output_in_block:
  assumes "t \<in> set (blk_txs b)" "out \<in> set (tx_outputs (bt_tx t))"
  shows "length (output_to_data out) \<le> length (block_to_data b)"
proof -
  have "length (output_to_data out) \<le> length (concat (map (chain_output_to_data True) (tx_outputs (bt_tx t))))"
    using length_in_concat [OF assms(2), of "chain_output_to_data True"] by (simp add: chain_output_to_data_def)
  also have "\<dots> \<le> length (tx_to_data True (bt_tx t))" by (simp add: tx_to_data_def write_collection_def)
  also have "\<dots> \<le> length (concat (map (\<lambda>t. tx_to_data True (bt_tx t)) (blk_txs b)))"
    using length_in_concat [OF assms(1), of "\<lambda>t. tx_to_data True (bt_tx t)"] .
  also have "\<dots> \<le> length (block_to_data b)" by (simp add: block_to_data_def write_collection_def)
  finally show ?thesis .
qed

lemma output_pairs_values: "(k, v) \<in> set (output_pairs txid fixed pos outs) \<Longrightarrow> \<exists>out \<in> set outs. v = Data (to_data_with_fixed out fixed)"
  by (induction outs arbitrary: pos) auto

lemma created_above:
  assumes "wf_block b" "roomy b" "set ts \<subseteq> set (blk_txs b)" "(k, v) \<in> set (created_pairs c (to_data_fixed height mtp coinbase) ts)"
    "fork < unat height"
  shows "entry_above fork v"
proof -
  obtain t out where out: "t \<in> set (blk_txs b)" "out \<in> set (tx_outputs (bt_tx t))"
    and v: "v = Data (to_data_with_fixed out (to_data_fixed height mtp coinbase))"
    using assms(3,4) output_pairs_values unfolding created_pairs_def by (fastforce simp del: created_pairs_simps)
  have "wf_tx True (read_tx (bt_tx t))" using assms(1) out(1) by (simp add: wf_block_def list_all_iff)
  then have "wf_output (read_output out)" using out(2) by (simp add: wf_tx_def read_tx_def list_all_iff)
  moreover have "fits (to_data_with_fixed out (to_data_fixed height mtp coinbase))"
    using length_output_in_block [OF out] assms(2)
    by (simp add: roomy_def to_data_with_fixed_def to_data_fixed_def chain_output_to_data_def stored_output_to_data_def)
  ultimately show ?thesis
    using reads_entry [of "read_output out" height mtp coinbase] assms(5) unfolding entry_above_def v by fastforce
qed

section \<open>The store above a fork\<close>

definition block_spends :: "block list \<Rightarrow> datum set" where
  "block_spends bs = (\<Union>b \<in> set bs. set (spent_keys (tl (blk_txs b))))"

text \<open>What the tables hold after blocks above the fork, whose top is given and which spent the keys of a set, were added to
  a store: the entries from before that are unspent, entries of the new blocks, and all that the new blocks spent.\<close>

definition displaced_state :: "'s look \<Rightarrow> 's dups \<Rightarrow> 's \<Rightarrow> nat \<Rightarrow> nat \<Rightarrow> datum set \<Rightarrow> 's \<Rightarrow> bool" where
  "displaced_state look dups s fork chain_top ks t \<longleftrightarrow>
     (\<forall>k v. look t Utxo k = Some v \<longrightarrow> k \<notin> ks \<and> look s Utxo k = Some v \<or> entry_above fork v) \<and>
     (\<forall>k \<in> dom (look s Utxo) - ks. look t Utxo k = look s Utxo k) \<and>
     (\<forall>k \<in> ks. \<exists>v. look t Reorg_pool k = Some v \<and> (look s Utxo k = Some v \<or> look s Utxo k = None \<and> entry_above fork v)) \<and>
     (\<forall>p \<in> dups t. p \<in> dups s \<or> snd p \<in> ks \<and> (\<exists>h. fst p = Number h \<and> fork < unat h \<and> unat h \<le> chain_top)) \<and>
     (\<forall>k \<in> ks. \<exists>h. (Number h, k) \<in> dups t \<and> fork < unat h)"

lemma cleared_fixed: "(to_data_fixed height mtp True)[length (to_data_fixed height mtp True) - 1 := 0] = to_data_fixed height mtp False"
  by (simp add: to_data_fixed_def list_update_append)

context key_value_store
begin

lemma push_ledger:
  assumes "push_block_txn db c b state height mtp insert_reorg s = (rc_success, s')"
  shows "\<exists>s2 s4. look s2 Utxo = look s Utxo \<and> look s2 Reorg_pool = look s Reorg_pool \<and> dups s2 = dups s \<and>
    adds look dups s2 (created_pairs c (to_data_fixed height mtp True) [hd (blk_txs b)] @
      created_pairs c (to_data_fixed height mtp False) (tl (blk_txs b))) s4 \<and>
    spends look dups height insert_reorg s4 (spent_keys (tl (blk_txs b))) s'"
  using push_block_txn_success [OF assms] unfolding cleared_fixed
  by (elim exE conjE) (intro exI conjI; (assumption | simp))

lemma displaced_start: "displaced_state look dups s fork fork {} s"
  by (auto simp: displaced_state_def)

lemma displaced_step:
  assumes t: "displaced_state look dups s fork (height - 1) ks t"
    and push: "dbs_lmdb d = db" "store_block d b height t = (rc_success, t')"
    and b: "reorganizable d b" "roomy b" and height: "fork < height" "height < 2 ^ 32"
  shows "displaced_state look dups s fork height (ks \<union> set (spent_keys (tl (blk_txs b)))) t'"
proof -
  let ?mtp = "hd_median_time_past (blk_header b)" and ?new = "set (spent_keys (tl (blk_txs b)))"
  define h where "h = (of_nat height :: u32)"
  define kvs where "kvs = created_pairs (dbs_crypto d) (to_data_fixed h ?mtp True) [hd (blk_txs b)] @
      created_pairs (dbs_crypto d) (to_data_fixed h ?mtp False) (tl (blk_txs b))"
  have h: "unat h = height" using height(2) by (simp add: h_def unat_of_height)
  have wf: "wf_block b" "blk_txs b \<noteq> []" using b(1) by (auto simp: reorganizable_def wf_block_def)
  have "push_block_txn db (dbs_crypto d) b (dbs_abla d b) h ?mtp True t = (rc_success, t')"
    using push_block_success [OF push(2) [unfolded store_block_def push(1)]] b(1) by (simp add: reorganizable_def h_def)
  from push_ledger [OF this] obtain s2 s4 where tables: "look s2 Utxo = look t Utxo" "look s2 Reorg_pool = look t Reorg_pool"
      "dups s2 = dups t" and kvs: "adds look dups s2 kvs s4" and ks: "spends look dups h True s4 (spent_keys (tl (blk_txs b))) t'"
    unfolding kvs_def by blast
  have U4: "look s4 Utxo = look t Utxo ++ map_of kvs" "fst ` set kvs \<inter> dom (look t Utxo) = {}"
    and P4: "look s4 Reorg_pool = look t Reorg_pool" and D4: "dups s4 = dups t"
    using kvs tables by (simp_all add: adds_def others_kept_def)
  have new: "?new \<subseteq> dom (look s4 Utxo)" "?new \<inter> dom (look t Reorg_pool) = {}"
    and U': "look t' Utxo = look s4 Utxo |` (- ?new)" and P': "look t' Reorg_pool = look t Reorg_pool ++ (look s4 Utxo |` ?new)"
    and D': "dups t' = dups t \<union> Pair (Number h) ` ?new"
    using ks P4 D4 by (simp_all add: spends_def)
  have parts: "set [hd (blk_txs b)] \<subseteq> set (blk_txs b)" "set (tl (blk_txs b)) \<subseteq> set (blk_txs b)" and up: "fork < unat h"
    using wf(2) height(1) h by (auto dest: list.set_sel(2))
  have created: "entry_above fork v" if "(k, v) \<in> set kvs" for k v
    using that created_above [OF wf(1) b(2) parts(1) _ up] created_above [OF wf(1) b(2) parts(2) _ up]
    unfolding kvs_def by (auto simp del: created_pairs_simps)
  have fresh: "?new \<inter> ks = {}" using new(2) t by (fastforce simp: displaced_state_def)
  have s4: "k \<notin> ks \<and> look s Utxo k = Some v \<or> entry_above fork v" if "look s4 Utxo k = Some v" for k v
    using that t created by (auto simp: U4(1) map_add_Some_iff displaced_state_def dest: map_of_SomeD)
  have old4: "look s4 Utxo k = look s Utxo k" if "k \<in> dom (look s Utxo) - ks" for k
  proof -
    have tk: "look t Utxo k = look s Utxo k" using that t by (auto simp: displaced_state_def)
    then have "k \<notin> fst ` set kvs" using that U4(2) by auto
    then show ?thesis using tk by (simp add: U4(1) map_add_dom_app_simps(3) dom_map_of_conv_image_fst)
  qed
  show ?thesis
    unfolding displaced_state_def
  proof (intro conjI allI impI ballI)
    fix k v assume "look t' Utxo k = Some v"
    then show "k \<notin> ks \<union> ?new \<and> look s Utxo k = Some v \<or> entry_above fork v"
      using s4 [of k v] by (auto simp: U' restrict_map_def split: if_splits)
  next
    fix k assume "k \<in> dom (look s Utxo) - (ks \<union> ?new)"
    then show "look t' Utxo k = look s Utxo k" using old4 [of k] by (simp add: U')
  next
    fix k assume k: "k \<in> ks \<union> ?new"
    show "\<exists>v. look t' Reorg_pool k = Some v \<and> (look s Utxo k = Some v \<or> look s Utxo k = None \<and> entry_above fork v)"
    proof (cases "k \<in> ?new")
      case True
      then obtain v where v: "look s4 Utxo k = Some v" using new(1) by blast
      moreover have "look s Utxo k = Some v \<or> look s Utxo k = None \<and> entry_above fork v"
        using s4 [OF v] old4 [of k] v True fresh by (cases "look s Utxo k") auto
      ultimately show ?thesis using True by (auto simp: P' map_add_def)
    next
      case False
      then show ?thesis using k t by (auto simp: P' map_add_def displaced_state_def)
    qed
  next
    fix p assume "p \<in> dups t'"
    then show "p \<in> dups s \<or> snd p \<in> ks \<union> ?new \<and> (\<exists>h. fst p = Number h \<and> fork < unat h \<and> unat h \<le> height)"
      using t height(1) h by (auto simp: D' displaced_state_def)
  next
    fix k assume "k \<in> ks \<union> ?new"
    then show "\<exists>h. (Number h, k) \<in> dups t' \<and> fork < unat h"
      using t height(1) h by (auto simp: D' displaced_state_def)
  qed
qed

lemma displaced_stacked:
  assumes "dbs_lmdb d = db" "stacked d bs (fork + 1) s t" "\<forall>b \<in> set bs. reorganizable d b \<and> roomy b" "fork + length bs < 2 ^ 32"
  shows "displaced_state look dups s fork (fork + length bs) (block_spends bs) t"
  using assms(2-)
proof (induction bs arbitrary: t rule: rev_induct)
  case Nil
  then show ?case by (simp add: block_spends_def displaced_start)
next
  case (snoc b bs)
  then obtain s1 where s1: "stacked d bs (fork + 1) s s1" "store_block d b (fork + 1 + length bs) s1 = (rc_success, t)"
    by (auto simp: stacked_append)
  have before: "displaced_state look dups s fork (fork + 1 + length bs - 1) (block_spends bs) s1"
    using snoc.IH [OF s1(1)] snoc.prems by simp
  have b: "reorganizable d b" "roomy b" and height: "fork < fork + 1 + length bs" "fork + 1 + length bs < 2 ^ 32"
    using snoc.prems by simp_all
  from displaced_step [OF before assms(1) s1(2) b height]
  have "displaced_state look dups s fork (fork + 1 + length bs) (block_spends bs \<union> set (spent_keys (tl (blk_txs b)))) t" .
  then show ?case by (simp add: block_spends_def Un_commute)
qed

end

section \<open>What the displaced blocks spent\<close>

lemma dropWhile_sorted:
  fixes xs :: "(datum \<times> datum) list"
  assumes "sorted xs"
  shows "dropWhile (\<lambda>(k, _). k < a) xs = filter (\<lambda>(k, _). \<not> k < a) xs"
  using assms
proof (induction xs)
  case (Cons x xs)
  then have "filter (\<lambda>(k, _). \<not> k < a) xs = xs" if "\<not> fst x < a"
    using that by (auto simp: filter_id_conv less_eq_prod_def)
  with Cons show ?case by (cases x) auto
qed simp

lemma point_key_data_truncate: "point_key_data (point.truncate p) = point_key_data p" "point_key (point.truncate p) = point_key p"
  by (simp add: point_key_data_def point_to_data_truncate) (simp add: point_key_def point.truncate_def)

lemma store_point_read:
  assumes "store_point p"
  shows "parsed (rbind (point_from_data internal_db_wire) (\<lambda>p. rreturn (Some p))) None (datum_bytes (point_key_data p)) = Some (Some p)"
proof -
  have "length (point_to_data False p) = 34" using assms by (simp add: length_point_to_data point_serialized_size_def)
  then have "point_from_data False (reader_at [] (point_to_data False p)) = Got p (reader_at (point_to_data False p) [])"
    using point_store.dec_whole [of p] assms by simp
  moreover have start: "\<lparr>buffer = xs, position = 0\<rparr> = reader_at [] xs" for xs by (simp add: reader_at_def)
  ultimately show ?thesis
    by (simp add: parsed_def start rbind_Got point_key_data_def datum_bytes_def internal_db_wire_def)
qed

lemma store_point_keys:
  assumes "store_point p" "store_point q"
  shows "point_key_data p = point_key_data q \<longleftrightarrow> p = q" "point_key p = point_key q \<longleftrightarrow> p = q"
proof -
  have "point_to_data False p = point_to_data False q \<Longrightarrow> p = q"
    using point_store.enc_prefix_free [where x = p and y = q and s = "[]" and t = "[]"] assms
    by (simp add: length_point_to_data point_serialized_size_def)
  then show "point_key_data p = point_key_data q \<longleftrightarrow> p = q" by (auto simp: point_key_data_def internal_db_wire_def)
  show "point_key p = point_key q \<longleftrightarrow> p = q" using assms by (cases p; cases q) (auto simp: point_key_def)
qed

context key_value_store
begin

lemma pool_from_pairs_reads:
  assumes "\<forall>(k, kp) \<in> set ps. datum_height k \<le> to_height \<and> (\<exists>v e. look s Reorg_pool kp = Some v \<and> reads v e) \<and>
    (\<exists>q. store_point q \<and> kp = point_key_data q)"
  shows "\<exists>pool'. pool_from_pairs db s to_height pool ps = Some (rc_success, pool') \<and>
    (\<forall>p. store_point p \<longrightarrow> pool' (point_key p) =
      (case pool (point_key p) of Some e \<Rightarrow> Some e
       | None \<Rightarrow> if point_key_data p \<in> snd ` set ps then Some (entry_of (the (look s Reorg_pool (point_key_data p)))) else None))"
  using assms
proof (induction ps arbitrary: pool)
  case Nil
  then show ?case by (auto split: option.splits)
next
  case (Cons x ps)
  obtain k kp where x: "x = (k, kp)" by (cases x)
  then obtain v e q where q: "store_point q" "kp = point_key_data q" and v: "look s Reorg_pool kp = Some v" "reads v e"
    and k: "datum_height k \<le> to_height" using Cons.prems by auto
  define pool1 where "pool1 = (if pool (point_key q) = None then pool(point_key q \<mapsto> e) else pool)"
  have step: "insert_reorg_into_pool db s pool kp = Some (rc_success, pool1)"
    using v parsed_reads(2) [OF v(2)] store_point_read [OF q(1)] q(2)
    by (simp add: insert_reorg_into_pool_def get pool1_def)
  obtain pool' where pool': "pool_from_pairs db s to_height pool1 ps = Some (rc_success, pool')"
    and found: "\<forall>p. store_point p \<longrightarrow> pool' (point_key p) =
      (case pool1 (point_key p) of Some e \<Rightarrow> Some e
       | None \<Rightarrow> if point_key_data p \<in> snd ` set ps then Some (entry_of (the (look s Reorg_pool (point_key_data p)))) else None)"
    using Cons.IH [of pool1] Cons.prems by auto
  have "pool' (point_key p) = (case pool (point_key p) of Some e \<Rightarrow> Some e
      | None \<Rightarrow> if point_key_data p \<in> snd ` set (x # ps) then Some (entry_of (the (look s Reorg_pool (point_key_data p)))) else None)"
    if p: "store_point p" for p
  proof (cases "p = q")
    case True
    then show ?thesis
      using found p v q reads_entry_of [OF v(2)] x by (auto simp: pool1_def split: option.splits)
  next
    case False
    then have "point_key p \<noteq> point_key q" "point_key_data p \<noteq> kp" using store_point_keys [OF p q(1)] q(2) by auto
    then show ?thesis using found p x by (simp add: pool1_def)
  qed
  then show ?case using step pool' k x by auto
qed

text \<open>The entries that the blocks above a fork spent.\<close>

lemma displaced_pairs:
  assumes t: "displaced_state look dups s fork chain_top ks t" and index: "\<forall>p \<in> dups s. fst p \<le> Number (of_nat fork)"
    and low: "unat (low :: u32) = fork + 1" "unat (of_nat fork :: u32) = fork"
  defines "ps \<equiv> dropWhile (\<lambda>(k, _). k < Number low) (sorted_list_of_set (dups t))"
  shows "\<forall>p \<in> set ps. snd p \<in> ks \<and> (\<exists>h. fst p = Number h \<and> unat h \<le> chain_top)" "snd ` set ps = ks"
proof -
  have ps: "set ps = {p \<in> dups t. \<not> fst p < Number low}"
    using finite_dups [of t] unfolding ps_def by (subst dropWhile_sorted) auto
  have above: "\<not> Number h < Number low \<longleftrightarrow> fork < unat h" for h
    using low by (auto simp: less_datum_def less_eq_datum_def word_le_nat_alt)
  show good: "\<forall>p \<in> set ps. snd p \<in> ks \<and> (\<exists>h. fst p = Number h \<and> unat h \<le> chain_top)"
  proof
    fix p assume "p \<in> set ps"
    then have p: "p \<in> dups t" "\<not> fst p < Number low" using ps by auto
    have "p \<notin> dups s"
    proof
      assume "p \<in> dups s"
      then have "fst p \<le> Number (of_nat fork)" using index by blast
      moreover have "Number (of_nat fork) < Number low" using above [of "of_nat fork"] low(2) by auto
      ultimately show False using p(2) by (meson order_le_less_trans)
    qed
    then show "snd p \<in> ks \<and> (\<exists>h. fst p = Number h \<and> unat h \<le> chain_top)"
      using t p(1) unfolding displaced_state_def by blast
  qed
  show "snd ` set ps = ks"
  proof
    show "ks \<subseteq> snd ` set ps"
    proof
      fix k assume "k \<in> ks"
      then obtain h where h: "(Number h, k) \<in> dups t" "fork < unat h" using t unfolding displaced_state_def by blast
      then have "(Number h, k) \<in> set ps" using ps above by simp
      then show "k \<in> snd ` set ps" by force
    qed
  qed (use good in auto)
qed

lemma displaced_pool:
  assumes t: "displaced_state look dups s fork chain_top ks t" and index: "\<forall>p \<in> dups s. fst p \<le> Number (of_nat fork)"
    and keys: "\<forall>k \<in> ks. \<exists>q. store_point q \<and> k = point_key_data q"
    and old: "\<forall>k v. look s Utxo k = Some v \<longrightarrow> (\<exists>e. reads v e)"
    and range: "fork < chain_top" "chain_top < 2 ^ 32"
  shows "\<exists>code pool. get_utxo_pool_from db t (of_nat (fork + 1)) (of_nat chain_top) = Some (code, pool) \<and>
    (code \<noteq> rc_success \<longrightarrow> ks = {}) \<and>
    (code = rc_success \<longrightarrow> (\<forall>p. store_point p \<longrightarrow> pool (point_key p) =
      (if point_key_data p \<in> ks then Some (entry_of (the (look t Reorg_pool (point_key_data p)))) else None)))"
proof -
  define low where "low = (of_nat (fork + 1) :: u32)"
  define high where "high = (of_nat chain_top :: u32)"
  have heights: "unat low = fork + 1" "unat high = chain_top" "unat (of_nat fork :: u32) = fork"
    using range by (simp_all add: low_def high_def unat_of_height del: of_nat_add of_nat_Suc)
  define ps where "ps = dropWhile (\<lambda>(k, _). k < Number low) (sorted_list_of_set (dups t))"
  note pairs = displaced_pairs [OF t index heights(1,3), folded ps_def]
  have good: "\<forall>(k, kp) \<in> set ps. datum_height k \<le> high \<and> (\<exists>v e. look t Reorg_pool kp = Some v \<and> reads v e) \<and>
      (\<exists>q. store_point q \<and> kp = point_key_data q)"
  proof (clarify, intro conjI)
    fix k kp assume "(k, kp) \<in> set ps"
    then obtain h where h: "k = Number h" "unat h \<le> chain_top" "kp \<in> ks" using pairs(1) by fastforce
    then show "datum_height k \<le> high" using heights by (simp add: datum_height_def word_le_nat_alt)
    obtain v where "look t Reorg_pool kp = Some v" "look s Utxo kp = Some v \<or> entry_above fork v"
      using t h(3) unfolding displaced_state_def by blast
    then show "\<exists>v e. look t Reorg_pool kp = Some v \<and> reads v e" using old unfolding entry_above_def by blast
    show "\<exists>q. store_point q \<and> kp = point_key_data q" using keys h(3) by blast
  qed
  show ?thesis
  proof (cases ps)
    case Nil
    then have "get_utxo_pool_from db t low high = Some (rc_key_not_found, Map.empty)"
      by (simp add: get_utxo_pool_from_def cursor_dups txn flip: ps_def)
    then show ?thesis using pairs(2) Nil unfolding low_def high_def by auto
  next
    case (Cons x xs)
    obtain pool where pool: "pool_from_pairs db t high Map.empty ps = Some (rc_success, pool)"
      and found: "\<forall>p. store_point p \<longrightarrow> pool (point_key p) =
        (if point_key_data p \<in> ks then Some (entry_of (the (look t Reorg_pool (point_key_data p)))) else None)"
      using pool_from_pairs_reads [OF good, of Map.empty] pairs(2) by auto
    have "get_utxo_pool_from db t low high = Some (rc_success, pool)"
      using pool Cons by (simp add: get_utxo_pool_from_def cursor_dups txn flip: ps_def)
    then show ?thesis using found unfolding low_def high_def by auto
  qed
qed

end

section \<open>What is populated\<close>

text \<open>Entries of a store up to the fork.\<close>

definition entries_up_to :: "nat \<Rightarrow> (datum \<rightharpoonup> datum) \<Rightarrow> bool" where
  "entries_up_to fork m \<longleftrightarrow>
     (\<forall>k v. m k = Some v \<longrightarrow>
       (\<exists>e. reads v e \<and> utxo_entry_is_valid e \<and> unat (ue_height e) \<le> fork \<and> ue_spender e = not_spent))"

definition prevout_is :: "utxo_entry \<Rightarrow> prevout_metadata \<Rightarrow> bool" where
  "prevout_is e pv \<longleftrightarrow> pv_cache pv = ue_output e \<and> pv_height pv = unat (ue_height e) \<and>
     pv_median_time_past pv = ue_median_time_past e \<and> pv_coinbase pv = ue_coinbase e"

lemma search_utxos_none:
  assumes "\<forall>u \<in> set utxos. u (point_key p) = None" "set is \<subseteq> {..<length utxos}"
  shows "\<exists>pv'. search_utxos c b utxos p pv is = Some pv' \<and> pv_cache pv' = pv_cache pv"
  using assms
proof (induction "is" arbitrary: pv)
  case (Cons i "is")
  then have none: "(utxos ! i) (point_key p) = None" by simp
  from Cons.IH [of "pv\<lparr>pv_coinbase := False\<rparr>"] Cons.prems show ?case by (simp add: none)
qed simp

lemma branch_prevout_none:
  assumes "\<forall>u \<in> set utxos. u (point_key p) = None" "length utxos = branch_size b" "\<not> point_is_null p"
    and "\<not> output_is_valid (pv_cache pv)"
  shows "\<exists>pv'. populate_branch_prevout c b utxos p pv = Some pv' \<and> pv_cache pv' = output_default"
proof -
  let ?pv = "if \<not> pv_spent pv then populate_spent b p pv else pv"
  have "pv_cache ?pv = pv_cache pv" by (simp add: populate_spent_def Let_def)
  then have "populate_branch_prevout c b utxos p pv = search_utxos c b utxos p (clear_prevout ?pv) (rev [0..<branch_size b])"
    using assms(3,4) by (simp add: populate_branch_prevout_def populate_prevout_utxo_def Let_def)
  then show ?thesis
    using search_utxos_none [OF assms(1), of "rev [0..<branch_size b]" c b "clear_prevout ?pv"] assms(2)
    by (auto simp: clear_prevout_def lessThan_atLeast0)
qed

lemma branch_prevout_valid:
  assumes "output_is_valid (pv_cache pv)"
  shows "\<exists>pv'. populate_branch_prevout c b utxos p pv = Some pv' \<and> pv_cache pv' = pv_cache pv \<and> pv_height pv' = pv_height pv \<and>
    pv_median_time_past pv' = pv_median_time_past pv \<and> pv_coinbase pv' = pv_coinbase pv"
  using assms by (auto simp: populate_branch_prevout_def populate_spent_def Let_def)

lemma invalid_default: "\<not> output_is_valid output_default" "\<not> utxo_entry_is_valid utxo_entry_default"
  by (simp_all add: output_is_valid_def output_default_def utxo_entry_is_valid_def utxo_entry_default_def)

context key_value_store
begin

lemma get_utxo_reads:
  "look s Utxo (point_key_data p) = Some v \<Longrightarrow> reads v e \<Longrightarrow> get_utxo db s p = Some e"
  "look s Utxo (point_key_data p) = None \<Longrightarrow> get_utxo db s p = Some utxo_entry_default"
  using txn parsed_reads(1) [of v e] by (simp_all add: get_utxo_def read_txn_def get_utxo_txn_def get)

lemma displaced_kept:
  assumes "displaced_state look dups s fork chain_top ks t" "k \<notin> ks" "look s Utxo k \<noteq> None"
  shows "look t Utxo k = look s Utxo k"
proof -
  have "k \<in> dom (look s Utxo) - ks" using assms(2,3) by (simp add: domIff)
  then show ?thesis using assms(1) unfolding displaced_state_def by blast
qed

text \<open>What is found in the store: the entries up to the fork that no block above it spent.\<close>

lemma displaced_utxo:
  assumes t: "displaced_state look dups s fork chain_top ks t" and old: "entries_up_to fork (look s Utxo)"
  shows "chain_get_utxo db t p fork =
    Some (if point_key_data p \<in> ks then None else map_option entry_of (look s Utxo (point_key_data p)))"
proof (cases "look t Utxo (point_key_data p)")
  case None
  then have "point_key_data p \<in> ks \<or> look s Utxo (point_key_data p) = None" using displaced_kept [OF t] by metis
  then show ?thesis using get_utxo_reads(2) [OF None] invalid_default by (auto simp: chain_get_utxo_def)
next
  case (Some v)
  then consider (old) "point_key_data p \<notin> ks" "look s Utxo (point_key_data p) = Some v" | (new) "entry_above fork v"
    using t unfolding displaced_state_def by blast
  then show ?thesis
  proof cases
    case old
    then obtain e where e: "reads v e" "utxo_entry_is_valid e" "unat (ue_height e) \<le> fork"
      using assms(2) unfolding entries_up_to_def by blast
    then show ?thesis using old get_utxo_reads(1) [OF Some e(1)] reads_entry_of [OF e(1)] by (simp add: chain_get_utxo_def)
  next
    case new
    then obtain e where e: "reads v e" "fork < unat (ue_height e)" by (auto simp: entry_above_def)
    have "point_key_data p \<in> ks \<or> look s Utxo (point_key_data p) = None"
    proof (rule ccontr)
      assume "\<not> ?thesis"
      then have kept: "point_key_data p \<notin> ks" "look s Utxo (point_key_data p) \<noteq> None" by auto
      then have "look s Utxo (point_key_data p) = Some v" using displaced_kept [OF t] Some by metis
      then obtain e' where e': "reads v e'" "unat (ue_height e') \<le> fork" using assms(2) unfolding entries_up_to_def by blast
      then have "e' = e" using reads_entry_of [OF e(1)] reads_entry_of [OF e'(1)] by simp
      then show False using e(2) e'(2) by simp
    qed
    then show ?thesis using get_utxo_reads(1) [OF Some e(1)] e(2) by (auto simp: chain_get_utxo_def)
  qed
qed

lemma base_prevout:
  assumes "\<not> point_is_null p"
  shows "chain_get_utxo db t p fork = Some None \<Longrightarrow>
      \<exists>pv'. base_populate_prevout db t fork p pv = Some pv' \<and> pv_cache pv' = output_default"
    "chain_get_utxo db t p fork = Some (Some e) \<Longrightarrow> ue_spender e = not_spent \<Longrightarrow>
      \<exists>pv'. base_populate_prevout db t fork p pv = Some pv' \<and> prevout_is e pv'"
  using assms by (simp_all add: base_populate_prevout_def prevout_is_def Let_def)

lemma reorg_subset:
  assumes t: "displaced_state look dups s fork chain_top ks t" "get_last_height db t = Inr (of_nat chain_top)"
    and s: "\<forall>p \<in> dups s. fst p \<le> Number (of_nat fork)" "entries_up_to fork (look s Utxo)"
    and keys: "\<forall>k \<in> ks. \<exists>q. store_point q \<and> k = point_key_data q"
    and range: "fork \<le> chain_top" "chain_top < 2 ^ 32" "chain_top = fork \<Longrightarrow> ks = {}"
  shows "\<exists>pool. get_reorg_subset_conditionally db t (fork + 1) = Some (chain_top, pool) \<and>
    (\<forall>p. store_point p \<longrightarrow> pool (point_key p) =
      (if point_key_data p \<in> ks then Some (entry_of (the (look t Reorg_pool (point_key_data p)))) else None))"
proof -
  have top: "chain_get_last_height db t = Some chain_top"
    using t(2) range(2) by (simp add: chain_get_last_height_def unat_of_height)
  show ?thesis
  proof (cases "fork = chain_top")
    case True
    then show ?thesis using top range(3) by (simp add: get_reorg_subset_conditionally_def)
  next
    case False
    have old: "\<forall>k v. look s Utxo k = Some v \<longrightarrow> (\<exists>e. reads v e)" using s(2) unfolding entries_up_to_def by blast
    have "fork < chain_top" using False range(1) by simp
    from displaced_pool [OF t(1) s(1) keys old this range(2)] obtain code pool where
      pool: "get_utxo_pool_from db t (of_nat (fork + 1)) (of_nat chain_top) = Some (code, pool)"
      "code \<noteq> rc_success \<longrightarrow> ks = {}"
      "code = rc_success \<longrightarrow> (\<forall>p. store_point p \<longrightarrow> pool (point_key p) =
        (if point_key_data p \<in> ks then Some (entry_of (the (look t Reorg_pool (point_key_data p)))) else None))" by blast
    have "get_reorg_subset_conditionally db t (fork + 1) = Some (chain_top, if code = rc_success then pool else Map.empty)"
      using top pool(1) False range(1) by (simp add: get_reorg_subset_conditionally_def chain_get_utxo_pool_from_def)
    then show ?thesis using pool(2,3) by (cases "code = rc_success") simp_all
  qed
qed

lemma populate_prevout_go:
  assumes t: "displaced_state look dups s fork chain_top ks t" "get_last_height db t = Inr (of_nat chain_top)"
    and s: "\<forall>p \<in> dups s. fst p \<le> Number (of_nat fork)" "entries_up_to fork (look s Utxo)"
    and keys: "\<forall>k \<in> ks. \<exists>q. store_point q \<and> k = point_key_data q"
    and range: "fork \<le> chain_top" "chain_top < 2 ^ 32" "chain_top = fork \<Longrightarrow> ks = {}"
    and p: "br_height b = fork" "store_point (point.truncate p)" "\<not> point_is_null p"
      "\<forall>u \<in> set (create_branch_utxo_set c b). u (point_key p) = None"
  shows "\<exists>j pv'. populate_job_of db t c b = Some j \<and> populate_prevout_data j p pv = Some pv' \<and>
    (case look s Utxo (point_key_data p) of
       Some v \<Rightarrow> prevout_is (entry_of v) pv'
     | None \<Rightarrow> if point_key_data p \<in> ks then \<exists>e. prevout_is e pv' \<and> fork < unat (ue_height e) else pv_cache pv' = output_default)"
proof -
  let ?k = "point_key_data p"
  obtain pool where pool: "get_reorg_subset_conditionally db t (fork + 1) = Some (chain_top, pool)"
    "pool (point_key p) = (if ?k \<in> ks then Some (entry_of (the (look t Reorg_pool ?k))) else None)"
    using reorg_subset [OF t s keys range] p(2) by (metis point_key_data_truncate)
  define j where "j = \<lparr>pj_lmdb = db, pj_store = t, pj_crypto = c, pj_branch = b, pj_utxos = create_branch_utxo_set c b,
    pj_first = fork + 1, pj_top = chain_top, pj_subset = pool\<rparr>"
  have job: "populate_job_of db t c b = Some j" using pool(1) p(1) by (simp add: populate_job_of_def j_def)
  have data: "populate_prevout_data j p pv = do {
      pv \<leftarrow> base_populate_prevout db t fork p pv;
      pv \<leftarrow> populate_branch_prevout c b (create_branch_utxo_set c b) p pv;
      Some (if fork + 1 \<le> chain_top then populate_from_reorg_subset pool p pv else pv) }"
    using p(1) by (simp add: populate_prevout_data_def j_def cong: if_cong)
  have utxos: "length (create_branch_utxo_set c b) = branch_size b" by (simp add: create_branch_utxo_set_def branch_size_def)
  note found = displaced_utxo [OF t(1) s(2), of p]
  show ?thesis
  proof (cases "?k \<notin> ks \<and> look s Utxo ?k \<noteq> None")
    case True
    then obtain v e where v: "look s Utxo ?k = Some v" "reads v e" "utxo_entry_is_valid e" "ue_spender e = not_spent"
      using s(2) unfolding entries_up_to_def by blast
    then have "chain_get_utxo db t p fork = Some (Some e)" using found True reads_entry_of [OF v(2)] by simp
    from base_prevout(2) [OF p(3) this v(4)] obtain pv1 where pv1: "base_populate_prevout db t fork p pv = Some pv1" "prevout_is e pv1"
      by blast
    then have valid: "output_is_valid (pv_cache pv1)" using v(3) by (simp add: prevout_is_def utxo_entry_is_valid_def)
    from branch_prevout_valid [OF this, of c b "create_branch_utxo_set c b" p] obtain pv2 where
      pv2: "populate_branch_prevout c b (create_branch_utxo_set c b) p pv1 = Some pv2" "prevout_is e pv2" "pv_cache pv2 = pv_cache pv1"
      using pv1(2) by (auto simp: prevout_is_def)
    then have "populate_prevout_data j p pv = Some pv2"
      using pv1(1) valid by (simp add: data populate_from_reorg_subset_def)
    then show ?thesis using job pv2(2) v(1) reads_entry_of [OF v(2)] by auto
  next
    case False
    then have "chain_get_utxo db t p fork = Some None" using found by auto
    from base_prevout(1) [OF p(3) this] obtain pv1 where pv1: "base_populate_prevout db t fork p pv = Some pv1" "pv_cache pv1 = output_default"
      by blast
    obtain pv2 where pv2: "populate_branch_prevout c b (create_branch_utxo_set c b) p pv1 = Some pv2" "pv_cache pv2 = output_default"
      using branch_prevout_none [OF p(4) utxos p(3)] pv1(2) invalid_default by metis
    have result: "populate_prevout_data j p pv = Some (if fork + 1 \<le> chain_top then populate_from_reorg_subset pool p pv2 else pv2)"
      using pv1(1) pv2(1) by (simp add: data)
    show ?thesis
    proof (cases "?k \<in> ks")
      case True
      then have up: "fork + 1 \<le> chain_top" using range by (cases "chain_top = fork") auto
      obtain v where v: "look t Reorg_pool ?k = Some v"
        "look s Utxo ?k = Some v \<or> look s Utxo ?k = None \<and> entry_above fork v"
        using t(1) True unfolding displaced_state_def by blast
      have "populate_prevout_data j p pv = Some (populate_from_reorg_subset pool p pv2)" using result up by simp
      moreover have "prevout_is (entry_of v) (populate_from_reorg_subset pool p pv2)"
        using pool(2) True v(1) pv2(2) invalid_default by (simp add: populate_from_reorg_subset_def prevout_is_def)
      moreover have "fork < unat (ue_height (entry_of v))" if "look s Utxo ?k = None"
        using v(2) that reads_entry_of by (auto simp: entry_above_def)
      ultimately show ?thesis using job v(2) True by auto
    next
      case outside: False
      then have "look s Utxo ?k = None" using False by simp
      moreover have "pv_cache (if fork + 1 \<le> chain_top then populate_from_reorg_subset pool p pv2 else pv2) = output_default"
        using pool(2) outside pv2(2) by (simp add: populate_from_reorg_subset_def)
      ultimately show ?thesis using job result outside by auto
    qed
  qed
qed

end

section \<open>An example\<close>

definition example_job :: "memory_store populate_job" where
  "example_job = \<lparr>pj_lmdb = memory_lmdb, pj_store = empty_store, pj_crypto = tail_crypto, pj_branch = new_branch 5, pj_utxos = [],
     pj_first = 6, pj_top = 5, pj_subset = Map.empty\<rparr>"

lemma example_input_populated: "\<forall>i \<in> set (tx_inputs example_coinbase). populate_input example_job i \<noteq> None"
  by (simp add: populate_input_def populate_prevout_data_def base_populate_prevout_def populate_branch_prevout_def
      populate_prevout_utxo_def example_job_def example_coinbase_def point_is_null_def output_point_of_def point.defs make_point_def
      Let_def)

definition example_output :: tx_output where
  "example_output = hd (tx_outputs example_coinbase)"

definition example_point :: output_point where
  "example_point = output_point_of (make_point (block_tx_hash tail_crypto (new_block_tx example_coinbase)) 0)"

lemma example_utxo:
  assumes "store_block example_access example_block 5 empty_store = (rc_success, s)"
  shows "memory_look s Utxo = [point_key_data example_point \<mapsto> Data (to_data_with_fixed example_output (to_data_fixed 5 0 True))]"
proof -
  have "push_block_txn memory_lmdb tail_crypto example_block None 5 0 (\<not> is_old_block 2000 100 example_block) empty_store = (rc_success, s)"
    using memory.push_block_success assms unfolding store_block_def example_access_def by (simp add: example_block_def)
  from memory.push_ledger [OF this] obtain s2 s4 where "memory_look s2 Utxo = memory_look empty_store Utxo"
    "adds memory_look memory_dups s2 (created_pairs tail_crypto (to_data_fixed 5 0 True) [hd (blk_txs example_block)] @
      created_pairs tail_crypto (to_data_fixed 5 0 False) (tl (blk_txs example_block))) s4"
    "spends memory_look memory_dups 5 (\<not> is_old_block 2000 100 example_block) s4 (spent_keys (tl (blk_txs example_block))) s" by blast
  moreover have "memory_look empty_store Utxo = Map.empty" by (simp add: memory_look_def empty_store_def fun_eq_iff)
  moreover have "tl (blk_txs example_block) = []" "hd (blk_txs example_block) = new_block_tx example_coinbase"
    by (simp_all add: example_block_def)
  moreover have "tx_outputs (bt_tx (new_block_tx example_coinbase)) = [example_output]"
    by (simp add: new_block_tx_def example_coinbase_def example_output_def)
  moreover have "point_key_data (make_point (block_tx_hash tail_crypto (new_block_tx example_coinbase)) 0) = point_key_data example_point"
    by (simp add: example_point_def point_key_data_def point_to_data_def output_point_of_def point.defs)
  ultimately show ?thesis by (simp add: adds_def spends_def)
qed

lemma example_entry:
  "reads (Data (to_data_with_fixed example_output (to_data_fixed 5 0 True)))
     \<lparr>ue_output = example_output, ue_spender = not_spent, ue_height = 5, ue_median_time_past = 0, ue_coinbase = True\<rparr>"
  unfolding example_output_def by (rule reads_entry [OF example_output_wf example_output_fits])

lemma example_room: "roomy second_block"
proof -
  have "length (header_basis_to_data (blk_header second_block)) = 80"
    using example_second(2) by (simp add: length_header_basis header_fixed_size_def wf_block_def)
  moreover have "length (tx_to_data True (example_coinbase\<lparr>tx_locktime := 7\<rparr>)) = 151"
    using example_coinbase_size
    by (subst length_tx_to_data) (simp_all add: example_coinbase_def output_point_of_def point.defs make_point_def null_hash_def
        tx_serialized_size_def)
  ultimately show ?thesis
    by (simp add: roomy_def block_to_data_def header_to_data_def write_collection_def length_write_size variable_uint_size_def
        second_block_def new_block_tx_def)
qed

section \<open>Properties\<close>

text \<open>C10: The population of the inputs does not depend on the number of buckets, nor on the order in which they complete:
  every input of the transactions that are not the coinbase is populated once.\<close>

theorem populate_any_split:
  assumes "mset order = mset [0..<k]" "0 < k"
    and "\<forall>t \<in> set ts. \<forall>i \<in> set (tx_inputs (bt_tx t)). populate_input j i \<noteq> None"
  shows "populate_buckets j k order ts =
    Some (map (\<lambda>t. t\<lparr>bt_tx := (bt_tx t)\<lparr>tx_inputs := map (\<lambda>i. the (populate_input j i)) (tx_inputs (bt_tx t))\<rparr>\<rparr>) ts)"
proof -
  have "set order = {0..<k}" "distinct order"
    using mset_eq_setD [OF assms(1)] mset_eq_imp_distinct_iff [OF assms(1)] by simp_all
  then show ?thesis
    using populate_buckets_step [OF assms(3), of order "{}" k] assms(2) unfolding populated_none
    by (simp add: populated_def map_enumerate)
qed

theorem populate_any_split_witness:
  "populate_buckets example_job 2 [1, 0] [new_block_tx example_coinbase] =
     Some [(new_block_tx example_coinbase)\<lparr>bt_tx := example_coinbase\<lparr>tx_inputs :=
       map (\<lambda>i. the (populate_input example_job i)) (tx_inputs example_coinbase)\<rparr>\<rparr>]"
  using populate_any_split [of "[1, 0]" 2 "[new_block_tx example_coinbase]" example_job] example_input_populated
  by (simp add: new_block_tx_def upt_rec numeral_2_eq_2)



end
