(* ===== verification/Block_Organizer.thy ===== *)
theory Block_Organizer
  imports Populate_Block Populate_State Block_Pool
begin

text \<open>
  The organizer of blocks (blockchain/src/pools/block_organizer.cpp) over the store and the queries of the chain
  (blockchain/src/interface/block_chain.cpp): a block that arrives is checked, joined to its branch, accepted, connected
  and, if its branch has more work than the blocks of the chain above the fork, put in their place.
\<close>

section \<open>Queries of the chain\<close>

text \<open>The outer option is undefined behaviour of a reader, the inner one is a failed query.\<close>

definition chain_get_header :: "'s lmdb \<Rightarrow> 's \<Rightarrow> nat \<Rightarrow> validated_header option option" where
  "chain_get_header db s height = do {
     h \<leftarrow> Utxo_Database.get_header db s (of_nat height);
     Some (if header_is_valid h then Some h else None) }"

definition get_block_exists :: "'s lmdb \<Rightarrow> 's \<Rightarrow> bytes \<Rightarrow> bool option" where
  "get_block_exists db s hash = map_option (\<lambda>r. header_is_valid (fst r)) (get_header_by_hash db s hash)"

definition get_height :: "'s lmdb \<Rightarrow> 's \<Rightarrow> bytes \<Rightarrow> nat option option" where
  "get_height db s hash =
     map_option (\<lambda>r. if header_is_valid (fst r) then Some (unat (snd r)) else None) (get_header_by_hash db s hash)"

definition chain_get_bits :: "'s lmdb \<Rightarrow> 's \<Rightarrow> nat \<Rightarrow> u32 option option" where
  "chain_get_bits db s height = map_option (map_option hd_bits) (chain_get_header db s height)"

definition chain_get_timestamp :: "'s lmdb \<Rightarrow> 's \<Rightarrow> nat \<Rightarrow> u32 option option" where
  "chain_get_timestamp db s height = map_option (map_option hd_timestamp) (chain_get_header db s height)"

definition chain_get_version :: "'s lmdb \<Rightarrow> 's \<Rightarrow> nat \<Rightarrow> u32 option option" where
  "chain_get_version db s height = map_option (map_option hd_version) (chain_get_header db s height)"

definition chain_get_block_hash :: "crypto \<Rightarrow> 's lmdb \<Rightarrow> 's \<Rightarrow> nat \<Rightarrow> bytes option option" where
  "chain_get_block_hash c db s height = map_option (map_option (header_hash c)) (chain_get_header db s height)"

definition get_header_and_abla_state ::
  "'s lmdb \<Rightarrow> 's \<Rightarrow> u32 \<Rightarrow> (validated_header \<times> u64 \<times> u64 \<times> u64) option option" where
  "get_header_and_abla_state db s height = read_txn db s (Some None) (get_header_and_abla_state_txn db s height)"

text \<open>The work of the chain from a height on, up to the point where it reaches the maximum.\<close>

fun work_of_heights ::
  "(nat \<Rightarrow> validated_header option option) \<Rightarrow> u256 \<Rightarrow> nat list \<Rightarrow> u256 \<Rightarrow> u256 option option" where
  "work_of_heights get maximum [] work = Some (Some work)"
| "work_of_heights get maximum (h # hs) work =
     (if \<not> work < maximum then Some (Some work)
      else do {
        found \<leftarrow> get h;
        case found of
          None \<Rightarrow> Some None
        | Some header \<Rightarrow> work_of_heights get maximum hs (work + header_proof (hd_bits header)) })"

text \<open>The height is counted in 32 bits; the top is below the last one.\<close>

definition get_branch_work :: "'s lmdb \<Rightarrow> 's \<Rightarrow> u256 \<Rightarrow> nat \<Rightarrow> u256 option option" where
  "get_branch_work db s maximum from_height =
     (case chain_get_last_height db s of
        None \<Rightarrow> Some None
      | Some chain_top \<Rightarrow> work_of_heights (chain_get_header db s) maximum [from_height..<chain_top + 1] 0)"

text \<open>The chain as the population of the chain state sees it. A header that cannot be read counts as missing.\<close>

definition found :: "'a option option \<Rightarrow> 'a option" where
  "found r = (case r of None \<Rightarrow> None | Some x \<Rightarrow> x)"

definition fast_chain_of :: "crypto \<Rightarrow> 's lmdb \<Rightarrow> 's \<Rightarrow> fast_chain" where
  "fast_chain_of c db s =
     \<lparr>fc_last_height = chain_get_last_height db s,
      fc_header_and_abla_state = \<lambda>height. found (get_header_and_abla_state db s (of_nat height)),
      fc_bits = \<lambda>height. found (chain_get_bits db s height),
      fc_version = \<lambda>height. found (chain_get_version db s height),
      fc_timestamp = \<lambda>height. found (chain_get_timestamp db s height),
      fc_block_hash = \<lambda>height. found (chain_get_block_hash c db s height)\<rparr>"

section \<open>The organizer\<close>

text \<open>What the organizer is set up with: the settings of the chain state, the clocks, the verifier of scripts, the number of
  threads, the order in which the buckets complete, at which stages the service has stopped, which transactions are known
  to the pool, and how old the last block may be before the chain is stale.\<close>

record organizer_setup =
  ou_settings :: state_settings
  ou_now :: nat
  ou_clock :: u32
  ou_verifier :: script_verifier
  ou_threads :: nat
  ou_order :: "nat \<Rightarrow> nat list"
  ou_stopped :: "nat \<Rightarrow> bool"
  ou_current :: "block_tx \<Rightarrow> bool"
  ou_notify_limit :: nat

text \<open>Its state: the store, the pool of blocks, the chain state of the pool, the limit of the work that is kept from the
  first check, and the block that was organized last.\<close>

record 's organizer =
  og_data :: "'s data_base"
  og_store :: 's
  og_pool :: block_pool
  og_state :: chain_state
  og_limit :: "u256 option"
  og_last :: "block option"

abbreviation og_lmdb :: "'s organizer \<Rightarrow> 's lmdb" where "og_lmdb g \<equiv> dbs_lmdb (og_data g)"

abbreviation og_crypto :: "'s organizer \<Rightarrow> crypto" where "og_crypto g \<equiv> dbs_crypto (og_data g)"

abbreviation handled_block :: "block_error \<Rightarrow> store_code" where "handled_block e \<equiv> Store_code (Handled (Block_error e))"

text \<open>The branch with its height; the codes of a block that is known and of one whose parent is not.\<close>

definition branch_with_height :: "'s lmdb \<Rightarrow> 's \<Rightarrow> branch \<Rightarrow> branch option option" where
  "branch_with_height db s b =
     map_option (map_option (\<lambda>height. set_branch_height height b)) (get_height db s (branch_hash b))"

definition find_branch :: "'s organizer \<Rightarrow> block \<Rightarrow> (store_code + branch) option" where
  "find_branch g b = do {
     path \<leftarrow> get_path (og_crypto g) (bp_entries (og_pool g)) b;
     if branch_empty path then Some (Inl (handled_block err_duplicate_block))
     else do {
       known \<leftarrow> get_block_exists (og_lmdb g) (og_store g) (block_hash (og_crypto g) b);
       if known then Some (Inl (handled_block err_duplicate_block))
       else do {
         placed \<leftarrow> branch_with_height (og_lmdb g) (og_store g) path;
         Some (case placed of None \<Rightarrow> Inl (handled_block err_orphan_block) | Some path \<Rightarrow> Inr path) } } }"

text \<open>Acceptance of the top block: its chain state, its inputs and the checks. The block is returned with its inputs.\<close>

definition validator_accept ::
  "organizer_setup \<Rightarrow> 's organizer \<Rightarrow> branch \<Rightarrow> (handler_code \<times> (chain_state \<times> block) option) option" where
  "validator_accept u g branch =
     (let b = last (br_blocks branch)
      in case populate_branch (og_crypto g) (ou_settings u) (ou_clock u) (fast_chain_of (og_crypto g) (og_lmdb g) (og_store g))
             (og_state g) branch of
           Undefined \<Rightarrow> None
         | Missing \<Rightarrow> Some (Operation_failed 19, None)
         | Found s \<Rightarrow> do {
             let k = bucket_count (ou_threads u) (total_inputs b False);
             b \<leftarrow> populate_block (populate_job_of (og_lmdb g) (og_store g) (og_crypto g) branch) s k (ou_order u k) b;
             let n = bucket_count (ou_threads u) (length (blk_txs b));
             ec \<leftarrow> handle_populated (og_crypto g) s b (ou_stopped u 2) (\<lambda>_. ou_stopped u 2) n (ou_order u n);
             Some (ec, Some (s, b)) })"

definition validator_connect :: "organizer_setup \<Rightarrow> chain_state \<Rightarrow> block \<Rightarrow> handler_code option" where
  "validator_connect u s b =
     (let k = bucket_count (ou_threads u) (total_inputs b False)
      in connect_block s (ou_verifier u) (\<lambda>_. ou_stopped u 4) (ou_current u) b k (ou_order u k))"

text \<open>Two transactions of the branch that spend the same output.\<close>

definition is_branch_double_spend :: "branch \<Rightarrow> bool" where
  "is_branch_double_spend branch \<longleftrightarrow>
     (let outs = sort (concat (map (\<lambda>b. concat (map (\<lambda>t. map point_key (previous_outputs (bt_tx t))) (tl (blk_txs b))))
            (br_blocks branch)))
      in length (remdups_adj outs) \<noteq> length outs)"

text \<open>A chain is stale when its last block is old; without one in memory, the last header of the store is read.\<close>

definition is_stale :: "organizer_setup \<Rightarrow> 's organizer \<Rightarrow> bool option" where
  "is_stale u g =
     (if ou_notify_limit u = 0 then Some False
      else do {
        timestamp \<leftarrow> (case og_last g of
            Some b \<Rightarrow> Some (hd_timestamp (blk_header b))
          | None \<Rightarrow>
              (case chain_get_last_height (og_lmdb g) (og_store g) of
                 None \<Rightarrow> Some 0
               | Some height \<Rightarrow> do {
                   header \<leftarrow> Utxo_Database.get_header (og_lmdb g) (og_store g) (of_nat height);
                   Some (if header_is_valid header then hd_timestamp header else 0) }));
        Some (unat timestamp < floor_subtract (ou_now u) (ou_notify_limit u)) })"

text \<open>The chain's reorganization: the blocks taken off, and the chain state of the pool, which is a copy of that of the top
  block.\<close>

definition chain_reorganize ::
  "'s organizer \<Rightarrow> chain_state \<Rightarrow> checkpoint \<Rightarrow> block list \<Rightarrow> (store_code \<times> block list \<times> 's organizer) option" where
  "chain_reorganize g s fork incoming =
     (if incoming = [] then Some (store_failed 13, [], g)
      else do {
        (ec, outgoing, st) \<leftarrow> reorganize (og_data g) fork incoming (og_store g);
        let g = g\<lparr>og_store := st\<rparr>;
        Some (ec, outgoing, if ec \<noteq> store_success then g else g\<lparr>og_state := s, og_last := Some (last incoming)\<rparr>) })"

definition prune_reorg_async :: "organizer_setup \<Rightarrow> 's organizer \<Rightarrow> 's organizer option" where
  "prune_reorg_async u g = do {
     stale \<leftarrow> is_stale u g;
     Some (if stale then g else g\<lparr>og_store := snd (prune_reorg (og_data g) (og_store g))\<rparr>) }"

text \<open>The pool after a reorganization: the blocks of the branch leave it, the old ones are pruned and the displaced ones
  enter. Blocks that were read back from the store have no height.\<close>

definition handle_reorganized ::
  "organizer_setup \<Rightarrow> 's organizer \<Rightarrow> branch \<Rightarrow> store_code \<Rightarrow> block list \<Rightarrow> (store_code \<times> 's organizer) option" where
  "handle_reorganized u g branch ec outgoing =
     (if ec \<noteq> store_success then Some (ec, g)
      else do {
        let removed = pool_remove (map (block_hash (og_crypto g)) (br_blocks branch)) (bp_entries (og_pool g));
        pruned \<leftarrow> pool_prune (top_height branch) ((og_pool g)\<lparr>bp_entries := removed\<rparr>);
        let displaced = pool_add_all (og_crypto g) (map (\<lambda>b. \<lparr>pb_block = b, pb_height = 0\<rparr>) outgoing) (bp_entries pruned);
        g \<leftarrow> prune_reorg_async u (g\<lparr>og_pool := pruned\<lparr>bp_entries := displaced\<rparr>\<rparr>);
        Some (store_success, g) })"

text \<open>The decision: the branch has to have more work than the chain above the fork. The loop over the spent outputs starts
  behind the first transaction of each block, which has to be there.\<close>

definition handle_connect ::
  "organizer_setup \<Rightarrow> 's organizer \<Rightarrow> bool \<Rightarrow> branch \<Rightarrow> chain_state \<Rightarrow> (store_code \<times> 's organizer) option" where
  "handle_connect u g simulate branch s = do {
     threshold \<leftarrow> get_branch_work (og_lmdb g) (og_store g) (branch_work branch) (br_height branch + 1);
     case threshold of
       None \<Rightarrow> Some (store_failed 18, g)
     | Some threshold \<Rightarrow>
         if branch_work branch \<le> threshold
         then Some (handled_block err_insufficient_work,
           if simulate then g
           else g\<lparr>og_pool := (og_pool g)\<lparr>bp_entries :=
             pool_add (og_crypto g) \<lparr>pb_block = last (br_blocks branch), pb_height = top_height branch\<rparr> (bp_entries (og_pool g))\<rparr>\<rparr>)
         else if branch_size branch > 1 \<and> (\<exists>b \<in> set (br_blocks branch). blk_txs b = []) then None
         else if branch_size branch > 1 \<and> is_branch_double_spend branch
         then Some (Store_code (Handled (Tx_error err_double_spend)), g)
         else if simulate then Some (store_success, g)
         else do {
           (ec, outgoing, g) \<leftarrow> chain_reorganize g s (fork_point branch) (br_blocks branch);
           handle_reorganized u g branch ec outgoing } }"

text \<open>The top block with its inputs and its median time past, and the block size state that goes with it.\<close>

definition with_top :: "branch \<Rightarrow> block \<Rightarrow> branch" where
  "with_top branch b = branch\<lparr>br_blocks := butlast (br_blocks branch) @ [b]\<rparr>"

definition validated_top :: "chain_state \<Rightarrow> block \<Rightarrow> block" where
  "validated_top s b = b\<lparr>blk_header := (blk_header b)\<lparr>hd_median_time_past := cs_median_time_past s\<rparr>\<rparr>"

definition with_state :: "'s organizer \<Rightarrow> block \<Rightarrow> chain_state \<Rightarrow> 's organizer" where
  "with_state g b s = g\<lparr>og_data := (og_data g)\<lparr>dbs_abla := (dbs_abla (og_data g))(b := Some (cd_abla_state (cs_data s)))\<rparr>\<rparr>"

text \<open>The handlers one after the other, each of which first asks whether the service has stopped.\<close>

definition organize :: "organizer_setup \<Rightarrow> 's organizer \<Rightarrow> bool \<Rightarrow> block \<Rightarrow> (store_code \<times> 's organizer) option" where
  "organize u g simulate b =
     (if ou_stopped u 0 then Some (Store_code Service_stopped, g)
      else case validate_check (og_crypto g) (og_limit g) (ou_now u) (ou_stopped u 0) b of (ec, limit) \<Rightarrow>
        let g = g\<lparr>og_limit := limit\<rparr>
        in if ou_stopped u 1 then Some (Store_code Service_stopped, g)
           else if ec \<noteq> handled_success then Some (Store_code ec, g)
           else do {
             path \<leftarrow> find_branch g b;
             case path of
               Inl ec \<Rightarrow> Some (ec, g)
             | Inr branch \<Rightarrow> do {
                 (ec, accepted) \<leftarrow> validator_accept u g branch;
                 if ou_stopped u 3 then Some (Store_code Service_stopped, g)
                 else if ec \<noteq> handled_success then Some (Store_code ec, g)
                 else case accepted of
                     None \<Rightarrow> None
                   | Some (s, b) \<Rightarrow> do {
                       ec \<leftarrow> validator_connect u s b;
                       if ou_stopped u 5 then Some (Store_code Service_stopped, g)
                       else if ec \<noteq> handled_success then Some (Store_code ec, g)
                       else
                         let b = validated_top s b
                         in handle_connect u (with_state g b s) simulate (with_top branch b) s } } })"


section \<open>The work of the chain above the fork\<close>

text \<open>All of it, without the early stop and in unbounded numbers; a header that is missing counts nothing.\<close>

definition work_at :: "'s lmdb \<Rightarrow> 's \<Rightarrow> nat \<Rightarrow> nat" where
  "work_at db s height =
     (case found (chain_get_header db s height) of None \<Rightarrow> 0 | Some header \<Rightarrow> unat (header_proof (hd_bits header)))"

definition work_above :: "'s lmdb \<Rightarrow> 's \<Rightarrow> nat \<Rightarrow> nat" where
  "work_above db s from_height =
     (case chain_get_last_height db s of None \<Rightarrow> 0 | Some chain_top \<Rightarrow> sum_list (map (work_at db s) [from_height..<chain_top + 1]))"

lemma unat_plus_small: "unat (a :: u256) + unat b < 2 ^ 256 \<Longrightarrow> unat (a + b) = unat a + unat b"
  using unat_add_lem [of a b] by simp

lemma work_of_heights_decides:
  assumes "work_of_heights (chain_get_header db s) maximum hs work = Some (Some w)"
    and "unat work + sum_list (map (work_at db s) hs) < 2 ^ 256"
  shows "maximum \<le> w \<longleftrightarrow> unat maximum \<le> unat work + sum_list (map (work_at db s) hs)"
  using assms
proof (induction hs arbitrary: work)
  case Nil
  then show ?case by (simp add: word_le_nat_alt)
next
  case (Cons h hs)
  show ?case
  proof (cases "work < maximum")
    case False
    with Cons.prems show ?thesis by (auto simp: word_less_nat_alt word_le_nat_alt)
  next
    case True
    with Cons.prems obtain header where header: "chain_get_header db s h = Some (Some header)"
      and rest: "work_of_heights (chain_get_header db s) maximum hs (work + header_proof (hd_bits header)) = Some (Some w)"
      by (auto split: option.splits Option.bind_splits)
    have at: "work_at db s h = unat (header_proof (hd_bits header))" by (simp add: work_at_def found_def header)
    then have sum: "unat (work + header_proof (hd_bits header)) = unat work + work_at db s h"
      using Cons.prems(2) by (subst unat_plus_small) auto
    show ?thesis using Cons.IH [OF rest] Cons.prems(2) by (simp add: sum ac_simps)
  qed
qed

lemma get_branch_work_decides:
  assumes "get_branch_work db s maximum from_height = Some (Some w)" "work_above db s from_height < 2 ^ 256"
  shows "maximum \<le> w \<longleftrightarrow> unat maximum \<le> work_above db s from_height"
  using assms work_of_heights_decides [of db s maximum "[from_height..<the (chain_get_last_height db s) + 1]" 0 w]
  by (auto simp: get_branch_work_def work_above_def split: option.splits)

section \<open>What may change the store\<close>

text \<open>What a branch has to pass before it is put in place of the blocks of the chain.\<close>

definition approved :: "organizer_setup \<Rightarrow> 's organizer \<Rightarrow> block \<Rightarrow> branch \<Rightarrow> chain_state \<Rightarrow> bool" where
  "approved u g b branch s \<longleftrightarrow>
     (\<exists>limit path b'. validate_check (og_crypto g) (og_limit g) (ou_now u) (ou_stopped u 0) b = (handled_success, limit) \<and>
        find_branch (g\<lparr>og_limit := limit\<rparr>) b = Some (Inr path) \<and>
        validator_accept u (g\<lparr>og_limit := limit\<rparr>) path = Some (handled_success, Some (s, b')) \<and>
        validator_connect u s b' = Some handled_success \<and> branch = with_top path (validated_top s b'))"

definition outweighs :: "'s organizer \<Rightarrow> branch \<Rightarrow> bool" where
  "outweighs g branch \<longleftrightarrow> work_above (og_lmdb g) (og_store g) (br_height branch + 1) < unat (branch_work branch)"

lemma prune_reorg_async_state:
  "prune_reorg_async u g = Some g' \<Longrightarrow> og_state g' = og_state g"
  by (auto simp: prune_reorg_async_def split: Option.bind_splits if_splits)

lemma handle_reorganized_state:
  "handle_reorganized u g branch ec outgoing = Some (ec', g') \<Longrightarrow> og_state g' = og_state g"
  by (auto simp: handle_reorganized_def dest!: prune_reorg_async_state split: Option.bind_splits if_splits)

lemma chain_reorganize_state:
  "chain_reorganize g s fork incoming = Some (ec, outgoing, g') \<Longrightarrow> og_state g' = og_state g \<or> og_state g' = s"
  by (auto simp: chain_reorganize_def Let_def split: Option.bind_splits if_splits)

lemma handle_connect_changes:
  assumes "handle_connect u g simulate branch s = Some (ec, g')"
  obtains "og_store g' = og_store g" "og_state g' = og_state g"
  | threshold where "\<not> simulate" "\<not> (branch_size branch > 1 \<and> is_branch_double_spend branch)"
      "get_branch_work (og_lmdb g) (og_store g) (branch_work branch) (br_height branch + 1) = Some (Some threshold)"
      "threshold < branch_work branch" "og_state g' = og_state g \<or> og_state g' = s"
  using assms unfolding handle_connect_def
  by (auto dest!: handle_reorganized_state chain_reorganize_state split: Option.bind_splits option.splits if_splits prod.splits)

lemma with_state_simps [simp]:
  "og_store (with_state g b s) = og_store g" "og_state (with_state g b s) = og_state g" "og_lmdb (with_state g b s) = og_lmdb g"
  by (simp_all add: with_state_def)

lemma organize_connects:
  assumes "organize u g simulate b = Some (ec, g')"
  obtains "og_store g' = og_store g" "og_state g' = og_state g"
  | limit branch s b' where "approved u g b branch s"
      "handle_connect u (with_state (g\<lparr>og_limit := limit\<rparr>) b' s) simulate branch s = Some (ec, g')"
  using assms unfolding organize_def approved_def Let_def
  by (auto split: Option.bind_splits option.splits if_splits prod.splits sum.splits)

lemma organize_guard:
  assumes "organize u g simulate b = Some (ec, g')"
  shows "og_store g' = og_store g \<and> og_state g' = og_state g \<or>
    (\<exists>branch s. approved u g b branch s \<and> simulate = False \<and> (branch_size branch \<le> 1 \<or> is_branch_double_spend branch = False) \<and>
       (2 ^ 256 \<le> work_above (og_lmdb g) (og_store g) (br_height branch + 1) \<or> outweighs g branch) \<and>
       (og_state g' = og_state g \<or> og_state g' = s))"
  using assms
proof (rule organize_connects)
  fix limit branch s b'
  assume ok: "approved u g b branch s"
    and connect: "handle_connect u (with_state (g\<lparr>og_limit := limit\<rparr>) b' s) simulate branch s = Some (ec, g')"
  show ?thesis
    using connect
  proof (rule handle_connect_changes)
    fix threshold
    assume "\<not> simulate" "\<not> (branch_size branch > 1 \<and> is_branch_double_spend branch)"
      "get_branch_work (og_lmdb (with_state (g\<lparr>og_limit := limit\<rparr>) b' s)) (og_store (with_state (g\<lparr>og_limit := limit\<rparr>) b' s))
         (branch_work branch) (br_height branch + 1) = Some (Some threshold)"
      "threshold < branch_work branch" "og_state g' = og_state (with_state (g\<lparr>og_limit := limit\<rparr>) b' s) \<or> og_state g' = s"
    then have facts: "simulate = False" "branch_size branch \<le> 1 \<or> is_branch_double_spend branch = False"
      "get_branch_work (og_lmdb g) (og_store g) (branch_work branch) (br_height branch + 1) = Some (Some threshold)"
      "threshold < branch_work branch" "og_state g' = og_state g \<or> og_state g' = s"
      by auto
    moreover have "2 ^ 256 \<le> work_above (og_lmdb g) (og_store g) (br_height branch + 1) \<or> outweighs g branch"
      using get_branch_work_decides [OF facts(3)] facts(4) unfolding outweighs_def by (meson not_le)
    ultimately show ?thesis using ok by blast
  qed simp
qed simp

text \<open>C6: Organizing a block leaves the store and the pool's chain state as they are, unless the call is not a simulation, the
  block passed its check, its acceptance and the connection of its inputs, the branch spends no output twice, and the work of
  the branch is more than that of all blocks of the chain above the fork: the early stop of the query of the chain's work
  does not change that decision, as long as the work fits into 256 bits. The chain state becomes the one of the branch's top
  block if it changes at all.\<close>

theorem organize_requires_more_work:
  "case organize u g simulate b of
     None \<Rightarrow> True
   | Some (ec, g') \<Rightarrow> og_store g' = og_store g \<and> og_state g' = og_state g \<or>
       (\<exists>branch s. approved u g b branch s \<and> simulate = False \<and>
          (branch_size branch \<le> 1 \<or> is_branch_double_spend branch = False) \<and>
          (2 ^ 256 \<le> work_above (og_lmdb g) (og_store g) (br_height branch + 1) \<or> outweighs g branch) \<and>
          (og_state g' = og_state g \<or> og_state g' = s))"
proof (cases "organize u g simulate b")
  case (Some r)
  obtain ec g' where "r = (ec, g')" by (cases r)
  with Some show ?thesis using organize_guard [of u g simulate b ec g'] by simp
qed simp

end
