(* ===== verification/Block_Sync.thy ===== *)
theory Block_Sync
  imports Header Checkpoint "HOL-Library.Multiset"
begin

text \<open>
  The download of blocks by hash (node/src/utility: check_list.cpp, reservation.cpp, reservations.cpp, header_list.cpp): the
  headers between two checkpoints, the list of the blocks to get, and the table of the reservations, one for each channel,
  that the blocks are divided over and that take blocks from each other. A method under a mutex is one step.
\<close>

section \<open>Hashes by height\<close>

text \<open>A bidirectional map of hashes and heights, in the order of the heights. An entry whose hash or height is in the map
  already is not inserted.\<close>

type_synonym hash_heights = "(nat \<times> bytes) list"

definition bimap_insert :: "bytes \<Rightarrow> nat \<Rightarrow> hash_heights \<Rightarrow> hash_heights" where
  "bimap_insert hash height m =
     (if height \<in> fst ` set m \<or> hash \<in> snd ` set m then m else insort_key fst (height, hash) m)"

fun height_of :: "bytes \<Rightarrow> hash_heights \<Rightarrow> nat option" where
  "height_of hash [] = None"
| "height_of hash ((height, h) # m) = (if h = hash then Some height else height_of hash m)"

definition bimap_erase :: "bytes \<Rightarrow> hash_heights \<Rightarrow> hash_heights" where
  "bimap_erase hash m = filter (\<lambda>e. snd e \<noteq> hash) m"

section \<open>The check list\<close>

definition check_reserve :: "nat list \<Rightarrow> hash_heights" where
  "check_reserve heights = fold (bimap_insert null_hash) heights []"

text \<open>\<open>None\<close> where the hash is in the list at another height: what becomes of the entry is up to the library.\<close>

definition check_enqueue :: "bytes \<Rightarrow> nat \<Rightarrow> hash_heights \<Rightarrow> hash_heights option" where
  "check_enqueue hash height m =
     (if height \<notin> fst ` set m then Some m
      else if hash \<in> snd ` {e \<in> set m. fst e \<noteq> height} then None
      else Some (map (\<lambda>e. if fst e = height then (height, hash) else e) m))"

fun check_dequeue :: "hash_heights \<Rightarrow> ((bytes \<times> nat) \<times> hash_heights) option" where
  "check_dequeue [] = None"
| "check_dequeue ((height, hash) # m) = Some ((hash, height), m)"

section \<open>A reservation\<close>

text \<open>The rate of a channel; the times are in microseconds.\<close>

record performance =
  pf_idle :: bool
  pf_events :: nat
  pf_database :: nat
  pf_window :: nat

record import_record =
  ir_events :: nat
  ir_database :: nat
  ir_time :: int

record reservation =
  rs_rate :: performance
  rs_history :: "import_record list"
  rs_stopped :: bool
  rs_pending :: bool
  rs_partitioned :: bool
  rs_heights :: hash_heights
  rs_window :: nat

definition minimum_history :: nat where "minimum_history = 3"

definition micro_per_second :: nat where "micro_per_second = 1000 * 1000"

definition idle_rate :: performance where
  "idle_rate = \<lparr>pf_idle = True, pf_events = 0, pf_database = 0, pf_window = 0\<rparr>"

definition new_reservation :: "nat \<Rightarrow> reservation" where
  "new_reservation sync_timeout_seconds =
     \<lparr>rs_rate = idle_rate, rs_history = [], rs_stopped = False, rs_pending = True, rs_partitioned = False, rs_heights = [],
      rs_window = minimum_history * sync_timeout_seconds * micro_per_second\<rparr>"

definition row_reset :: "reservation \<Rightarrow> reservation" where
  "row_reset r = r\<lparr>rs_rate := idle_rate, rs_history := []\<rparr>"

text \<open>The records before the window are dropped from the front; the rate is that of the window if any were.\<close>

definition update_rate :: "nat \<Rightarrow> nat \<Rightarrow> int \<Rightarrow> reservation \<Rightarrow> reservation" where
  "update_rate events database now r =
     (let start = now - int (rs_window r);
          kept = dropWhile (\<lambda>record. ir_time record < start) (rs_history r);
          window_full = length kept < length (rs_history r);
          history = kept @ [\<lparr>ir_events = events, ir_database = database, ir_time = now - int database\<rparr>];
          r = r\<lparr>rs_history := history\<rparr>
      in if length history < minimum_history then r
         else r\<lparr>rs_rate :=
           \<lparr>pf_idle = False, pf_events = sum_list (map ir_events history), pf_database = sum_list (map ir_database history),
            pf_window = nat ((if window_full then int (rs_window r) else now - ir_time (hd history)) mod 2 ^ 64)\<rparr>\<rparr>)"

text \<open>The request and the row; it is empty if the row has already been asked for.\<close>

definition row_request :: "bool \<Rightarrow> reservation \<Rightarrow> bytes list \<times> reservation" where
  "row_request new_channel r =
     (let r = (if new_channel then row_reset r else r)
      in if \<not> new_channel \<and> \<not> rs_pending r then ([], r) else (map snd (rs_heights r), r\<lparr>rs_pending := False\<rparr>))"

definition row_insert :: "bytes \<Rightarrow> nat \<Rightarrow> reservation \<Rightarrow> reservation" where
  "row_insert hash height r = r\<lparr>rs_pending := True, rs_heights := bimap_insert hash height (rs_heights r)\<rparr>"

definition toggle_partitioned :: "reservation \<Rightarrow> bool \<times> reservation" where
  "toggle_partitioned r =
     (if rs_partitioned r then (True, r\<lparr>rs_partitioned := False, rs_pending := True\<rparr>) else (False, r))"

definition find_height_and_erase :: "bytes \<Rightarrow> reservation \<Rightarrow> (nat \<times> reservation) option" where
  "find_height_and_erase hash r =
     map_option (\<lambda>height. (height, r\<lparr>rs_heights := bimap_erase hash (rs_heights r)\<rparr>)) (height_of hash (rs_heights r))"

text \<open>The lower half of the row goes to an empty one; whether that has blocks now, the row and the other one.\<close>

definition row_partition :: "reservation \<Rightarrow> reservation \<Rightarrow> bool \<times> reservation \<times> reservation" where
  "row_partition maximal minimal =
     (if rs_heights minimal \<noteq> [] then (True, maximal, minimal)
      else
        let offset = (length (rs_heights maximal) + 1) div 2;
            given = take offset (rs_heights maximal);
            left = drop offset (rs_heights maximal);
            minimal = minimal\<lparr>rs_heights := fold (\<lambda>e. bimap_insert (snd e) (fst e)) given (rs_heights minimal)\<rparr>;
            populated = rs_heights minimal \<noteq> [];
            maximal = maximal\<lparr>rs_heights := left, rs_partitioned := left \<noteq> [], rs_stopped := rs_stopped maximal \<or> left = []\<rparr>
        in (populated, maximal, minimal\<lparr>rs_pending := populated\<rparr>))"

section \<open>The table of reservations\<close>

text \<open>The rows by their slot, the slots in the table, what is left to be given out, and the size of a request.\<close>

record sync =
  sy_rows :: "reservation list"
  sy_table :: "nat list"
  sy_checks :: hash_heights
  sy_max_request :: nat

definition set_row :: "nat \<Rightarrow> reservation \<Rightarrow> sync \<Rightarrow> sync" where
  "set_row slot r s = s\<lparr>sy_rows := (sy_rows s)[slot := r]\<rparr>"

text \<open>The next blocks of the check list to a row.\<close>

fun dequeue_to :: "nat \<Rightarrow> nat \<Rightarrow> sync \<Rightarrow> sync" where
  "dequeue_to slot 0 s = s"
| "dequeue_to slot (Suc n) s =
     (case check_dequeue (sy_checks s) of
        None \<Rightarrow> s
      | Some ((hash, height), checks) \<Rightarrow>
          dequeue_to slot n (set_row slot (row_insert hash height (sy_rows s ! slot)) (s\<lparr>sy_checks := checks\<rparr>)))"

text \<open>The rounds of the initial allocation: in each, one block for every row.\<close>

fun allocate :: "nat \<Rightarrow> nat \<Rightarrow> sync \<Rightarrow> sync" where
  "allocate rows 0 s = s"
| "allocate rows (Suc n) s = allocate rows n (fold (\<lambda>slot. dequeue_to slot 1) [0..<rows] s)"

definition initialize :: "nat \<Rightarrow> nat \<Rightarrow> nat \<Rightarrow> hash_heights \<Rightarrow> sync" where
  "initialize connections max_request timeout hashes =
     (let rows = min (min ((size_t_range - 1) div max_request) connections) (length hashes);
          s = \<lparr>sy_rows = replicate rows (new_reservation timeout), sy_table = [0..<rows], sy_checks = hashes,
            sy_max_request = max_request\<rparr>
      in if rows = 0 then s
         else allocate rows (min (length hashes) (rows * max_request) div rows) s)"

definition sync_reserve :: "nat \<Rightarrow> sync \<Rightarrow> bool \<times> sync" where
  "sync_reserve slot s =
     (if rs_heights (sy_rows s ! slot) \<noteq> [] then (True, s)
      else let s = dequeue_to slot (min (length (sy_checks s)) (sy_max_request s)) s
        in (rs_heights (sy_rows s ! slot) \<noteq> [], s))"

text \<open>The first row of the table with the most blocks.\<close>

fun max_element :: "('a \<Rightarrow> nat) \<Rightarrow> 'a \<Rightarrow> 'a list \<Rightarrow> 'a" where
  "max_element f largest [] = largest"
| "max_element f largest (x # xs) = max_element f (if f largest < f x then x else largest) xs"

definition find_maximal :: "sync \<Rightarrow> nat option" where
  "find_maximal s =
     (case sy_table s of
        [] \<Rightarrow> None
      | slot # slots \<Rightarrow> Some (max_element (\<lambda>slot. length (rs_heights (sy_rows s ! slot))) slot slots))"

definition sync_partition :: "nat \<Rightarrow> sync \<Rightarrow> bool \<times> sync" where
  "sync_partition minimal s =
     (case find_maximal s of
        None \<Rightarrow> (False, s)
      | Some maximal \<Rightarrow>
          if maximal = minimal then (False, s)
          else case row_partition (sy_rows s ! maximal) (sy_rows s ! minimal) of
            (populated, r, r') \<Rightarrow> (populated, set_row minimal r' (set_row maximal r s)))"

definition sync_populate :: "nat \<Rightarrow> sync \<Rightarrow> bool \<times> sync" where
  "sync_populate minimal s =
     (case sync_reserve minimal s of (reserved, s) \<Rightarrow> if reserved then (True, s) else sync_partition minimal s)"

text \<open>\<open>reservation::populate\<close>: a row that is empty takes blocks from the check list or from another row, or stops.\<close>

definition row_populate :: "nat \<Rightarrow> sync \<Rightarrow> sync" where
  "row_populate slot s =
     (if \<not> rs_stopped (sy_rows s ! slot) \<and> rs_heights (sy_rows s ! slot) = []
      then case sync_populate slot s of (populated, s) \<Rightarrow> set_row slot ((sy_rows s ! slot)\<lparr>rs_stopped := \<not> populated\<rparr>) s
      else s)"

definition sync_remove :: "nat \<Rightarrow> sync \<Rightarrow> sync" where
  "sync_remove slot s = s\<lparr>sy_table := remove1 slot (sy_table s)\<rparr>"

text \<open>\<open>reservation::import\<close> with the answer of the chain, the cost of the import and the time: the height of the block, if
  it was one of the row's.\<close>

definition row_import :: "nat \<Rightarrow> bytes \<Rightarrow> (nat \<Rightarrow> bool) \<Rightarrow> nat \<Rightarrow> int \<Rightarrow> sync \<Rightarrow> nat option \<times> sync" where
  "row_import slot hash answer cost now s =
     (case find_height_and_erase hash (sy_rows s ! slot) of
        None \<Rightarrow> (None, s)
      | Some (height, r) \<Rightarrow>
          (Some height, row_populate slot (set_row slot (if answer height then update_rate 1 cost now r else r) s)))"

section \<open>Lemmas on the map\<close>

definition bimap_ok :: "hash_heights \<Rightarrow> bool" where
  "bimap_ok m \<longleftrightarrow> distinct (map fst m) \<and> distinct (map snd m)"

lemma bimap_ok_append:
  "bimap_ok (xs @ ys) \<longleftrightarrow> bimap_ok xs \<and> bimap_ok ys \<and> fst ` set xs \<inter> fst ` set ys = {} \<and> snd ` set xs \<inter> snd ` set ys = {}"
  by (auto simp: bimap_ok_def)

lemma bimap_ok_mset: "mset xs = mset ys \<Longrightarrow> bimap_ok xs \<longleftrightarrow> bimap_ok ys"
  unfolding bimap_ok_def by (metis mset_map mset_eq_imp_distinct_iff)

lemma bimap_insert_mset:
  "height \<notin> fst ` set m \<Longrightarrow> hash \<notin> snd ` set m \<Longrightarrow> mset (bimap_insert hash height m) = add_mset (height, hash) (mset m)"
  by (simp add: bimap_insert_def)

lemma bimap_insert_ok: "bimap_ok m \<Longrightarrow> bimap_ok (bimap_insert hash height m)"
proof (cases "height \<in> fst ` set m \<or> hash \<in> snd ` set m")
  case False
  assume "bimap_ok m"
  with False have "bimap_ok ((height, hash) # m)" by (simp add: bimap_ok_def image_iff)
  then show ?thesis using bimap_ok_mset [of "(height, hash) # m" "bimap_insert hash height m"] False
    by (simp add: bimap_insert_mset)
qed (simp add: bimap_insert_def)

lemma bimap_inserts_mset:
  "bimap_ok (m @ es) \<Longrightarrow> mset (fold (\<lambda>e. bimap_insert (snd e) (fst e)) es m) = mset m + mset es"
proof (induction es arbitrary: m)
  case (Cons e es)
  have fresh: "fst e \<notin> fst ` set m" "snd e \<notin> snd ` set m" using Cons.prems by (auto simp: bimap_ok_def)
  then have eq: "mset (bimap_insert (snd e) (fst e) m) = add_mset e (mset m)" by (simp add: bimap_insert_mset)
  then have "mset (bimap_insert (snd e) (fst e) m @ es) = mset (m @ e # es)" by simp
  with Cons.prems have "bimap_ok (bimap_insert (snd e) (fst e) m @ es)" using bimap_ok_mset by blast
  from Cons.IH [OF this] show ?case by (simp add: eq)
qed simp

lemma height_of_Some: "height_of hash m = Some height \<Longrightarrow> (height, hash) \<in> set m"
  by (induction hash m rule: height_of.induct) (auto split: if_splits)

lemma bimap_erase_mset:
  "height_of hash m = Some height \<Longrightarrow> bimap_ok m \<Longrightarrow> mset m = add_mset (height, hash) (mset (bimap_erase hash m))"
proof (induction hash m rule: height_of.induct)
  case (2 hash height' h m)
  show ?case
  proof (cases "h = hash")
    case True
    then have "\<forall>e \<in> set m. snd e \<noteq> hash" using 2(3) by (auto simp: bimap_ok_def)
    then have "bimap_erase hash m = m" by (simp add: bimap_erase_def)
    with True 2(2) show ?thesis by (simp add: bimap_erase_def)
  next
    case False
    with 2 show ?thesis by (simp add: bimap_erase_def bimap_ok_def)
  qed
qed simp

text \<open>A list of gaps is reserved with one and the same hash, so only the first of them is.\<close>

lemma bimap_insert_twice: "fold (bimap_insert hash) heights [(height, hash)] = [(height, hash)]"
  by (induction heights) (simp_all add: bimap_insert_def)

lemma check_reserve_first: "check_reserve heights = (case heights of [] \<Rightarrow> [] | height # _ \<Rightarrow> [(height, null_hash)])"
proof (cases heights)
  case (Cons height rest)
  have "bimap_insert null_hash height [] = [(height, null_hash)]" by (simp add: bimap_insert_def)
  with Cons bimap_insert_twice show ?thesis by (simp add: check_reserve_def)
qed (simp add: check_reserve_def)

section \<open>Where the blocks are\<close>

definition all_pairs :: "sync \<Rightarrow> hash_heights" where
  "all_pairs s = sy_checks s @ concat (map rs_heights (sy_rows s))"

lemma mset_concat_update:
  "i < length xs \<Longrightarrow> mset (concat (map f (xs[i := y]))) + mset (f (xs ! i)) = mset (concat (map f xs)) + mset (f y)"
  by (induction xs arbitrary: i) (auto simp: ac_simps less_Suc_eq_0_disj)

lemma set_row_simps [simp]:
  "sy_checks (set_row slot r s) = sy_checks s" "sy_table (set_row slot r s) = sy_table s"
  "sy_max_request (set_row slot r s) = sy_max_request s" "length (sy_rows (set_row slot r s)) = length (sy_rows s)"
  "sy_rows (set_row slot r s) = (sy_rows s)[slot := r]"
  by (simp_all add: set_row_def)

lemma set_row_pairs:
  "slot < length (sy_rows s) \<Longrightarrow>
   mset (all_pairs (set_row slot r s)) + mset (rs_heights (sy_rows s ! slot)) = mset (all_pairs s) + mset (rs_heights r)"
  using mset_concat_update [of slot "sy_rows s" rs_heights r] by (simp add: all_pairs_def)

lemma set_row_same:
  "slot < length (sy_rows s) \<Longrightarrow> rs_heights r = rs_heights (sy_rows s ! slot) \<Longrightarrow>
   mset (all_pairs (set_row slot r s)) = mset (all_pairs s)"
  using set_row_pairs [of slot s r] by simp

lemma row_pairs_subset: "slot < length (sy_rows s) \<Longrightarrow> set (rs_heights (sy_rows s ! slot)) \<subseteq> set (all_pairs s)"
  by (auto simp: all_pairs_def)

lemma row_bimap_ok:
  assumes "bimap_ok (all_pairs s)" "slot < length (sy_rows s)"
  shows "bimap_ok (rs_heights (sy_rows s ! slot))"
proof -
  have "mset (all_pairs (set_row slot ((sy_rows s ! slot)\<lparr>rs_heights := []\<rparr>) s) @ rs_heights (sy_rows s ! slot)) = mset (all_pairs s)"
    using set_row_pairs [OF assms(2), of "(sy_rows s ! slot)\<lparr>rs_heights := []\<rparr>"] by simp
  with assms(1) show ?thesis using bimap_ok_mset bimap_ok_append by blast
qed

text \<open>What an operation that moves blocks to a row leaves as it is.\<close>

definition gives :: "nat \<Rightarrow> sync \<Rightarrow> sync \<Rightarrow> bool" where
  "gives slot s s' \<longleftrightarrow> mset (all_pairs s') = mset (all_pairs s) \<and> length (sy_rows s') = length (sy_rows s) \<and>
     sy_table s' = sy_table s \<and> sy_max_request s' = sy_max_request s \<and>
     rs_stopped (sy_rows s' ! slot) = rs_stopped (sy_rows s ! slot) \<and> (\<forall>i. i \<noteq> slot \<longrightarrow> sy_rows s' ! i = sy_rows s ! i)"

lemma gives_refl [simp]: "gives slot s s"
  by (simp add: gives_def)

lemma gives_trans: "gives slot s t \<Longrightarrow> gives slot t u \<Longrightarrow> gives slot s u"
  by (simp add: gives_def)

lemma dequeue_step:
  assumes "slot < length (sy_rows s)" "bimap_ok (all_pairs s)" "sy_checks s = (height, hash) # rest"
  shows "gives slot s (set_row slot (row_insert hash height (sy_rows s ! slot)) (s\<lparr>sy_checks := rest\<rparr>))"
    "height \<notin> fst ` set (rs_heights (sy_rows s ! slot))" "hash \<notin> snd ` set (rs_heights (sy_rows s ! slot))"
proof -
  have ok: "bimap_ok ((height, hash) # (rest @ concat (map rs_heights (sy_rows s))))"
    using assms(2,3) by (simp add: all_pairs_def)
  have "set (rs_heights (sy_rows s ! slot)) \<subseteq> set (rest @ concat (map rs_heights (sy_rows s)))" using assms(1) by auto
  moreover have "height \<notin> fst ` set (rest @ concat (map rs_heights (sy_rows s)))"
    "hash \<notin> snd ` set (rest @ concat (map rs_heights (sy_rows s)))"
    using ok unfolding bimap_ok_def by (metis distinct.simps(2) list.simps(9) fst_conv snd_conv set_map)+
  ultimately show fresh: "height \<notin> fst ` set (rs_heights (sy_rows s ! slot))" "hash \<notin> snd ` set (rs_heights (sy_rows s ! slot))"
    by blast+
  have "mset (all_pairs (set_row slot (row_insert hash height (sy_rows s ! slot)) (s\<lparr>sy_checks := rest\<rparr>))) = mset (all_pairs s)"
    using set_row_pairs [of slot "s\<lparr>sy_checks := rest\<rparr>" "row_insert hash height (sy_rows s ! slot)"] assms(1,3) fresh
    by (simp add: row_insert_def bimap_insert_mset all_pairs_def)
  with assms(1) show "gives slot s (set_row slot (row_insert hash height (sy_rows s ! slot)) (s\<lparr>sy_checks := rest\<rparr>))"
    by (simp add: gives_def row_insert_def)
qed

lemma dequeue_to_gives:
  assumes "slot < length (sy_rows s)" "bimap_ok (all_pairs s)"
  shows "gives slot s (dequeue_to slot n s) \<and> sy_checks (dequeue_to slot n s) = drop n (sy_checks s) \<and>
    (rs_heights (sy_rows s ! slot) \<noteq> [] \<or> 0 < n \<and> sy_checks s \<noteq> [] \<longrightarrow> rs_heights (sy_rows (dequeue_to slot n s) ! slot) \<noteq> [])"
  using assms
proof (induction n arbitrary: s)
  case (Suc n)
  show ?case
  proof (cases "sy_checks s")
    case (Cons e rest)
    obtain height hash where e: "e = (height, hash)" by (cases e)
    let ?s = "set_row slot (row_insert hash height (sy_rows s ! slot)) (s\<lparr>sy_checks := rest\<rparr>)"
    note step = dequeue_step [OF Suc.prems Cons [unfolded e]]
    have "slot < length (sy_rows ?s)" "bimap_ok (all_pairs ?s)"
      using Suc.prems bimap_ok_mset [of "all_pairs ?s" "all_pairs s"] step(1) by (simp_all add: gives_def)
    note rest = Suc.IH [OF this]
    have "rs_heights (sy_rows ?s ! slot) \<noteq> []"
      using Suc.prems(1) step(2,3) by (simp add: row_insert_def bimap_insert_def insort_not_Nil)
    with rest have u: "gives slot ?s (dequeue_to slot n ?s)" "sy_checks (dequeue_to slot n ?s) = drop n (sy_checks ?s)"
      "rs_heights (sy_rows (dequeue_to slot n ?s) ! slot) \<noteq> []" by blast+
    have eq: "dequeue_to slot (Suc n) s = dequeue_to slot n ?s" "drop n (sy_checks ?s) = drop (Suc n) (sy_checks s)"
      by (simp_all add: Cons e)
    show ?thesis unfolding eq(1) using gives_trans [OF step(1) u(1)] u(2,3) eq(2) by metis
  qed simp
qed simp

section \<open>The steps\<close>

text \<open>No block is in two places, a row that has stopped has no block and there is none left to be given out then, and the
  rows that have left the table have stopped.\<close>

definition sync_ok :: "sync \<Rightarrow> bool" where
  "sync_ok s \<longleftrightarrow> bimap_ok (all_pairs s) \<and> 0 < sy_max_request s \<and> distinct (sy_table s) \<and>
     set (sy_table s) \<subseteq> {..<length (sy_rows s)} \<and>
     (\<forall>i < length (sy_rows s). rs_stopped (sy_rows s ! i) \<longrightarrow> rs_heights (sy_rows s ! i) = [] \<and> sy_checks s = []) \<and>
     (\<forall>i < length (sy_rows s). i \<notin> set (sy_table s) \<longrightarrow> rs_stopped (sy_rows s ! i))"

lemma sync_ok_intro:
  assumes "sync_ok s" "mset (all_pairs s') = mset (all_pairs s)" "length (sy_rows s') = length (sy_rows s)"
    and "sy_table s' = sy_table s" "sy_max_request s' = sy_max_request s"
    and "\<And>i. i < length (sy_rows s) \<Longrightarrow> rs_stopped (sy_rows s ! i) \<Longrightarrow> rs_stopped (sy_rows s' ! i)"
    and "\<And>i. i < length (sy_rows s) \<Longrightarrow> rs_stopped (sy_rows s' ! i) \<Longrightarrow> rs_heights (sy_rows s' ! i) = [] \<and> sy_checks s' = []"
  shows "sync_ok s'"
  using assms bimap_ok_mset [OF assms(2)] by (simp add: sync_ok_def)

text \<open>Changes of a row that keep its blocks and whether it has stopped.\<close>

lemma set_row_ok:
  assumes "sync_ok s" "slot < length (sy_rows s)" "rs_heights r = rs_heights (sy_rows s ! slot)"
    and "rs_stopped r = rs_stopped (sy_rows s ! slot)"
  shows "sync_ok (set_row slot r s)" "mset (all_pairs (set_row slot r s)) = mset (all_pairs s)"
proof -
  show same: "mset (all_pairs (set_row slot r s)) = mset (all_pairs s)" using assms(2,3) by (rule set_row_same)
  show "sync_ok (set_row slot r s)"
    using assms by (intro sync_ok_intro [OF assms(1) same]) (auto simp: nth_list_update sync_ok_def split: if_splits)
qed

lemma find_and_erase_ok:
  assumes "sync_ok s" "slot < length (sy_rows s)" "find_height_and_erase hash (sy_rows s ! slot) = Some (height, r)"
  shows "sync_ok (set_row slot r s)" "mset (all_pairs s) = add_mset (height, hash) (mset (all_pairs (set_row slot r s)))"
proof -
  have found: "height_of hash (rs_heights (sy_rows s ! slot)) = Some height"
    and r: "r = (sy_rows s ! slot)\<lparr>rs_heights := bimap_erase hash (rs_heights (sy_rows s ! slot))\<rparr>"
    using assms(3) by (auto simp: find_height_and_erase_def)
  have ok: "bimap_ok (all_pairs s)" using assms(1) by (simp add: sync_ok_def)
  show pairs: "mset (all_pairs s) = add_mset (height, hash) (mset (all_pairs (set_row slot r s)))"
    using set_row_pairs [OF assms(2), of r] bimap_erase_mset [OF found row_bimap_ok [OF ok assms(2)]] by (simp add: r)
  then have "bimap_ok (all_pairs (set_row slot r s))"
    using ok bimap_ok_mset [of "all_pairs s" "(height, hash) # all_pairs (set_row slot r s)"] by (simp add: bimap_ok_def)
  then show "sync_ok (set_row slot r s)"
    using assms(1,2) found by (auto simp: sync_ok_def nth_list_update r)
qed

lemma max_element_mem: "max_element f x xs \<in> set (x # xs)"
  by (induction f x xs rule: max_element.induct) (auto split: if_splits)

lemma find_maximal_in: "find_maximal s = Some m \<Longrightarrow> m \<in> set (sy_table s)"
  using max_element_mem [of "\<lambda>slot. length (rs_heights (sy_rows s ! slot))"]
  by (auto simp: find_maximal_def split: list.splits)

lemma row_partition_moves:
  assumes "row_partition maximal minimal = (populated, r, r')" "rs_heights minimal = []" "bimap_ok (rs_heights maximal)"
  shows "mset (rs_heights r) + mset (rs_heights r') = mset (rs_heights maximal)"
    "populated \<longleftrightarrow> rs_heights r' \<noteq> []" "rs_stopped r' = rs_stopped minimal"
    "rs_stopped r \<longleftrightarrow> rs_stopped maximal \<or> rs_heights r = []" "rs_heights maximal = [] \<Longrightarrow> rs_heights r = [] \<and> rs_heights r' = []"
proof -
  let ?n = "(length (rs_heights maximal) + 1) div 2"
  have "bimap_ok ([] @ take ?n (rs_heights maximal))"
    using assms(3) bimap_ok_append [of "take ?n (rs_heights maximal)" "drop ?n (rs_heights maximal)"] by simp
  from bimap_inserts_mset [OF this]
  have given: "mset (fold (\<lambda>e. bimap_insert (snd e) (fst e)) (take ?n (rs_heights maximal)) []) = mset (take ?n (rs_heights maximal))"
    by simp
  have r: "rs_heights r = drop ?n (rs_heights maximal)"
    and r': "rs_heights r' = fold (\<lambda>e. bimap_insert (snd e) (fst e)) (take ?n (rs_heights maximal)) []"
    and rest: "populated \<longleftrightarrow> rs_heights r' \<noteq> []" "rs_stopped r' = rs_stopped minimal"
      "rs_stopped r \<longleftrightarrow> rs_stopped maximal \<or> rs_heights r = []"
    using assms(1,2) by (auto simp: row_partition_def Let_def)
  show "mset (rs_heights r) + mset (rs_heights r') = mset (rs_heights maximal)"
    unfolding r r' given by (subst add.commute) (simp flip: mset_append)
  show "rs_heights maximal = [] \<Longrightarrow> rs_heights r = [] \<and> rs_heights r' = []" by (simp add: r r')
  show "populated \<longleftrightarrow> rs_heights r' \<noteq> []" "rs_stopped r' = rs_stopped minimal"
    "rs_stopped r \<longleftrightarrow> rs_stopped maximal \<or> rs_heights r = []" by (fact rest)+
qed

lemma sync_partition_ok:
  assumes "sync_ok s" "slot < length (sy_rows s)" "rs_heights (sy_rows s ! slot) = []" "sy_checks s = []"
    and not_stopped: "\<not> rs_stopped (sy_rows s ! slot)" and "sync_partition slot s = (populated, s')"
  shows "sync_ok (set_row slot ((sy_rows s' ! slot)\<lparr>rs_stopped := \<not> populated\<rparr>) s')"
    "mset (all_pairs (set_row slot ((sy_rows s' ! slot)\<lparr>rs_stopped := \<not> populated\<rparr>) s')) = mset (all_pairs s)"
    "length (sy_rows s') = length (sy_rows s)"
proof -
  let ?stop = "\<lambda>s'. set_row slot ((sy_rows s' ! slot)\<lparr>rs_stopped := \<not> populated\<rparr>) s'"
  have "sync_ok (?stop s') \<and> mset (all_pairs (?stop s')) = mset (all_pairs s) \<and> length (sy_rows s') = length (sy_rows s)"
  proof (cases "populated = False \<and> s' = s")
    case True
    have "mset (all_pairs (?stop s)) = mset (all_pairs s)" using assms(2) by (intro set_row_same) auto
    moreover have "sync_ok (?stop s)"
      using assms(1-4) True calculation
      by (intro sync_ok_intro [OF assms(1)]) (auto simp: nth_list_update sync_ok_def split: if_splits)
    ultimately show ?thesis using True by simp
  next
    case False
    then obtain m r r' where m: "find_maximal s = Some m" "m \<noteq> slot"
      and part: "row_partition (sy_rows s ! m) (sy_rows s ! slot) = (populated, r, r')" and s': "s' = set_row slot r' (set_row m r s)"
      using assms(6) by (auto simp: sync_partition_def split: option.splits if_splits prod.splits)
    have size: "m < length (sy_rows s)" using find_maximal_in [OF m(1)] assms(1) by (auto simp: sync_ok_def)
    then have "bimap_ok (rs_heights (sy_rows s ! m))" using assms(1) row_bimap_ok by (auto simp: sync_ok_def)
    note moved = row_partition_moves [OF part assms(3) this]
    have "mset (all_pairs s') + mset (rs_heights (sy_rows s ! slot)) = mset (all_pairs (set_row m r s)) + mset (rs_heights r')"
      using set_row_pairs [of slot "set_row m r s" r'] assms(2) m(2) by (simp add: s')
    then have given: "mset (all_pairs s') = mset (all_pairs (set_row m r s)) + mset (rs_heights r')" using assms(3) by simp
    have "mset (all_pairs s) + mset (rs_heights r) = mset (all_pairs (set_row m r s)) + (mset (rs_heights r) + mset (rs_heights r'))"
      using set_row_pairs [OF size, of r] unfolding moved(1) by simp
    also have "\<dots> = mset (all_pairs s') + mset (rs_heights r)" unfolding given by (simp only: ac_simps)
    finally have pairs: "mset (all_pairs s') = mset (all_pairs s)" by simp
    have stop: "mset (all_pairs (?stop s')) = mset (all_pairs s)"
      using assms(2) by (subst set_row_same) (simp_all add: s' pairs [unfolded s'])
    have "sync_ok (?stop s')"
    proof (rule sync_ok_intro [OF assms(1) stop])
      fix i
      assume i: "i < length (sy_rows s)"
      have row: "sy_rows (?stop s') ! i =
          (if i = slot then r'\<lparr>rs_stopped := \<not> populated\<rparr> else if i = m then r else sy_rows s ! i)"
        using i assms(2) size m(2) by (simp add: s' nth_list_update)
      have stopped: "rs_stopped (sy_rows s ! i) \<Longrightarrow> rs_heights (sy_rows s ! i) = []"
        using i assms(1) by (simp add: sync_ok_def)
      show "rs_stopped (sy_rows s ! i) \<Longrightarrow> rs_stopped (sy_rows (?stop s') ! i)"
        unfolding row using not_stopped moved(4) by auto
      show "rs_stopped (sy_rows (?stop s') ! i) \<Longrightarrow> rs_heights (sy_rows (?stop s') ! i) = [] \<and> sy_checks (?stop s') = []"
        unfolding row using stopped moved(2,4,5) assms(4) by (auto simp: s' split: if_splits)
    qed (simp_all add: s')
    with stop show ?thesis by (simp add: s')
  qed
  then show "sync_ok (?stop s')" "mset (all_pairs (?stop s')) = mset (all_pairs s)" "length (sy_rows s') = length (sy_rows s)"
    by simp_all
qed

lemma reserve_ok:
  assumes "sync_ok s" "slot < length (sy_rows s)" "sync_reserve slot s = (reserved, s')" "rs_heights (sy_rows s ! slot) = []"
  shows "gives slot s s'" "reserved \<longleftrightarrow> rs_heights (sy_rows s' ! slot) \<noteq> []" "sy_checks s = [] \<Longrightarrow> s' = s"
    "\<not> reserved \<Longrightarrow> sy_checks s = []"
proof -
  let ?n = "min (length (sy_checks s)) (sy_max_request s)"
  have ok: "bimap_ok (all_pairs s)" "0 < sy_max_request s" using assms(1) by (simp_all add: sync_ok_def)
  have s': "s' = dequeue_to slot ?n s" and reserved: "reserved \<longleftrightarrow> rs_heights (sy_rows s' ! slot) \<noteq> []"
    using assms(3,4) by (auto simp: sync_reserve_def Let_def)
  note gives = dequeue_to_gives [OF assms(2) ok(1), of ?n]
  show "gives slot s s'" using gives s' by blast
  show "reserved \<longleftrightarrow> rs_heights (sy_rows s' ! slot) \<noteq> []" by (fact reserved)
  show "sy_checks s = [] \<Longrightarrow> s' = s" by (simp add: s')
  show "\<not> reserved \<Longrightarrow> sy_checks s = []" using gives reserved ok(2) s' by auto
qed

lemma row_populate_ok:
  assumes "sync_ok s" "slot < length (sy_rows s)"
  shows "sync_ok (row_populate slot s) \<and> mset (all_pairs (row_populate slot s)) = mset (all_pairs s) \<and>
    length (sy_rows (row_populate slot s)) = length (sy_rows s)"
proof (cases "\<not> rs_stopped (sy_rows s ! slot) \<and> rs_heights (sy_rows s ! slot) = []")
  case True
  obtain reserved t where t: "sync_reserve slot s = (reserved, t)" by (cases "sync_reserve slot s")
  note reserve = reserve_ok [OF assms t] and empty = conjunct2 [OF True] and running = conjunct1 [OF True]
  show ?thesis
  proof (cases reserved)
    case reserved: True
    have eq: "row_populate slot s = set_row slot ((sy_rows t ! slot)\<lparr>rs_stopped := False\<rparr>) t"
      using True t reserved by (simp add: row_populate_def sync_populate_def)
    note gives = reserve(1) [OF empty, unfolded gives_def]
    have pairs: "mset (all_pairs (row_populate slot s)) = mset (all_pairs s)"
      unfolding eq using gives assms(2) by (subst set_row_same) auto
    have "sync_ok (row_populate slot s)"
    proof (rule sync_ok_intro [OF assms(1) pairs])
      fix i
      assume i: "i < length (sy_rows s)"
      have row: "sy_rows (row_populate slot s) ! i = (if i = slot then (sy_rows t ! slot)\<lparr>rs_stopped := False\<rparr> else sy_rows s ! i)"
        using i gives by (auto simp: eq nth_list_update)
      show "rs_stopped (sy_rows s ! i) \<Longrightarrow> rs_stopped (sy_rows (row_populate slot s) ! i)" unfolding row using running by auto
      show "rs_stopped (sy_rows (row_populate slot s) ! i) \<Longrightarrow>
          rs_heights (sy_rows (row_populate slot s) ! i) = [] \<and> sy_checks (row_populate slot s) = []"
        unfolding row using i assms(1) reserve(2,3) [OF empty] reserved empty by (auto simp: sync_ok_def eq split: if_splits)
    qed (use gives in \<open>simp_all add: eq\<close>)
    with pairs gives show ?thesis by (simp add: eq)
  next
    case False
    then have none: "sy_checks s = []" "t = s" using reserve(3,4) [OF empty] by auto
    obtain populated s' where s': "sync_partition slot s = (populated, s')" by (cases "sync_partition slot s")
    have "row_populate slot s = set_row slot ((sy_rows s' ! slot)\<lparr>rs_stopped := \<not> populated\<rparr>) s'"
      using True t False none s' by (simp add: row_populate_def sync_populate_def)
    then show ?thesis using sync_partition_ok [OF assms empty none(1) running s'] by simp
  qed
qed (use assms in \<open>auto simp: row_populate_def\<close>)

text \<open>The initial allocation.\<close>

definition spreads :: "sync \<Rightarrow> sync \<Rightarrow> bool" where
  "spreads s s' \<longleftrightarrow> mset (all_pairs s') = mset (all_pairs s) \<and> length (sy_rows s') = length (sy_rows s) \<and>
     sy_table s' = sy_table s \<and> sy_max_request s' = sy_max_request s \<and>
     (\<forall>i < length (sy_rows s). rs_stopped (sy_rows s' ! i) = rs_stopped (sy_rows s ! i))"

lemma gives_spreads: "gives slot s s' \<Longrightarrow> spreads s s'"
  unfolding gives_def spreads_def by metis

lemma fold_dequeue:
  "\<forall>slot \<in> set slots. slot < length (sy_rows s) \<Longrightarrow> bimap_ok (all_pairs s) \<Longrightarrow>
   spreads s (fold (\<lambda>slot. dequeue_to slot n) slots s)"
proof (induction slots arbitrary: s)
  case Nil
  then show ?case by (simp add: spreads_def)
next
  case (Cons slot slots)
  have step: "spreads s (dequeue_to slot n s)"
    using dequeue_to_gives [of slot s n] Cons.prems gives_spreads by auto
  moreover have "bimap_ok (all_pairs (dequeue_to slot n s))"
    using step Cons.prems(2) bimap_ok_mset [of "all_pairs (dequeue_to slot n s)" "all_pairs s"] by (simp add: spreads_def)
  ultimately have "spreads (dequeue_to slot n s) (fold (\<lambda>slot. dequeue_to slot n) slots (dequeue_to slot n s))"
    using Cons by (simp add: spreads_def)
  with step show ?case by (simp add: spreads_def)
qed

lemma allocate_spreads: "rows \<le> length (sy_rows s) \<Longrightarrow> bimap_ok (all_pairs s) \<Longrightarrow> spreads s (allocate rows n s)"
proof (induction n arbitrary: s)
  case (Suc n)
  have step: "spreads s (fold (\<lambda>slot. dequeue_to slot 1) [0..<rows] s)" using Suc.prems by (intro fold_dequeue) auto
  moreover have "bimap_ok (all_pairs (fold (\<lambda>slot. dequeue_to slot 1) [0..<rows] s))"
    using step Suc.prems(2) bimap_ok_mset [of "all_pairs (fold (\<lambda>slot. dequeue_to slot 1) [0..<rows] s)" "all_pairs s"]
    by (simp add: spreads_def)
  ultimately have "spreads (fold (\<lambda>slot. dequeue_to slot 1) [0..<rows] s) (allocate rows n (fold (\<lambda>slot. dequeue_to slot 1) [0..<rows] s))"
    using Suc by (simp add: spreads_def)
  with step show ?case by (simp add: spreads_def)
qed (simp add: spreads_def)

lemma initialize_ok:
  assumes "bimap_ok hashes" "0 < max_request"
  shows "sync_ok (initialize connections max_request timeout hashes) \<and>
    mset (all_pairs (initialize connections max_request timeout hashes)) = mset hashes"
proof -
  let ?rows = "min (min ((size_t_range - 1) div max_request) connections) (length hashes)"
  let ?s = "\<lparr>sy_rows = replicate ?rows (new_reservation timeout), sy_table = [0..<?rows], sy_checks = hashes,
    sy_max_request = max_request\<rparr>"
  have pairs: "all_pairs ?s = hashes" by (simp add: all_pairs_def new_reservation_def)
  have "spreads ?s (initialize connections max_request timeout hashes)"
    unfolding initialize_def Let_def using assms(1) allocate_spreads [of ?rows ?s] pairs by (auto simp: spreads_def)
  then show ?thesis
    using assms pairs bimap_ok_mset [of "all_pairs (initialize connections max_request timeout hashes)" hashes]
    by (auto simp: spreads_def sync_ok_def new_reservation_def)
qed

text \<open>The runs: each step is one method under the mutex of the row or of the table; a row leaves the table when its channel has
  found it stopped. The blocks found so far are collected.\<close>

inductive synced :: "hash_heights \<Rightarrow> sync \<Rightarrow> hash_heights \<Rightarrow> bool" for hashes where
  start: "bimap_ok hashes \<Longrightarrow> 0 < max_request \<Longrightarrow> synced hashes (initialize connections max_request timeout hashes) []"
| requested: "synced hashes s blocks \<Longrightarrow> slot < length (sy_rows s) \<Longrightarrow>
    synced hashes (set_row slot (snd (row_request new_channel (sy_rows s ! slot))) s) blocks"
| reset: "synced hashes s blocks \<Longrightarrow> slot < length (sy_rows s) \<Longrightarrow>
    synced hashes (set_row slot (row_reset (sy_rows s ! slot)) s) blocks"
| toggled: "synced hashes s blocks \<Longrightarrow> slot < length (sy_rows s) \<Longrightarrow>
    synced hashes (set_row slot (snd (toggle_partitioned (sy_rows s ! slot))) s) blocks"
| block_found: "synced hashes s blocks \<Longrightarrow> slot < length (sy_rows s) \<Longrightarrow>
    find_height_and_erase hash (sy_rows s ! slot) = Some (height, r) \<Longrightarrow> synced hashes (set_row slot r s) ((height, hash) # blocks)"
| rated: "synced hashes s blocks \<Longrightarrow> slot < length (sy_rows s) \<Longrightarrow>
    synced hashes (set_row slot (update_rate events database now (sy_rows s ! slot)) s) blocks"
| populated: "synced hashes s blocks \<Longrightarrow> slot < length (sy_rows s) \<Longrightarrow> synced hashes (row_populate slot s) blocks"
| removed: "synced hashes s blocks \<Longrightarrow> slot < length (sy_rows s) \<Longrightarrow> rs_stopped (sy_rows s ! slot) \<Longrightarrow>
    synced hashes (sync_remove slot s) blocks"

lemma row_kept [simp]:
  "rs_heights (snd (row_request new_channel r)) = rs_heights r" "rs_stopped (snd (row_request new_channel r)) = rs_stopped r"
  "rs_heights (row_reset r) = rs_heights r" "rs_stopped (row_reset r) = rs_stopped r"
  "rs_heights (snd (toggle_partitioned r)) = rs_heights r" "rs_stopped (snd (toggle_partitioned r)) = rs_stopped r"
  "rs_heights (update_rate events database now r) = rs_heights r" "rs_stopped (update_rate events database now r) = rs_stopped r"
  by (simp_all add: row_request_def row_reset_def toggle_partitioned_def update_rate_def Let_def)

lemma synced_invariant:
  "synced hashes s blocks \<Longrightarrow> sync_ok s \<and> mset hashes = mset blocks + mset (all_pairs s) \<and> bimap_ok hashes"
proof (induction rule: synced.induct)
  case (start max_request connections timeout)
  then show ?case using initialize_ok [of hashes max_request connections timeout] by simp
next
  case (block_found s blocks slot hash height r)
  then show ?case using find_and_erase_ok [of s slot hash height r] by simp
next
  case (populated s blocks slot)
  then show ?case using row_populate_ok [of s slot] by simp
next
  case (removed s blocks slot)
  then have "all_pairs (sync_remove slot s) = all_pairs s" by (simp add: all_pairs_def sync_remove_def)
  then show ?case using removed set_remove1_subset [of slot "sy_table s"] by (auto simp: sync_ok_def sync_remove_def)
qed (simp_all add: set_row_ok)

text \<open>An import is the steps of a block that is found, whatever the chain answers: a block whose import failed is not asked
  for again.\<close>

lemma row_import_steps:
  assumes "synced hashes s blocks" "slot < length (sy_rows s)" "row_import slot hash answer cost now s = (Some height, s')"
  shows "synced hashes s' ((height, hash) # blocks)"
proof -
  obtain r where found: "find_height_and_erase hash (sy_rows s ! slot) = Some (height, r)"
    and s': "s' = row_populate slot (set_row slot (if answer height then update_rate 1 cost now r else r) s)"
    using assms(3) by (auto simp: row_import_def split: option.splits)
  note step = synced.block_found [OF assms(1,2) found]
  have "synced hashes (set_row slot (if answer height then update_rate 1 cost now r else r) s) ((height, hash) # blocks)"
  proof (cases "answer height")
    case True
    have "set_row slot x (set_row slot r s) = set_row slot x s" "sy_rows (set_row slot r s) ! slot = r" for x
      using assms(2) by (simp_all add: set_row_def)
    with True synced.rated [OF step, of slot 1 cost now] assms(2) show ?thesis by simp
  next
    case False
    with step show ?thesis by simp
  qed
  then show ?thesis unfolding s' using synced.populated assms(2) by simp
qed

section \<open>Properties of the download\<close>

text \<open>Blocks are neither lost nor duplicated while channels request, receive, take from each other and stop: in every run,
  each block of the check list has been found by a channel, waits in the check list or belongs to exactly one row, at its
  height; a row that has stopped has none, and rows stop only when the check list is empty.\<close>

theorem download_conserves_blocks:
  assumes "synced hashes s blocks"
  shows "mset (blocks @ all_pairs s) = mset hashes \<and> distinct (map fst (blocks @ all_pairs s)) \<and>
    distinct (map snd (blocks @ all_pairs s)) \<and>
    list_all (\<lambda>r. rs_stopped r \<longrightarrow> rs_heights r = [] \<and> sy_checks s = []) (sy_rows s)"
proof -
  have inv: "sync_ok s" "mset hashes = mset (blocks @ all_pairs s)" "bimap_ok hashes" using synced_invariant [OF assms] by simp_all
  from inv(2,3) have "bimap_ok (blocks @ all_pairs s)" using bimap_ok_mset by blast
  with inv(1,2) show ?thesis by (auto simp: bimap_ok_def sync_ok_def list_all_length)
qed

text \<open>The download does not get stuck: as long as a block has not been found there is a row in the table that has not
  stopped and that has a block to request once it has asked for more.\<close>

theorem download_goes_on:
  assumes "synced hashes s blocks" "sy_rows s \<noteq> []" "mset blocks \<noteq> mset hashes"
  shows "\<exists>slot \<in> set (sy_table s). slot < length (sy_rows s) \<and> rs_stopped (sy_rows s ! slot) = False \<and>
    fst (row_request True (sy_rows (row_populate slot s) ! slot)) \<noteq> []"
proof -
  have inv: "sync_ok s" "mset hashes = mset blocks + mset (all_pairs s)" using synced_invariant [OF assms(1)] by simp_all
  have request: "fst (row_request True r) \<noteq> []" if "rs_heights r \<noteq> []" for r
    using that by (simp add: row_request_def row_reset_def Let_def)
  obtain slot where slot: "slot < length (sy_rows s)" "\<not> rs_stopped (sy_rows s ! slot)"
    "sy_checks s \<noteq> [] \<or> rs_heights (sy_rows s ! slot) \<noteq> []"
  proof (cases "sy_checks s = []")
    case True
    with inv(2) assms(3) obtain r where "r \<in> set (sy_rows s)" "rs_heights r \<noteq> []" by (auto simp: all_pairs_def)
    with inv(1) that show ?thesis by (auto simp: sync_ok_def in_set_conv_nth)
  next
    case False
    with inv(1) assms(2) that [of 0] show ?thesis by (auto simp: sync_ok_def)
  qed
  have "rs_heights (sy_rows (row_populate slot s) ! slot) \<noteq> []"
  proof (cases "rs_heights (sy_rows s ! slot) = []")
    case True
    obtain reserved t where t: "sync_reserve slot s = (reserved, t)" by (cases "sync_reserve slot s")
    note reserve = reserve_ok [OF inv(1) slot(1) t True]
    from slot(3) True reserve(4) have reserved by blast
    moreover have "slot < length (sy_rows t)" using reserve(1) slot(1) by (simp add: gives_def)
    ultimately show ?thesis using t True slot(2) reserve(2) by (simp add: row_populate_def sync_populate_def)
  qed (simp add: row_populate_def)
  with slot inv(1) request show ?thesis by (auto simp: sync_ok_def)
qed

section \<open>An example\<close>

definition example_hashes :: hash_heights where
  "example_hashes = [(1, [11]), (2, [12]), (3, [13])]"

definition example_sync :: sync where
  "example_sync = \<lparr>sy_rows = [new_reservation 5, (new_reservation 5)\<lparr>rs_heights := [(2, [12])]\<rparr>], sy_table = [0, 1],
     sy_checks = [(3, [13])], sy_max_request = 1\<rparr>"

lemma example_start:
  "initialize 2 1 5 example_hashes = example_sync\<lparr>sy_rows := (sy_rows example_sync)
     [0 := (new_reservation 5)\<lparr>rs_heights := [(1, [11])]\<rparr>]\<rparr>"
  by (simp add: initialize_def example_hashes_def example_sync_def numeral_2_eq_2 upt_rec row_insert_def bimap_insert_def
      set_row_def new_reservation_def)

lemma example_synced: "synced example_hashes example_sync [(1, [11])]"
proof -
  have "synced example_hashes (initialize 2 1 5 example_hashes) []"
    by (rule synced.start) (simp_all add: example_hashes_def bimap_ok_def)
  from synced.block_found [OF this [unfolded example_start], of 0 "[11]" 1 "new_reservation 5"] show ?thesis
    by (simp add: example_sync_def set_row_def find_height_and_erase_def bimap_erase_def new_reservation_def)
qed

theorem download_conserves_blocks_witness:
  "mset ([(1, [11])] @ all_pairs example_sync) = mset example_hashes"
  using download_conserves_blocks [OF example_synced] by blast

theorem download_goes_on_witness:
  "\<exists>slot. fst (row_request True (sy_rows (row_populate slot example_sync) ! slot)) \<noteq> []"
proof -
  have "sy_rows example_sync \<noteq> []" "mset [(1, [11])] \<noteq> mset example_hashes" by (simp_all add: example_sync_def example_hashes_def)
  then show ?thesis using download_goes_on [OF example_synced] by blast
qed

end
