(* ===== verification/Header_List.thy ===== *)
theory Header_List
  imports Block_Sync Chain_State
begin

text \<open>
  The download of the headers between two checkpoints (node/src/utility/header_list.cpp,
  node/src/sessions/session_header_sync.cpp): the list that messages of headers are merged into, and the session that
  enters its hashes into the check list.
\<close>

section \<open>The list\<close>

text \<open>The room of the list is what the constructor reserves; the height is that of its first header.\<close>

record header_list =
  hl_list :: "validated_header list"
  hl_capacity :: nat
  hl_height :: nat
  hl_start :: checkpoint
  hl_stop :: checkpoint

text \<open>\<open>None\<close> where the sum or the difference has no value.\<close>

definition header_list_of :: "checkpoint \<Rightarrow> checkpoint \<Rightarrow> header_list option" where
  "header_list_of start stop =
     (if size_t_range \<le> cp_height start + 1 \<or> cp_height stop < cp_height start then None
      else Some \<lparr>hl_list = [], hl_capacity = cp_height stop - cp_height start, hl_height = cp_height start + 1,
        hl_start = start, hl_stop = stop\<rparr>)"

definition hl_remaining :: "header_list \<Rightarrow> nat" where
  "hl_remaining l = hl_capacity l - length (hl_list l)"

definition hl_complete :: "header_list \<Rightarrow> bool" where
  "hl_complete l \<longleftrightarrow> hl_remaining l = 0"

definition hl_previous_hash :: "crypto \<Rightarrow> header_list \<Rightarrow> bytes" where
  "hl_previous_hash c l = (if hl_list l = [] then cp_hash (hl_start l) else header_hash c (last (hl_list l)))"

definition hl_previous_height :: "header_list \<Rightarrow> nat" where
  "hl_previous_height l = cp_height (hl_start l) + length (hl_list l)"

definition hl_link :: "crypto \<Rightarrow> header_list \<Rightarrow> validated_header \<Rightarrow> bool" where
  "hl_link c l h \<longleftrightarrow>
     (if hl_list l = [] then previous_block_hash h = cp_hash (hl_start l)
      else previous_block_hash h = header_hash c (last (hl_list l)))"

definition hl_accept :: "crypto \<Rightarrow> header_list \<Rightarrow> validated_header \<Rightarrow> bool" where
  "hl_accept c l h \<longleftrightarrow> hl_remaining l > 1 \<or> header_hash c h = cp_hash (hl_stop l)"

text \<open>The loop over the headers of a message; the limit of the work is kept from the first check. A header that does not fit
  clears the list.\<close>

fun hl_merge_loop ::
  "crypto \<Rightarrow> nat \<Rightarrow> validated_header list \<Rightarrow> u256 option \<Rightarrow> header_list \<Rightarrow> bool \<times> u256 option \<times> header_list" where
  "hl_merge_loop c now [] limit l = (True, limit, l)"
| "hl_merge_loop c now (h # hs) limit l =
     (if \<not> hl_link c l h then (False, limit, l\<lparr>hl_list := []\<rparr>)
      else case header_check limit now h (header_hash c h) True of (ec, limit) \<Rightarrow>
        if ec \<noteq> success \<or> \<not> hl_accept c l h then (False, limit, l\<lparr>hl_list := []\<rparr>)
        else hl_merge_loop c now hs limit (l\<lparr>hl_list := hl_list l @ [h]\<rparr>))"

definition hl_merge ::
  "crypto \<Rightarrow> nat \<Rightarrow> validated_header list \<Rightarrow> u256 option \<Rightarrow> header_list \<Rightarrow> bool \<times> u256 option \<times> header_list" where
  "hl_merge c now headers limit l = hl_merge_loop c now (take (min (hl_remaining l) (length headers)) headers) limit l"

section \<open>The session\<close>

text \<open>The checkpoints are sorted by the constructor. The outer \<open>None\<close> is the failure of the session, the inner one that there
  is no checkpoint or that the list cannot be built.\<close>

definition header_sync_initialize :: "hash_heights \<Rightarrow> checkpoint list \<Rightarrow> header_list option option" where
  "header_sync_initialize hashes checkpoints =
     (if hashes \<noteq> [] then None
      else let checkpoints = checkpoint_sort checkpoints
        in Some (if checkpoints = [] then None else header_list_of (hd checkpoints) (last checkpoints)))"

fun enqueue_all :: "bytes list \<Rightarrow> nat \<Rightarrow> hash_heights \<Rightarrow> hash_heights option" where
  "enqueue_all [] height hashes = Some hashes"
| "enqueue_all (hash # rest) height hashes = do {
     hashes \<leftarrow> check_enqueue hash height hashes;
     enqueue_all rest (height + 1) hashes }"

definition header_sync_complete :: "crypto \<Rightarrow> header_list \<Rightarrow> hash_heights \<Rightarrow> hash_heights option" where
  "header_sync_complete c l hashes = enqueue_all (map (header_hash c) (hl_list l)) (hl_height l) hashes"

text \<open>The session starts with an empty check list, and a height that is not in the list is ignored, so it ends with one.\<close>

lemma enqueue_nothing: "enqueue_all hs height [] = Some []"
  by (induction hs arbitrary: height) (simp_all add: check_enqueue_def)

lemma header_sync_queues_nothing:
  "header_sync_initialize hashes checkpoints = Some start \<Longrightarrow> header_sync_complete c l hashes = Some []"
  by (auto simp: header_sync_initialize_def header_sync_complete_def enqueue_nothing split: if_splits)

section \<open>What a list of headers is\<close>

text \<open>Each header names the one before it, the first one names the start.\<close>

fun linked_from :: "crypto \<Rightarrow> bytes \<Rightarrow> validated_header list \<Rightarrow> bool" where
  "linked_from c hash [] \<longleftrightarrow> True"
| "linked_from c hash (h # hs) \<longleftrightarrow> previous_block_hash h = hash \<and> linked_from c (header_hash c h) hs"

definition header_checked :: "crypto \<Rightarrow> validated_header \<Rightarrow> bool" where
  "header_checked c h \<longleftrightarrow> (\<exists>limit now. fst (header_check limit now h (header_hash c h) True) = success)"

definition hl_ok :: "crypto \<Rightarrow> header_list \<Rightarrow> bool" where
  "hl_ok c l \<longleftrightarrow> linked_from c (cp_hash (hl_start l)) (hl_list l) \<and> length (hl_list l) \<le> hl_capacity l \<and>
     list_all (header_checked c) (hl_list l) \<and>
     (hl_list l \<noteq> [] \<longrightarrow> length (hl_list l) = hl_capacity l \<longrightarrow> header_hash c (last (hl_list l)) = cp_hash (hl_stop l))"

lemma linked_from_snoc:
  "linked_from c hash (hs @ [h]) \<longleftrightarrow>
   linked_from c hash hs \<and> previous_block_hash h = (if hs = [] then hash else header_hash c (last hs))"
  by (induction hs arbitrary: hash) auto

lemma hl_push_ok:
  assumes "hl_ok c l" "hl_link c l h" "header_checked c h" "hl_accept c l h" "0 < hl_remaining l"
  shows "hl_ok c (l\<lparr>hl_list := hl_list l @ [h]\<rparr>)"
  using assms by (auto simp: hl_ok_def linked_from_snoc hl_link_def hl_accept_def hl_remaining_def)

lemma hl_merge_loop_ok:
  assumes "hl_ok c l" "length hs \<le> hl_remaining l" "hl_merge_loop c now hs limit l = (merged, limit', l')"
  shows "hl_ok c l' \<and> hl_start l' = hl_start l \<and> hl_stop l' = hl_stop l \<and> hl_capacity l' = hl_capacity l \<and>
    hl_height l' = hl_height l \<and> hl_list l' = (if merged then hl_list l @ hs else [])"
  using assms
proof (induction c now hs limit l rule: hl_merge_loop.induct)
  case (2 c now h hs limit l)
  obtain ec limit2 where check: "header_check limit now h (header_hash c h) True = (ec, limit2)"
    by (cases "header_check limit now h (header_hash c h) True")
  have cleared: "hl_ok c (l\<lparr>hl_list := []\<rparr>)" by (simp add: hl_ok_def)
  show ?case
  proof (cases "hl_link c l h \<and> ec = success \<and> hl_accept c l h")
    case True
    then have "header_checked c h" unfolding header_checked_def using check by (metis fst_conv)
    with True 2(2,3) have "hl_ok c (l\<lparr>hl_list := hl_list l @ [h]\<rparr>)" by (intro hl_push_ok) auto
    moreover have "length hs \<le> hl_remaining (l\<lparr>hl_list := hl_list l @ [h]\<rparr>)" using 2(3) by (simp add: hl_remaining_def)
    moreover have "hl_merge_loop c now hs limit2 (l\<lparr>hl_list := hl_list l @ [h]\<rparr>) = (merged, limit', l')"
      using 2(4) True check by simp
    ultimately have "hl_ok c l' \<and> hl_start l' = hl_start l \<and> hl_stop l' = hl_stop l \<and> hl_capacity l' = hl_capacity l \<and>
        hl_height l' = hl_height l \<and> hl_list l' = (if merged then (hl_list l @ [h]) @ hs else [])"
      using 2(1) [OF _ check [symmetric]] True by simp
    then show ?thesis by simp
  next
    case False
    with 2(4) check have "merged = False" "l' = l\<lparr>hl_list := []\<rparr>" by (auto split: if_splits)
    with cleared show ?thesis by simp
  qed
qed simp

lemmas hl_merge_ok = hl_merge_loop_ok [of c l "take (min (hl_remaining l) (length headers)) headers" for c l headers, folded hl_merge_def]

text \<open>The lists that a sequence of messages leads to.\<close>

inductive merged_list :: "crypto \<Rightarrow> checkpoint \<Rightarrow> checkpoint \<Rightarrow> header_list \<Rightarrow> bool" for c start stop where
  new: "header_list_of start stop = Some l \<Longrightarrow> merged_list c start stop l"
| merge: "merged_list c start stop l \<Longrightarrow> hl_merge c now headers limit l = (ok', limit', l') \<Longrightarrow> merged_list c start stop l'"

lemma merged_list_ok:
  "merged_list c start stop l \<Longrightarrow> hl_ok c l \<and> hl_start l = start \<and> hl_stop l = stop \<and>
     hl_capacity l = cp_height stop - cp_height start \<and> cp_height start \<le> cp_height stop \<and> hl_height l = cp_height start + 1"
proof (induction rule: merged_list.induct)
  case (new l)
  then show ?case by (auto simp: header_list_of_def hl_ok_def split: if_splits)
next
  case (merge l now headers limit ok' limit' l')
  then show ?case using hl_merge_ok [OF _ _ merge.hyps(2)] by simp
qed

text \<open>However headers arrive, the list between two checkpoints is a chain of checked headers from the first checkpoint,
  never longer than the distance of the checkpoints; if it is complete, its last header has the hash and the height of the
  second one. A message that does not fit empties it.\<close>

theorem header_list_is_chain:
  assumes "merged_list c start stop l"
  shows "linked_from c (cp_hash start) (hl_list l) \<and> list_all (header_checked c) (hl_list l) \<and>
    hl_previous_height l \<le> cp_height stop \<and>
    (hl_complete l \<longleftrightarrow> hl_previous_height l = cp_height stop) \<and>
    (hl_complete l \<and> hl_list l \<noteq> [] \<longrightarrow> hl_previous_hash c l = cp_hash stop) \<and>
    (\<forall>now headers limit. fst (hl_merge c now headers limit l) = False \<longrightarrow>
       hl_list (snd (snd (hl_merge c now headers limit l))) = [])"
proof -
  note inv = merged_list_ok [OF assms]
  have "hl_list (snd (snd (hl_merge c now headers limit l))) = []" if failed: "fst (hl_merge c now headers limit l) = False"
    for now headers limit
  proof -
    obtain limit' l' where "hl_merge c now headers limit l = (False, limit', l')"
      using failed by (cases "hl_merge c now headers limit l") auto
    with hl_merge_ok [OF _ _ this] inv show ?thesis by simp
  qed
  with inv show ?thesis
    by (auto simp: hl_ok_def hl_complete_def hl_remaining_def hl_previous_height_def hl_previous_hash_def)
qed

text \<open>A list for one header, after a message with it.\<close>

definition example_list :: "validated_header list \<Rightarrow> header_list" where
  "example_list hs = \<lparr>hl_list = hs, hl_capacity = 1, hl_height = 6, hl_start = \<lparr>cp_hash = null_hash, cp_height = 5\<rparr>,
     hl_stop = \<lparr>cp_hash = replicate 32 0, cp_height = 6\<rparr>\<rparr>"

lemma example_header_hash: "header_hash constant_crypto genesis_like = replicate 32 0"
  by (simp add: header_hash_def bitcoin_hash_def constant_crypto_def)

lemma example_header_check: "header_check None 0 genesis_like (replicate 32 0) True = (success, Some (big (compact_of_bits 0x1d00ffff)))"
proof -
  have "to_uint256 (replicate 32 0) = 0"
    by (simp add: unat_eq_zero [symmetric] unat_to_uint256 numeral_eq_Suc)
  then show ?thesis
    by (simp add: header_check_def is_valid_proof_of_work_def is_valid_timestamp_def genesis_like_def header_default_def header.defs
        compact_of_bits_def work_limit_def from_compact_def is_negated_def sign_bit_def mantissa_max_def exp_byte_def
        mantissa_bits_def compact_overflow_def log_256_def shift_high_def Let_def)
qed

lemma example_merged:
  "merged_list constant_crypto (hl_start (example_list [])) (hl_stop (example_list [])) (example_list [genesis_like])"
proof (rule merged_list.merge)
  show "merged_list constant_crypto (hl_start (example_list [])) (hl_stop (example_list [])) (example_list [])"
    by (rule merged_list.new) (simp add: header_list_of_def example_list_def)
  have "previous_block_hash genesis_like = null_hash" by (simp add: genesis_like_def header_default_def header.defs)
  then show "hl_merge constant_crypto 0 [genesis_like] None (example_list []) =
      (True, Some (big (compact_of_bits 0x1d00ffff)), example_list [genesis_like])"
    by (simp add: example_list_def hl_merge_def hl_link_def hl_accept_def hl_remaining_def example_header_hash example_header_check)
qed

theorem header_list_is_chain_witness:
  "header_checked constant_crypto genesis_like \<and>
   hl_previous_hash constant_crypto (example_list [genesis_like]) = cp_hash (hl_stop (example_list []))"
  using header_list_is_chain [OF example_merged] by (simp add: example_list_def hl_complete_def hl_remaining_def)

end
